(* ===== verification/Prelude.thy ===== *)
theory Prelude
  imports Main "HOL-Library.Product_Lexorder" "HOL-Library.List_Lexorder" "HOL-Library.Char_ord"
    "HOL-Library.Code_Target_Nat"
begin

text \<open>
  Shared vocabulary of the development.
  \<^item> Results of a handler that may raise: \<open>'e + 'a\<close>, \<open>Inl\<close> for the exception. A handler that
    opens a database session and raises before \<open>commit\<close> rolls the session back, so its \<open>Inl\<close>
    carries no new state.
  \<^item> Database tables: a list of rows in insertion order with a key function, read with
    \<open>tbl_get\<close> (SQLAlchemy's \<open>session.get\<close>), written with \<open>tbl_put\<close>, \<open>tbl_upd\<close>, \<open>tbl_del\<close>.
    The locale \<open>keyed_table\<close> is the interface the components use.
  \<^item> Machines: a handler run over a list of calls (\<open>run\<close>), and the locale \<open>step_invariant\<close>,
    which lifts an invariant of one call to every run.
  \<^item> The part of Python's \<open>str\<close> and \<open>int\<close> the components use: \<open>split\<close>, \<open>join\<close>, \<open>strip\<close>,
    decimal and hexadecimal conversion. A string is a list of code points below 256.
\<close>

named_theorems table_simps \<open>laws of the table operations\<close>
named_theorems handler_defs \<open>definitions of the handlers of a component\<close>

type_synonym time = int

section \<open>Tables\<close>

definition tbl_get :: "('r \<Rightarrow> 'k) \<Rightarrow> 'k \<Rightarrow> 'r list \<Rightarrow> 'r option" where
  "tbl_get key k rows = List.find (\<lambda>r. key r = k) rows"

fun tbl_put :: "('r \<Rightarrow> 'k) \<Rightarrow> 'r \<Rightarrow> 'r list \<Rightarrow> 'r list" where
  "tbl_put key r [] = [r]"
| "tbl_put key r (x # xs) = (if key x = key r then r # xs else x # tbl_put key r xs)"

definition tbl_del :: "('r \<Rightarrow> 'k) \<Rightarrow> 'k \<Rightarrow> 'r list \<Rightarrow> 'r list" where
  "tbl_del key k rows = filter (\<lambda>r. key r \<noteq> k) rows"

definition tbl_upd :: "('r \<Rightarrow> bool) \<Rightarrow> ('r \<Rightarrow> 'r) \<Rightarrow> 'r list \<Rightarrow> 'r list" where
  "tbl_upd p f rows = map (\<lambda>r. if p r then f r else r) rows"

definition tbl_keyed :: "('r \<Rightarrow> 'k) \<Rightarrow> 'r list \<Rightarrow> bool" where
  "tbl_keyed key rows = distinct (map key rows)"

lemma tbl_get_Nil [simp]: "tbl_get key k [] = None"
  by (simp add: tbl_get_def)

lemma tbl_get_Cons: "tbl_get key k (x # xs) = (if key x = k then Some x else tbl_get key k xs)"
  by (simp add: tbl_get_def)

lemma tbl_get_SomeD: "tbl_get key k rows = Some r \<Longrightarrow> r \<in> set rows \<and> key r = k"
  by (auto simp: tbl_get_def find_Some_iff)

lemma tbl_get_None: "tbl_get key k rows = None \<longleftrightarrow> k \<notin> key ` set rows"
  by (auto simp: tbl_get_def find_None_iff)

lemma tbl_get_put [table_simps]:
  "tbl_get key k (tbl_put key r rows) = (if key r = k then Some r else tbl_get key k rows)"
  by (induction rows) (auto simp: tbl_get_Cons)

lemma tbl_get_del [table_simps]:
  "tbl_get key k (tbl_del key j rows) = (if k = j then None else tbl_get key k rows)"
  by (induction rows) (auto simp: tbl_get_Cons tbl_del_def)

lemma set_tbl_put_subset: "set (tbl_put key r rows) \<subseteq> insert r (set rows)"
  by (induction rows) auto

lemma in_tbl_put: "r \<in> set (tbl_put key r rows)"
  by (induction rows) auto

lemma keys_tbl_put: "key ` set (tbl_put key r rows) = insert (key r) (key ` set rows)"
  by (induction rows) auto

lemma tbl_keyed_put: "tbl_keyed key rows \<Longrightarrow> tbl_keyed key (tbl_put key r rows)"
  by (induction rows) (auto simp: tbl_keyed_def keys_tbl_put)

lemma tbl_keyed_del: "tbl_keyed key rows \<Longrightarrow> tbl_keyed key (tbl_del key k rows)"
  by (simp add: tbl_keyed_def tbl_del_def distinct_map_filter)

lemma tbl_put_other: "x \<in> set rows \<Longrightarrow> key x \<noteq> key r \<Longrightarrow> x \<in> set (tbl_put key r rows)"
  by (induction rows) auto

lemma set_tbl_put_keyed:
  "tbl_keyed key rows \<Longrightarrow>
   set (tbl_put key r rows) = insert r {x \<in> set rows. key x \<noteq> key r}"
proof (induction rows)
  case Nil
  then show ?case by simp
next
  case (Cons a rows)
  show ?case
  proof (cases "key a = key r")
    case True
    with Cons.prems have "\<forall>x \<in> set rows. key x \<noteq> key r"
      by (metis distinct.simps(2) image_eqI list.set_map list.simps(9) tbl_keyed_def)
    with True show ?thesis by auto
  next
    case False
    with Cons show ?thesis by (auto simp: tbl_keyed_def)
  qed
qed

lemma tbl_put_same: "tbl_get key k rows = Some r \<Longrightarrow> tbl_put key r rows = rows"
  by (induction rows) (auto simp: tbl_get_Cons dest: tbl_get_SomeD split: if_splits)

lemma tbl_get_keyed:
  "tbl_keyed key rows \<Longrightarrow> r \<in> set rows \<Longrightarrow> tbl_get key (key r) rows = Some r"
  by (induction rows) (force simp: tbl_keyed_def tbl_get_Cons)+

lemma ball_tbl_upd:
  "(\<forall>x \<in> set (tbl_upd p f rows). Q x) \<longleftrightarrow> (\<forall>r \<in> set rows. Q (if p r then f r else r))"
  unfolding tbl_upd_def set_map by (rule ball_simps)

lemma bex_tbl_upd:
  "(\<exists>x \<in> set (tbl_upd p f rows). Q x) \<longleftrightarrow> (\<exists>r \<in> set rows. Q (if p r then f r else r))"
  unfolding tbl_upd_def set_map by (rule bex_simps)

lemma map_tbl_upd: "(\<And>r. g (f r) = g r) \<Longrightarrow> map g (tbl_upd p f rows) = map g rows"
  by (simp add: tbl_upd_def)

lemma tbl_upd_length [simp]: "length (tbl_upd p f rows) = length rows"
  by (simp add: tbl_upd_def)

lemma tbl_get_upd:
  "(\<And>r. key (f r) = key r) \<Longrightarrow>
   tbl_get key k (tbl_upd p f rows) = map_option (\<lambda>r. if p r then f r else r) (tbl_get key k rows)"
  by (induction rows) (auto simp: tbl_upd_def tbl_get_Cons)

lemma tbl_get_filter:
  "tbl_keyed key rows \<Longrightarrow>
   tbl_get key k (filter p rows) = (case tbl_get key k rows of None \<Rightarrow> None | Some r \<Rightarrow> if p r then Some r else None)"
proof (induction rows)
  case (Cons x xs)
  show ?case
  proof (cases "key x = k")
    case True
    with Cons.prems have "tbl_get key k (filter p xs) = None" by (auto simp: tbl_keyed_def tbl_get_None)
    with True show ?thesis by (simp add: tbl_get_Cons)
  next
    case False
    with Cons show ?thesis by (simp add: tbl_get_Cons tbl_keyed_def)
  qed
qed simp

lemma tbl_keyed_filter: "tbl_keyed key rows \<Longrightarrow> tbl_keyed key (filter p rows)"
  by (simp add: tbl_keyed_def distinct_map_filter)

lemma tbl_keyed_append:
  "tbl_keyed key rows \<Longrightarrow> tbl_get key (key r) rows = None \<Longrightarrow> tbl_keyed key (rows @ [r])"
  by (auto simp: tbl_keyed_def tbl_get_None)

lemma tbl_keyed_upd: "(\<And>r. key (f r) = key r) \<Longrightarrow> tbl_keyed key (tbl_upd p f rows) = tbl_keyed key rows"
  by (simp add: tbl_keyed_def map_tbl_upd)

lemma keys_tbl_upd: "(\<And>r. key (f r) = key r) \<Longrightarrow> key ` set (tbl_upd p f rows) = key ` set rows"
  by (induction rows) (auto simp: tbl_upd_def)

lemma tbl_get_append:
  "tbl_get key k (xs @ ys) = (case tbl_get key k xs of Some r \<Rightarrow> Some r | None \<Rightarrow> tbl_get key k ys)"
  by (induction xs) (auto simp: tbl_get_Cons)

lemma tbl_get_append_new:
  "tbl_get key k rows = None \<Longrightarrow> tbl_get key k (rows @ [r]) = (if key r = k then Some r else None)"
  by (induction rows) (auto simp: tbl_get_Cons split: if_splits)

lemma tbl_get_upd_key:
  "(\<And>r. key (f r) = key r) \<Longrightarrow>
   tbl_get key k (tbl_upd (\<lambda>r. key r = k) f rows) = map_option f (tbl_get key k rows)"
  by (induction rows) (auto simp: tbl_upd_def tbl_get_Cons)

text \<open>
  The interface of a keyed store: what a client may assume of a table whatever its row type.
\<close>

locale keyed_table =
  fixes key :: "'r \<Rightarrow> 'k"
    and get :: "'k \<Rightarrow> 't \<Rightarrow> 'r option"
    and put :: "'r \<Rightarrow> 't \<Rightarrow> 't"
    and del :: "'k \<Rightarrow> 't \<Rightarrow> 't"
  assumes get_put: "get k (put r t) = (if key r = k then Some r else get k t)"
    and get_del: "get k (del j t) = (if k = j then None else get k t)"
    and get_key: "get k t = Some r \<Longrightarrow> key r = k"
begin

lemma get_put_same: "get (key r) (put r t) = Some r"
  by (simp add: get_put)

lemma get_put_other: "key r \<noteq> k \<Longrightarrow> get k (put r t) = get k t"
  by (simp add: get_put)

lemma get_del_same: "get k (del k t) = None"
  by (simp add: get_del)

lemma put_put_same: "key r = key s \<Longrightarrow> get k (put r (put s t)) = get k (put r t)"
  by (simp add: get_put)

lemma put_commute: "key r \<noteq> key s \<Longrightarrow> get k (put r (put s t)) = get k (put s (put r t))"
  by (auto simp: get_put)

lemma update_field_other:
  assumes "get k t = Some r" and "key (f r) = key r" and "j \<noteq> k"
  shows "get j (put (f r) t) = get j t"
  using assms get_key [OF assms(1)] by (simp add: get_put)

end

section \<open>Machines\<close>

fun run :: "('s \<Rightarrow> 'c \<Rightarrow> 's) \<Rightarrow> 's \<Rightarrow> 'c list \<Rightarrow> 's" where
  "run step s [] = s"
| "run step s (c # cs) = run step (step s c) cs"

lemma run_append: "run step s (cs @ ds) = run step (run step s cs) ds"
  by (induction cs arbitrary: s) auto

text \<open>
  A raising handler seen as a machine step: the exception leaves the state unchanged.
\<close>

fun commit :: "'s \<Rightarrow> 'e + ('s \<times> 'o) \<Rightarrow> 's" where
  "commit s (Inl e) = s"
| "commit s (Inr (s', r)) = s'"

lemma map_sum_eq_Inr: "map_sum f g x = Inr y \<longleftrightarrow> (\<exists>z. x = Inr z \<and> y = g z)"
  by (cases x) auto

lemma find_SomeD: "List.find P xs = Some x \<Longrightarrow> x \<in> set xs \<and> P x"
  by (auto simp: find_Some_iff)

lemma Some_eq_map_option: "Some y = map_option f x \<longleftrightarrow> (\<exists>z. x = Some z \<and> y = f z)"
  by (cases x) auto

locale step_invariant =
  fixes step :: "'s \<Rightarrow> 'c \<Rightarrow> 's" and inv :: "'s \<Rightarrow> bool"
  assumes step_inv: "inv s \<Longrightarrow> inv (step s c)"
begin

lemma run_inv: "inv s \<Longrightarrow> inv (run step s cs)"
  by (induction cs arbitrary: s) (auto intro: step_inv)

end

text \<open>
  An order kept by every step (a counter that never falls, a log that only grows).
\<close>

locale step_monotone =
  fixes step :: "'s \<Rightarrow> 'c \<Rightarrow> 's" and le :: "'s \<Rightarrow> 's \<Rightarrow> bool"
  assumes le_refl: "le s s"
    and le_trans: "le s t \<Longrightarrow> le t u \<Longrightarrow> le s u"
    and step_le: "le s (step s c)"
begin

lemma run_le: "le s (run step s cs)"
  by (induction cs arbitrary: s) (auto intro: le_refl le_trans step_le)

end

section \<open>Python strings and integers\<close>

abbreviation code :: "char \<Rightarrow> nat" where
  "code c \<equiv> of_char c"

definition is_dec :: "char \<Rightarrow> bool" where
  "is_dec c = (48 \<le> code c \<and> code c \<le> 57)"

definition is_hex :: "char \<Rightarrow> bool" where
  "is_hex c = (is_dec c \<or> (65 \<le> code c \<and> code c \<le> 70) \<or> (97 \<le> code c \<and> code c \<le> 102))"

text \<open>The value of a digit of base at most 16, and of a digit string.\<close>

definition digit_val :: "char \<Rightarrow> nat" where
  "digit_val c =
     (if code c \<le> 57 then code c - 48 else if code c \<le> 70 then code c - 55 else code c - 87)"

definition digits_val :: "nat \<Rightarrow> string \<Rightarrow> nat" where
  "digits_val b s = foldl (\<lambda>n c. b * n + digit_val c) 0 s"

definition digit_char :: "nat \<Rightarrow> char" where
  "digit_char d = char_of (if d < 10 then 48 + d else 87 + d)"

text \<open>\<open>str(n)\<close> for base 10, \<open>"%x" % n\<close> for base 16.\<close>

fun nat_digits :: "nat \<Rightarrow> nat \<Rightarrow> string" where
  "nat_digits b n =
     (if b < 2 \<or> n < b then [digit_char n] else nat_digits b (n div b) @ [digit_char (n mod b)])"

declare nat_digits.simps [simp del]

lemma digit_val_char: "d < 16 \<Longrightarrow> digit_val (digit_char d) = d"
  by (simp add: digit_val_def digit_char_def)

lemma digits_val_append: "digits_val b (s @ [c]) = b * digits_val b s + digit_val c"
  by (simp add: digits_val_def)

lemma digits_val_nat_digits:
  assumes "2 \<le> b" and "b \<le> 16"
  shows "digits_val b (nat_digits b n) = n"
  using assms
proof (induction b n rule: nat_digits.induct)
  case (1 b n)
  show ?case
  proof (cases "n < b")
    case True
    with "1.prems" show ?thesis
      by (simp add: nat_digits.simps [of b n] digits_val_def digit_val_char)
  next
    case False
    with "1" have "digits_val b (nat_digits b (n div b)) = n div b" by auto
    moreover from "1.prems" have "n mod b < b" by simp
    then have "digit_val (digit_char (n mod b)) = n mod b"
      using "1.prems" by (intro digit_val_char) linarith
    ultimately show ?thesis using False "1.prems"
      by (simp add: nat_digits.simps [of b n] digits_val_append)
  qed
qed

definition nat_str :: "nat \<Rightarrow> string" where
  "nat_str n = nat_digits 10 n"

definition int_str :: "int \<Rightarrow> string" where
  "int_str i = (if i < 0 then CHR ''-'' # nat_str (nat (- i)) else nat_str (nat i))"

lemma nat_str_inj: "nat_str m = nat_str n \<Longrightarrow> m = n"
proof -
  assume "nat_str m = nat_str n"
  then have "digits_val 10 (nat_digits 10 m) = digits_val 10 (nat_digits 10 n)"
    by (simp add: nat_str_def)
  then show "m = n" by (simp add: digits_val_nat_digits)
qed

text \<open>\<open>s.split(c)\<close> for a one-character separator, \<open>c.join(parts)\<close>, \<open>s.partition(c)\<close>.\<close>

fun py_split :: "char \<Rightarrow> string \<Rightarrow> string list" where
  "py_split c [] = [[]]"
| "py_split c (x # xs) =
     (if x = c then [] # py_split c xs
      else (case py_split c xs of [] \<Rightarrow> [[x]] | p # ps \<Rightarrow> (x # p) # ps))"

fun py_join :: "string \<Rightarrow> string list \<Rightarrow> string" where
  "py_join sep [] = []"
| "py_join sep [p] = p"
| "py_join sep (p # q # ps) = p @ sep @ py_join sep (q # ps)"

lemma py_split_nonempty [simp]: "py_split c s \<noteq> []"
  by (induction s) (auto split: list.split)

lemma py_split_no_sep: "c \<notin> set p \<Longrightarrow> py_split c p = [p]"
  by (induction p) auto

lemma py_split_append: "c \<notin> set p \<Longrightarrow> py_split c (p @ c # s) = p # py_split c s"
  by (induction p) auto

lemma py_split_join:
  "ps \<noteq> [] \<Longrightarrow> \<forall>p \<in> set ps. c \<notin> set p \<Longrightarrow> py_split c (py_join [c] ps) = ps"
proof (induction ps)
  case Nil
  then show ?case by simp
next
  case (Cons p ps)
  then show ?case by (cases ps) (auto simp: py_split_no_sep py_split_append)
qed

definition py_partition :: "char \<Rightarrow> string \<Rightarrow> string \<times> bool \<times> string" where
  "py_partition c s =
     (takeWhile (\<lambda>x. x \<noteq> c) s, c \<in> set s, tl (dropWhile (\<lambda>x. x \<noteq> c) s))"

text \<open>
  \<open>str.isspace\<close> on code points below 256, \<open>s.strip()\<close>, and \<open>" ".join(s.split())\<close>'s pieces.
\<close>

definition py_space :: "char \<Rightarrow> bool" where
  "py_space c = (code c \<in> {9, 10, 11, 12, 13, 28, 29, 30, 31, 32, 133, 160})"

definition py_strip :: "string \<Rightarrow> string" where
  "py_strip s = rev (dropWhile py_space (rev (dropWhile py_space s)))"

lemma dropWhile_hd: "xs = [] \<or> \<not> P (hd xs) \<Longrightarrow> dropWhile P xs = xs"
  by (cases xs) auto

lemma py_strip_ends:
  "py_strip s = [] \<or> \<not> py_space (hd (py_strip s)) \<and> \<not> py_space (last (py_strip s))"
proof -
  let ?d = "dropWhile py_space s"
  let ?r = "dropWhile py_space (rev ?d)"
  have d: "?d = [] \<or> \<not> py_space (hd ?d)" using hd_dropWhile by blast
  have r: "?r = [] \<or> \<not> py_space (hd ?r)" using hd_dropWhile by blast
  obtain u where "rev ?d = u @ ?r" by (metis takeWhile_dropWhile_id)
  then have "?d = rev ?r @ rev u" by (metis rev_append rev_rev_ident)
  then have "?r \<noteq> [] \<Longrightarrow> hd (rev ?r) = hd ?d \<and> ?d \<noteq> []" by (metis Nil_is_append_conv hd_append2 rev_is_Nil_conv)
  with d r show ?thesis by (cases "?r = []") (simp_all add: py_strip_def last_rev del: dropWhile_eq_Nil_conv)
qed

lemma py_strip_idem: "py_strip (py_strip s) = py_strip s"
proof (cases "py_strip s = []")
  case False
  then have "\<not> py_space (hd (py_strip s))" "\<not> py_space (hd (rev (py_strip s)))"
    using py_strip_ends [of s] by (auto simp: hd_rev)
  then show ?thesis by (simp add: py_strip_def [of "py_strip s"] dropWhile_hd)
next
  case True
  show ?thesis unfolding True by (simp add: py_strip_def)
qed

lemma set_dropWhile_other: "\<not> P x \<Longrightarrow> x \<in> set (dropWhile P xs) \<longleftrightarrow> x \<in> set xs"
  by (induction xs) auto

lemma set_dropWhile_subset: "set (dropWhile P xs) \<subseteq> set xs"
  by (induction xs) auto

lemma set_py_strip: "set (py_strip s) \<subseteq> set s"
  using set_dropWhile_subset [of py_space s] set_dropWhile_subset [of py_space "rev (dropWhile py_space s)"]
  by (auto simp: py_strip_def)

lemma py_strip_mem: "\<not> py_space c \<Longrightarrow> c \<in> set (py_strip s) \<longleftrightarrow> c \<in> set s"
  by (simp add: py_strip_def set_dropWhile_other)

fun py_words :: "string \<Rightarrow> string \<Rightarrow> string list" where
  "py_words acc [] = (if acc = [] then [] else [rev acc])"
| "py_words acc (x # xs) =
     (if py_space x then (if acc = [] then py_words [] xs else rev acc # py_words [] xs)
      else py_words (x # acc) xs)"

text \<open>\<open>" ".join(s.split())\<close>.\<close>

definition squash_spaces :: "string \<Rightarrow> string" where
  "squash_spaces s = py_join '' '' (py_words [] s)"

text \<open>Python's \<open>lower\<close> on the first 256 code points.\<close>

definition shift_char :: "char \<Rightarrow> char" where
  "shift_char c = char_of (of_char c + 32 :: nat)"

definition py_lower_char :: "char \<Rightarrow> char" where
  "py_lower_char c =
     (let n = of_char c :: nat in
      if (65 \<le> n \<and> n \<le> 90) \<or> (192 \<le> n \<and> n \<le> 222 \<and> n \<noteq> 215) then shift_char c else c)"

end
