(* ===== verification/Ip_Address.thy ===== *)
theory Ip_Address
  imports Prelude
begin

text \<open>
  The part of Python 3.11's \<open>ipaddress\<close> that the components rely on: \<open>ip_address\<close> on strings
  (\<open>ip_parse\<close>, dotted quads without leading zeros, hextets with one \<open>::\<close>, an IPv4 tail, scope
  ids), \<open>str\<close> (\<open>ip_str\<close>, with the longest run of zero hextets compressed), the classification
  properties, \<open>ipv4_mapped\<close>, and \<open>ip_network(\<dots>, strict=False)\<close> with membership.
\<close>

datatype ip = IPv4 nat | IPv6 nat "string option"

fun ip_version :: "ip \<Rightarrow> nat" where
  "ip_version (IPv4 _) = 4"
| "ip_version (IPv6 _ _) = 6"

section \<open>IPv4\<close>

definition parse_octet :: "string \<Rightarrow> nat option" where
  "parse_octet s =
     (if s \<noteq> [] \<and> list_all is_dec s \<and> length s \<le> 3 \<and> (s = ''0'' \<or> hd s \<noteq> CHR ''0'')
         \<and> digits_val 10 s \<le> 255
      then Some (digits_val 10 s) else None)"

definition parse_v4 :: "string \<Rightarrow> nat option" where
  "parse_v4 s =
     (case map parse_octet (py_split (CHR ''.'') s) of
        [Some a, Some b, Some c, Some d] \<Rightarrow> Some (((a * 256 + b) * 256 + c) * 256 + d)
      | _ \<Rightarrow> None)"

definition v4_octets :: "nat \<Rightarrow> nat list" where
  "v4_octets n = [n div 16777216, n div 65536 mod 256, n div 256 mod 256, n mod 256]"

definition v4_str :: "nat \<Rightarrow> string" where
  "v4_str n = py_join ''.'' (map nat_str (v4_octets n))"

section \<open>IPv6\<close>

definition parse_hextet :: "string \<Rightarrow> nat option" where
  "parse_hextet s =
     (if s \<noteq> [] \<and> list_all is_hex s \<and> length s \<le> 4 then Some (digits_val 16 s) else None)"

fun parse_hextets :: "nat \<Rightarrow> string list \<Rightarrow> nat option" where
  "parse_hextets acc [] = Some acc"
| "parse_hextets acc (p # ps) =
     (case parse_hextet p of None \<Rightarrow> None | Some h \<Rightarrow> parse_hextets (acc * 65536 + h) ps)"

text \<open>An IPv4 suffix becomes two hextets.\<close>

definition v6_expand_tail :: "string list \<Rightarrow> string list option" where
  "v6_expand_tail parts =
     (if CHR ''.'' \<in> set (last parts) then
        (case parse_v4 (last parts) of
           None \<Rightarrow> None
         | Some n \<Rightarrow> Some (butlast parts @ [nat_digits 16 (n div 65536), nat_digits 16 (n mod 65536)]))
      else Some parts)"

definition v6_of_parts :: "string list \<Rightarrow> nat option" where
  "v6_of_parts parts =
     (let n = length parts;
          skips = filter (\<lambda>i. parts ! i = []) [1..<n - 1]
      in if 9 < n then None
         else
           (case skips of
              [] \<Rightarrow>
                if n \<noteq> 8 \<or> hd parts = [] \<or> last parts = [] then None else parse_hextets 0 parts
            | [k] \<Rightarrow>
                let hi = (if hd parts = [] then k - 1 else k);
                    lo = (if last parts = [] then n - k - 2 else n - k - 1)
                in if (hd parts = [] \<and> hi \<noteq> 0) \<or> (last parts = [] \<and> lo \<noteq> 0) \<or> 8 \<le> hi + lo then None
                   else
                     (case parse_hextets 0 (take hi parts) of
                        None \<Rightarrow> None
                      | Some a \<Rightarrow>
                          parse_hextets (a * 65536 ^ (8 - (hi + lo))) (drop (n - lo) parts))
            | _ \<Rightarrow> None))"

definition parse_v6 :: "string \<Rightarrow> ip option" where
  "parse_v6 s =
     (let (addr, sep, scope) = py_partition (CHR ''%'') s;
          parts = py_split (CHR '':'') addr
      in if CHR ''/'' \<in> set s \<or> (sep \<and> (scope = [] \<or> CHR ''%'' \<in> set scope)) \<or> addr = []
            \<or> length parts < 3
         then None
         else
           (case Option.bind (v6_expand_tail parts) v6_of_parts of
              None \<Rightarrow> None
            | Some n \<Rightarrow> Some (IPv6 n (if sep then Some scope else None))))"

definition v6_hextets :: "nat \<Rightarrow> nat list" where
  "v6_hextets n = map (\<lambda>i. n div 65536 ^ i mod 65536) [7, 6, 5, 4, 3, 2, 1, 0]"

text \<open>\<open>_compress_hextets\<close>: the first longest run of \<open>"0"\<close>, replaced if longer than one.\<close>

fun best_zero_run :: "nat \<Rightarrow> nat \<Rightarrow> nat \<Rightarrow> nat \<times> nat \<Rightarrow> string list \<Rightarrow> nat \<times> nat" where
  "best_zero_run i start len best [] = best"
| "best_zero_run i start len (bs, bl) (h # hs) =
     (if h = ''0'' then
        let start' = (if len = 0 then i else start); len' = len + 1
        in best_zero_run (i + 1) start' len' (if bl < len' then (start', len') else (bs, bl)) hs
      else best_zero_run (i + 1) 0 0 (bs, bl) hs)"

definition compress_hextets :: "string list \<Rightarrow> string list" where
  "compress_hextets hs =
     (let (s, l) = best_zero_run 0 0 0 (0, 0) hs
      in if 1 < l then
           (if s = 0 then [[]] else []) @ take s hs @ [[]] @ drop (s + l) hs
           @ (if s + l = length hs then [[]] else [])
         else hs)"

definition v6_str :: "nat \<Rightarrow> string" where
  "v6_str n = py_join '':'' (compress_hextets (map (nat_digits 16) (v6_hextets n)))"

section \<open>\<open>ip_address\<close> and \<open>str\<close>\<close>

definition ip_parse :: "string \<Rightarrow> ip option" where
  "ip_parse s = (case parse_v4 s of Some n \<Rightarrow> Some (IPv4 n) | None \<Rightarrow> parse_v6 s)"

fun ip_str :: "ip \<Rightarrow> string" where
  "ip_str (IPv4 n) = v4_str n"
| "ip_str (IPv6 n None) = v6_str n"
| "ip_str (IPv6 n (Some z)) = v6_str n @ CHR ''%'' # z"

section \<open>Classification\<close>

definition in_v4 :: "nat \<Rightarrow> nat \<times> nat \<Rightarrow> bool" where
  "in_v4 n net = (case net of (base, p) \<Rightarrow> n div 2 ^ (32 - p) = base div 2 ^ (32 - p))"

definition in_v6 :: "nat \<Rightarrow> nat \<times> nat \<Rightarrow> bool" where
  "in_v6 n net = (case net of (base, p) \<Rightarrow> n div 2 ^ (128 - p) = base div 2 ^ (128 - p))"

definition v4 :: "nat \<Rightarrow> nat \<Rightarrow> nat \<Rightarrow> nat \<Rightarrow> nat" where
  "v4 a b c d = ((a * 256 + b) * 256 + c) * 256 + d"

text \<open>An IPv6 base from its leading hextets.\<close>

definition v6 :: "nat list \<Rightarrow> nat" where
  "v6 hs = foldl (\<lambda>n h. n * 65536 + h) 0 (take 8 (hs @ replicate 8 0))"

definition v4_private_nets :: "(nat \<times> nat) list" where
  "v4_private_nets =
     [(v4 0 0 0 0, 8), (v4 10 0 0 0, 8), (v4 127 0 0 0, 8), (v4 169 254 0 0, 16),
      (v4 172 16 0 0, 12), (v4 192 0 0 0, 24), (v4 192 0 0 170, 31), (v4 192 0 2 0, 24),
      (v4 192 168 0 0, 16), (v4 198 18 0 0, 15), (v4 198 51 100 0, 24), (v4 203 0 113 0, 24),
      (v4 240 0 0 0, 4), (v4 255 255 255 255, 32)]"

definition v4_private_except :: "(nat \<times> nat) list" where
  "v4_private_except = [(v4 192 0 0 9, 32), (v4 192 0 0 10, 32)]"

definition v6_private_nets :: "(nat \<times> nat) list" where
  "v6_private_nets =
     [(1, 128), (0, 128), (v6 [0, 0, 0, 0, 0, 0xffff], 96), (v6 [0x64, 0xff9b, 1], 48),
      (v6 [0x100], 64), (v6 [0x2001], 23), (v6 [0x2001, 0xdb8], 32), (v6 [0x2002], 16),
      (v6 [0xfc00], 7), (v6 [0xfe80], 10)]"

definition v6_private_except :: "(nat \<times> nat) list" where
  "v6_private_except =
     [(v6 [0x2001, 1, 0, 0, 0, 0, 0, 1], 128), (v6 [0x2001, 1, 0, 0, 0, 0, 0, 2], 128),
      (v6 [0x2001, 3], 32), (v6 [0x2001, 4, 0x112], 48), (v6 [0x2001, 0x20], 28),
      (v6 [0x2001, 0x30], 28)]"

definition v4_is_private :: "nat \<Rightarrow> bool" where
  "v4_is_private n =
     (list_ex (in_v4 n) v4_private_nets \<and> \<not> list_ex (in_v4 n) v4_private_except)"

fun ipv4_mapped :: "ip \<Rightarrow> nat option" where
  "ipv4_mapped (IPv4 _) = None"
| "ipv4_mapped (IPv6 n _) = (if n div 2 ^ 32 = 0xffff then Some (n mod 2 ^ 32) else None)"

fun ip_is_private :: "ip \<Rightarrow> bool" where
  "ip_is_private (IPv4 n) = v4_is_private n"
| "ip_is_private (IPv6 n z) =
     (case ipv4_mapped (IPv6 n z) of
        Some m \<Rightarrow> v4_is_private m
      | None \<Rightarrow> list_ex (in_v6 n) v6_private_nets \<and> \<not> list_ex (in_v6 n) v6_private_except)"

fun ip_is_loopback :: "ip \<Rightarrow> bool" where
  "ip_is_loopback (IPv4 n) = in_v4 n (v4 127 0 0 0, 8)"
| "ip_is_loopback (IPv6 n _) = (n = 1)"

fun ip_is_link_local :: "ip \<Rightarrow> bool" where
  "ip_is_link_local (IPv4 n) = in_v4 n (v4 169 254 0 0, 16)"
| "ip_is_link_local (IPv6 n _) = in_v6 n (v6 [0xfe80], 10)"

fun ip_is_unspecified :: "ip \<Rightarrow> bool" where
  "ip_is_unspecified (IPv4 n) = (n = 0)"
| "ip_is_unspecified (IPv6 n _) = (n = 0)"

section \<open>Facts\<close>

lemma nat_str_dec: "list_all is_dec (nat_str n)"
proof -
  have "list_all is_dec (nat_digits b n)" if "b = 10" for b
    using that
  proof (induction b n rule: nat_digits.induct)
    case (1 b n)
    have "is_dec (digit_char d)" if "d < 10" for d
      using that by (simp add: is_dec_def digit_char_def)
    with "1" show ?case by (cases "n < b") (simp_all add: nat_digits.simps [of _ n])
  qed
  then show ?thesis by (simp add: nat_str_def)
qed

lemma nat_digits_nonempty: "nat_digits b n \<noteq> []"
  by (simp add: nat_digits.simps [of b n])

lemma nat_str_hd: "0 < n \<Longrightarrow> hd (nat_str n) \<noteq> CHR ''0''"
proof -
  have "0 < n \<Longrightarrow> hd (nat_digits b n) \<noteq> CHR ''0''" if "b = 10" for b
    using that
  proof (induction b n rule: nat_digits.induct)
    case (1 b n)
    show ?case
    proof (cases "n < b")
      case True
      have "code (digit_char n) = 48 + n" using True "1.prems" by (simp add: digit_char_def)
      with "1.prems" have "code (digit_char n) \<noteq> code (CHR ''0'')" by simp
      with True show ?thesis by (auto simp: nat_digits.simps [of b n])
    next
      case False
      then have "0 < n div b" using "1.prems" by (simp add: div_greater_zero_iff)
      with False "1" show ?thesis by (simp add: nat_digits.simps [of _ n] nat_digits_nonempty)
    qed
  qed
  then show "0 < n \<Longrightarrow> ?thesis" by (simp add: nat_str_def)
qed

lemma length_octet_str: "n < 256 \<Longrightarrow> length (nat_str n) \<le> 3"
  by (auto simp: nat_str_def nat_digits.simps [of 10])

lemma parse_octet_str: "n < 256 \<Longrightarrow> parse_octet (nat_str n) = Some n"
proof (cases "n = 0")
  case True
  then show ?thesis
    by (simp add: parse_octet_def nat_str_def nat_digits.simps [of 10] digit_char_def is_dec_def
        digits_val_def digit_val_def)
next
  case False
  moreover assume "n < 256"
  ultimately show ?thesis
    using nat_str_dec [of n] nat_str_hd [of n] length_octet_str [of n]
    by (simp add: parse_octet_def nat_str_def nat_digits_nonempty digits_val_nat_digits)
qed

lemma octet_str_no_dot: "CHR ''.'' \<notin> set (nat_str n)"
  using nat_str_dec [of n] by (auto simp: list_all_iff is_dec_def)

text \<open>Printing an IPv4 address and parsing it again gives the address.\<close>

lemma parse_v4_str:
  assumes "n < 2 ^ 32"
  shows "parse_v4 (v4_str n) = Some n"
proof -
  have "n div 16777216 < 256" using assms by (simp add: less_mult_imp_div_less)
  then have small: "\<forall>k \<in> set (v4_octets n). k < 256"
    by (simp add: v4_octets_def)
  then have "py_split (CHR ''.'') (v4_str n) = map nat_str (v4_octets n)"
    unfolding v4_str_def by (intro py_split_join) (simp_all add: v4_octets_def octet_str_no_dot)
  moreover have "map parse_octet (map nat_str (v4_octets n)) = map Some (v4_octets n)"
    using small by (simp add: parse_octet_str)
  ultimately have "parse_v4 (v4_str n) =
      Some (((n div 16777216 * 256 + n div 65536 mod 256) * 256 + n div 256 mod 256) * 256
            + n mod 256)"
    by (simp add: parse_v4_def v4_octets_def)
  moreover have "((n div 16777216 * 256 + n div 65536 mod 256) * 256 + n div 256 mod 256) * 256
            + n mod 256 = n"
  proof -
    have "n div 16777216 = n div 65536 div 256" and "n div 65536 = n div 256 div 256"
      by (simp_all flip: div_mult2_eq)
    then have "n div 16777216 * 256 + n div 65536 mod 256 = n div 65536"
      and "n div 65536 * 256 + n div 256 mod 256 = n div 256"
      by (simp_all add: div_mult_mod_eq)
    then show ?thesis by (simp only: div_mult_mod_eq)
  qed
  ultimately show ?thesis by simp
qed

lemma ip_parse_v4_str: "n < 2 ^ 32 \<Longrightarrow> ip_parse (ip_str (IPv4 n)) = Some (IPv4 n)"
  by (simp add: ip_parse_def parse_v4_str)

end
