(* ===== verification/Security.thy ===== *)
theory Security
  imports Ip_Address
begin

text \<open>
  Security events and IP bans: \<open>backend/app/open_node/services/security.py\<close> and the request
  bounds of \<open>domain/security.py\<close>. The state is the three tables plus the process-local attempt
  counters. Every handler takes an \<open>io\<close>: whether the \<open>n\<close>-th database access of the call
  succeeds (\<open>False\<close> stands for a raised \<open>SQLAlchemyError\<close> or \<open>BackupCoordinationError\<close>) and
  what the \<open>n\<close>-th reading of the clock returns, in seconds. Handlers that catch those errors
  return normally; the others return \<open>Inl\<close> of the \<open>SecurityError\<close>.
\<close>

record io =
  db_ok :: "nat \<Rightarrow> bool"
  clock :: "nat \<Rightarrow> time"

record security_event =
  ev_id :: nat
  ev_at :: time
  ev_ip :: string
  ev_kind :: string
  ev_path :: string
  ev_username :: string
  ev_detail :: string
  ev_actor :: string

record security_ban =
  ban_ip :: string
  ban_reason :: string
  banned_at :: time
  expires_at :: "time option"
  permanent :: bool
  fail_count :: int
  released_at :: "time option"
  ban_actor :: string

record security_settings =
  revision :: int
  brute_force_enabled :: bool
  brute_force_max_failures :: int
  brute_force_window_minutes :: int
  brute_force_block_minutes :: int
  skip_local_ip :: bool

record security_state =
  sec_events :: "security_event list"
  sec_bans :: "security_ban list"
  sec_settings :: "security_settings option"
  attempts :: "string \<rightharpoonup> int \<times> time"

datatype security_error = SecurityError string nat

definition security_unavailable :: security_error where
  "security_unavailable = SecurityError ''security_unavailable'' 503"

section \<open>Settings\<close>

definition default_settings :: security_settings where
  "default_settings = \<lparr>revision = 0, brute_force_enabled = True, brute_force_max_failures = 5,
     brute_force_window_minutes = 1440, brute_force_block_minutes = 1440, skip_local_ip = True\<rparr>"

text \<open>\<open>create_schema\<close> inserts the settings row once.\<close>

definition create_settings :: "security_state \<Rightarrow> security_state" where
  "create_settings s =
     (case sec_settings s of None \<Rightarrow> s\<lparr>sec_settings := Some default_settings\<rparr> | Some _ \<Rightarrow> s)"

definition settings :: "bool \<Rightarrow> security_state \<Rightarrow> security_error + security_settings" where
  "settings ok s =
     (if \<not> ok then Inl security_unavailable
      else case sec_settings s of None \<Rightarrow> Inl security_unavailable | Some row \<Rightarrow> Inr row)"

text \<open>The bounds pydantic enforces on an update before the handler runs.\<close>

record settings_update =
  expected_revision :: int
  new_enabled :: bool
  new_max_failures :: int
  new_window_minutes :: int
  new_block_minutes :: int
  new_skip_local :: bool

definition valid_settings_update :: "settings_update \<Rightarrow> bool" where
  "valid_settings_update p \<longleftrightarrow>
     0 \<le> expected_revision p \<and> expected_revision p \<le> 2147483647 \<and>
     2 \<le> new_max_failures p \<and> new_max_failures p \<le> 100 \<and>
     1 \<le> new_window_minutes p \<and> new_window_minutes p \<le> 10080 \<and>
     1 \<le> new_block_minutes p \<and> new_block_minutes p \<le> 43200"

definition update_settings ::
  "bool \<Rightarrow> settings_update \<Rightarrow> security_state \<Rightarrow> security_error + (security_state \<times> security_settings)"
where
  "update_settings ok p s =
     (if \<not> ok then Inl security_unavailable
      else case sec_settings s of
        None \<Rightarrow> Inl security_unavailable
      | Some row \<Rightarrow>
          if revision row \<noteq> expected_revision p
          then Inl (SecurityError ''security_revision_conflict'' 409)
          else
            let row' = \<lparr>revision = revision row + 1, brute_force_enabled = new_enabled p,
                  brute_force_max_failures = new_max_failures p,
                  brute_force_window_minutes = new_window_minutes p,
                  brute_force_block_minutes = new_block_minutes p,
                  skip_local_ip = new_skip_local p\<rparr>
            in Inr (s\<lparr>sec_settings := Some row'\<rparr>, row'))"

section \<open>Addresses\<close>

definition canonical_candidate :: "string \<Rightarrow> string option" where
  "canonical_candidate v = map_option ip_str (ip_parse v)"

definition local_address :: "string \<Rightarrow> bool" where
  "local_address v =
     (case ip_parse v of
        None \<Rightarrow> True
      | Some a \<Rightarrow> ip_is_loopback a \<or> ip_is_private a \<or> ip_is_link_local a \<or> ip_is_unspecified a)"

text \<open>\<open>domain/security.py\<close>: the address of a ban request, stripped.\<close>

definition canonical_ip :: "string \<Rightarrow> string option" where
  "canonical_ip v = map_option ip_str (ip_parse (py_strip v))"

section \<open>Listings\<close>

definition ban_active :: "time \<Rightarrow> security_ban \<Rightarrow> bool" where
  "ban_active now row \<longleftrightarrow>
     released_at row = None \<and>
     (permanent row \<or> (case expires_at row of None \<Rightarrow> False | Some e \<Rightarrow> now < e))"

text \<open>The active bans, most recent first.\<close>

definition bans :: "io \<Rightarrow> security_state \<Rightarrow> security_error + security_ban list" where
  "bans io s =
     (if \<not> db_ok io 0 then Inl security_unavailable
      else Inr (sort_key (\<lambda>row. - banned_at row) (filter (ban_active (clock io 0)) (sec_bans s))))"

record events_page =
  page_events :: "security_event list"
  page_offset :: nat
  page_limit :: nat
  has_more :: bool

definition security_events ::
  "bool \<Rightarrow> string option \<Rightarrow> string option \<Rightarrow> nat \<Rightarrow> nat \<Rightarrow> security_state
   \<Rightarrow> security_error + events_page" where
  "security_events ok kind ip limit offset s =
     (let named = (\<lambda>f. case f of None \<Rightarrow> False | Some v \<Rightarrow> v \<noteq> [])
      in if named ip \<and> ip_parse (the ip) = None
         then Inl (SecurityError ''security_invalid_request'' 422)
         else if \<not> ok then Inl security_unavailable
         else
           let rows = filter (\<lambda>e. (named kind \<longrightarrow> ev_kind e = the kind) \<and>
                        (named ip \<longrightarrow> Some (ev_ip e) = canonical_candidate (the ip))) (sec_events s);
               rows = take (limit + 1) (drop offset
                        (sort_key (\<lambda>e. (- ev_at e, - int (ev_id e))) rows))
           in Inr \<lparr>page_events = take limit rows, page_offset = offset, page_limit = limit,
                   has_more = limit < length rows\<rparr>)"

section \<open>The block decision\<close>

text \<open>
  \<open>is_blocked\<close>: database access \<open>i\<close> reads the settings, access \<open>j\<close> the ban row, at time
  \<open>now\<close>. Any failure answers \<open>False\<close>.
\<close>

definition is_blocked :: "bool \<Rightarrow> bool \<Rightarrow> time \<Rightarrow> string \<Rightarrow> security_state \<Rightarrow> bool" where
  "is_blocked settings_ok row_ok now v s =
     (case canonical_candidate v of
        None \<Rightarrow> False
      | Some ip \<Rightarrow>
          (case settings settings_ok s of
             Inl _ \<Rightarrow> False
           | Inr st \<Rightarrow>
               if \<not> brute_force_enabled st \<or> (skip_local_ip st \<and> local_address ip) then False
               else if \<not> row_ok then False
               else (case tbl_get ban_ip ip (sec_bans s) of
                       None \<Rightarrow> False | Some row \<Rightarrow> ban_active now row)))"

section \<open>Events and counters\<close>

definition append_event ::
  "time \<Rightarrow> string \<Rightarrow> string \<Rightarrow> string \<Rightarrow> string \<Rightarrow> string \<Rightarrow> string \<Rightarrow> security_state \<Rightarrow> security_state"
where
  "append_event now ip kind path username detail actor s =
     s\<lparr>sec_events := sec_events s @
        [\<lparr>ev_id = Suc (length (sec_events s)), ev_at = now, ev_ip = take 45 ip, ev_kind = kind,
          ev_path = take 160 path, ev_username = take 64 username, ev_detail = take 120 detail,
          ev_actor = take 64 actor\<rparr>]\<rparr>"

definition record_login_failure ::
  "io \<Rightarrow> string \<Rightarrow> string \<Rightarrow> bool \<Rightarrow> string \<Rightarrow> security_state \<Rightarrow> security_state" where
  "record_login_failure io v username locked path s =
     (case canonical_candidate v of
        None \<Rightarrow> s
      | Some ip \<Rightarrow>
          if \<not> db_ok io 0 then s
          else append_event (clock io 0) ip (if locked then ''login_locked'' else ''login_fail'')
                 path (squash_spaces username) [] [] s)"

definition record_probe_success :: "string \<Rightarrow> security_state \<Rightarrow> security_state" where
  "record_probe_success v s =
     (case canonical_candidate v of
        None \<Rightarrow> s
      | Some ip \<Rightarrow> s\<lparr>attempts := (attempts s)(ip := None)\<rparr>)"

definition upsert_ban ::
  "bool \<Rightarrow> time \<Rightarrow> string \<Rightarrow> bool \<Rightarrow> string \<Rightarrow> string \<Rightarrow> int \<Rightarrow> time option \<Rightarrow> string \<Rightarrow> string
   \<Rightarrow> security_state \<Rightarrow> security_error + (security_state \<times> security_ban)" where
  "upsert_ban ok now ip perm actor reason fails expires kind path s =
     (if \<not> ok then Inl security_unavailable
      else
        let row = \<lparr>ban_ip = ip, ban_reason = reason, banned_at = now,
              expires_at = (if perm then None else expires), permanent = perm,
              fail_count = fails, released_at = None, ban_actor = take 64 actor\<rparr>
        in Inr (append_event now ip kind path [] (''fail='' @ int_str fails) actor
                  (s\<lparr>sec_bans := tbl_put ban_ip row (sec_bans s)\<rparr>), row))"

text \<open>
  \<open>record_probe_failure\<close>: accesses 0 to 3 are the settings, the settings and the row of
  \<open>is_blocked\<close>, and the final write; clock readings 0 to 2 are those of \<open>is_blocked\<close>, the
  handler and the write. The counter changes whether or not the write succeeds.
\<close>

definition next_attempt :: "security_settings \<Rightarrow> time \<Rightarrow> (int \<times> time) option \<Rightarrow> int \<times> time" where
  "next_attempt st now entry =
     (let (count, first) = (case entry of None \<Rightarrow> (0, now) | Some e \<Rightarrow> e);
          (count, first) =
            (if brute_force_window_minutes st * 60 < now - first then (0, now) else (count, first))
      in (count + 1, first))"

definition record_probe_failure :: "io \<Rightarrow> string \<Rightarrow> string \<Rightarrow> security_state \<Rightarrow> security_state" where
  "record_probe_failure io v path s =
     (case canonical_candidate v of
        None \<Rightarrow> s
      | Some ip \<Rightarrow>
          (case settings (db_ok io 0) s of
             Inl _ \<Rightarrow> s
           | Inr st \<Rightarrow>
               if \<not> brute_force_enabled st \<or> (skip_local_ip st \<and> local_address ip) then s
               else if is_blocked (db_ok io 1) (db_ok io 2) (clock io 0) ip s then s
               else
                 let now = clock io 1;
                     (count, first) = next_attempt st now (attempts s ip)
                 in if brute_force_max_failures st \<le> count
                    then commit (s\<lparr>attempts := (attempts s)(ip := None)\<rparr>)
                           (upsert_ban (db_ok io 3) (clock io 2) ip False [] ''brute_force'' count
                              (Some (now + brute_force_block_minutes st * 60)) ''ban'' path
                              (s\<lparr>attempts := (attempts s)(ip := None)\<rparr>))
                    else
                      let s' = s\<lparr>attempts := (attempts s)(ip \<mapsto> (count, first))\<rparr>
                      in if \<not> db_ok io 3 then s'
                         else append_event (clock io 2) ip ''probe'' path []
                                (int_str count @ ''/'' @ int_str (brute_force_max_failures st)) [] s'))"

section \<open>Administrator actions\<close>

definition ban ::
  "io \<Rightarrow> string \<Rightarrow> bool \<Rightarrow> string \<Rightarrow> security_state \<Rightarrow> security_error + (security_state \<times> security_ban)"
where
  "ban io v perm actor s =
     (case canonical_candidate v of
        None \<Rightarrow> Inl (SecurityError ''security_invalid_request'' 422)
      | Some ip \<Rightarrow>
          (case settings (db_ok io 0) s of
             Inl e \<Rightarrow> Inl e
           | Inr st \<Rightarrow>
               upsert_ban (db_ok io 1) (clock io 1) ip perm actor ''manual'' 0
                 (Some (clock io 0 + brute_force_block_minutes st * 60)) ''ban_manual'' [] s))"

definition unban ::
  "io \<Rightarrow> string \<Rightarrow> string \<Rightarrow> security_state \<Rightarrow> security_error + (security_state \<times> unit)" where
  "unban io v actor s =
     (case canonical_candidate v of
        None \<Rightarrow> Inl (SecurityError ''security_invalid_request'' 422)
      | Some ip \<Rightarrow>
          let now = clock io 0 in
          if \<not> db_ok io 0 then Inl security_unavailable
          else
            (case tbl_get ban_ip ip (sec_bans s) of
               None \<Rightarrow> Inl (SecurityError ''security_ban_not_found'' 404)
             | Some row \<Rightarrow>
                 if released_at row \<noteq> None \<or>
                    (\<not> permanent row \<and>
                       (case expires_at row of None \<Rightarrow> True | Some e \<Rightarrow> e \<le> now))
                 then Inl (SecurityError ''security_ban_not_found'' 404)
                 else
                   let row' = row\<lparr>released_at := Some now, ban_actor := take 64 actor\<rparr>;
                       s' = append_event now ip ''unban'' [] [] [] actor
                              (s\<lparr>sec_bans := tbl_put ban_ip row' (sec_bans s)\<rparr>)
                   in Inr (s'\<lparr>attempts := (attempts s')(ip := None)\<rparr>, ())))"

section \<open>The component as a machine\<close>

datatype sec_call =
    ProbeFailure io string string
  | ProbeSuccess string
  | LoginFailure io string string bool string
  | Ban io string bool string
  | Unban io string string
  | UpdateSettings bool settings_update
  | CreateSchema

fun sec_step :: "security_state \<Rightarrow> sec_call \<Rightarrow> security_state" where
  "sec_step s (ProbeFailure io v path) = record_probe_failure io v path s"
| "sec_step s (ProbeSuccess v) = record_probe_success v s"
| "sec_step s (LoginFailure io v user locked path) = record_login_failure io v user locked path s"
| "sec_step s (Ban io v perm actor) = commit s (ban io v perm actor s)"
| "sec_step s (Unban io v actor) = commit s (unban io v actor s)"
| "sec_step s (UpdateSettings ok p) =
     (if valid_settings_update p then commit s (update_settings ok p s) else s)"
| "sec_step s CreateSchema = create_settings s"

section \<open>Invariant\<close>

definition ban_row_ok :: "security_ban \<Rightarrow> bool" where
  "ban_row_ok row \<longleftrightarrow>
     (\<exists>v. canonical_candidate v = Some (ban_ip row)) \<and> (permanent row \<longleftrightarrow> expires_at row = None)"

definition settings_ok :: "security_settings \<Rightarrow> bool" where
  "settings_ok st \<longleftrightarrow>
     0 \<le> revision st \<and>
     2 \<le> brute_force_max_failures st \<and> brute_force_max_failures st \<le> 100 \<and>
     1 \<le> brute_force_window_minutes st \<and> brute_force_window_minutes st \<le> 10080 \<and>
     1 \<le> brute_force_block_minutes st \<and> brute_force_block_minutes st \<le> 43200"

definition attempts_ok :: "(string \<rightharpoonup> int \<times> time) \<Rightarrow> bool" where
  "attempts_ok m \<longleftrightarrow> (\<forall>ip. case m ip of None \<Rightarrow> True | Some e \<Rightarrow> 1 \<le> fst e)"

lemma attempts_ok_upd:
  "attempts_ok m \<Longrightarrow> (\<And>x. e = Some x \<Longrightarrow> 1 \<le> fst x) \<Longrightarrow> attempts_ok (m(ip := e))"
  by (simp add: attempts_ok_def split: option.split)

lemma attempts_okD: "attempts_ok m \<Longrightarrow> m ip = Some e \<Longrightarrow> 1 \<le> fst e"
  unfolding attempts_ok_def by (metis option.simps(5))

definition sec_inv :: "security_state \<Rightarrow> bool" where
  "sec_inv s \<longleftrightarrow>
     tbl_keyed ban_ip (sec_bans s) \<and>
     (\<forall>row \<in> set (sec_bans s). ban_row_ok row) \<and>
     attempts_ok (attempts s) \<and>
     map ev_id (sec_events s) = [1..<Suc (length (sec_events s))] \<and>
     (\<forall>st. sec_settings s = Some st \<longrightarrow> settings_ok st)"

interpretation ban_table: keyed_table ban_ip "tbl_get ban_ip" "tbl_put ban_ip" "tbl_del ban_ip"
  by unfold_locales (auto simp: table_simps dest: tbl_get_SomeD)

lemma append_event_frame [simp]:
  "sec_bans (append_event t i k p u d a s) = sec_bans s"
  "sec_settings (append_event t i k p u d a s) = sec_settings s"
  "attempts (append_event t i k p u d a s) = attempts s"
  by (simp_all add: append_event_def)

lemma append_event_inv: "sec_inv s \<Longrightarrow> sec_inv (append_event t i k p u d a s)"
  by (simp add: sec_inv_def append_event_def)

lemma attempts_inv:
  "sec_inv s \<Longrightarrow> (\<And>x. e = Some x \<Longrightarrow> 1 \<le> fst x) \<Longrightarrow>
   sec_inv (s\<lparr>attempts := (attempts s)(ip := e)\<rparr>)"
  by (simp add: sec_inv_def attempts_ok_upd)

lemma put_ban_inv:
  assumes "sec_inv s" and "ban_row_ok row"
  shows "sec_inv (s\<lparr>sec_bans := tbl_put ban_ip row (sec_bans s)\<rparr>)"
  using assms set_tbl_put_subset [of ban_ip row "sec_bans s"]
  by (auto simp: sec_inv_def tbl_keyed_put)

lemma upsert_ban_inv:
  assumes "sec_inv s" and "canonical_candidate v = Some ip" and "perm \<or> e \<noteq> None"
    and "upsert_ban ok now ip perm actor reason fails e kind path s = Inr (s', r)"
  shows "sec_inv s'"
proof -
  have "ban_row_ok \<lparr>ban_ip = ip, ban_reason = reason, banned_at = now,
      expires_at = if perm then None else e, permanent = perm, fail_count = fails,
      released_at = None, ban_actor = take 64 actor\<rparr>"
    using assms(2,3) by (auto simp: ban_row_ok_def)
  with assms(1,4) show ?thesis
    by (auto simp: upsert_ban_def Let_def intro!: append_event_inv put_ban_inv split: if_splits)
qed

lemma record_probe_failure_inv:
  assumes "sec_inv s"
  shows "sec_inv (record_probe_failure io v path s)"
proof -
  have count: "1 \<le> fst (next_attempt st now (attempts s ip))" for st now ip
  proof -
    have "attempts_ok (attempts s)" using assms by (simp add: sec_inv_def)
    then have "\<And>e. attempts s ip = Some e \<Longrightarrow> 1 \<le> fst e" by (rule attempts_okD)
    then show ?thesis by (auto simp: next_attempt_def split: option.split)
  qed
  have ban: "sec_inv (commit t (upsert_ban ok now ip False [] r c (Some e) k p t))"
    if "sec_inv t" and "canonical_candidate v = Some ip" for t ok now ip r c e k p
    using upsert_ban_inv [OF that, of False "Some e"] that(1)
    by (cases "upsert_ban ok now ip False [] r c (Some e) k p t") auto
  show ?thesis
    unfolding record_probe_failure_def Let_def
    using assms count
    by (auto intro!: ban attempts_inv append_event_inv split: option.split sum.split prod.split)
       (metis fst_conv)+
qed

lemma unban_inv:
  assumes "sec_inv s" and "unban io v actor s = Inr (s', r)"
  shows "sec_inv s'"
proof -
  from assms(2) obtain ip row t where
    row: "tbl_get ban_ip ip (sec_bans s) = Some row"
    and t: "t = append_event (clock io 0) ip ''unban'' [] [] [] actor
      (s\<lparr>sec_bans := tbl_put ban_ip (row\<lparr>released_at := Some (clock io 0), ban_actor := take 64 actor\<rparr>)
         (sec_bans s)\<rparr>)"
    and s': "s' = t\<lparr>attempts := (attempts t)(ip := None)\<rparr>"
    by (auto simp: unban_def Let_def split: option.splits if_splits)
  have "ban_row_ok row" using assms(1) tbl_get_SomeD [OF row] by (auto simp: sec_inv_def)
  then have "ban_row_ok (row\<lparr>released_at := Some (clock io 0), ban_actor := take 64 actor\<rparr>)"
    by (simp add: ban_row_ok_def)
  with assms(1) have "sec_inv t" by (simp add: t append_event_inv put_ban_inv)
  then show ?thesis unfolding s' by (rule attempts_inv) simp
qed

lemma ban_inv: "sec_inv s \<Longrightarrow> ban io v perm actor s = Inr (s', r) \<Longrightarrow> sec_inv s'"
  by (auto simp: ban_def split: option.splits sum.splits intro: upsert_ban_inv)

lemma update_settings_inv:
  "sec_inv s \<Longrightarrow> valid_settings_update p \<Longrightarrow> update_settings ok p s = Inr (s', r) \<Longrightarrow> sec_inv s'"
  by (auto simp: update_settings_def sec_inv_def settings_ok_def valid_settings_update_def Let_def
      simp del: upt_Suc split: if_splits option.splits)

lemma sec_step_inv: "sec_inv s \<Longrightarrow> sec_inv (sec_step s c)"
proof (cases c)
  case (Ban io v perm actor)
  then show "sec_inv s \<Longrightarrow> ?thesis"
    by (cases "ban io v perm actor s") (auto intro: ban_inv)
next
  case (Unban io v actor)
  then show "sec_inv s \<Longrightarrow> ?thesis"
    by (cases "unban io v actor s") (auto intro: unban_inv)
next
  case (UpdateSettings ok p)
  then show "sec_inv s \<Longrightarrow> ?thesis"
    by (cases "update_settings ok p s") (auto intro: update_settings_inv)
next
  case CreateSchema
  then show "sec_inv s \<Longrightarrow> ?thesis"
    by (auto simp: create_settings_def sec_inv_def default_settings_def settings_ok_def split: option.split)
qed (auto simp: record_probe_failure_inv record_probe_success_def record_login_failure_def
      intro!: attempts_inv append_event_inv split: option.split)

interpretation sec_machine: step_invariant sec_step sec_inv
  by unfold_locales (rule sec_step_inv)

definition sec_empty :: security_state where
  "sec_empty = \<lparr>sec_events = [], sec_bans = [], sec_settings = None, attempts = Map.empty\<rparr>"

lemma sec_empty_inv: "sec_inv sec_empty"
  by (simp add: sec_inv_def sec_empty_def tbl_keyed_def attempts_ok_def)


section \<open>Brute-force threshold\<close>

text \<open>The address is subject to automatic bans.\<close>

definition guarded :: "security_settings \<Rightarrow> string \<Rightarrow> bool" where
  "guarded st ip \<longleftrightarrow> brute_force_enabled st \<and> \<not> (skip_local_ip st \<and> local_address ip)"

text \<open>A call whose database accesses all succeed within the window that opened at \<open>since\<close>.\<close>

definition prompt :: "security_settings \<Rightarrow> time \<Rightarrow> io \<Rightarrow> bool" where
  "prompt st since io \<longleftrightarrow>
     db_ok io 0 \<and> db_ok io 1 \<and> db_ok io 2 \<and> db_ok io 3 \<and>
     since \<le> clock io 1 \<and> clock io 1 \<le> since + brute_force_window_minutes st * 60"

definition probes :: "io list \<Rightarrow> string \<Rightarrow> string \<Rightarrow> security_state \<Rightarrow> security_state" where
  "probes ios v path s = run sec_step s (map (\<lambda>io. ProbeFailure io v path) ios)"

definition count_of :: "security_state \<Rightarrow> string \<Rightarrow> int" where
  "count_of s ip = (case attempts s ip of None \<Rightarrow> 0 | Some (c, _) \<Rightarrow> c)"

definition counting :: "security_settings \<Rightarrow> string \<Rightarrow> time \<Rightarrow> security_state \<Rightarrow> bool" where
  "counting st ip since s \<longleftrightarrow>
     sec_settings s = Some st \<and> tbl_get ban_ip ip (sec_bans s) = None \<and>
     (case attempts s ip of None \<Rightarrow> True | Some (_, first) \<Rightarrow> since \<le> first)"

lemma counting_not_blocked:
  "counting st ip since s \<Longrightarrow> canonical_candidate v = Some ip \<Longrightarrow> \<not> is_blocked a b now v s"
  by (auto simp: counting_def is_blocked_def split: sum.split)

lemma next_attempt_prompt:
  assumes "counting st ip since s" and "prompt st since io"
  shows "fst (next_attempt st (clock io 1) (attempts s ip)) = count_of s ip + 1"
    and "since \<le> snd (next_attempt st (clock io 1) (attempts s ip))"
  using assms
  by (auto simp: counting_def prompt_def next_attempt_def count_of_def split: option.splits)

lemma probe_counts:
  assumes "canonical_candidate v = Some ip" and "canonical_candidate ip = Some ip"
    and "guarded st ip" and "counting st ip since s" and "prompt st since io"
    and "count_of s ip + 1 < brute_force_max_failures st"
  shows "counting st ip since (record_probe_failure io v path s)"
    and "count_of (record_probe_failure io v path s) ip = count_of s ip + 1"
proof -
  obtain c f where n: "next_attempt st (clock io 1) (attempts s ip) = (c, f)" by force
  with next_attempt_prompt [OF assms(4,5)] have c: "c = count_of s ip + 1" and f: "since \<le> f" by auto
  have "record_probe_failure io v path s =
      append_event (clock io 2) ip ''probe'' path []
        (int_str c @ ''/'' @ int_str (brute_force_max_failures st)) []
        (s\<lparr>attempts := (attempts s)(ip \<mapsto> (c, f))\<rparr>)"
    using assms n c counting_not_blocked [OF assms(4,2)]
    by (auto simp: record_probe_failure_def settings_def guarded_def counting_def prompt_def)
  with assms(4) c f show "counting st ip since (record_probe_failure io v path s)"
    and "count_of (record_probe_failure io v path s) ip = count_of s ip + 1"
    by (simp_all add: counting_def count_of_def)
qed

lemma probe_bans:
  assumes "canonical_candidate v = Some ip" and "canonical_candidate ip = Some ip"
    and "guarded st ip" and "counting st ip since s" and "prompt st since io"
    and "count_of s ip + 1 = brute_force_max_failures st"
  shows "is_blocked True True now v (record_probe_failure io v path s) \<longleftrightarrow>
      now < clock io 1 + brute_force_block_minutes st * 60"
proof -
  obtain c f where n: "next_attempt st (clock io 1) (attempts s ip) = (c, f)" by force
  with next_attempt_prompt [OF assms(4,5)] have c: "c = count_of s ip + 1" by auto
  have "record_probe_failure io v path s =
      fst (projr (upsert_ban True (clock io 2) ip False [] ''brute_force'' c
        (Some (clock io 1 + brute_force_block_minutes st * 60)) ''ban'' path
        (s\<lparr>attempts := (attempts s)(ip := None)\<rparr>)))"
    using assms n c counting_not_blocked [OF assms(4,2)]
    by (auto simp: record_probe_failure_def settings_def guarded_def counting_def prompt_def
        upsert_ban_def Let_def)
  with assms show ?thesis
    by (auto simp: is_blocked_def upsert_ban_def Let_def settings_def guarded_def counting_def
        ban_active_def table_simps)
qed

lemma probes_count:
  assumes "canonical_candidate v = Some ip" and "canonical_candidate ip = Some ip"
    and "guarded st ip" and "\<forall>io \<in> set ios. prompt st since io"
    and "counting st ip since s" and "count_of s ip + int (length ios) < brute_force_max_failures st"
  shows "counting st ip since (probes ios v path s) \<and>
    count_of (probes ios v path s) ip = count_of s ip + int (length ios)"
  using assms(4-)
proof (induction ios arbitrary: s)
  case Nil
  then show ?case by (simp add: probes_def)
next
  case (Cons io ios)
  have "counting st ip since (record_probe_failure io v path s)"
    and "count_of (record_probe_failure io v path s) ip = count_of s ip + 1"
    using probe_counts [OF assms(1-3), of since s io path] Cons.prems by simp_all
  with Cons.IH [of "record_probe_failure io v path s"] Cons.prems show ?case
    by (simp add: probes_def)
qed

text \<open>
  C13: The brute-force guard. From a state with no failure counted and no ban for a guarded
  address, let as many subscription-probe failures arrive as the settings allow, all within one
  window. Before the last of them the address is never blocked; after it the address is blocked
  until exactly the configured block time has passed since the last failure.
\<close>

theorem brute_force_threshold:
  assumes canon: "canonical_candidate v = Some ip" "canonical_candidate ip = Some ip"
    and st: "sec_settings s = Some st" and guard: "guarded st ip"
    and fresh: "tbl_get ban_ip ip (sec_bans s) = None" "attempts s ip = None"
    and calls: "\<forall>io \<in> set (ios @ [io]). prompt st since io"
    and enough: "int (length (ios @ [io])) = brute_force_max_failures st"
  shows "(\<forall>k \<le> length ios. \<not> is_blocked a b now v (probes (take k ios) v path s)) \<and>
    (is_blocked True True now v (probes (ios @ [io]) v path s) \<longleftrightarrow>
       now < clock io 1 + brute_force_block_minutes st * 60)"
proof -
  have start: "counting st ip since s" and zero: "count_of s ip = 0"
    using st fresh by (simp_all add: counting_def count_of_def)
  have counts: "counting st ip since (probes (take k ios) v path s) \<and>
      count_of (probes (take k ios) v path s) ip = int (length (take k ios))" for k
  proof -
    have "\<forall>io \<in> set (take k ios). prompt st since io" using calls by (auto dest: in_set_takeD)
    moreover have "count_of s ip + int (length (take k ios)) < brute_force_max_failures st"
      using enough zero by simp
    ultimately show ?thesis
      using probes_count [OF canon guard _ start, of "take k ios" path] zero by simp
  qed
  from counts [of "length ios"] enough
  have last: "counting st ip since (probes ios v path s)"
    "count_of (probes ios v path s) ip + 1 = brute_force_max_failures st" by auto
  have "probes (ios @ [io]) v path s = record_probe_failure io v path (probes ios v path s)"
    by (simp add: probes_def run_append)
  with probe_bans [OF canon guard last(1) _ last(2), of io now path] calls counts canon(1)
  show ?thesis by (auto dest: counting_not_blocked)
qed

definition sample_state :: security_state where
  "sample_state = sec_empty\<lparr>sec_settings := Some (default_settings\<lparr>brute_force_max_failures := 2\<rparr>)\<rparr>"

definition sample_io :: io where
  "sample_io = \<lparr>db_ok = (\<lambda>_. True), clock = (\<lambda>n. 100 + int n)\<rparr>"

lemma sample_canonical: "canonical_candidate ''8.8.8.8'' = Some ''8.8.8.8''"
  by code_simp

lemma sample_guarded: "guarded (default_settings\<lparr>brute_force_max_failures := 2\<rparr>) ''8.8.8.8''"
  by code_simp

theorem brute_force_threshold_witness:
  "is_blocked True True 500 ''8.8.8.8'' (probes [sample_io, sample_io] ''8.8.8.8'' ''/p'' sample_state)
   \<and> \<not> is_blocked True True 500 ''8.8.8.8'' (probes [sample_io] ''8.8.8.8'' ''/p'' sample_state)"
  using brute_force_threshold [where ios = "[sample_io]" and io = sample_io and since = 0 and now = 500
      and a = True and b = True and path = "''/p''", OF sample_canonical sample_canonical _ sample_guarded,
      of sample_state]
  by (auto simp: sample_state_def sample_io_def sec_empty_def prompt_def default_settings_def)

section \<open>Automatic bans\<close>

text \<open>
  The automatic guard never touches any ban row but that of the offending canonical address,
  and writes that row only if the guard is enabled, the address is not an exempt local one, no
  ban is already in force, and the failure count of the window has reached the configured maximum.
\<close>

theorem automatic_ban_only_at_threshold:
  assumes "tbl_get ban_ip j (sec_bans (record_probe_failure io v path s)) \<noteq> tbl_get ban_ip j (sec_bans s)"
  shows "\<exists>st. canonical_candidate v = Some j \<and> sec_settings s = Some st \<and> guarded st j \<and>
    \<not> is_blocked (db_ok io 1) (db_ok io 2) (clock io 0) j s \<and>
    brute_force_max_failures st \<le> fst (next_attempt st (clock io 1) (attempts s j)) \<and>
    tbl_get ban_ip j (sec_bans (record_probe_failure io v path s)) =
      Some \<lparr>ban_ip = j, ban_reason = ''brute_force'', banned_at = clock io 2,
        expires_at = Some (clock io 1 + brute_force_block_minutes st * 60), permanent = False,
        fail_count = fst (next_attempt st (clock io 1) (attempts s j)), released_at = None,
        ban_actor = []\<rparr>"
  using assms
  by (auto simp: record_probe_failure_def Let_def settings_def guarded_def upsert_ban_def table_simps
      split: option.splits sum.splits prod.splits if_splits)

theorem automatic_ban_only_at_threshold_witness:
  "\<exists>st. sec_settings (probes [sample_io] ''8.8.8.8'' ''/p'' sample_state) = Some st \<and>
     brute_force_max_failures st \<le> fst (next_attempt st (clock sample_io 1)
       (attempts (probes [sample_io] ''8.8.8.8'' ''/p'' sample_state) ''8.8.8.8''))"
proof -
  have "tbl_get ban_ip ''8.8.8.8'' (sec_bans (record_probe_failure sample_io ''8.8.8.8'' ''/p''
      (probes [sample_io] ''8.8.8.8'' ''/p'' sample_state))) \<noteq>
    tbl_get ban_ip ''8.8.8.8'' (sec_bans (probes [sample_io] ''8.8.8.8'' ''/p'' sample_state))"
    by code_simp
  from automatic_ban_only_at_threshold [OF this] show ?thesis by blast
qed

section \<open>Releasing a ban\<close>

text \<open>
  Unbanning succeeds exactly when the address has a ban in force; afterwards the address is
  blocked at no time, its failure counter is gone, every other address keeps its row and its
  counter, and one \<open>unban\<close> event is appended. Otherwise nothing is changed.
\<close>

theorem unban_releases:
  assumes "canonical_candidate v = Some ip" and "db_ok io 0"
  shows "((\<exists>s'. unban io v actor s = Inr (s', ())) \<longleftrightarrow>
      (\<exists>row. tbl_get ban_ip ip (sec_bans s) = Some row \<and> ban_active (clock io 0) row)) \<and>
    (\<forall>s'. unban io v actor s = Inr (s', ()) \<longrightarrow>
      \<not> is_blocked a b now v s' \<and> attempts s' = (attempts s)(ip := None) \<and>
      (\<forall>j. j \<noteq> ip \<longrightarrow> tbl_get ban_ip j (sec_bans s') = tbl_get ban_ip j (sec_bans s)) \<and>
      length (sec_events s') = Suc (length (sec_events s)) \<and>
      ev_kind (last (sec_events s')) = ''unban'')"
proof (intro conjI allI impI)
  show "(\<exists>s'. unban io v actor s = Inr (s', ())) \<longleftrightarrow>
      (\<exists>row. tbl_get ban_ip ip (sec_bans s) = Some row \<and> ban_active (clock io 0) row)"
    using assms
    by (auto simp: unban_def Let_def ban_active_def split: option.splits if_splits)
next
  fix s' assume unbanned: "unban io v actor s = Inr (s', ())"
  with assms obtain row where row: "tbl_get ban_ip ip (sec_bans s) = Some row"
    by (auto simp: unban_def Let_def split: option.splits if_splits)
  note facts = unbanned assms row tbl_get_SomeD [OF row] and
    defs = unban_def Let_def is_blocked_def ban_active_def append_event_def table_simps
  from facts show "\<not> is_blocked a b now v s'"
    and "attempts s' = (attempts s)(ip := None)"
    and "length (sec_events s') = Suc (length (sec_events s))"
    and "ev_kind (last (sec_events s')) = ''unban''"
    and "\<And>j. j \<noteq> ip \<Longrightarrow> tbl_get ban_ip j (sec_bans s') = tbl_get ban_ip j (sec_bans s)"
    by (auto simp: defs split: option.splits sum.splits if_splits)
qed

theorem unban_releases_witness:
  "\<exists>s'. unban sample_io ''8.8.8.8'' ''root''
      (probes [sample_io, sample_io] ''8.8.8.8'' ''/p'' sample_state) = Inr (s', ())
    \<and> \<not> is_blocked True True 500 ''8.8.8.8'' s'"
proof -
  let ?s = "probes [sample_io, sample_io] ''8.8.8.8'' ''/p'' sample_state"
  note agreed = unban_releases [OF sample_canonical, of sample_io "''root''" ?s True True 500]
  have "list_ex (ban_active 100) (sec_bans ?s)
      \<and> map ban_ip (sec_bans ?s) = [''8.8.8.8'']" by code_simp
  then have "\<exists>row. tbl_get ban_ip ''8.8.8.8'' (sec_bans ?s) = Some row \<and> ban_active 100 row"
    by (cases "sec_bans ?s") (auto simp: tbl_get_Cons)
  with agreed show ?thesis by (auto simp: sample_io_def)
qed

section \<open>Settings revisions\<close>

definition revision_le :: "security_state \<Rightarrow> security_state \<Rightarrow> bool" where
  "revision_le s t \<longleftrightarrow>
     (case sec_settings s of
        None \<Rightarrow> True
      | Some a \<Rightarrow> (case sec_settings t of None \<Rightarrow> False | Some b \<Rightarrow> revision a \<le> revision b))"

lemma upsert_ban_settings: "upsert_ban ok now ip p a r f e k pa s = Inr (s', row) \<Longrightarrow>
    sec_settings s' = sec_settings s"
  by (auto simp: upsert_ban_def Let_def split: if_splits)

lemma probe_failure_settings: "sec_settings (record_probe_failure io v path s) = sec_settings s"
proof -
  have "sec_settings (commit t (upsert_ban ok now ip p a r f e k pa t)) = sec_settings t"
    for ok now ip p a r f e k pa t
    using upsert_ban_settings [of ok now ip p a r f e k pa t]
    by (cases "upsert_ban ok now ip p a r f e k pa t") auto
  then show ?thesis
    by (auto simp: record_probe_failure_def Let_def split: option.split sum.split prod.split)
qed

lemma sec_step_revision_le: "revision_le s (sec_step s c)"
proof (cases c)
  case (Ban io v perm actor)
  then show ?thesis
    by (cases "ban io v perm actor s")
       (auto simp: revision_le_def ban_def dest!: upsert_ban_settings split: option.splits sum.splits)
next
  case (Unban io v actor)
  then show ?thesis
    by (cases "unban io v actor s")
       (auto simp: revision_le_def unban_def Let_def split: option.splits if_splits)
next
  case (UpdateSettings ok p)
  then show ?thesis
    by (cases "update_settings ok p s")
       (auto simp: revision_le_def update_settings_def Let_def split: option.splits if_splits)
qed (auto simp: revision_le_def probe_failure_settings record_probe_success_def
       record_login_failure_def create_settings_def split: option.splits)

interpretation settings_clock: step_monotone sec_step revision_le
proof unfold_locales
  show "revision_le s (sec_step s c)" for s c by (rule sec_step_revision_le)
qed (auto simp: revision_le_def split: option.splits)

text \<open>
  Settings updates are not lost. Once an update based on some revision has been stored, no
  other update based on the same revision is accepted, whatever calls happen in between; the
  refused update changes nothing.
\<close>

theorem settings_update_exclusive:
  assumes "update_settings ok p s = Inr (s1, r)" and "expected_revision q = expected_revision p"
  shows "\<exists>e. update_settings ok' q (run sec_step s1 cs) = Inl e"
proof -
  obtain row where row: "sec_settings s1 = Some row" "revision row = expected_revision p + 1"
    using assms(1) by (auto simp: update_settings_def Let_def split: option.splits if_splits)
  then obtain row' where "sec_settings (run sec_step s1 cs) = Some row'"
    and "revision row \<le> revision row'"
    using settings_clock.run_le [of s1 cs] by (auto simp: revision_le_def split: option.splits)
  with row assms(2) show ?thesis by (auto simp: update_settings_def)
qed

theorem settings_update_exclusive_witness:
  "\<exists>e. update_settings True \<lparr>expected_revision = 0, new_enabled = False, new_max_failures = 3,
      new_window_minutes = 1, new_block_minutes = 1, new_skip_local = True\<rparr>
    (run sec_step (fst (projr (update_settings True
      \<lparr>expected_revision = 0, new_enabled = True, new_max_failures = 9, new_window_minutes = 1,
       new_block_minutes = 1, new_skip_local = True\<rparr> sample_state))) []) = Inl e"
  by (rule settings_update_exclusive [where ok = True and s = sample_state and
        p = "\<lparr>expected_revision = 0, new_enabled = True, new_max_failures = 9,
          new_window_minutes = 1, new_block_minutes = 1, new_skip_local = True\<rparr>"])
     (auto simp: update_settings_def sample_state_def default_settings_def Let_def)

section \<open>The ban listing\<close>

text \<open>
  The administrator's listing and the request guard agree: at one instant, a guarded address
  is blocked exactly when its canonical form is listed, and the listing is ordered by the time of
  the ban, latest first.
\<close>

theorem listing_agrees_with_guard:
  assumes "sec_inv s" and "bans io s = Inr rows" and "sec_settings s = Some st"
    and "canonical_candidate v = Some ip" and "guarded st ip"
  shows "(is_blocked True True (clock io 0) v s \<longleftrightarrow> ip \<in> ban_ip ` set rows) \<and>
    sorted_wrt (\<lambda>x y. banned_at y \<le> banned_at x) rows"
proof
  have rows: "rows = sort_key (\<lambda>row. - banned_at row) (filter (ban_active (clock io 0)) (sec_bans s))"
    using assms(2) by (auto simp: bans_def split: if_splits)
  have "ip \<in> ban_ip ` set rows \<longleftrightarrow>
      (\<exists>row \<in> set (sec_bans s). ban_ip row = ip \<and> ban_active (clock io 0) row)"
    by (auto simp: rows)
  also have "\<dots> \<longleftrightarrow> (\<exists>row. tbl_get ban_ip ip (sec_bans s) = Some row \<and> ban_active (clock io 0) row)"
    using assms(1) by (auto simp: sec_inv_def dest: tbl_get_keyed tbl_get_SomeD)
  finally show "is_blocked True True (clock io 0) v s \<longleftrightarrow> ip \<in> ban_ip ` set rows"
    using assms(3-5) by (auto simp: is_blocked_def settings_def guarded_def split: option.split)
  have "sorted (map (\<lambda>row. - banned_at row) rows)" by (simp add: rows)
  then show "sorted_wrt (\<lambda>x y. banned_at y \<le> banned_at x) rows"
    by (simp add: sorted_map)
qed

theorem listing_agrees_with_guard_witness:
  "\<exists>rows. bans sample_io (probes [sample_io, sample_io] ''8.8.8.8'' ''/p'' sample_state) = Inr rows \<and>
     (is_blocked True True 100 ''8.8.8.8'' (probes [sample_io, sample_io] ''8.8.8.8'' ''/p'' sample_state)
       \<longleftrightarrow> ''8.8.8.8'' \<in> ban_ip ` set rows)"
proof -
  let ?s = "probes [sample_io, sample_io] ''8.8.8.8'' ''/p'' sample_state"
  have "sec_inv sample_state"
    by (simp add: sec_inv_def sample_state_def sec_empty_def tbl_keyed_def attempts_ok_def
        settings_ok_def default_settings_def)
  then have inv: "sec_inv ?s" unfolding probes_def by (rule sec_machine.run_inv)
  have rows: "bans sample_io ?s = Inr (projr (bans sample_io ?s))"
    by (simp add: bans_def sample_io_def)
  have "sec_settings ?s = Some (default_settings\<lparr>brute_force_max_failures := 2\<rparr>)"
    by (simp add: probes_def probe_failure_settings sample_state_def)
  from listing_agrees_with_guard [OF inv rows this sample_canonical sample_guarded] rows
  show ?thesis by (auto simp: sample_io_def)
qed

end
