(* ===== verification/Backup_Barrier.thy ===== *)
theory Backup_Barrier
  imports Prelude
begin

text \<open>
  The backup admission barrier: \<open>backend/app/open_node/services/backup_coordination.py\<close>.
  One \<open>BackupWriteBarrier\<close> instance is the record \<open>barrier\<close>; the advisory lock on its file is
  the table \<open>ofds\<close> of open file descriptions, ours and those of other processes, each with the
  lock it holds and the number of descriptors that refer to it (a child that inherited
  \<open>lease.child_fds\<close> keeps one). A description disappears, and its lock with it, when the last
  descriptor is closed. \<open>operation\<close> is the pair \<open>op_enter\<close>/\<open>op_exit\<close>; \<open>snapshot\<close> is the phases
  from \<open>snap_start\<close> over \<open>snap_poll\<close> (one call per turn of its waiting loops) to \<open>snap_finish\<close>.
  Whether a file check succeeds and whether the deadline has passed are inputs of the calls.
\<close>

datatype kind = Work | Agent

datatype backup_error = BackupCoordinationError | BackupBusyError

datatype lock_mode = LockShared | LockExclusive

section \<open>The lock file\<close>

text \<open>\<open>os.stat_result\<close> as far as the code reads it.\<close>

record file_stat =
  st_regular :: bool
  st_perms :: nat
  st_uid :: nat
  st_nlink :: nat
  st_dev :: nat
  st_ino :: nat

text \<open>\<open>_regular\<close>: a private, singly linked regular file of the effective user (0600 is 384).\<close>

definition regular :: "nat \<Rightarrow> file_stat \<Rightarrow> bool" where
  "regular euid info \<longleftrightarrow>
     st_regular info \<and> st_perms info = 384 \<and> st_uid info = euid \<and> st_nlink info = 1"

text \<open>
  \<open>_check_lock\<close>: the parent's owner and write bits (022), then the anchor, the name and the held
  descriptor, each a regular file with the pinned inode. \<open>None\<close> is an \<open>OSError\<close>.
\<close>

definition group_other_writable :: "nat \<Rightarrow> bool" where
  "group_other_writable perms \<longleftrightarrow> odd (perms div 16) \<or> odd (perms div 2)"

definition check_lock ::
  "bool \<Rightarrow> nat \<Rightarrow> nat \<times> nat \<Rightarrow> file_stat option \<Rightarrow> file_stat option list \<Rightarrow> backup_error + unit"
where
  "check_lock anchored euid inode parent infos =
     (if \<not> anchored then Inr ()
      else case parent of
        None \<Rightarrow> Inl BackupCoordinationError
      | Some p \<Rightarrow>
          if (st_uid p \<noteq> 0 \<and> st_uid p \<noteq> euid) \<or> group_other_writable (st_perms p)
          then Inl BackupCoordinationError
          else if list_all (\<lambda>i. case i of None \<Rightarrow> False
                 | Some info \<Rightarrow> regular euid info \<and> (st_dev info, st_ino info) = inode) infos
          then Inr () else Inl BackupCoordinationError)"

section \<open>State\<close>

record ofd =
  ofd_id :: nat
  ofd_mode :: "lock_mode option"
  ofd_refs :: nat

record lease_record =
  rec_id :: nat
  rec_kind :: kind
  rec_fd :: "nat option"
  holders :: "nat list"

text \<open>A lease remembers its record and what \<open>ContextVar.reset\<close> restores.\<close>

record lease =
  lease_id :: nat
  lease_rec :: nat
  lease_ctx :: nat
  lease_prev :: "nat option"

datatype phase = Idle | WaitWork | WaitAgent | Acquiring nat | Held nat

record barrier =
  closed :: bool
  anchored :: bool
  records :: "lease_record list"
  leases :: "lease list"
  context_of :: "nat \<Rightarrow> nat option"
  work_paused :: bool
  agent_paused :: bool
  phase_of :: phase
  ofds :: "ofd list"
  fresh :: nat

definition new_barrier :: "bool \<Rightarrow> barrier" where
  "new_barrier anch = \<lparr>closed = False, anchored = anch, records = [], leases = [],
     context_of = (\<lambda>_. None), work_paused = False, agent_paused = False, phase_of = Idle,
     ofds = [], fresh = 0\<rparr>"

section \<open>flock\<close>

text \<open>
  A shared request on description \<open>fd\<close> is granted unless another description holds the lock
  exclusively; an exclusive one unless another holds it at all.
\<close>

definition may_lock :: "lock_mode \<Rightarrow> nat \<Rightarrow> ofd list \<Rightarrow> bool" where
  "may_lock m fd table =
     list_all (\<lambda>d. ofd_id d = fd \<or> ofd_mode d = None \<or>
        (m = LockShared \<and> ofd_mode d = Some LockShared)) table"

definition set_lock :: "lock_mode \<Rightarrow> nat \<Rightarrow> ofd list \<Rightarrow> ofd list" where
  "set_lock m fd table = tbl_upd (\<lambda>d. ofd_id d = fd) (\<lambda>d. d\<lparr>ofd_mode := Some m\<rparr>) table"

definition open_fd :: "nat \<Rightarrow> ofd list \<Rightarrow> ofd list" where
  "open_fd fd table = table @ [\<lparr>ofd_id = fd, ofd_mode = None, ofd_refs = 1\<rparr>]"

definition close_fd :: "nat \<Rightarrow> ofd list \<Rightarrow> ofd list" where
  "close_fd fd table =
     filter (\<lambda>d. 0 < ofd_refs d)
       (tbl_upd (\<lambda>d. ofd_id d = fd) (\<lambda>d. d\<lparr>ofd_refs := ofd_refs d - 1\<rparr>) table)"

definition inherit_fd :: "nat \<Rightarrow> ofd list \<Rightarrow> ofd list" where
  "inherit_fd fd table = tbl_upd (\<lambda>d. ofd_id d = fd) (\<lambda>d. d\<lparr>ofd_refs := Suc (ofd_refs d)\<rparr>) table"

section \<open>Operations\<close>

text \<open>\<open>_record_active\<close>.\<close>

definition record_active :: "barrier \<Rightarrow> nat option \<Rightarrow> bool" where
  "record_active b r =
     (case r of None \<Rightarrow> False
      | Some i \<Rightarrow> list_ex (\<lambda>x. rec_id x = i \<and> holders x \<noteq> []) (records b))"

definition paused :: "barrier \<Rightarrow> kind \<Rightarrow> bool" where
  "paused b k = (case k of Work \<Rightarrow> work_paused b | Agent \<Rightarrow> agent_paused b)"

text \<open>The context's live record, if it has the requested kind: the one a nested call joins.\<close>

definition joinable :: "barrier \<Rightarrow> nat \<Rightarrow> kind \<Rightarrow> nat option" where
  "joinable b ctx k =
     (case context_of b ctx of None \<Rightarrow> None
      | Some i \<Rightarrow>
          if record_active b (Some i) \<and> list_ex (\<lambda>x. rec_id x = i \<and> rec_kind x = k) (records b)
          then Some i else None)"

definition add_holder :: "nat \<Rightarrow> nat \<Rightarrow> lease_record list \<Rightarrow> lease_record list" where
  "add_holder i l rs = tbl_upd (\<lambda>x. rec_id x = i) (\<lambda>x. x\<lparr>holders := l # holders x\<rparr>) rs"

text \<open>
  \<open>operation\<close> up to its \<open>yield\<close>. \<open>pid_ok\<close> is \<open>_check_pid\<close>; \<open>checks\<close> is the first \<open>_check_lock\<close>,
  \<open>fd_checks\<close> says whether opening the lock file and the checks on its descriptor succeed. A
  refused flock closes the descriptor again. The result is the new lease's identity; the counter
  \<open>fresh\<close> supplies identities.
\<close>

definition op_enter ::
  "bool \<Rightarrow> bool \<Rightarrow> bool \<Rightarrow> nat \<Rightarrow> kind \<Rightarrow> barrier \<Rightarrow> backup_error + (barrier \<times> nat)" where
  "op_enter pid_ok checks fd_checks ctx k b =
     (if \<not> pid_ok \<or> closed b \<or> \<not> checks then Inl BackupCoordinationError
      else case joinable b ctx k of
        Some i \<Rightarrow>
          if \<not> fd_checks then Inl BackupCoordinationError else
          let l = fresh b
          in Inr (b\<lparr>records := add_holder i l (records b),
                 leases := \<lparr>lease_id = l, lease_rec = i, lease_ctx = ctx,
                    lease_prev = context_of b ctx\<rparr> # leases b,
                 context_of := (context_of b)(ctx := Some i), fresh := Suc l\<rparr>, l)
      | None \<Rightarrow>
          if paused b k then Inl BackupBusyError
          else
            let fd = fresh b; i = Suc fd; l = Suc i;
                enter = (\<lambda>held table.
                  b\<lparr>records := \<lparr>rec_id = i, rec_kind = k, rec_fd = held, holders = [l]\<rparr> # records b,
                    leases := \<lparr>lease_id = l, lease_rec = i, lease_ctx = ctx,
                       lease_prev = context_of b ctx\<rparr> # leases b,
                    context_of := (context_of b)(ctx := Some i), ofds := table, fresh := Suc l\<rparr>)
            in if \<not> anchored b then Inr (enter None (ofds b), l)
               else if \<not> fd_checks then Inl BackupCoordinationError
               else if \<not> may_lock LockShared fd (open_fd fd (ofds b)) then Inl BackupBusyError
               else Inr (enter (Some fd) (set_lock LockShared fd (open_fd fd (ofds b))), l))"

text \<open>\<open>_release\<close>: the last holder closes the descriptor.\<close>

definition release :: "lease \<Rightarrow> barrier \<Rightarrow> backup_error + barrier" where
  "release l b =
     (case tbl_get rec_id (lease_rec l) (records b) of
        None \<Rightarrow> Inl BackupCoordinationError
      | Some r \<Rightarrow>
          if lease_id l \<notin> set (holders r) then Inl BackupCoordinationError
          else
            let rest = removeAll (lease_id l) (holders r) in
            if rest \<noteq> []
            then Inr (b\<lparr>records :=
                   tbl_upd (\<lambda>x. rec_id x = rec_id r) (\<lambda>x. x\<lparr>holders := rest\<rparr>) (records b)\<rparr>)
            else Inr (b\<lparr>records := tbl_del rec_id (rec_id r) (records b),
                   ofds := (case rec_fd r of None \<Rightarrow> ofds b | Some fd \<Rightarrow> close_fd fd (ofds b))\<rparr>))"

text \<open>The \<open>finally\<close> of \<open>operation\<close>: restore the context variable, then release.\<close>

definition op_exit :: "bool \<Rightarrow> nat \<Rightarrow> barrier \<Rightarrow> backup_error + barrier" where
  "op_exit pid_ok l b =
     (if \<not> pid_ok then Inl BackupCoordinationError
      else case tbl_get lease_id l (leases b) of
        None \<Rightarrow> Inl BackupCoordinationError
      | Some le \<Rightarrow>
          release le (b\<lparr>leases := tbl_del lease_id l (leases b),
            context_of := (context_of b)(lease_ctx le := lease_prev le)\<rparr>))"

text \<open>\<open>BackupWriteLease.child_fds\<close>: the descriptors a child may inherit.\<close>

definition child_fds :: "bool \<Rightarrow> bool \<Rightarrow> nat \<Rightarrow> barrier \<Rightarrow> backup_error + nat list" where
  "child_fds pid_ok checks l b =
     (if \<not> pid_ok \<or> closed b then Inl BackupCoordinationError
      else case tbl_get lease_id l (leases b) of
        None \<Rightarrow> Inl BackupCoordinationError
      | Some le \<Rightarrow>
          (case tbl_get rec_id (lease_rec le) (records b) of
             None \<Rightarrow> Inl BackupCoordinationError
           | Some r \<Rightarrow>
               if l \<notin> set (holders r) \<or> \<not> checks then Inl BackupCoordinationError
               else Inr (case rec_fd r of None \<Rightarrow> [] | Some fd \<Rightarrow> [fd])))"

section \<open>Snapshots\<close>

text \<open>
  Entry of \<open>snapshot\<close> for a valid timeout: only on an anchored, open barrier, outside any live
  operation of the calling context, one at a time.
\<close>

definition snap_start :: "bool \<Rightarrow> bool \<Rightarrow> nat \<Rightarrow> barrier \<Rightarrow> backup_error + barrier" where
  "snap_start pid_ok checks ctx b =
     (if \<not> pid_ok \<or> closed b \<or> \<not> anchored b then Inl BackupCoordinationError
      else if phase_of b \<noteq> Idle \<or> record_active b (context_of b ctx) then Inl BackupBusyError
      else if \<not> checks then Inl BackupCoordinationError
      else Inr (b\<lparr>phase_of := WaitWork, work_paused := True\<rparr>))"

definition any_kind :: "kind \<Rightarrow> barrier \<Rightarrow> bool" where
  "any_kind k b = list_ex (\<lambda>r. rec_kind r = k) (records b)"

text \<open>The \<open>finally\<close> of \<open>snapshot\<close>.\<close>

definition snap_finish :: "barrier \<Rightarrow> barrier" where
  "snap_finish b =
     (let table = (case phase_of b of
            Held fd \<Rightarrow> close_fd fd (ofds b) | Acquiring fd \<Rightarrow> close_fd fd (ofds b) | _ \<Rightarrow> ofds b)
      in b\<lparr>ofds := table, phase_of := Idle, work_paused := False, agent_paused := False\<rparr>)"

text \<open>
  One turn of the waiting loops. \<open>try_once\<close> is \<open>timeout=0\<close> (no deadline: the first obstacle is
  final), \<open>expired\<close> that the deadline has passed. An abort runs the \<open>finally\<close> block; its error is
  the second component.
\<close>

definition snap_poll :: "bool \<Rightarrow> bool \<Rightarrow> bool \<Rightarrow> barrier \<Rightarrow> barrier \<times> backup_error option" where
  "snap_poll try_once expired checks b =
     (let late = (\<not> try_once \<and> expired);
          busy = (snap_finish b, Some BackupBusyError)
      in case phase_of b of
           WaitWork \<Rightarrow>
             if any_kind Work b then (if try_once \<or> expired then busy else (b, None))
             else if late then busy
             else (b\<lparr>agent_paused := True, phase_of := WaitAgent\<rparr>, None)
         | WaitAgent \<Rightarrow>
             if any_kind Agent b then (if try_once \<or> expired then busy else (b, None))
             else if late then busy
             else if \<not> checks then (snap_finish b, Some BackupCoordinationError)
             else (b\<lparr>phase_of := Acquiring (fresh b), ofds := open_fd (fresh b) (ofds b),
                    fresh := Suc (fresh b)\<rparr>, None)
         | Acquiring fd \<Rightarrow>
             if \<not> checks then (snap_finish b, Some BackupCoordinationError)
             else if late then busy
             else if may_lock LockExclusive fd (ofds b)
             then (b\<lparr>phase_of := Held fd, ofds := set_lock LockExclusive fd (ofds b)\<rparr>, None)
             else if try_once \<or> expired then busy else (b, None)
         | _ \<Rightarrow> (b, None))"

text \<open>\<open>BackupSnapshotPermit.assert_active\<close>; the permit exists in phase \<open>Held\<close> only.\<close>

definition assert_active :: "bool \<Rightarrow> bool \<Rightarrow> nat \<Rightarrow> barrier \<Rightarrow> backup_error + unit" where
  "assert_active pid_ok checks permit b =
     (if \<not> pid_ok \<or> closed b \<or> phase_of b \<noteq> Held permit \<or> \<not> checks
      then Inl BackupCoordinationError else Inr ())"

text \<open>\<open>close\<close>.\<close>

definition close_barrier :: "bool \<Rightarrow> barrier \<Rightarrow> backup_error + barrier" where
  "close_barrier pid_ok b =
     (if \<not> pid_ok then Inl BackupCoordinationError
      else if closed b then Inr b
      else if records b \<noteq> [] \<or> phase_of b \<noteq> Idle then Inl BackupBusyError
      else Inr (b\<lparr>closed := True\<rparr>))"

section \<open>The barrier as a machine\<close>

text \<open>
  Besides the instance's own calls: a child inherits a lease's descriptors, and the rest of the
  world (children, other instances, other processes) opens, locks and closes descriptions that
  are not ours, under the kernel's rule.
\<close>

definition rec_fds :: "lease_record list \<Rightarrow> nat list" where
  "rec_fds rs = concat (map (\<lambda>r. case rec_fd r of None \<Rightarrow> [] | Some fd \<Rightarrow> [fd]) rs)"

definition own_fds :: "barrier \<Rightarrow> nat list" where
  "own_fds b = rec_fds (records b)
     @ (case phase_of b of Held fd \<Rightarrow> [fd] | Acquiring fd \<Rightarrow> [fd] | _ \<Rightarrow> [])"

datatype bcall =
    Enter bool bool bool nat kind
  | Exit bool nat
  | Inherit bool bool nat
  | SnapStart bool bool nat
  | SnapPoll bool bool bool
  | SnapFinish
  | Close bool
  | WorldOpen
  | WorldLock lock_mode nat
  | WorldClose nat

fun barrier_step :: "barrier \<Rightarrow> bcall \<Rightarrow> barrier" where
  "barrier_step b (Enter p c f ctx k) = commit b (op_enter p c f ctx k b)"
| "barrier_step b (Exit p l) = (case op_exit p l b of Inl _ \<Rightarrow> b | Inr b' \<Rightarrow> b')"
| "barrier_step b (Inherit p c l) =
     (case child_fds p c l b of
        Inl _ \<Rightarrow> b | Inr fds \<Rightarrow> b\<lparr>ofds := foldr inherit_fd fds (ofds b)\<rparr>)"
| "barrier_step b (SnapStart p c ctx) = (case snap_start p c ctx b of Inl _ \<Rightarrow> b | Inr b' \<Rightarrow> b')"
| "barrier_step b (SnapPoll t e c) = fst (snap_poll t e c b)"
| "barrier_step b SnapFinish = (case phase_of b of Held _ \<Rightarrow> snap_finish b | _ \<Rightarrow> b)"
| "barrier_step b (Close p) = (case close_barrier p b of Inl _ \<Rightarrow> b | Inr b' \<Rightarrow> b')"
| "barrier_step b WorldOpen = b\<lparr>ofds := open_fd (fresh b) (ofds b), fresh := Suc (fresh b)\<rparr>"
| "barrier_step b (WorldLock m fd) =
     (if fd \<notin> set (own_fds b) \<and> may_lock m fd (ofds b)
      then b\<lparr>ofds := set_lock m fd (ofds b)\<rparr> else b)"
| "barrier_step b (WorldClose fd) =
     (if fd \<notin> set (own_fds b) \<or> list_ex (\<lambda>d. ofd_id d = fd \<and> 2 \<le> ofd_refs d) (ofds b)
      then b\<lparr>ofds := close_fd fd (ofds b)\<rparr> else b)"

section \<open>The lock table\<close>

definition holds :: "ofd list \<Rightarrow> nat \<Rightarrow> lock_mode option \<Rightarrow> bool" where
  "holds table fd m \<longleftrightarrow> (\<exists>d \<in> set table. ofd_id d = fd \<and> ofd_mode d = m)"

text \<open>An exclusive lock is the only lock.\<close>

definition exclusive_alone :: "ofd list \<Rightarrow> bool" where
  "exclusive_alone table \<longleftrightarrow>
     (\<forall>fd fd' m. holds table fd (Some LockExclusive) \<longrightarrow> holds table fd' (Some m) \<longrightarrow> fd' = fd)"

definition table_inv :: "nat \<Rightarrow> ofd list \<Rightarrow> bool" where
  "table_inv n table \<longleftrightarrow>
     distinct (map ofd_id table) \<and> (\<forall>d \<in> set table. ofd_id d < n) \<and>
     (\<forall>d \<in> set table. 0 < ofd_refs d) \<and> exclusive_alone table"

lemma holds_open: "holds (open_fd k t) fd m \<longleftrightarrow> holds t fd m \<or> (fd = k \<and> m = None)"
  by (auto simp: holds_def open_fd_def)

lemma holds_lock:
  "holds (set_lock l k t) fd m \<longleftrightarrow>
     (if fd = k then m = Some l \<and> (\<exists>m'. holds t k m') else holds t fd m)"
  unfolding holds_def set_lock_def bex_tbl_upd by auto

lemma holds_inherit: "holds (inherit_fd k t) fd m \<longleftrightarrow> holds t fd m"
  unfolding holds_def inherit_fd_def bex_tbl_upd
  by (rule bex_cong [OF refl]) (simp split: if_split)

lemma holds_close_imp: "holds (close_fd k t) fd m \<Longrightarrow> holds t fd m"
  by (auto simp: holds_def close_fd_def tbl_upd_def)

lemma may_lock_holds:
  "may_lock m fd t \<longleftrightarrow>
     (\<forall>fd' m'. holds t fd' (Some m') \<longrightarrow> fd' = fd \<or> (m = LockShared \<and> m' = LockShared))"
  unfolding may_lock_def list_all_iff holds_def by (auto; force)

lemma table_inv_mono: "table_inv n t \<Longrightarrow> n \<le> m \<Longrightarrow> table_inv m t"
  unfolding table_inv_def by (meson less_le_trans)

lemma table_inv_open: "table_inv n t \<Longrightarrow> table_inv (Suc n) (open_fd n t)"
  unfolding table_inv_def exclusive_alone_def holds_open
  by (auto simp: open_fd_def less_Suc_eq)

lemma exclusive_lock: "exclusive_alone t \<Longrightarrow> may_lock m fd t \<Longrightarrow> exclusive_alone (set_lock m fd t)"
  unfolding exclusive_alone_def may_lock_holds holds_lock
  by (metis lock_mode.distinct(1) option.inject)

lemma table_inv_lock:
  assumes "table_inv n t" and "may_lock m fd t"
  shows "table_inv n (set_lock m fd t)"
proof -
  have "exclusive_alone (set_lock m fd t)"
    using assms by (simp add: table_inv_def exclusive_lock)
  moreover have "\<forall>d \<in> set (set_lock m fd t). ofd_id d < n"
    and "\<forall>d \<in> set (set_lock m fd t). 0 < ofd_refs d"
    using assms unfolding table_inv_def set_lock_def ball_tbl_upd by auto
  moreover have "distinct (map ofd_id (set_lock m fd t))"
    using assms by (simp add: table_inv_def set_lock_def map_tbl_upd)
  ultimately show ?thesis by (simp add: table_inv_def)
qed

lemma table_inv_inherit: "table_inv n t \<Longrightarrow> table_inv n (inherit_fd k t)"
proof -
  assume t: "table_inv n t"
  then have "exclusive_alone (inherit_fd k t)"
    unfolding table_inv_def exclusive_alone_def holds_inherit by blast
  moreover have "\<forall>d \<in> set (inherit_fd k t). ofd_id d < n"
    and "\<forall>d \<in> set (inherit_fd k t). 0 < ofd_refs d"
    using t unfolding table_inv_def inherit_fd_def ball_tbl_upd by auto
  moreover have "distinct (map ofd_id (inherit_fd k t))"
    using t by (simp add: table_inv_def inherit_fd_def map_tbl_upd)
  ultimately show ?thesis by (simp add: table_inv_def)
qed

lemma table_inv_close: "table_inv n t \<Longrightarrow> table_inv n (close_fd k t)"
proof -
  assume t: "table_inv n t"
  then have "exclusive_alone (close_fd k t)"
    unfolding table_inv_def exclusive_alone_def by (blast dest: holds_close_imp)
  moreover have "\<forall>d \<in> set (close_fd k t). ofd_id d < n"
    using t by (auto simp: table_inv_def close_fd_def tbl_upd_def)
  moreover have "distinct (map ofd_id (close_fd k t))"
    using t unfolding close_fd_def by (simp add: table_inv_def map_tbl_upd distinct_map_filter)
  moreover have "\<forall>d \<in> set (close_fd k t). 0 < ofd_refs d" by (simp add: close_fd_def)
  ultimately show ?thesis by (simp add: table_inv_def)
qed

lemma holds_close_other:
  assumes "table_inv n t" and "holds t fd m" and "fd \<noteq> k"
  shows "holds (close_fd k t) fd m"
proof -
  obtain d where d: "d \<in> set t" "ofd_id d = fd" "ofd_mode d = m" "0 < ofd_refs d"
    using assms(1,2) by (auto simp: holds_def table_inv_def)
  with assms(3) have "d \<in> set (close_fd k t)" by (force simp: close_fd_def tbl_upd_def)
  with d show ?thesis by (auto simp: holds_def)
qed

lemma holds_close_shared:
  assumes "table_inv n t" and "holds t k m"
    and "list_ex (\<lambda>d. ofd_id d = k \<and> 2 \<le> ofd_refs d) t"
  shows "holds (close_fd k t) k m"
proof -
  obtain d where d: "d \<in> set t" "ofd_id d = k" "ofd_mode d = m"
    using assms(2) by (auto simp: holds_def)
  obtain e where e: "e \<in> set t" "ofd_id e = k" "2 \<le> ofd_refs e"
    using assms(3) by (auto simp: list_ex_iff)
  have "inj_on ofd_id (set t)" using assms(1) by (simp add: table_inv_def distinct_map)
  with e d have "e = d" by (auto dest: inj_onD)
  with d e have "d\<lparr>ofd_refs := ofd_refs d - 1\<rparr> \<in> set (close_fd k t)"
    by (force simp: close_fd_def tbl_upd_def)
  moreover have "ofd_id (d\<lparr>ofd_refs := ofd_refs d - 1\<rparr>) = k"
    and "ofd_mode (d\<lparr>ofd_refs := ofd_refs d - 1\<rparr>) = m" using d by simp_all
  ultimately show ?thesis unfolding holds_def by blast
qed

lemma holds_less: "table_inv n t \<Longrightarrow> holds t fd m \<Longrightarrow> fd < n"
  by (auto simp: holds_def table_inv_def)

section \<open>Invariant\<close>

definition recs_inv :: "nat \<Rightarrow> bool \<Rightarrow> ofd list \<Rightarrow> lease_record list \<Rightarrow> bool" where
  "recs_inv n anch table rs \<longleftrightarrow>
     distinct (map rec_id rs) \<and> distinct (rec_fds rs) \<and>
     (\<forall>r \<in> set rs. holders r \<noteq> [] \<and> rec_id r < n \<and>
        (case rec_fd r of None \<Rightarrow> \<not> anch | Some fd \<Rightarrow> holds table fd (Some LockShared)))"

definition leases_inv :: "nat \<Rightarrow> lease_record list \<Rightarrow> lease list \<Rightarrow> bool" where
  "leases_inv n rs ls \<longleftrightarrow>
     distinct (map lease_id ls) \<and>
     (\<forall>l \<in> set ls. lease_id l < n \<and>
        (\<exists>r \<in> set rs. rec_id r = lease_rec l \<and> lease_id l \<in> set (holders r)))"

definition phase_inv :: "barrier \<Rightarrow> bool" where
  "phase_inv b \<longleftrightarrow>
     (work_paused b \<longleftrightarrow> phase_of b \<noteq> Idle) \<and>
     (agent_paused b \<longleftrightarrow> phase_of b \<notin> {Idle, WaitWork}) \<and>
     (case phase_of b of
        Idle \<Rightarrow> True
      | WaitWork \<Rightarrow> anchored b
      | WaitAgent \<Rightarrow> anchored b \<and> \<not> any_kind Work b
      | Acquiring fd \<Rightarrow> anchored b \<and> records b = [] \<and> holds (ofds b) fd None
      | Held fd \<Rightarrow> anchored b \<and> records b = [] \<and> holds (ofds b) fd (Some LockExclusive))"

definition bar_inv :: "barrier \<Rightarrow> bool" where
  "bar_inv b \<longleftrightarrow>
     table_inv (fresh b) (ofds b) \<and> recs_inv (fresh b) (anchored b) (ofds b) (records b) \<and>
     leases_inv (fresh b) (records b) (leases b) \<and> phase_inv b"

lemma rec_fds_Cons: "rec_fds (r # rs) = (case rec_fd r of None \<Rightarrow> [] | Some fd \<Rightarrow> [fd]) @ rec_fds rs"
  by (simp add: rec_fds_def)

lemma in_rec_fds: "fd \<in> set (rec_fds rs) \<longleftrightarrow> (\<exists>r \<in> set rs. rec_fd r = Some fd)"
  by (induction rs) (auto simp: rec_fds_def split: option.splits)

lemma rec_fds_upd: "(\<And>r. rec_fd (f r) = rec_fd r) \<Longrightarrow> rec_fds (tbl_upd p f rs) = rec_fds rs"
  by (simp add: rec_fds_def map_tbl_upd)

lemma rec_fds_del: "distinct (rec_fds rs) \<Longrightarrow> distinct (rec_fds (tbl_del rec_id i rs))"
  by (induction rs)
     (auto simp: tbl_del_def rec_fds_Cons in_rec_fds split: option.splits)

lemma rec_fds_own: "fd \<in> set (rec_fds (records b)) \<Longrightarrow> fd \<in> set (own_fds b)"
  by (simp add: own_fds_def)

lemma recs_inv_table:
  assumes "recs_inv n anch t rs" and "n \<le> m"
    and "\<And>fd. fd \<in> set (rec_fds rs) \<Longrightarrow> holds t fd (Some LockShared) \<Longrightarrow> holds t' fd (Some LockShared)"
  shows "recs_inv m anch t' rs"
  using assms unfolding recs_inv_def in_rec_fds
  by (fastforce split: option.splits)

lemma recs_inv_Nil [simp]: "recs_inv n anch t []"
  by (simp add: recs_inv_def rec_fds_def)

lemma recs_inv_upd:
  assumes "recs_inv n anch t rs" and "\<And>r. rec_id (f r) = rec_id r" and "\<And>r. rec_fd (f r) = rec_fd r"
    and "\<And>r. p r \<Longrightarrow> holders (f r) \<noteq> []"
  shows "recs_inv n anch t (tbl_upd p f rs)"
  using assms unfolding recs_inv_def ball_tbl_upd
  by (simp add: map_tbl_upd rec_fds_upd)

lemma recs_inv_Cons:
  assumes "recs_inv n anch t rs" and "n \<le> i" and "i < m" and "n \<le> m"
    and "case fd of None \<Rightarrow> \<not> anch | Some k \<Rightarrow> holds t k (Some LockShared) \<and> k \<notin> set (rec_fds rs)"
    and "hs \<noteq> []"
  shows "recs_inv m anch t (\<lparr>rec_id = i, rec_kind = k, rec_fd = fd, holders = hs\<rparr> # rs)"
  using assms unfolding recs_inv_def
  by (fastforce simp: rec_fds_Cons split: option.splits)

lemma recs_inv_del:
  assumes "table_inv n t" and "recs_inv n anch t rs" and "tbl_get rec_id i rs = Some r"
  shows "recs_inv n anch (case rec_fd r of None \<Rightarrow> t | Some fd \<Rightarrow> close_fd fd t) (tbl_del rec_id i rs)"
proof -
  have del: "recs_inv n anch t (tbl_del rec_id i rs)"
    using assms(2) rec_fds_del [of rs i] by (auto simp: recs_inv_def tbl_del_def distinct_map_filter)
  have gone: "fd \<notin> set (rec_fds (tbl_del rec_id i rs))" if "rec_fd r = Some fd" for fd
    using assms(2,3) that
  proof (induction rs)
    case Nil
    then show ?case by simp
  next
    case (Cons x rs)
    have inv: "recs_inv n anch t rs"
      using Cons.prems(1) by (auto simp: recs_inv_def rec_fds_Cons)
    show ?case
    proof (cases "rec_id x = i")
      case True
      with Cons.prems have "x = r" and "fd \<notin> set (rec_fds rs)"
        by (auto simp: tbl_get_Cons recs_inv_def rec_fds_Cons)
      with True show ?thesis by (auto simp: tbl_del_def in_rec_fds)
    next
      case False
      with Cons.prems have r: "tbl_get rec_id i rs = Some r" by (simp add: tbl_get_Cons)
      then have "r \<in> set rs" by (auto dest: tbl_get_SomeD)
      with Cons.prems(1) that have "rec_fd x \<noteq> Some fd"
        by (auto simp: recs_inv_def rec_fds_Cons in_rec_fds)
      with Cons.IH [OF inv r that] False show ?thesis
        by (auto simp: tbl_del_def in_rec_fds)
    qed
  qed
  show ?thesis
  proof (cases "rec_fd r")
    case None
    with del show ?thesis by simp
  next
    case (Some fd)
    show ?thesis unfolding Some option.case
    proof (rule recs_inv_table [OF del order_refl])
      fix k assume "k \<in> set (rec_fds (tbl_del rec_id i rs))" and "holds t k (Some LockShared)"
      with gone [OF Some] show "holds (close_fd fd t) k (Some LockShared)"
        by (intro holds_close_other [OF assms(1)]) auto
    qed
  qed
qed

lemma leases_inv_mono: "leases_inv n rs ls \<Longrightarrow> n \<le> m \<Longrightarrow> leases_inv m rs ls"
  unfolding leases_inv_def by (meson less_le_trans)

lemma new_barrier_inv: "bar_inv (new_barrier anch)"
  by (simp add: bar_inv_def new_barrier_def table_inv_def exclusive_alone_def holds_def recs_inv_def
      rec_fds_def leases_inv_def phase_inv_def)

text \<open>Each call keeps the invariant.\<close>

lemma joinableD:
  assumes "joinable b ctx k = Some i"
  shows "context_of b ctx = Some i \<and> (\<exists>r \<in> set (records b). rec_id r = i \<and> holders r \<noteq> [])
    \<and> (\<exists>r \<in> set (records b). rec_id r = i \<and> rec_kind r = k)"
  using assms
  by (auto simp: joinable_def record_active_def list_ex_iff split: option.splits if_splits)

lemma phase_inv_upd_records:
  assumes "phase_inv b" and "records b \<noteq> []" and "map rec_kind rs = map rec_kind (records b)"
  shows "phase_inv (b\<lparr>records := rs, leases := ls, context_of := c, fresh := n\<rparr>)"
proof -
  have "list_ex (\<lambda>r. rec_kind r = k) rs = list_ex (\<lambda>r. rec_kind r = k) (records b)" for k
  proof -
    have "list_ex (\<lambda>x. x = k) (map rec_kind rs) = list_ex (\<lambda>x. x = k) (map rec_kind (records b))"
      by (simp only: assms(3))
    then show ?thesis by (simp add: list_ex_iff image_iff) metis
  qed
  with assms show ?thesis
    by (cases "phase_of b") (simp_all add: phase_inv_def any_kind_def)
qed

lemma op_enter_join_inv:
  assumes inv: "bar_inv b" and join: "joinable b ctx k = Some i"
    and enter: "op_enter p c f ctx k b = Inr (b', l)"
  shows "bar_inv b'"
proof -
  let ?rs = "add_holder i (fresh b) (records b)"
  let ?l = "\<lparr>lease_id = fresh b, lease_rec = i, lease_ctx = ctx, lease_prev = context_of b ctx\<rparr>"
  have b': "b' = b\<lparr>records := ?rs, leases := ?l # leases b,
      context_of := (context_of b)(ctx := Some i), fresh := Suc (fresh b)\<rparr>"
    using enter join by (auto simp: op_enter_def Let_def split: if_splits)
  obtain r where r: "r \<in> set (records b)" "rec_id r = i" using joinableD [OF join] by blast
  have "recs_inv (fresh b) (anchored b) (ofds b) ?rs"
    unfolding add_holder_def using inv by (intro recs_inv_upd) (simp_all add: bar_inv_def)
  then have recs: "recs_inv (Suc (fresh b)) (anchored b) (ofds b) ?rs"
    by (rule recs_inv_table) simp_all
  have "leases_inv (Suc (fresh b)) ?rs (?l # leases b)"
    using inv r unfolding bar_inv_def leases_inv_def add_holder_def bex_tbl_upd
    by (fastforce simp: less_Suc_eq)
  moreover have "phase_inv b'"
    unfolding b' using inv r by (intro phase_inv_upd_records)
      (auto simp: bar_inv_def add_holder_def map_tbl_upd)
  moreover have "table_inv (Suc (fresh b)) (ofds b)"
    using inv by (auto simp: bar_inv_def intro: table_inv_mono)
  ultimately show ?thesis using recs by (simp add: bar_inv_def b')
qed

lemma op_enter_new_inv:
  assumes inv: "bar_inv b" and join: "joinable b ctx k = None"
    and enter: "op_enter p c f ctx k b = Inr (b', l)"
  shows "bar_inv b'"
proof -
  obtain held table where np: "\<not> paused b k" and l: "l = Suc (Suc (fresh b))"
    and b': "b' = b\<lparr>records := \<lparr>rec_id = Suc (fresh b), rec_kind = k, rec_fd = held, holders = [l]\<rparr>
          # records b,
        leases := \<lparr>lease_id = l, lease_rec = Suc (fresh b), lease_ctx = ctx,
          lease_prev = context_of b ctx\<rparr> # leases b,
        context_of := (context_of b)(ctx := Some (Suc (fresh b))), ofds := table, fresh := Suc l\<rparr>"
    and held: "(held = None \<and> \<not> anchored b \<and> table = ofds b) \<or>
      (held = Some (fresh b) \<and> may_lock LockShared (fresh b) (open_fd (fresh b) (ofds b)) \<and>
       table = set_lock LockShared (fresh b) (open_fd (fresh b) (ofds b)))"
  proof (cases "anchored b")
    case True
    with enter join show ?thesis
      by (intro that [of "set_lock LockShared (fresh b) (open_fd (fresh b) (ofds b))" "Some (fresh b)"])
         (auto simp: op_enter_def Let_def split: if_splits)
  next
    case False
    with enter join show ?thesis
      by (intro that [of "ofds b" None]) (auto simp: op_enter_def Let_def split: if_splits)
  qed
  have T: "table_inv (fresh b) (ofds b)" and R: "recs_inv (fresh b) (anchored b) (ofds b) (records b)"
    and L: "leases_inv (fresh b) (records b) (leases b)" and P: "phase_inv b"
    using inv by (simp_all add: bar_inv_def)
  have old: "fd < fresh b" if "fd \<in> set (rec_fds (records b))" for fd
    using that R T by (auto simp: in_rec_fds recs_inv_def dest!: bspec dest: holds_less)
  have table: "table_inv (Suc (fresh b)) table"
    using held T by (auto intro: table_inv_mono table_inv_lock table_inv_open)
  have holds: "holds table fd m" if "holds (ofds b) fd m" "fd \<noteq> fresh b" for fd m
    using that held by (auto simp: holds_lock holds_open)
  have R': "recs_inv (fresh b) (anchored b) table (records b)"
    using R by (rule recs_inv_table) (auto intro: holds dest: old)
  have "recs_inv (Suc l) (anchored b) table (records b')"
  proof -
    have "fresh b \<notin> set (rec_fds (records b))" using old by blast
    moreover have "holds table (fresh b) (Some LockShared)" if "held = Some (fresh b)"
      using that held by (auto simp: holds_lock holds_open)
    ultimately show ?thesis
      unfolding b' using held l R' by (auto intro!: recs_inv_Cons [where n = "fresh b"])
  qed
  moreover have "leases_inv (Suc l) (records b') (leases b')"
    using L l unfolding leases_inv_def b' by force
  moreover have "phase_inv b'"
    using P np unfolding b'
    by (cases "phase_of b"; cases k) (auto simp: phase_inv_def paused_def any_kind_def)
  ultimately show ?thesis using table l by (auto simp: bar_inv_def b' intro: table_inv_mono)
qed

lemma op_enter_inv: "bar_inv b \<Longrightarrow> op_enter p c f ctx k b = Inr (b', l) \<Longrightarrow> bar_inv b'"
  by (cases "joinable b ctx k") (auto intro: op_enter_join_inv op_enter_new_inv)

text \<open>The pieces of \<open>op_exit\<close> on an outstanding lease.\<close>

lemma release_cases:
  assumes "leases_inv n (records b) ls" and "recs_inv n a t (records b)" and "le \<in> set ls"
  obtains r where "tbl_get rec_id (lease_rec le) (records b) = Some r" and "r \<in> set (records b)"
    and "rec_id r = lease_rec le" and "lease_id le \<in> set (holders r)"
proof -
  obtain r where r: "r \<in> set (records b)" "rec_id r = lease_rec le" "lease_id le \<in> set (holders r)"
    using assms(1,3) by (auto simp: leases_inv_def)
  moreover have "tbl_get rec_id (rec_id r) (records b) = Some r"
    using assms(2) r(1) by (intro tbl_get_keyed) (simp_all add: recs_inv_def tbl_keyed_def)
  ultimately show ?thesis using that by simp
qed

lemma leases_inv_release:
  assumes L: "leases_inv n rs ls" and "distinct (map rec_id rs)" and "le \<in> set ls"
    and r: "r \<in> set rs" "rec_id r = lease_rec le"
    and rest: "rest = removeAll (lease_id le) (holders r)"
    and rs': "rs' = (if rest = [] then tbl_del rec_id (rec_id r) rs
      else tbl_upd (\<lambda>x. rec_id x = rec_id r) (\<lambda>x. x\<lparr>holders := rest\<rparr>) rs)"
  shows "leases_inv n rs' (tbl_del lease_id (lease_id le) ls)"
  unfolding leases_inv_def
proof (intro conjI ballI)
  show "distinct (map lease_id (tbl_del lease_id (lease_id le) ls))"
    using L by (simp add: leases_inv_def tbl_del_def distinct_map_filter)
next
  fix l assume l: "l \<in> set (tbl_del lease_id (lease_id le) ls)"
  then have l': "l \<in> set ls" and ne: "lease_id l \<noteq> lease_id le" by (auto simp: tbl_del_def)
  from L l' show "lease_id l < n" by (simp add: leases_inv_def)
  obtain q where q: "q \<in> set rs" "rec_id q = lease_rec l" "lease_id l \<in> set (holders q)"
    using L l' by (auto simp: leases_inv_def)
  show "\<exists>x \<in> set rs'. rec_id x = lease_rec l \<and> lease_id l \<in> set (holders x)"
  proof (cases "rec_id q = rec_id r")
    case True
    with assms(2) q(1) r(1) have "q = r" by (auto simp: distinct_map dest: inj_onD)
    with q(3) ne rest have "lease_id l \<in> set rest" by simp
    moreover from this have "rest \<noteq> []" by auto
    ultimately show ?thesis unfolding rs' using q \<open>q = r\<close> by (force simp: bex_tbl_upd)
  next
    case False
    with q show ?thesis unfolding rs' by (force simp: bex_tbl_upd tbl_del_def)
  qed
qed

lemma op_exit_live:
  assumes inv: "bar_inv b" and le: "tbl_get lease_id l (leases b) = Some le"
  shows "\<exists>b'. op_exit True l b = Inr b' \<and> bar_inv b' \<and>
    context_of b' = (context_of b)(lease_ctx le := lease_prev le)"
proof -
  have T: "table_inv (fresh b) (ofds b)" and R: "recs_inv (fresh b) (anchored b) (ofds b) (records b)"
    and L: "leases_inv (fresh b) (records b) (leases b)" and P: "phase_inv b"
    using inv by (simp_all add: bar_inv_def)
  have le': "le \<in> set (leases b)" "lease_id le = l" using tbl_get_SomeD [OF le] by auto
  obtain r where r: "tbl_get rec_id (lease_rec le) (records b) = Some r" "r \<in> set (records b)"
      "rec_id r = lease_rec le" "lease_id le \<in> set (holders r)"
    using release_cases [OF L R le'(1)] by blast
  let ?rest = "removeAll (lease_id le) (holders r)"
  let ?b = "b\<lparr>leases := tbl_del lease_id l (leases b),
      context_of := (context_of b)(lease_ctx le := lease_prev le)\<rparr>"
  let ?rs = "if ?rest = [] then tbl_del rec_id (rec_id r) (records b)
      else tbl_upd (\<lambda>x. rec_id x = rec_id r) (\<lambda>x. x\<lparr>holders := ?rest\<rparr>) (records b)"
  let ?t = "if ?rest = [] then (case rec_fd r of None \<Rightarrow> ofds b | Some fd \<Rightarrow> close_fd fd (ofds b))
      else ofds b"
  let ?b' = "?b\<lparr>records := ?rs, ofds := ?t\<rparr>"
  have exit: "op_exit True l b = Inr ?b'"
    using le r by (cases "rec_fd r") (simp_all add: op_exit_def release_def Let_def)
  have "recs_inv (fresh b) (anchored b) ?t ?rs"
    using recs_inv_del [OF T R r(1)] R r(3) by (auto intro: recs_inv_upd)
  moreover have "table_inv (fresh b) ?t"
    using T by (auto intro: table_inv_close split: option.split)
  moreover have "leases_inv (fresh b) ?rs (tbl_del lease_id l (leases b))"
    using leases_inv_release [OF L _ le'(1) r(2,3) refl refl] R le'(2) by (simp add: recs_inv_def)
  moreover have "phase_inv ?b'"
  proof -
    have "records b \<noteq> []" using r(2) by auto
    moreover have "\<not> list_ex (\<lambda>x. rec_kind x = Work) ?rs"
      if "\<not> list_ex (\<lambda>x. rec_kind x = Work) (records b)"
      using that by (auto simp: list_ex_iff tbl_del_def tbl_upd_def)
    ultimately show ?thesis using P
      by (cases "phase_of b") (simp_all add: phase_inv_def any_kind_def)
  qed
  ultimately have "bar_inv ?b'" by (simp add: bar_inv_def)
  with exit show ?thesis by auto
qed

lemma op_exit_inv: "bar_inv b \<Longrightarrow> op_exit p l b = Inr b' \<Longrightarrow> bar_inv b'"
proof -
  assume inv: "bar_inv b" and exit: "op_exit p l b = Inr b'"
  then obtain le where "tbl_get lease_id l (leases b) = Some le" and "p"
    by (auto simp: op_exit_def split: if_splits option.splits)
  with op_exit_live [OF inv] exit show ?thesis by fastforce
qed

lemma child_fds_own: "child_fds p c l b = Inr fds \<Longrightarrow> set fds \<subseteq> set (rec_fds (records b))"
  by (auto simp: child_fds_def in_rec_fds dest!: tbl_get_SomeD split: option.splits if_splits)

lemma bar_inv_table:
  assumes "bar_inv b" and "table_inv n t" and "fresh b \<le> n"
    and "\<And>fd m. fd \<in> set (own_fds b) \<Longrightarrow> holds (ofds b) fd m \<Longrightarrow> holds t fd m"
  shows "bar_inv (b\<lparr>ofds := t, fresh := n\<rparr>)"
proof -
  have "recs_inv n (anchored b) t (records b)"
    using assms(1) unfolding bar_inv_def
    by (elim conjE recs_inv_table) (auto intro: assms(3,4) rec_fds_own)
  moreover have "phase_inv (b\<lparr>ofds := t, fresh := n\<rparr>)"
    using assms(1,4) by (cases "phase_of b") (auto simp: bar_inv_def phase_inv_def any_kind_def own_fds_def)
  ultimately show ?thesis
    using assms(1-3) by (auto simp: bar_inv_def intro: leases_inv_mono)
qed

lemma bar_inv_ofds:
  assumes "bar_inv b" and "table_inv (fresh b) t"
    and "\<And>fd m. fd \<in> set (own_fds b) \<Longrightarrow> holds (ofds b) fd m \<Longrightarrow> holds t fd m"
  shows "bar_inv (b\<lparr>ofds := t\<rparr>)"
  using bar_inv_table [OF assms(1,2) order_refl assms(3)] by simp

lemma inherit_inv: "bar_inv b \<Longrightarrow> bar_inv (b\<lparr>ofds := foldr inherit_fd fds (ofds b)\<rparr>)"
proof -
  assume inv: "bar_inv b"
  have "table_inv (fresh b) (foldr inherit_fd fds (ofds b))"
    and "holds (foldr inherit_fd fds (ofds b)) fd m \<longleftrightarrow> holds (ofds b) fd m" for fd m
    using inv by (induction fds) (auto simp: bar_inv_def holds_inherit intro: table_inv_inherit)
  with inv show ?thesis by (intro bar_inv_ofds) auto
qed

lemma snap_start_inv: "bar_inv b \<Longrightarrow> snap_start p c ctx b = Inr b' \<Longrightarrow> bar_inv b'"
  by (auto simp: snap_start_def bar_inv_def phase_inv_def split: if_splits)

lemma snap_finish_inv: "bar_inv b \<Longrightarrow> bar_inv (snap_finish b)"
  by (cases "phase_of b")
     (auto simp: bar_inv_def snap_finish_def phase_inv_def intro: table_inv_close)

lemma any_kind_none: "\<not> any_kind Work b \<Longrightarrow> \<not> any_kind Agent b \<Longrightarrow> records b = []"
proof (cases "records b")
  case (Cons r rs)
  then show "\<not> any_kind Work b \<Longrightarrow> \<not> any_kind Agent b \<Longrightarrow> ?thesis"
    by (cases "rec_kind r") (simp_all add: any_kind_def)
qed

lemma snap_poll_inv: "bar_inv b \<Longrightarrow> bar_inv (fst (snap_poll t e c b))"
proof (cases "phase_of b")
  case WaitWork
  assume inv: "bar_inv b"
  then have "\<not> any_kind Work b \<Longrightarrow> bar_inv (b\<lparr>agent_paused := True, phase_of := WaitAgent\<rparr>)"
    using WaitWork by (auto simp: bar_inv_def phase_inv_def any_kind_def)
  with inv WaitWork show ?thesis
    by (simp add: snap_poll_def Let_def snap_finish_inv)
next
  case WaitAgent
  assume inv: "bar_inv b"
  have "bar_inv (b\<lparr>phase_of := Acquiring (fresh b), ofds := open_fd (fresh b) (ofds b),
      fresh := Suc (fresh b)\<rparr>)" if "\<not> any_kind Agent b"
  proof -
    have "records b = []"
      using inv WaitAgent that by (intro any_kind_none) (auto simp: bar_inv_def phase_inv_def)
    with inv WaitAgent show ?thesis
      by (auto simp: bar_inv_def phase_inv_def holds_open
          intro: table_inv_open leases_inv_mono)
  qed
  with inv WaitAgent show ?thesis
    by (simp add: snap_poll_def Let_def snap_finish_inv)
next
  case (Acquiring fd)
  assume inv: "bar_inv b"
  have "bar_inv (b\<lparr>phase_of := Held fd, ofds := set_lock LockExclusive fd (ofds b)\<rparr>)"
    if "may_lock LockExclusive fd (ofds b)"
    using inv Acquiring that
    by (auto simp: bar_inv_def phase_inv_def holds_lock
        intro: table_inv_lock)
  with inv Acquiring show ?thesis
    by (simp add: snap_poll_def Let_def snap_finish_inv)
qed (simp_all add: snap_poll_def Let_def)

lemma close_inv: "bar_inv b \<Longrightarrow> close_barrier p b = Inr b' \<Longrightarrow> bar_inv b'"
  by (auto simp: close_barrier_def bar_inv_def phase_inv_def split: if_splits)

lemma world_inv:
  assumes "bar_inv b"
  shows "bar_inv (b\<lparr>ofds := open_fd (fresh b) (ofds b), fresh := Suc (fresh b)\<rparr>)"
    and "fd \<notin> set (own_fds b) \<Longrightarrow> may_lock m fd (ofds b) \<Longrightarrow>
      bar_inv (b\<lparr>ofds := set_lock m fd (ofds b)\<rparr>)"
    and "fd \<notin> set (own_fds b) \<or> list_ex (\<lambda>d. ofd_id d = fd \<and> 2 \<le> ofd_refs d) (ofds b) \<Longrightarrow>
      bar_inv (b\<lparr>ofds := close_fd fd (ofds b)\<rparr>)"
proof -
  have T: "table_inv (fresh b) (ofds b)" using assms by (simp add: bar_inv_def)
  show "bar_inv (b\<lparr>ofds := open_fd (fresh b) (ofds b), fresh := Suc (fresh b)\<rparr>)"
    using assms T by (intro bar_inv_table table_inv_open) (auto simp: holds_open)
  show "fd \<notin> set (own_fds b) \<Longrightarrow> may_lock m fd (ofds b) \<Longrightarrow>
      bar_inv (b\<lparr>ofds := set_lock m fd (ofds b)\<rparr>)"
    using assms T by (intro bar_inv_ofds table_inv_lock) (auto simp: holds_lock)
  show "fd \<notin> set (own_fds b) \<or> list_ex (\<lambda>d. ofd_id d = fd \<and> 2 \<le> ofd_refs d) (ofds b) \<Longrightarrow>
      bar_inv (b\<lparr>ofds := close_fd fd (ofds b)\<rparr>)"
    using assms T by (intro bar_inv_ofds table_inv_close)
      (auto intro: holds_close_other holds_close_shared)
qed

lemma barrier_step_inv: "bar_inv b \<Longrightarrow> bar_inv (barrier_step b call)"
proof (cases call)
  case (Enter p c f ctx k)
  then show "bar_inv b \<Longrightarrow> ?thesis"
    by (cases "op_enter p c f ctx k b") (auto intro: op_enter_inv)
qed (auto simp: inherit_inv snap_poll_inv snap_finish_inv world_inv
    intro: op_exit_inv snap_start_inv close_inv split: sum.split phase.split)

interpretation barrier_machine: step_invariant barrier_step bar_inv
  by unfold_locales (rule barrier_step_inv)

definition reached :: "bool \<Rightarrow> bcall list \<Rightarrow> barrier" where
  "reached anch cs = run barrier_step (new_barrier anch) cs"

lemma reached_inv: "bar_inv (reached anch cs)"
  unfolding reached_def by (rule barrier_machine.run_inv) (rule new_barrier_inv)

section \<open>Properties\<close>

text \<open>
  C4: A snapshot is taken in quiescence. In every state the barrier can reach, with any
  interleaving of operations, leases, child processes and lock requests of other processes: while
  a snapshot permit is valid, no operation of this instance is in progress and no other open file
  description, be it of a surviving child or of another process, holds the lock in any mode; and
  the permit's own description holds it exclusively.
\<close>

theorem snapshot_exclusive:
  assumes "assert_active p c fd (reached anch cs) = Inr ()"
  shows "records (reached anch cs) = [] \<and> holds (ofds (reached anch cs)) fd (Some LockExclusive) \<and>
    (\<forall>d \<in> set (ofds (reached anch cs)). ofd_id d \<noteq> fd \<longrightarrow> ofd_mode d = None)"
proof -
  let ?b = "reached anch cs"
  have held: "phase_of ?b = Held fd" using assms by (auto simp: assert_active_def split: if_splits)
  with reached_inv [of anch cs]
  have *: "records ?b = []" "holds (ofds ?b) fd (Some LockExclusive)" "exclusive_alone (ofds ?b)"
    by (simp_all add: bar_inv_def phase_inv_def table_inv_def)
  have "ofd_mode d = None" if "d \<in> set (ofds ?b)" and "ofd_id d \<noteq> fd" for d
  proof (rule ccontr)
    assume "ofd_mode d \<noteq> None"
    then obtain m where "ofd_mode d = Some m" by auto
    with that(1) have "holds (ofds ?b) (ofd_id d) (Some m)" unfolding holds_def by blast
    with *(2,3) have "ofd_id d = fd" unfolding exclusive_alone_def by blast
    with that(2) show False by simp
  qed
  with * show ?thesis by blast
qed

definition snapshot_trace :: "bcall list" where
  "snapshot_trace = [Enter True True True 1 Work, SnapStart True True 2, SnapPoll False False True,
     Exit True 2, SnapPoll False False True, SnapPoll False False True, SnapPoll False False True]"

theorem snapshot_exclusive_witness:
  "records (reached True snapshot_trace) = []"
proof -
  have "assert_active True True 3 (reached True snapshot_trace) = Inr ()"
    by code_simp
  from snapshot_exclusive [OF this] show ?thesis by blast
qed



text \<open>
  Admission during a snapshot. Once a snapshot has paused new work, an operation is admitted
  only by joining a record of the requested kind that is live in the calling context; an expired
  context is no authority. Once the exclusive lock is being acquired or held, nothing is admitted.
\<close>

theorem admission_during_snapshot:
  assumes "phase_of (reached anch cs) \<noteq> Idle" and "op_enter p c f ctx k (reached anch cs) = Inr (b', l)"
  shows "(k = Agent \<and> phase_of (reached anch cs) = WaitWork \<or> joinable (reached anch cs) ctx k \<noteq> None) \<and>
    (\<forall>fd. phase_of (reached anch cs) \<noteq> Acquiring fd \<and> phase_of (reached anch cs) \<noteq> Held fd)"
proof -
  let ?b = "reached anch cs"
  have P: "phase_inv ?b" using reached_inv [of anch cs] by (simp add: bar_inv_def)
  have open_or_join: "joinable ?b ctx k \<noteq> None \<or> \<not> paused ?b k"
    using assms(2) by (auto simp: op_enter_def split: if_splits option.splits)
  with P assms(1) have first:
      "k = Agent \<and> phase_of ?b = WaitWork \<or> joinable ?b ctx k \<noteq> None"
    by (cases k) (auto simp: phase_inv_def paused_def)
  have "\<not> (phase_of ?b = Acquiring fd \<or> phase_of ?b = Held fd)" for fd
  proof
    assume ph: "phase_of ?b = Acquiring fd \<or> phase_of ?b = Held fd"
    with P have "records ?b = []" by (auto simp: phase_inv_def)
    then have "joinable ?b ctx k = None"
      by (simp add: joinable_def record_active_def split: option.split)
    with first ph show False by auto
  qed
  with first show ?thesis by blast
qed

theorem admission_during_snapshot_witness:
  "\<exists>b' l. op_enter True True True 1 Work
      (reached True [Enter True True True 1 Work, SnapStart True True 2]) = Inr (b', l) \<and>
    joinable (reached True [Enter True True True 1 Work, SnapStart True True 2]) 1 Work \<noteq> None"
proof -
  let ?b = "reached True [Enter True True True 1 Work, SnapStart True True 2]"
  have ph: "phase_of ?b \<noteq> Idle" and j: "isl (op_enter True True True 1 Work ?b) = False"
    by code_simp+
  then obtain b' l where e: "op_enter True True True 1 Work ?b = Inr (b', l)"
    by (cases "op_enter True True True 1 Work ?b") auto
  from admission_during_snapshot [OF ph e] e show ?thesis by blast
qed

text \<open>
  A snapshot attempt without waiting is decided after three turns: it holds the exclusive
  lock, or it has failed, and then the barrier is idle again, nothing is paused, and its own
  descriptor is closed.
\<close>

theorem try_once_decides:
  fixes anch cs e1 e2 e3 c1 c2 c3
  assumes "phase_of (reached anch cs) = WaitWork"
  defines "b1 \<equiv> snap_poll True e1 c1 (reached anch cs)"
  defines "b2 \<equiv> snap_poll True e2 c2 (fst b1)"
  defines "b3 \<equiv> snap_poll True e3 c3 (fst b2)"
  shows "(\<exists>fd. phase_of (fst b3) = Held fd) \<or>
    (phase_of (fst b3) = Idle \<and> \<not> work_paused (fst b3) \<and> \<not> agent_paused (fst b3) \<and>
     own_fds (fst b3) = rec_fds (records (fst b3)))"
proof -
  have idle: "phase_of (snap_finish b) = Idle \<and> \<not> work_paused (snap_finish b) \<and>
      \<not> agent_paused (snap_finish b) \<and> own_fds (snap_finish b) = rec_fds (records (snap_finish b))" for b
    by (simp add: snap_finish_def Let_def own_fds_def)
  have stay: "fst (snap_poll True e c b) = b" if "phase_of b = Idle" for e c b
    using that by (simp add: snap_poll_def Let_def)
  have first: "fst b1 = snap_finish (reached anch cs) \<or> phase_of (fst b1) = WaitAgent"
    using assms(1) by (simp add: b1_def snap_poll_def Let_def)
  then have second: "(\<exists>b. fst b2 = snap_finish b) \<or> (\<exists>fd. phase_of (fst b2) = Acquiring fd)"
    using idle stay by (auto simp: b2_def snap_poll_def Let_def)
  then show ?thesis
    using idle stay unfolding b3_def
    by (elim disjE exE) (simp_all add: snap_poll_def Let_def)
qed

theorem try_once_decides_witness:
  "(\<exists>fd. phase_of (reached True [SnapStart True True 2, SnapPoll True False True,
      SnapPoll True False True, SnapPoll True False True]) = Held fd) \<or>
    phase_of (reached True [SnapStart True True 2, SnapPoll True False True,
      SnapPoll True False True, SnapPoll True False True]) = Idle"
proof -
  have "phase_of (reached True [SnapStart True True 2]) = WaitWork" by code_simp
  from try_once_decides [OF this, of False True False True False True] show ?thesis
    by (auto simp: reached_def)
qed

end
