(* ===== verification/Calendar.thy ===== *)
theory Calendar
  imports Prelude
begin

text \<open>
  The part of Python's \<open>datetime\<close> and \<open>calendar\<close> the components use: aware UTC instants as a
  civil date and a time of day in microseconds, ordered lexicographically, with day arithmetic by
  stepping days. Years are not bounded to Python's 1..9999.
\<close>

type_synonym date = "int \<times> nat \<times> nat"
type_synonym instant = "date \<times> nat"

definition leap_year :: "int \<Rightarrow> bool" where
  "leap_year y \<longleftrightarrow> y mod 4 = 0 \<and> (y mod 100 \<noteq> 0 \<or> y mod 400 = 0)"

text \<open>\<open>calendar.monthrange(y, m)[1]\<close>.\<close>

definition month_len :: "int \<Rightarrow> nat \<Rightarrow> nat" where
  "month_len y m =
     (if m = 2 then (if leap_year y then 29 else 28) else if m \<in> {4, 6, 9, 11} then 30 else 31)"

definition valid_date :: "date \<Rightarrow> bool" where
  "valid_date dt = (case dt of (y, m, d) \<Rightarrow> 1 \<le> m \<and> m \<le> 12 \<and> 1 \<le> d \<and> d \<le> month_len y m)"

fun next_month :: "int \<times> nat \<Rightarrow> int \<times> nat" where
  "next_month (y, m) = (if m = 12 then (y + 1, 1) else (y, m + 1))"

fun next_day :: "date \<Rightarrow> date" where
  "next_day (y, m, d) =
     (if d < month_len y m then (y, m, d + 1)
      else case next_month (y, m) of (y', m') \<Rightarrow> (y', m', 1))"

fun prev_day :: "date \<Rightarrow> date" where
  "prev_day (y, m, d) =
     (if 1 < d then (y, m, d - 1)
      else if m = 1 then (y - 1, 12, 31) else (y, m - 1, month_len y (m - 1)))"

fun plus_days :: "nat \<Rightarrow> date \<Rightarrow> date" where
  "plus_days 0 dt = dt"
| "plus_days (Suc n) dt = plus_days n (next_day dt)"

fun minus_days :: "nat \<Rightarrow> date \<Rightarrow> date" where
  "minus_days 0 dt = dt"
| "minus_days (Suc n) dt = minus_days n (prev_day dt)"

text \<open>\<open>replace\<close> on an instant.\<close>

fun with_day :: "nat \<Rightarrow> instant \<Rightarrow> instant" where
  "with_day d ((y, m, _), t) = ((y, m, d), t)"

fun at_time :: "nat \<Rightarrow> instant \<Rightarrow> instant" where
  "at_time t (dt, _) = (dt, t)"

abbreviation day_of :: "instant \<Rightarrow> date" where
  "day_of i \<equiv> fst i"

lemma month_len_bounds: "28 \<le> month_len y m" "month_len y m \<le> 31"
  by (simp_all add: month_len_def)

lemma next_day_valid: "valid_date dt \<Longrightarrow> valid_date (next_day dt)"
  using month_len_bounds by (cases dt) (auto simp: valid_date_def order_trans [OF _ month_len_bounds(1)])

lemma next_day_later: "valid_date dt \<Longrightarrow> dt < next_day dt"
  by (cases dt) (auto simp: valid_date_def less_prod_def')

lemma prev_next_day: "valid_date dt \<Longrightarrow> prev_day (next_day dt) = dt"
  by (cases dt) (auto simp: valid_date_def month_len_def numeral_eq_Suc le_Suc_eq)

text \<open>
  \<open>(now.replace(day=1) + timedelta(days=32)).replace(day=1)\<close>: from the first of a month, 32 days
  reach the next month but not the one after.
\<close>

lemma plus_days_within:
  "1 \<le> d \<Longrightarrow> d + n \<le> month_len y m \<Longrightarrow> plus_days n (y, m, d) = (y, m, d + n)"
  by (induction n arbitrary: d) auto

lemma plus_days_add: "plus_days (a + b) dt = plus_days b (plus_days a dt)"
  by (induction a arbitrary: dt) auto

lemma plus_32_next_month:
  "\<exists>d. plus_days 32 (y, m, 1) = (fst (next_month (y, m)), snd (next_month (y, m)), d)"
proof -
  let ?l = "month_len y m"
  obtain y' m' where nm: "next_month (y, m) = (y', m')" by force
  define k where "k = 32 - ?l"
  have bounds: "28 \<le> ?l" "?l \<le> 31" by (rule month_len_bounds)+
  then have split: "(32 :: nat) = (?l - 1) + (1 + (k))" and small: "k \<le> 4"
    by (simp_all add: k_def)
  have "plus_days (?l - 1) (y, m, 1) = (y, m, ?l)"
    using bounds by (subst plus_days_within) simp_all
  then have "plus_days 32 (y, m, 1) = plus_days (1 + k) (y, m, ?l)"
    by (subst split, subst plus_days_add) simp
  also have "\<dots> = plus_days k (y', m', 1)" using nm by simp
  also have "\<dots> = (y', m', 1 + k)"
    using small month_len_bounds(1) [of y' m'] by (intro plus_days_within) simp_all
  finally show ?thesis using nm by simp
qed

end
