(* ===== verification/Server_Traffic.thy ===== *)
theory Server_Traffic
  imports Calendar
begin

text \<open>
  Per-server traffic accounting: \<open>backend/app/open_node/services/server_traffic.py\<close> with the rows of
  \<open>inventory.py\<close> it keeps. Each server has one accumulator per source; a telemetry snapshot adds the
  growth of its counters (a counter that fell has restarted), a reset moves the baseline, and
  readings are relative to it. Instants are in UTC already, so \<open>aware\<close> is the identity.
\<close>

section \<open>Data\<close>

text \<open>A JSON counter and \<open>_traffic_counter_value\<close>; a float is its exact ratio.\<close>

datatype counter_value = CvBool bool | CvInt int | CvFloat int nat | CvStr string | CvOther

fun counter_of :: "counter_value \<Rightarrow> int" where
  "counter_of (CvBool _) = 0"
| "counter_of (CvInt n) = max 0 n"
| "counter_of (CvFloat a b) = max 0 (a div int b)"
| "counter_of (CvStr s) = (if s \<noteq> [] \<and> list_all is_dec s then int (digits_val 10 s) else 0)"
| "counter_of CvOther = 0"

datatype source = Xray | System

text \<open>\<open>stats[kind]\<close> maps a tag to its uplink and downlink values.\<close>

record stats =
  inbound :: "(string \<times> counter_value \<times> counter_value) list"
  outbound :: "(string \<times> counter_value \<times> counter_value) list"

record snapshot =
  snap_id :: string
  reported_at :: instant
  received_at :: instant
  snap_stats :: "stats option"
  system_tx_total :: "int option"
  system_rx_total :: "int option"
  system_boot :: "int option"

datatype counters =
    NoCounters
  | XrayCounters "(string \<times> int \<times> int) list"
  | SystemCounters int int "int option"

record traffic_row =
  tr_server :: string
  tr_source :: source
  tr_counters :: counters
  tr_up :: int
  tr_down :: int
  base_up :: int
  base_down :: int
  baseline_at :: "instant option"
  last_reported :: "instant option"

record daily_row =
  day_server :: string
  day_source :: source
  day_date :: date
  day_up :: int
  day_down :: int

datatype stats_mode = ModeBoth | ModeUpload | ModeDownload | ModeMax

record server =
  srv_id :: string
  traffic_limit :: int
  reset_day :: nat
  stats_mode_of :: stats_mode
  source_of :: source
  last_reset :: "instant option"
  created_at :: instant
  updated_at :: instant

record traffic_state =
  rows :: "traffic_row list"
  daily :: "daily_row list"
  servers :: "server list"
  federated :: "string list"

datatype traffic_error = ServerNotFoundError | AgentCapabilityUnavailableError

abbreviation row_key :: "traffic_row \<Rightarrow> string \<times> source" where
  "row_key r \<equiv> (tr_server r, tr_source r)"

abbreviation daily_key :: "daily_row \<Rightarrow> string \<times> source \<times> date" where
  "daily_key r \<equiv> (day_server r, day_source r, day_date r)"

section \<open>Operations\<close>

text \<open>\<open>boundary\<close>: 00:05 of the given day of the month, or of its last day.\<close>

fun boundary :: "instant \<Rightarrow> nat \<Rightarrow> instant" where
  "boundary ((y, m, _), _) day = ((y, m, min day (month_len y m)), 300000000)"

text \<open>\<open>_server\<close> and \<open>_require_local\<close>.\<close>

definition find_server :: "string \<Rightarrow> traffic_state \<Rightarrow> traffic_error + server" where
  "find_server sid s =
     (case tbl_get srv_id sid (servers s) of None \<Rightarrow> Inl ServerNotFoundError | Some v \<Rightarrow> Inr v)"

definition local_server :: "string \<Rightarrow> traffic_state \<Rightarrow> traffic_error + server" where
  "local_server sid s =
     (case find_server sid s of
        Inl e \<Rightarrow> Inl e
      | Inr v \<Rightarrow> if srv_id v \<in> set (federated s) then Inl AgentCapabilityUnavailableError else Inr v)"

text \<open>\<open>_state\<close>: the accumulator of a server and source, created empty when missing.\<close>

definition new_row :: "string \<Rightarrow> source \<Rightarrow> traffic_row" where
  "new_row sid src = \<lparr>tr_server = sid, tr_source = src, tr_counters = NoCounters, tr_up = 0,
     tr_down = 0, base_up = 0, base_down = 0, baseline_at = None, last_reported = None\<rparr>"

definition state_row :: "string \<Rightarrow> source \<Rightarrow> traffic_row list \<Rightarrow> traffic_row" where
  "state_row sid src rs =
     (case tbl_get row_key (sid, src) rs of Some r \<Rightarrow> r | None \<Rightarrow> new_row sid src)"

text \<open>Counter growth: what was added since the last value, or everything after a restart.\<close>

definition growth :: "int \<Rightarrow> int \<Rightarrow> int" where
  "growth old new = (if old \<le> new then new - old else new)"

definition xray_counters :: "stats \<Rightarrow> (string \<times> int \<times> int) list" where
  "xray_counters st =
     map (\<lambda>(tag, up, down). (''inbound:'' @ tag, counter_of up, counter_of down)) (inbound st) @
     map (\<lambda>(tag, up, down). (''outbound:'' @ tag, counter_of up, counter_of down)) (outbound st)"

definition old_xray :: "counters \<Rightarrow> string \<Rightarrow> int \<times> int" where
  "old_xray c key =
     (case c of
        XrayCounters m \<Rightarrow> (case map_of m key of Some v \<Rightarrow> v | None \<Rightarrow> (0, 0))
      | _ \<Rightarrow> (0, 0))"

definition xray_delta :: "counters \<Rightarrow> (string \<times> int \<times> int) list \<Rightarrow> int \<times> int" where
  "xray_delta old new =
     (sum_list (map (\<lambda>(key, up, down). growth (fst (old_xray old key)) up) new),
      sum_list (map (\<lambda>(key, up, down). growth (snd (old_xray old key)) down) new))"

text \<open>Host counters count only within one boot and while they do not fall.\<close>

definition system_delta :: "counters \<Rightarrow> int \<Rightarrow> int \<Rightarrow> int option \<Rightarrow> int \<times> int" where
  "system_delta old tx rx boot =
     (case old of
        SystemCounters tx' rx' boot' \<Rightarrow>
          if boot' = boot \<and> tx' \<le> tx \<and> rx' \<le> rx then (tx - tx', rx - rx') else (0, 0)
      | _ \<Rightarrow> (0, 0))"

text \<open>New counters and growth of one source, or \<open>None\<close> when the snapshot does not carry it.\<close>

definition measure_source :: "source \<Rightarrow> counters \<Rightarrow> snapshot \<Rightarrow> (counters \<times> int \<times> int) option" where
  "measure_source src old snap =
     (case src of
        Xray \<Rightarrow>
          (case snap_stats snap of None \<Rightarrow> None
           | Some st \<Rightarrow> Some (XrayCounters (xray_counters st), xray_delta old (xray_counters st)))
      | System \<Rightarrow>
          (case (system_tx_total snap, system_rx_total snap) of
             (Some tx, Some rx) \<Rightarrow>
               Some (SystemCounters tx rx (system_boot snap), system_delta old tx rx (system_boot snap))
           | _ \<Rightarrow> None))"

definition advance_row :: "instant \<Rightarrow> counters \<times> int \<times> int \<Rightarrow> traffic_row \<Rightarrow> traffic_row" where
  "advance_row at m row =
     (case m of (cs, up, down) \<Rightarrow>
        let based = (case baseline_at row of None \<Rightarrow> False
              | Some b \<Rightarrow> at \<le> b \<or> last_reported row = None)
        in row\<lparr>tr_counters := cs, tr_up := tr_up row + up, tr_down := tr_down row + down,
               base_up := (if based then base_up row + up else base_up row),
               base_down := (if based then base_down row + down else base_down row),
               last_reported := Some at\<rparr>)"

definition add_daily :: "string \<Rightarrow> source \<Rightarrow> date \<Rightarrow> int \<times> int \<Rightarrow> daily_row list \<Rightarrow> daily_row list" where
  "add_daily sid src d delta ds =
     (let old = (case tbl_get daily_key (sid, src, d) ds of
            Some r \<Rightarrow> r
          | None \<Rightarrow> \<lparr>day_server = sid, day_source = src, day_date = d, day_up = 0, day_down = 0\<rparr>)
      in tbl_put daily_key
           (old\<lparr>day_up := day_up old + fst delta, day_down := day_down old + snd delta\<rparr>) ds)"

text \<open>One turn of the loop of \<open>record\<close>; \<open>continue\<close> leaves the (possibly fresh) row as it is.\<close>

definition record_source :: "string \<Rightarrow> snapshot \<Rightarrow> source \<Rightarrow> traffic_state \<Rightarrow> traffic_state" where
  "record_source sid snap src s =
     (let row = state_row sid src (rows s);
          at = reported_at snap;
          stale = (case last_reported row of None \<Rightarrow> False | Some l \<Rightarrow> at \<le> l)
      in case (if stale then None else measure_source src (tr_counters row) snap) of
           None \<Rightarrow> s\<lparr>rows := tbl_put row_key row (rows s)\<rparr>
         | Some m \<Rightarrow>
             s\<lparr>rows := tbl_put row_key (advance_row at m row) (rows s),
               daily := (if last_reported row \<noteq> None \<and> (fst (snd m) \<noteq> 0 \<or> snd (snd m) \<noteq> 0)
                         then add_daily sid src (day_of at) (snd m) (daily s) else daily s)\<rparr>)"

definition record_snapshot :: "string \<Rightarrow> snapshot \<Rightarrow> traffic_state \<Rightarrow> traffic_state" where
  "record_snapshot sid snap s = record_source sid snap System (record_source sid snap Xray s)"

text \<open>\<open>backfill\<close>: servers without an accumulator replay their history in order.\<close>

definition backfill_server :: "(string \<Rightarrow> snapshot list) \<Rightarrow> server \<Rightarrow> traffic_state \<Rightarrow> traffic_state" where
  "backfill_server history v s =
     (if tbl_get row_key (srv_id v, Xray) (rows s) \<noteq> None then s
      else
        let rs = tbl_put row_key (new_row (srv_id v) Xray) (rows s);
            rs = tbl_put row_key (state_row (srv_id v) System rs) rs;
            s = fold (record_snapshot (srv_id v))
                  (sort_key (\<lambda>x. (reported_at x, received_at x, snap_id x)) (history (srv_id v)))
                  (s\<lparr>rows := rs\<rparr>)
        in s\<lparr>servers := tbl_upd (\<lambda>w. srv_id w = srv_id v \<and> last_reset w = None)
               (\<lambda>w. w\<lparr>last_reset := Some (created_at w)\<rparr>) (servers s)\<rparr>)"

definition backfill :: "(string \<Rightarrow> snapshot list) \<Rightarrow> traffic_state \<Rightarrow> traffic_state" where
  "backfill history s = fold (backfill_server history) (servers s) s"

record traffic_read =
  rd_upload :: int
  rd_download :: int
  rd_used :: int
  rd_total_up :: int
  rd_total_down :: int
  rd_last_reported :: "instant option"
  rd_last_reset :: "instant option"
  rd_next_reset :: "instant option"

text \<open>The last reset, or the enrollment when there was none.\<close>

definition reset_marker :: "server \<Rightarrow> instant" where
  "reset_marker v = (case last_reset v of Some r \<Rightarrow> r | None \<Rightarrow> created_at v)"

definition next_reset :: "instant \<Rightarrow> server \<Rightarrow> instant option" where
  "next_reset now v =
     (if reset_day v = 0 then None
      else
        let due = boundary now (reset_day v) in
        if at_time 0 due \<le> reset_marker v
        then
          let ((y, m, _), t) = now;
              following = with_day 1 (plus_days 32 (y, m, 1), t)
          in Some (boundary following (reset_day v))
        else Some due)"

definition read_server :: "instant \<Rightarrow> server \<Rightarrow> traffic_state \<Rightarrow> traffic_read" where
  "read_server now v s =
     (let row = tbl_get row_key (srv_id v, source_of v) (rows s);
          up = (case row of None \<Rightarrow> 0 | Some r \<Rightarrow> max 0 (tr_up r - base_up r));
          down = (case row of None \<Rightarrow> 0 | Some r \<Rightarrow> max 0 (tr_down r - base_down r))
      in \<lparr>rd_upload = up, rd_download = down,
          rd_used = (case stats_mode_of v of ModeBoth \<Rightarrow> up + down | ModeUpload \<Rightarrow> up
                       | ModeDownload \<Rightarrow> down | ModeMax \<Rightarrow> max up down),
          rd_total_up = (case row of None \<Rightarrow> 0 | Some r \<Rightarrow> tr_up r),
          rd_total_down = (case row of None \<Rightarrow> 0 | Some r \<Rightarrow> tr_down r),
          rd_last_reported = Option.bind row last_reported,
          rd_last_reset = last_reset v, rd_next_reset = next_reset now v\<rparr>)"

definition read_traffic :: "instant \<Rightarrow> string \<Rightarrow> traffic_state \<Rightarrow> traffic_error + traffic_read" where
  "read_traffic now sid s =
     (case find_server sid s of Inl e \<Rightarrow> Inl e | Inr v \<Rightarrow> Inr (read_server now v s))"

record traffic_update =
  new_limit :: int
  new_reset_day :: nat
  new_mode :: stats_mode
  new_source :: source

definition valid_update :: "traffic_update \<Rightarrow> bool" where
  "valid_update p \<longleftrightarrow> 0 \<le> new_limit p \<and> new_limit p \<le> 2 ^ 53 - 1 \<and> new_reset_day p \<le> 31"

definition update_traffic ::
  "instant \<Rightarrow> string \<Rightarrow> traffic_update \<Rightarrow> traffic_state
   \<Rightarrow> traffic_error + (traffic_state \<times> traffic_read)" where
  "update_traffic now sid p s =
     (case local_server sid s of
        Inl e \<Rightarrow> Inl e
      | Inr v \<Rightarrow>
          let v' = v\<lparr>traffic_limit := new_limit p, reset_day := new_reset_day p,
                stats_mode_of := new_mode p, source_of := new_source p, updated_at := now\<rparr>;
              s' = s\<lparr>servers := tbl_put srv_id v' (servers s)\<rparr>
          in Inr (s', read_server now v' s'))"

text \<open>\<open>_reset\<close>: both accumulators restart from here.\<close>

definition rebase :: "instant \<Rightarrow> traffic_row \<Rightarrow> traffic_row" where
  "rebase at r = r\<lparr>base_up := tr_up r, base_down := tr_down r, baseline_at := Some at\<rparr>"

definition reset_server :: "instant \<Rightarrow> server \<Rightarrow> traffic_state \<Rightarrow> traffic_state" where
  "reset_server at v s =
     (let rs = tbl_put row_key (rebase at (state_row (srv_id v) Xray (rows s))) (rows s);
          rs = tbl_put row_key (rebase at (state_row (srv_id v) System rs)) rs
      in s\<lparr>rows := rs,
           servers := tbl_put srv_id (v\<lparr>last_reset := Some at, updated_at := at\<rparr>) (servers s)\<rparr>)"

definition reset_traffic ::
  "instant \<Rightarrow> string \<Rightarrow> traffic_state \<Rightarrow> traffic_error + (traffic_state \<times> traffic_read)" where
  "reset_traffic now sid s =
     (case local_server sid s of
        Inl e \<Rightarrow> Inl e
      | Inr v \<Rightarrow>
          let s' = reset_server now v s
          in Inr (s', read_server now (v\<lparr>last_reset := Some now, updated_at := now\<rparr>) s'))"

text \<open>\<open>reset_due\<close>: every local server whose boundary has passed since its last reset.\<close>

definition is_due :: "instant \<Rightarrow> string list \<Rightarrow> server \<Rightarrow> bool" where
  "is_due now fed v \<longleftrightarrow>
     0 < reset_day v \<and> srv_id v \<notin> set fed \<and>
     (let due = boundary now (reset_day v) in due \<le> now \<and> reset_marker v < at_time 0 due)"

definition reset_due :: "instant \<Rightarrow> traffic_state \<Rightarrow> traffic_state \<times> nat" where
  "reset_due now s =
     (let todo = filter (is_due now (federated s)) (servers s)
      in (fold (reset_server now) todo s, length todo))"

text \<open>\<open>daily\<close>: the last days of the server's source, \<open>None\<close> when none was recorded.\<close>

fun day_range :: "nat \<Rightarrow> date \<Rightarrow> date list" where
  "day_range 0 d = []"
| "day_range (Suc n) d = d # day_range n (next_day d)"

definition daily_traffic :: "date \<Rightarrow> nat \<Rightarrow> server \<Rightarrow> traffic_state \<Rightarrow> (date \<times> int \<times> int \<times> int) list option"
where
  "daily_traffic today n v s =
     (let start = minus_days (n - 1) today;
          ds = filter (\<lambda>r. day_server r = srv_id v \<and> day_source r = source_of v \<and>
                 start \<le> day_date r \<and> day_date r \<le> today) (daily s)
      in if ds = [] then None
         else Some (map (\<lambda>d. case tbl_get day_date d ds of
                None \<Rightarrow> (d, 0, 0, 0) | Some r \<Rightarrow> (d, day_up r, day_down r, day_up r + day_down r))
              (day_range n start)))"

section \<open>Late and repeated reports\<close>

interpretation traffic_rows: keyed_table row_key "tbl_get row_key" "tbl_put row_key" "tbl_del row_key"
  by unfold_locales (auto simp: table_simps dest: tbl_get_SomeD)

interpretation server_rows: keyed_table srv_id "tbl_get srv_id" "tbl_put srv_id" "tbl_del srv_id"
  by unfold_locales (auto simp: table_simps dest: tbl_get_SomeD)

lemma state_row_keys:
  "tr_server (state_row sid src rs) = sid" "tr_source (state_row sid src rs) = src"
  by (auto simp: state_row_def new_row_def dest!: tbl_get_SomeD split: option.split)

lemma advance_row_key [simp]:
  "tr_server (advance_row at m row) = tr_server row" "tr_source (advance_row at m row) = tr_source row"
  by (auto simp: advance_row_def Let_def split: prod.split)

lemma record_source_row:
  "tbl_get row_key (sid, src) (rows (record_source sid snap src s)) =
     Some (let row = state_row sid src (rows s) in
       case (if (case last_reported row of None \<Rightarrow> False | Some l \<Rightarrow> reported_at snap \<le> l) then None
             else measure_source src (tr_counters row) snap) of
         None \<Rightarrow> row | Some m \<Rightarrow> advance_row (reported_at snap) m row)"
  by (auto simp: record_source_def Let_def table_simps state_row_keys split: option.split)

lemma record_source_other:
  "k \<noteq> (sid, src) \<Longrightarrow>
   tbl_get row_key k (rows (record_source sid snap src s)) = tbl_get row_key k (rows s)"
  by (auto simp: record_source_def Let_def table_simps state_row_keys split: option.split)

lemma record_source_servers:
  "servers (record_source sid snap src s) = servers s"
  "federated (record_source sid snap src s) = federated s"
  by (auto simp: record_source_def Let_def split: option.split)

lemma record_source_stale:
  assumes "tbl_get row_key (sid, src) (rows s) = Some row" and "last_reported row = Some l"
    and "reported_at snap \<le> l"
  shows "record_source sid snap src s = s"
  using assms by (simp add: record_source_def Let_def state_row_def tbl_put_same)

lemma record_source_reported:
  assumes "measure_source src (tr_counters (state_row sid src (rows s))) snap \<noteq> None"
  shows "\<exists>row l. tbl_get row_key (sid, src) (rows (record_source sid snap src s)) = Some row \<and>
    last_reported row = Some l \<and> reported_at snap \<le> l"
proof -
  let ?row = "state_row sid src (rows s)"
  obtain m where m: "measure_source src (tr_counters ?row) snap = Some m" using assms by auto
  have adv: "last_reported (advance_row at m ?row) = Some at" for at
    by (simp add: advance_row_def Let_def split: prod.split)
  show ?thesis
  proof (cases "last_reported ?row")
    case None
    with m adv show ?thesis by (simp add: record_source_row Let_def del: split_paired_Ex)
  next
    case (Some l)
    with m adv show ?thesis
      by (cases "reported_at snap \<le> l") (simp_all add: record_source_row Let_def del: split_paired_Ex)
  qed
qed

definition complete :: "snapshot \<Rightarrow> bool" where
  "complete snap \<longleftrightarrow> snap_stats snap \<noteq> None \<and> system_tx_total snap \<noteq> None \<and> system_rx_total snap \<noteq> None"

text \<open>
  Late and repeated reports do not count. After a complete snapshot of a server has been
  recorded, recording any snapshot of that server that is not newer, a duplicate of the first
  included, changes nothing: neither totals nor baselines nor daily sums.
\<close>

theorem stale_report_ignored:
  assumes "complete a" and "reported_at b \<le> reported_at a"
  shows "record_snapshot sid b (record_snapshot sid a s) = record_snapshot sid a s"
proof -
  let ?x = "record_source sid a Xray s"
  let ?s = "record_source sid a System ?x"
  have measured: "measure_source src c a \<noteq> None" for src c
    using assms(1) by (cases src) (auto simp: complete_def measure_source_def)
  obtain row l where "tbl_get row_key (sid, Xray) (rows ?x) = Some row" "last_reported row = Some l"
      "reported_at a \<le> l"
    using record_source_reported [OF measured] by blast
  then have "record_source sid b Xray ?s = ?s"
    using order_trans [OF assms(2)] by (intro record_source_stale) (simp_all add: record_source_other)
  moreover obtain row' l' where "tbl_get row_key (sid, System) (rows ?s) = Some row'"
      "last_reported row' = Some l'" "reported_at a \<le> l'"
    using record_source_reported [OF measured] by blast
  then have "record_source sid b System ?s = ?s"
    using order_trans [OF assms(2)] by (intro record_source_stale) simp_all
  ultimately show ?thesis by (simp add: record_snapshot_def)
qed

definition sample_snapshot :: "nat \<Rightarrow> int \<Rightarrow> snapshot" where
  "sample_snapshot t n = \<lparr>snap_id = ''a'', reported_at = ((2025, 3, 5), t),
     received_at = ((2025, 3, 5), t), snap_stats = Some \<lparr>inbound = [(''in'', CvInt n, CvInt (2 * n))],
     outbound = []\<rparr>, system_tx_total = Some n, system_rx_total = Some n, system_boot = None\<rparr>"

definition empty_traffic :: traffic_state where
  "empty_traffic = \<lparr>rows = [], daily = [], servers = [], federated = []\<rparr>"

theorem stale_report_ignored_witness:
  "record_snapshot ''s'' (sample_snapshot 5 9) (record_snapshot ''s'' (sample_snapshot 7 4) empty_traffic)
    = record_snapshot ''s'' (sample_snapshot 7 4) empty_traffic"
  by (rule stale_report_ignored) (simp_all add: complete_def sample_snapshot_def)

section \<open>Conservation\<close>

lemma counter_of_nonneg: "0 \<le> counter_of v"
  by (cases v) auto

lemma xray_counters_nonneg: "(k, u, d) \<in> set (xray_counters st) \<Longrightarrow> 0 \<le> u \<and> 0 \<le> d"
  by (auto simp: xray_counters_def counter_of_nonneg)

definition total :: "(int \<times> int \<Rightarrow> int) \<Rightarrow> (string \<times> int \<times> int) list \<Rightarrow> int" where
  "total f cs = sum_list (map (\<lambda>c. f (snd c)) cs)"

text \<open>The same counters, none of them smaller than before.\<close>

definition counters_grew :: "(string \<times> int \<times> int) list \<Rightarrow> (string \<times> int \<times> int) list \<Rightarrow> bool" where
  "counters_grew old new \<longleftrightarrow>
     map fst new = map fst old \<and> distinct (map fst old) \<and>
     list_all2 (\<lambda>a b. fst (snd a) \<le> fst (snd b) \<and> snd (snd a) \<le> snd (snd b)) old new"

lemma growth_total:
  assumes "counters_grew old new" and f: "f = fst \<or> f = snd"
  shows "sum_list (map (\<lambda>c. growth (f (old_xray (XrayCounters old) (fst c))) (f (snd c))) new)
    = total f new - total f old"
proof -
  have len: "length new = length old"
    using assms(1) by (auto simp: counters_grew_def dest: list_all2_lengthD)
  have at: "old_xray (XrayCounters old) (fst (new ! i)) = snd (old ! i)" if "i < length new" for i
  proof -
    have "map fst new ! i = map fst old ! i" using assms(1) by (simp add: counters_grew_def)
    then have "fst (new ! i) = fst (old ! i)" using that len by simp
    moreover have "map_of old (fst (old ! i)) = Some (snd (old ! i))"
      using assms(1) that len by (simp add: counters_grew_def)
    ultimately show ?thesis by (simp add: old_xray_def)
  qed
  have le: "f (snd (old ! i)) \<le> f (snd (new ! i))" if "i < length new" for i
    using assms(1) f that len by (elim disjE) (simp_all add: counters_grew_def list_all2_conv_all_nth)
  have "map (\<lambda>c. growth (f (old_xray (XrayCounters old) (fst c))) (f (snd c))) new
      = map (\<lambda>i. f (snd (new ! i)) - f (snd (old ! i))) [0..<length new]"
    by (rule nth_equalityI) (auto simp: at le growth_def)
  moreover have "total f cs = sum_list (map (\<lambda>i. f (snd (cs ! i))) [0..<length cs])" for cs
    unfolding total_def by (rule arg_cong [where f = sum_list], rule nth_equalityI) auto
  ultimately show ?thesis by (simp add: len sum_list_subtractf)
qed

lemma xray_delta_total:
  assumes "counters_grew old new"
  shows "xray_delta (XrayCounters old) new = (total fst new - total fst old, total snd new - total snd old)"
  using growth_total [OF assms, of fst] growth_total [OF assms, of snd]
  by (simp add: xray_delta_def case_prod_beta')

lemma xray_delta_first:
  "xray_delta NoCounters (xray_counters st)
    = (total fst (xray_counters st), total snd (xray_counters st))"
proof -
  have "sum_list (map (\<lambda>(k, u, d). growth 0 u) (xray_counters st)) = total fst (xray_counters st)"
    and "sum_list (map (\<lambda>(k, u, d). growth 0 d) (xray_counters st)) = total snd (xray_counters st)"
    unfolding total_def using xray_counters_nonneg
    by (intro arg_cong [where f = sum_list] map_cong refl; auto simp: growth_def)+
  then show ?thesis by (simp add: xray_delta_def old_xray_def)
qed

abbreviation xc :: "snapshot \<Rightarrow> (string \<times> int \<times> int) list" where
  "xc snap \<equiv> xray_counters (the (snap_stats snap))"

lemma record_snapshot_xray:
  "tbl_get row_key (sid, Xray) (rows (record_snapshot sid snap s)) =
   tbl_get row_key (sid, Xray) (rows (record_source sid snap Xray s))"
  by (simp add: record_snapshot_def record_source_other)

lemma xray_accumulates:
  assumes "tbl_get row_key (sid, Xray) (rows s) = None" and "snaps \<noteq> []"
    and "sorted_wrt (\<lambda>a b. reported_at a < reported_at b \<and> counters_grew (xc a) (xc b)) snaps"
    and "\<forall>x \<in> set snaps. snap_stats x \<noteq> None"
  shows "\<exists>row. tbl_get row_key (sid, Xray) (rows (fold (record_snapshot sid) snaps s)) = Some row \<and>
    tr_counters row = XrayCounters (xc (last snaps)) \<and> last_reported row = Some (reported_at (last snaps)) \<and>
    tr_up row = total fst (xc (last snaps)) \<and> tr_down row = total snd (xc (last snaps))"
  using assms(2-)
proof (induction snaps rule: rev_nonempty_induct)
  case (single x)
  then obtain st where "snap_stats x = Some st" by auto
  with assms(1) show ?case
    by (simp add: record_snapshot_xray record_source_row state_row_def new_row_def measure_source_def
        advance_row_def xray_delta_first)
next
  case (snoc x xs)
  let ?s = "fold (record_snapshot sid) xs s"
  obtain row where row: "tbl_get row_key (sid, Xray) (rows ?s) = Some row"
    "tr_counters row = XrayCounters (xc (last xs))" "last_reported row = Some (reported_at (last xs))"
    "tr_up row = total fst (xc (last xs))" "tr_down row = total snd (xc (last xs))"
    using snoc by (auto simp: sorted_wrt_append)
  from snoc.prems snoc.hyps have newer: "\<not> reported_at x \<le> reported_at (last xs)"
    and grew: "counters_grew (xc (last xs)) (xc x)"
    by (auto simp: sorted_wrt_append not_le)
  obtain st where "snap_stats x = Some st" using snoc.prems(2) by auto
  with row newer xray_delta_total [OF grew] show ?case
    by (simp add: record_snapshot_xray record_source_row state_row_def measure_source_def
        advance_row_def Let_def)
qed

text \<open>
  C16: Xray traffic is counted exactly once. If a server's reports come in time order and its
  counters never restart, then after any number of reports the accumulated upload and download
  are exactly the sums of the last report's counters, however the reports were spaced.
\<close>

theorem xray_totals_conserved:
  assumes "tbl_get row_key (sid, Xray) (rows s) = None" and "snaps \<noteq> []"
    and "sorted_wrt (\<lambda>a b. reported_at a < reported_at b \<and> counters_grew (xc a) (xc b)) snaps"
    and "\<forall>x \<in> set snaps. snap_stats x \<noteq> None"
  shows "map_option (\<lambda>row. (tr_up row, tr_down row))
      (tbl_get row_key (sid, Xray) (rows (fold (record_snapshot sid) snaps s))) =
    Some (total fst (xc (last snaps)), total snd (xc (last snaps)))"
  using xray_accumulates [OF assms] by auto

theorem xray_totals_conserved_witness:
  "map_option (\<lambda>row. (tr_up row, tr_down row))
     (tbl_get row_key (''s'', Xray) (rows (fold (record_snapshot ''s'')
        [sample_snapshot 5 9, sample_snapshot 7 12] empty_traffic))) = Some (12, 24)"
proof -
  have "counters_grew (xc (sample_snapshot 5 9)) (xc (sample_snapshot 7 12))"
    by (simp add: counters_grew_def sample_snapshot_def xray_counters_def)
  then show ?thesis
    using xray_totals_conserved [of "''s''" empty_traffic "[sample_snapshot 5 9, sample_snapshot 7 12]"]
    by (simp add: empty_traffic_def sample_snapshot_def total_def xray_counters_def)
qed

section \<open>Resets\<close>

lemma rebase_keys [simp]:
  "tr_server (rebase at r) = tr_server r" "tr_source (rebase at r) = tr_source r"
  by (simp_all add: rebase_def)

lemma reset_server_row:
  "tbl_get row_key (srv_id v, src) (rows (reset_server at v s)) =
     Some (rebase at (state_row (srv_id v) src (rows s)))"
proof (cases src)
  case Xray
  then show ?thesis by (simp add: reset_server_def Let_def table_simps state_row_keys)
next
  case System
  have "state_row (srv_id v) System (tbl_put row_key (rebase at (state_row (srv_id v) Xray (rows s)))
      (rows s)) = state_row (srv_id v) System (rows s)"
    by (simp add: state_row_def [of _ System] table_simps state_row_keys)
  with System show ?thesis by (simp add: reset_server_def Let_def table_simps state_row_keys)
qed

lemma local_serverD: "local_server sid s = Inr v \<Longrightarrow> srv_id v = sid \<and> tbl_get srv_id sid (servers s) = Some v"
  by (auto simp: local_server_def find_server_def dest: tbl_get_SomeD split: option.splits if_splits)

lemma late_report_keeps_zero:
  assumes "tbl_get row_key (sid, src) (rows s) = Some row" and "baseline_at row = Some b"
    and "tr_up row = base_up row" and "tr_down row = base_down row" and "reported_at snap \<le> b"
  shows "\<exists>row'. tbl_get row_key (sid, src) (rows (record_source sid snap src s)) = Some row' \<and>
    tr_up row' = base_up row' \<and> tr_down row' = base_down row'"
  using assms
  by (simp add: record_source_row Let_def state_row_def advance_row_def split: option.split prod.split)

text \<open>
  Resetting a server. After a reset the reading is zero in every statistics mode while the
  cumulative totals of both sources are what they were, and a report from before the reset that
  arrives late is never charged to the new period.
\<close>

theorem reset_starts_from_zero:
  assumes "reset_traffic now sid s = Inr (s', rd)"
  shows "rd_used rd = 0 \<and>
    (\<forall>src. tr_up (state_row sid src (rows s')) = tr_up (state_row sid src (rows s)) \<and>
           tr_down (state_row sid src (rows s')) = tr_down (state_row sid src (rows s))) \<and>
    (\<forall>snap v t. reported_at snap \<le> now \<longrightarrow> srv_id v = sid \<longrightarrow>
       rd_used (read_server t v (record_snapshot sid snap s')) = 0)"
proof -
  obtain v where v: "local_server sid s = Inr v" and s': "s' = reset_server now v s"
    and rd: "rd = read_server now (v\<lparr>last_reset := Some now, updated_at := now\<rparr>) s'"
    using assms by (auto simp: reset_traffic_def Let_def split: sum.splits)
  have sid: "srv_id v = sid" using local_serverD [OF v] by simp
  have row: "tbl_get row_key (sid, src) (rows s') = Some (rebase now (state_row sid src (rows s)))" for src
    using reset_server_row [of v src now s] by (simp add: s' sid)
  have "rd_used rd = 0"
    unfolding rd read_server_def using row sid
    by (simp add: Let_def rebase_def split: stats_mode.split)
  moreover have "tr_up (state_row sid src (rows s')) = tr_up (state_row sid src (rows s))"
    and "tr_down (state_row sid src (rows s')) = tr_down (state_row sid src (rows s))" for src
    by (simp_all add: state_row_def [of _ _ "rows s'"] row rebase_def)
  moreover have "rd_used (read_server t w (record_snapshot sid snap s')) = 0"
    if "reported_at snap \<le> now" and "srv_id w = sid" for snap w t
  proof -
    let ?r = "\<lambda>src. rebase now (state_row sid src (rows s))"
    have base: "baseline_at (?r src) = Some now" "tr_up (?r src) = base_up (?r src)"
      "tr_down (?r src) = base_down (?r src)" for src by (simp_all add: rebase_def)
    have "\<exists>row'. tbl_get row_key (sid, src) (rows (record_snapshot sid snap s')) = Some row' \<and>
        tr_up row' = base_up row' \<and> tr_down row' = base_down row'" for src
    proof (cases src)
      case Xray
      then show ?thesis
        using late_report_keeps_zero [OF row base that(1), of Xray] by (simp add: record_snapshot_xray)
    next
      case System
      have "tbl_get row_key (sid, System) (rows (record_source sid snap Xray s')) = Some (?r System)"
        by (simp add: record_source_other row)
      from late_report_keeps_zero [OF this base that(1)] System show ?thesis
        by (simp add: record_snapshot_def)
    qed
    then obtain row' where "tbl_get row_key (sid, source_of w) (rows (record_snapshot sid snap s')) = Some row'"
      "tr_up row' = base_up row'" "tr_down row' = base_down row'" by blast
    with that(2) show ?thesis
      by (simp add: read_server_def Let_def split: stats_mode.split)
  qed
  ultimately show ?thesis by blast
qed

definition sample_server :: server where
  "sample_server = \<lparr>srv_id = ''s'', traffic_limit = 0, reset_day = 31, stats_mode_of = ModeBoth,
     source_of = Xray, last_reset = None, created_at = ((2025, 1, 1), 0), updated_at = ((2025, 1, 1), 0)\<rparr>"

theorem reset_starts_from_zero_witness:
  "\<exists>s' rd. reset_traffic ((2025, 3, 6), 0) ''s''
      (record_snapshot ''s'' (sample_snapshot 5 9) (empty_traffic\<lparr>servers := [sample_server]\<rparr>)) = Inr (s', rd) \<and>
    rd_used rd = 0 \<and>
    rd_used (read_server ((2025, 3, 7), 0) sample_server (record_snapshot ''s'' (sample_snapshot 7 12) s')) = 0"
proof -
  let ?s = "record_snapshot ''s'' (sample_snapshot 5 9) (empty_traffic\<lparr>servers := [sample_server]\<rparr>)"
  have "servers ?s = [sample_server]" and "federated ?s = []"
    by (simp_all add: record_snapshot_def record_source_servers empty_traffic_def)
  then obtain s' rd where r: "reset_traffic ((2025, 3, 6), 0) ''s'' ?s = Inr (s', rd)"
    by (simp add: reset_traffic_def local_server_def find_server_def sample_server_def tbl_get_Cons Let_def)
  from reset_starts_from_zero [OF r] have "rd_used rd = 0" and
    "reported_at (sample_snapshot 7 12) \<le> ((2025, 3, 6), 0) \<longrightarrow> srv_id sample_server = ''s'' \<longrightarrow>
      rd_used (read_server ((2025, 3, 7), 0) sample_server (record_snapshot ''s'' (sample_snapshot 7 12) s')) = 0"
    by blast+
  with r show ?thesis
    by (auto simp: sample_snapshot_def sample_server_def less_eq_prod_def less_prod_def)
qed

section \<open>Scheduled resets\<close>

lemma at_time_zero_le: "at_time 0 i \<le> i"
  by (cases i) (simp add: less_eq_prod_def)

lemma fold_reset_servers:
  assumes "tbl_keyed srv_id (servers s)" and "w \<in> set (servers (fold (reset_server now) vs s))"
  shows "(w \<in> set (servers s) \<and> srv_id w \<notin> srv_id ` set vs) \<or>
    (\<exists>v \<in> set vs. w = v\<lparr>last_reset := Some now, updated_at := now\<rparr>)"
  using assms
proof (induction vs arbitrary: s)
  case Nil
  then show ?case by simp
next
  case (Cons v vs)
  have servers: "servers (reset_server now v s) =
      tbl_put srv_id (v\<lparr>last_reset := Some now, updated_at := now\<rparr>) (servers s)"
    by (simp add: reset_server_def Let_def)
  have keyed: "tbl_keyed srv_id (servers (reset_server now v s))"
    unfolding servers using Cons.prems(1) by (rule tbl_keyed_put)
  have "(w \<in> set (servers (reset_server now v s)) \<and> srv_id w \<notin> srv_id ` set vs) \<or>
      (\<exists>v \<in> set vs. w = v\<lparr>last_reset := Some now, updated_at := now\<rparr>)"
    using Cons.prems(2) by (intro Cons.IH [OF keyed]) simp
  with Cons.prems(1) show ?case
    by (auto simp: servers set_tbl_put_keyed)
qed

lemma fold_reset_federated: "federated (fold (reset_server now) vs s) = federated s"
  by (induction vs arbitrary: s) (auto simp: reset_server_def Let_def)

text \<open>
  A scheduled reset happens once per boundary. After the reset cycle has run at some instant
  no server is due at that instant any more, so running the cycle again resets nothing; servers
  that were not due keep their record.
\<close>

theorem reset_cycle_settles:
  assumes "tbl_keyed srv_id (servers s)"
  shows "snd (reset_due now (fst (reset_due now s))) = 0 \<and>
    (\<forall>w \<in> set (servers (fst (reset_due now s))).
       \<not> is_due now (federated s) w \<and> (w \<in> set (servers s) \<or> last_reset w = Some now))"
proof -
  let ?todo = "filter (is_due now (federated s)) (servers s)"
  let ?s = "fst (reset_due now s)"
  have fed: "federated ?s = federated s"
    by (simp add: reset_due_def Let_def fold_reset_federated)
  have calm: "\<not> is_due now (federated s) w \<and> (w \<in> set (servers s) \<or> last_reset w = Some now)"
    if "w \<in> set (servers ?s)" for w
  proof -
    from that fold_reset_servers [OF assms, of w now ?todo]
    consider (old) "w \<in> set (servers s)" "srv_id w \<notin> srv_id ` set ?todo"
      | (new) v where "v \<in> set ?todo" "w = v\<lparr>last_reset := Some now, updated_at := now\<rparr>"
      by (auto simp: reset_due_def Let_def)
    then show ?thesis
    proof cases
      case old
      then show ?thesis by auto
    next
      case new
      then have "boundary now (reset_day v) \<le> now" by (simp add: is_due_def Let_def)
      then have "at_time 0 (boundary now (reset_day v)) \<le> now"
        by (rule order_trans [OF at_time_zero_le])
      with new(2) show ?thesis by (simp add: is_due_def reset_marker_def not_less Let_def)
    qed
  qed
  then have "filter (is_due now (federated ?s)) (servers ?s) = []"
    by (simp add: fed filter_empty_conv)
  with calm show ?thesis by (simp add: reset_due_def [of now ?s] Let_def)
qed

theorem reset_cycle_settles_witness:
  "snd (reset_due ((2025, 2, 28), 300000000)
      (fst (reset_due ((2025, 2, 28), 300000000) (empty_traffic\<lparr>servers := [sample_server]\<rparr>)))) = 0 \<and>
    snd (reset_due ((2025, 2, 28), 300000000) (empty_traffic\<lparr>servers := [sample_server]\<rparr>)) = 1"
proof -
  have "snd (reset_due ((2025, 2, 28), 300000000) (empty_traffic\<lparr>servers := [sample_server]\<rparr>)) = 1"
    by code_simp
  then show ?thesis
    using reset_cycle_settles [of "empty_traffic\<lparr>servers := [sample_server]\<rparr>" "((2025, 2, 28), 300000000)"]
    by (simp add: tbl_keyed_def)
qed

end
