(* ===== verification/User_Limits.thy ===== *)
theory User_Limits
  imports Prelude Complex_Main
begin

text \<open>
  Subscriber limits: \<open>backend/app/open_node/services/user_limits.py\<close> with the value types of
  \<open>domain/user_limits.py\<close>. Rates and gigabyte quotas are Python floats; the code only compares
  them and scales quotas by \<open>2^30\<close>, which is exact for every quota below \<open>2^53\<close>, so they are
  rationals here. Node identifiers are the canonical texts of their UUIDs and a JSON column that
  is \<open>null\<close> is the empty dict (\<open>or {}\<close>).
\<close>

section \<open>Data\<close>

type_synonym 'v limits = "(string \<times> 'v) list"

record limit_user =
  lu_traffic :: "int option"
  lu_speed :: "rat option"
  lu_devices :: "int option"
  lu_node_speeds :: "rat limits"
  lu_node_devices :: "int limits"

text \<open>\<open>UserLimitOverrides\<close> (keys are node identifiers) and \<open>CatalogUserLimitOverrides\<close> (names).\<close>

record overrides_values =
  ov_traffic_gb :: "rat option"
  ov_speed :: "rat option"
  ov_devices :: "int option"
  ov_node_speeds :: "rat limits"
  ov_node_devices :: "int limits"

record limit_plan =
  lp_traffic :: int
  lp_speed :: rat
  lp_devices :: int
  lp_node_speeds :: "rat limits"
  lp_node_devices :: "int limits"
  lp_nodes :: "string list"

record limit_node =
  ln_id :: string
  ln_name :: string
  ln_parent :: "string option"
  ln_enabled :: bool
  ln_removal :: "string option"

record limit_credential =
  lc_node :: string
  lc_server :: string
  lc_tag :: "string option"
  lc_email :: string

datatype limit_source =
  UserNode | UserParent | UserAll | PlanNode | PlanParent | PlanAll | Unlimited | SharedLimit

record effective =
  ef_speed :: rat
  ef_devices :: int
  ef_speed_source :: limit_source
  ef_devices_source :: limit_source

record node_read = effective +
  nr_node :: string
  nr_name :: string
  nr_enabled :: bool

datatype limit_error = ValidationError | AmbiguousNodeName | UnknownNodeName string

section \<open>Validation of the value types\<close>

definition valid_speed :: "rat \<Rightarrow> bool" where
  "valid_speed v = (0 \<le> v \<and> v \<le> 2 ^ 50 / 125000 \<and> \<not> (0 < v * 125000 \<and> v * 125000 < 1))"

definition valid_connections :: "int \<Rightarrow> bool" where
  "valid_connections n = (0 \<le> n \<and> n \<le> 1000000)"

definition valid_traffic :: "rat \<Rightarrow> bool" where
  "valid_traffic v =
     (0 \<le> v \<and> v \<le> (2 ^ 53 - 1) / 1024 ^ 3 \<and> \<not> (0 < v * 1024 ^ 3 \<and> v * 1024 ^ 3 < 1))"

definition valid_overrides :: "overrides_values \<Rightarrow> bool" where
  "valid_overrides ov =
     (pred_option valid_traffic (ov_traffic_gb ov) \<and> pred_option valid_speed (ov_speed ov) \<and>
      pred_option valid_connections (ov_devices ov) \<and>
      length (ov_node_speeds ov) \<le> 1000 \<and> length (ov_node_devices ov) \<le> 1000 \<and>
      list_all (valid_speed \<circ> snd) (ov_node_speeds ov) \<and>
      list_all (valid_connections \<circ> snd) (ov_node_devices ov))"

section \<open>Overrides of a user\<close>

definition overrides :: "limit_user \<Rightarrow> limit_error + overrides_values" where
  "overrides u =
     (let ov = \<lparr>ov_traffic_gb = map_option (\<lambda>q. of_int q / 1024 ^ 3) (lu_traffic u),
               ov_speed = lu_speed u, ov_devices = lu_devices u,
               ov_node_speeds = lu_node_speeds u, ov_node_devices = lu_node_devices u\<rparr>
      in if valid_overrides ov then Inr ov else Inl ValidationError)"

text \<open>\<open>int(x)\<close> truncates towards zero.\<close>

definition py_int :: "rat \<Rightarrow> int" where
  "py_int x = (if 0 \<le> x then \<lfloor>x\<rfloor> else \<lceil>x\<rceil>)"

definition apply_overrides :: "overrides_values \<Rightarrow> limit_user \<Rightarrow> limit_user" where
  "apply_overrides ov u =
     u\<lparr>lu_traffic := map_option (\<lambda>g. py_int (g * 1024 ^ 3)) (ov_traffic_gb ov),
       lu_speed := ov_speed ov, lu_devices := ov_devices ov,
       lu_node_speeds := ov_node_speeds ov, lu_node_devices := ov_node_devices ov\<rparr>"

definition traffic_limit :: "limit_user \<Rightarrow> limit_plan option \<Rightarrow> int" where
  "traffic_limit u p =
     (case lu_traffic u of
        Some q \<Rightarrow> q
      | None \<Rightarrow> (case p of Some pl \<Rightarrow> lp_traffic pl | None \<Rightarrow> 0))"

section \<open>Resolution\<close>

text \<open>\<open>keys\<close>: the node itself, then its parent; the source label depends on whose dict has it.\<close>

definition limit_keys :: "limit_node option \<Rightarrow> (string \<times> bool) list" where
  "limit_keys node =
     (case node of
        None \<Rightarrow> []
      | Some n \<Rightarrow> (ln_id n, True) #
          (case ln_parent n of Some p \<Rightarrow> if p \<noteq> [] then [(p, False)] else [] | None \<Rightarrow> []))"

fun first_limit :: "'v limits \<Rightarrow> (string \<times> bool) list \<Rightarrow> ('v \<times> bool) option" where
  "first_limit d [] = None"
| "first_limit d ((k, own) # ks) =
     (case map_of d k of Some v \<Rightarrow> Some (v, own) | None \<Rightarrow> first_limit d ks)"

definition resolve ::
  "'v::zero limits \<Rightarrow> 'v option \<Rightarrow> 'v limits \<Rightarrow> 'v \<Rightarrow> limit_node option \<Rightarrow> bool \<Rightarrow> 'v \<times> limit_source"
where
  "resolve user_nodes user_default plan_nodes plan_default node has_plan =
     (case first_limit user_nodes (limit_keys node) of
        Some (v, own) \<Rightarrow> (v, if own then UserNode else UserParent)
      | None \<Rightarrow>
        (case user_default of
           Some v \<Rightarrow> (v, UserAll)
         | None \<Rightarrow>
           (case first_limit plan_nodes (limit_keys node) of
              Some (v, own) \<Rightarrow> (v, if own then PlanNode else PlanParent)
            | None \<Rightarrow> if has_plan then (plan_default, PlanAll) else (0, Unlimited))))"

definition effective_limits ::
  "limit_user \<Rightarrow> limit_plan option \<Rightarrow> limit_node option \<Rightarrow> effective" where
  "effective_limits u p node =
     (let (speed, ss) = resolve (lu_node_speeds u) (lu_speed u)
            (case p of Some pl \<Rightarrow> lp_node_speeds pl | None \<Rightarrow> [])
            (case p of Some pl \<Rightarrow> lp_speed pl | None \<Rightarrow> 0) node (p \<noteq> None);
          (devices, ds) = resolve (lu_node_devices u) (lu_devices u)
            (case p of Some pl \<Rightarrow> lp_node_devices pl | None \<Rightarrow> [])
            (case p of Some pl \<Rightarrow> lp_devices pl | None \<Rightarrow> 0) node (p \<noteq> None)
      in \<lparr>ef_speed = speed, ef_devices = devices, ef_speed_source = ss, ef_devices_source = ds\<rparr>)"

section \<open>Limits per node\<close>

text \<open>
  \<open>by_id\<close> keeps the last node of an identifier. The second \<open>by_id\<close> refers to the items of the
  result, which the sharing pass mutates: an item is its position in the result list.
\<close>

definition last_of :: "('a \<Rightarrow> 'k) \<Rightarrow> 'k \<Rightarrow> 'a list \<Rightarrow> 'a option" where
  "last_of key k xs = List.find (\<lambda>x. key x = k) (rev xs)"

definition node_item :: "limit_user \<Rightarrow> limit_plan \<Rightarrow> limit_node \<Rightarrow> node_read" where
  "node_item u p n =
     (let e = effective_limits u (Some p) (Some n)
      in \<lparr>ef_speed = ef_speed e, ef_devices = ef_devices e, ef_speed_source = ef_speed_source e,
          ef_devices_source = ef_devices_source e, nr_node = ln_id n, nr_name = ln_name n,
          nr_enabled = (ln_enabled n \<and> (ln_removal n = None \<or> ln_removal n = Some []))\<rparr>)"

definition plan_items :: "limit_user \<Rightarrow> limit_plan option \<Rightarrow> limit_node list \<Rightarrow> node_read list" where
  "plan_items u p nodes =
     (case p of
        None \<Rightarrow> []
      | Some pl \<Rightarrow> map (node_item u pl) (List.map_filter (\<lambda>i. last_of ln_id i nodes) (lp_nodes pl)))"

definition item_index :: "node_read list \<Rightarrow> string \<Rightarrow> nat option" where
  "item_index items k =
     last_of (\<lambda>i. nr_node (items ! i)) k (filter (\<lambda>i. nr_enabled (items ! i)) [0..<length items])"

text \<open>\<open>groups.setdefault(key, []).append(item)\<close>.\<close>

fun add_member :: "'k \<Rightarrow> nat \<Rightarrow> ('k \<times> nat list) list \<Rightarrow> ('k \<times> nat list) list" where
  "add_member k i [] = [(k, [i])]"
| "add_member k i ((k', is) # gs) =
     (if k' = k then (k', is @ [i]) # gs else (k', is) # add_member k i gs)"

fun group_by ::
  "(limit_credential \<Rightarrow> string \<Rightarrow> 'k) \<Rightarrow> node_read list \<Rightarrow> limit_credential list \<Rightarrow>
   ('k \<times> nat list) list \<Rightarrow> ('k \<times> nat list) list" where
  "group_by key items [] gs = gs"
| "group_by key items (c # cs) gs =
     group_by key items cs
       (case (item_index items (lc_node c), lc_tag c) of
          (Some i, Some tag) \<Rightarrow> if tag \<noteq> [] then add_member (key c tag) i gs else gs
        | _ \<Rightarrow> gs)"

text \<open>\<open>min((v for v in \<dots> if v), default=0)\<close>: zero stands for unlimited.\<close>

definition shared_value :: "'v::{linorder,zero} list \<Rightarrow> 'v" where
  "shared_value vs = (case filter (\<lambda>v. v \<noteq> 0) vs of [] \<Rightarrow> 0 | w # ws \<Rightarrow> foldl min w ws)"

text \<open>One group of one field: \<open>read\<close> and \<open>write\<close> are \<open>getattr\<close> and the two \<open>setattr\<close>.\<close>

definition share_group ::
  "(node_read \<Rightarrow> 'v::{linorder,zero}) \<Rightarrow> ('v \<Rightarrow> node_read \<Rightarrow> node_read) \<Rightarrow> nat list \<Rightarrow>
   node_read list \<Rightarrow> node_read list" where
  "share_group read write members items =
     (let value = shared_value (map (\<lambda>i. read (items ! i)) members)
      in foldl (\<lambda>its i. if read (its ! i) \<noteq> value then its[i := write value (its ! i)] else its)
           items members)"

definition write_speed :: "rat \<Rightarrow> node_read \<Rightarrow> node_read" where
  "write_speed v r = r\<lparr>ef_speed := v, ef_speed_source := SharedLimit\<rparr>"

definition write_devices :: "int \<Rightarrow> node_read \<Rightarrow> node_read" where
  "write_devices v r = r\<lparr>ef_devices := v, ef_devices_source := SharedLimit\<rparr>"

definition speed_groups ::
  "node_read list \<Rightarrow> limit_credential list \<Rightarrow> ((string \<times> string \<times> string) \<times> nat list) list" where
  "speed_groups items cs = group_by (\<lambda>c tag. (lc_server c, tag, lc_email c)) items cs []"

definition connection_groups ::
  "node_read list \<Rightarrow> limit_credential list \<Rightarrow> ((string \<times> string) \<times> nat list) list" where
  "connection_groups items cs = group_by (\<lambda>c tag. (lc_server c, tag)) items cs []"

definition share_speeds :: "nat list list \<Rightarrow> node_read list \<Rightarrow> node_read list" where
  "share_speeds gs items = foldl (\<lambda>its g. share_group ef_speed write_speed g its) items gs"

definition share_devices :: "nat list list \<Rightarrow> node_read list \<Rightarrow> node_read list" where
  "share_devices gs items = foldl (\<lambda>its g. share_group ef_devices write_devices g its) items gs"

definition node_limits ::
  "limit_user \<Rightarrow> limit_plan option \<Rightarrow> limit_node list \<Rightarrow> limit_credential list \<Rightarrow> node_read list" where
  "node_limits u p nodes cs =
     (let items = plan_items u p nodes
      in share_devices (map snd (connection_groups items cs))
           (share_speeds (map snd (speed_groups items cs)) items))"

section \<open>Pruning, export and import\<close>

definition prune_node_overrides :: "string list \<Rightarrow> limit_user \<Rightarrow> limit_user \<times> bool" where
  "prune_node_overrides ids u =
     (let speeds = filter (\<lambda>(k, _). k \<notin> set ids) (lu_node_speeds u);
          devices = filter (\<lambda>(k, _). k \<notin> set ids) (lu_node_devices u)
      in (u\<lparr>lu_node_speeds := speeds, lu_node_devices := devices\<rparr>,
          speeds \<noteq> lu_node_speeds u \<or> devices \<noteq> lu_node_devices u))"

text \<open>\<open>mapped[f(k)] = v\<close> over the items of a dict; \<open>f\<close> is \<open>None\<close> where the code raises.\<close>

fun rename_keys ::
  "(string \<Rightarrow> string option) \<Rightarrow> (string \<Rightarrow> limit_error) \<Rightarrow> 'v limits \<Rightarrow> 'v limits \<Rightarrow> limit_error + 'v limits"
where
  "rename_keys f err [] acc = Inr acc"
| "rename_keys f err ((k, v) # d) acc =
     (case f k of
        None \<Rightarrow> Inl (err k)
      | Some k' \<Rightarrow> rename_keys f err d (tbl_put fst (k', v) acc))"

text \<open>\<open>names\<close> maps identifiers to names; a name must belong to one identifier only.\<close>

definition unique_name :: "(string \<times> string) list \<Rightarrow> string \<Rightarrow> string option" where
  "unique_name names i =
     (case map_of names i of
        None \<Rightarrow> None
      | Some n \<Rightarrow> if length (filter (\<lambda>(_, m). m = n) names) = 1 then Some n else None)"

definition unambiguous :: "(string \<times> string) list \<Rightarrow> string list \<Rightarrow> string \<Rightarrow> string option" where
  "unambiguous names ambiguous n = (if n \<in> set ambiguous then None else map_of names n)"

definition rename_overrides ::
  "(string \<Rightarrow> string option) \<Rightarrow> (string \<Rightarrow> limit_error) \<Rightarrow> overrides_values \<Rightarrow> limit_error + overrides_values"
where
  "rename_overrides f err ov =
     (case rename_keys f err (ov_node_speeds ov) [] of
        Inl e \<Rightarrow> Inl e
      | Inr speeds \<Rightarrow>
        (case rename_keys f err (ov_node_devices ov) [] of
           Inl e \<Rightarrow> Inl e
         | Inr devices \<Rightarrow>
           (let r = ov\<lparr>ov_node_speeds := speeds, ov_node_devices := devices\<rparr>
            in if valid_overrides r then Inr r else Inl ValidationError)))"

definition catalog_overrides ::
  "(string \<times> string) list \<Rightarrow> limit_user \<Rightarrow> limit_error + overrides_values" where
  "catalog_overrides names u =
     (case overrides u of
        Inl e \<Rightarrow> Inl e
      | Inr ov \<Rightarrow> rename_overrides (unique_name names) (\<lambda>_. AmbiguousNodeName) ov)"

definition import_overrides ::
  "(string \<times> string) list \<Rightarrow> string list \<Rightarrow> overrides_values \<Rightarrow> limit_error + overrides_values" where
  "import_overrides names ambiguous ov = rename_overrides (unambiguous names ambiguous) UnknownNodeName ov"


section \<open>Sharing\<close>

lemma foldl_min_le: "foldl min w ws \<le> w \<and> (\<forall>x \<in> set ws. foldl min w ws \<le> (x :: 'v::linorder))"
proof (induction ws arbitrary: w)
  case (Cons a ws)
  have "foldl min (min w a) ws \<le> min w a" using Cons by blast
  then have "foldl min (min w a) ws \<le> w" "foldl min (min w a) ws \<le> a" by simp_all
  with Cons show ?case by simp
qed simp

lemma foldl_min_in: "foldl min w ws \<in> insert (w :: 'v::linorder) (set ws)"
proof (induction ws arbitrary: w)
  case (Cons a ws)
  have "min w a \<in> {w, a}" by (simp add: min_def)
  with Cons [of "min w a"] show ?case by auto
qed simp

text \<open>\<open>tighter new old\<close>: a limit that bounds at least as much, zero being no bound.\<close>

definition tighter :: "'v::{linorder,zero} \<Rightarrow> 'v \<Rightarrow> bool" where
  "tighter new old \<longleftrightarrow> old \<noteq> 0 \<longrightarrow> new \<noteq> 0 \<and> new \<le> old"

lemma tighter_refl [simp]: "tighter v v"
  by (simp add: tighter_def)

lemma tighter_trans: "tighter a b \<Longrightarrow> tighter b c \<Longrightarrow> tighter a c"
  by (auto simp: tighter_def)

lemma shared_value_tighter:
  assumes "v \<in> set vs"
  shows "tighter (shared_value vs) v"
proof (cases "v = 0")
  case False
  with assms have v: "v \<in> set (filter (\<lambda>v. v \<noteq> 0) vs)" by simp
  then obtain w ws where f: "filter (\<lambda>v. v \<noteq> 0) vs = w # ws"
    by (cases "filter (\<lambda>v. v \<noteq> 0) vs") auto
  then have "set (w # ws) \<subseteq> {x. x \<noteq> 0}" by (metis mem_Collect_eq set_filter subsetI)
  with foldl_min_in [of w ws] have "foldl min w ws \<noteq> 0" by auto
  moreover have "foldl min w ws \<le> v" using v foldl_min_le [of w ws] by (auto simp: f)
  ultimately show ?thesis by (simp add: tighter_def shared_value_def f)
qed (simp add: tighter_def)

lemma shared_value_in:
  assumes "vs \<noteq> []"
  shows "shared_value vs \<in> set vs"
proof (cases "filter (\<lambda>v. v \<noteq> 0) vs")
  case Nil
  then have "\<forall>v \<in> set vs. v = 0" by (simp add: filter_empty_conv)
  with assms have "hd vs = 0" "hd vs \<in> set vs" by simp_all
  with Nil show ?thesis by (simp add: shared_value_def)
next
  case (Cons w ws)
  then have "insert w (set ws) \<subseteq> set vs" by (metis filter_is_subset list.simps(15))
  with foldl_min_in [of w ws] Cons show ?thesis by (auto simp: shared_value_def)
qed

text \<open>A field an item can be read and written at, and what writing leaves alone.\<close>

locale shared_field =
  fixes read :: "node_read \<Rightarrow> 'v::{linorder,zero}" and "write" :: "'v \<Rightarrow> node_read \<Rightarrow> node_read"
    and rest :: "node_read \<Rightarrow> 'f"
  assumes read_write: "read (write v r) = v"
    and rest_write: "rest (write v r) = rest r"
begin

definition share_all :: "nat list list \<Rightarrow> node_read list \<Rightarrow> node_read list" where
  "share_all gs items = foldl (\<lambda>its g. share_group read write g its) items gs"

definition write_all :: "'v \<Rightarrow> nat list \<Rightarrow> node_read list \<Rightarrow> node_read list" where
  "write_all v ms items =
     foldl (\<lambda>its i. if read (its ! i) \<noteq> v then its[i := write v (its ! i)] else its) items ms"

lemma write_all_simps:
  "write_all v [] items = items"
  "write_all v (m # ms) items =
     write_all v ms (if read (items ! m) \<noteq> v then items[m := write v (items ! m)] else items)"
  by (simp_all add: write_all_def)

lemma write_all_length [simp]: "length (write_all v ms items) = length items"
  by (induction ms arbitrary: items) (simp_all add: write_all_simps)

lemma write_all_nth:
  "j < length items \<Longrightarrow> write_all v ms items ! j =
     (if j \<in> set ms \<and> read (items ! j) \<noteq> v then write v (items ! j) else items ! j)"
proof (induction ms arbitrary: items)
  case (Cons m ms)
  let ?its = "if read (items ! m) \<noteq> v then items[m := write v (items ! m)] else items"
  have at: "?its ! j = (if m = j \<and> read (items ! j) \<noteq> v then write v (items ! j) else items ! j)"
    using Cons.prems by (cases "m = j") (auto simp: nth_list_update_neq)
  have "write_all v (m # ms) items ! j =
      (if j \<in> set ms \<and> read (?its ! j) \<noteq> v then write v (?its ! j) else ?its ! j)"
    unfolding write_all_simps using Cons.prems by (intro Cons.IH) simp
  then show ?case unfolding at by (auto simp: read_write)
qed (simp add: write_all_simps)

lemma share_group_write:
  "share_group read write ms items =
     write_all (shared_value (map (\<lambda>i. read (items ! i)) ms)) ms items"
  by (simp add: share_group_def write_all_def Let_def)

lemma share_group_length [simp]: "length (share_group read write ms items) = length items"
  by (simp add: share_group_write)

lemma share_group_nth:
  "j < length items \<Longrightarrow> share_group read write ms items ! j =
     (let v = shared_value (map (\<lambda>i. read (items ! i)) ms)
      in if j \<in> set ms \<and> read (items ! j) \<noteq> v then write v (items ! j) else items ! j)"
  by (simp add: share_group_write Let_def write_all_nth)

lemma share_group_tighter:
  "j < length items \<Longrightarrow> tighter (read (share_group read write ms items ! j)) (read (items ! j))"
  by (auto simp: share_group_nth Let_def read_write intro: shared_value_tighter)

lemma share_all_simps:
  "share_all [] items = items"
  "share_all (g # gs) items = share_all gs (share_group read write g items)"
  by (simp_all add: share_all_def)

lemma share_all_length [simp]: "length (share_all gs items) = length items"
  by (induction gs arbitrary: items) (simp_all add: share_all_simps)

lemma share_all_tighter:
  "j < length items \<Longrightarrow> tighter (read (share_all gs items ! j)) (read (items ! j))"
proof (induction gs arbitrary: items)
  case (Cons g gs)
  then show ?case
    using tighter_trans [OF Cons.IH [of "share_group read write g items"]
        share_group_tighter [of j items g]]
    by (simp add: share_all_simps)
qed (simp add: share_all_simps)

lemma share_all_rest: "j < length items \<Longrightarrow> rest (share_all gs items ! j) = rest (items ! j)"
proof (induction gs arbitrary: items)
  case (Cons g gs)
  then show ?case
    by (simp add: share_all_simps share_group_nth Let_def rest_write)
qed (simp add: share_all_simps)

lemma share_all_outside:
  "j < length items \<Longrightarrow> \<forall>g \<in> set gs. j \<notin> set g \<Longrightarrow> share_all gs items ! j = items ! j"
proof (induction gs arbitrary: items)
  case (Cons g gs)
  then show ?case by (simp add: share_all_simps share_group_nth Let_def)
qed (simp add: share_all_simps)

text \<open>Every value after the pass is the value some item had before it.\<close>

lemma share_group_values:
  assumes "set ms \<subseteq> {..<length items}"
  shows "read ` set (share_group read write ms items) \<subseteq> read ` set items"
proof
  fix v
  assume "v \<in> read ` set (share_group read write ms items)"
  then obtain j where j: "j < length items" and v: "v = read (share_group read write ms items ! j)"
    by (auto simp: in_set_conv_nth)
  let ?vs = "map (\<lambda>i. read (items ! i)) ms"
  have "shared_value ?vs \<in> set ?vs" if "j \<in> set ms" using that by (intro shared_value_in) auto
  moreover have "set ?vs \<subseteq> read ` set items" using assms by auto
  ultimately show "v \<in> read ` set items"
    using j v by (auto simp: share_group_nth Let_def read_write split: if_splits)
qed

lemma share_all_values:
  "\<forall>g \<in> set gs. set g \<subseteq> {..<length items} \<Longrightarrow>
   read ` set (share_all gs items) \<subseteq> read ` set items"
proof (induction gs arbitrary: items)
  case (Cons g gs)
  then show ?case
    using order_trans [OF Cons.IH [of "share_group read write g items"] share_group_values [of g items]]
    by (simp add: share_all_simps)
qed (simp add: share_all_simps)

text \<open>Disjoint groups: every member ends with the shared value of its own group.\<close>

lemma share_all_disjoint:
  assumes "\<forall>g \<in> set gs. set g \<subseteq> {..<length items}" and "distinct gs"
    and "\<forall>g \<in> set gs. \<forall>h \<in> set gs. g \<noteq> h \<longrightarrow> set g \<inter> set h = {}"
    and "g \<in> set gs" and "j \<in> set g"
  shows "read (share_all gs items ! j) = shared_value (map (\<lambda>i. read (items ! i)) g)"
  using assms
proof (induction gs arbitrary: items)
  case (Cons h gs)
  let ?its = "share_group read write h items"
  have j: "j < length items" using Cons.prems by auto
  show ?case
  proof (cases "g = h")
    case True
    with Cons.prems have "\<forall>k \<in> set gs. j \<notin> set k" by fastforce
    with True Cons.prems j show ?thesis
      by (simp add: share_all_simps share_all_outside share_group_nth Let_def read_write)
  next
    case False
    with Cons.prems have "set g \<inter> set h = {}" by simp
    moreover have "set g \<subseteq> {..<length items}" using Cons.prems(1,4) by blast
    ultimately have "i \<in> set g \<Longrightarrow> i < length items \<and> i \<notin> set h" for i by blast
    then have "\<forall>i \<in> set g. read (?its ! i) = read (items ! i)"
      by (simp add: share_group_nth Let_def)
    then have same: "map (\<lambda>i. read (?its ! i)) g = map (\<lambda>i. read (items ! i)) g" by simp
    have "read (share_all gs ?its ! j) = shared_value (map (\<lambda>i. read (?its ! i)) g)"
      using Cons.prems False by (intro Cons.IH) auto
    with same show ?thesis by (simp only: share_all_simps)
  qed
qed simp

end

interpretation speed_field: shared_field ef_speed write_speed
  "\<lambda>r. (ef_devices r, ef_devices_source r, nr_node r, nr_name r, nr_enabled r)"
  by unfold_locales (simp_all add: write_speed_def)

interpretation devices_field: shared_field ef_devices write_devices
  "\<lambda>r. (ef_speed r, ef_speed_source r, nr_node r, nr_name r, nr_enabled r)"
  by unfold_locales (simp_all add: write_devices_def)

lemma share_fields:
  "share_speeds = speed_field.share_all" "share_devices = devices_field.share_all"
  by (intro ext, simp add: share_speeds_def share_devices_def
      speed_field.share_all_def devices_field.share_all_def)+


section \<open>Groups\<close>

definition sharing ::
  "(limit_credential \<Rightarrow> string \<Rightarrow> 'k) \<Rightarrow> node_read list \<Rightarrow> limit_credential list \<Rightarrow> 'k \<Rightarrow> nat set" where
  "sharing key items cs k =
     {i. \<exists>c \<in> set cs. \<exists>tag. item_index items (lc_node c) = Some i \<and> lc_tag c = Some tag \<and>
         tag \<noteq> [] \<and> key c tag = k}"

definition group_of :: "('k \<times> nat list) list \<Rightarrow> 'k \<Rightarrow> nat list" where
  "group_of gs k = (case map_of gs k of None \<Rightarrow> [] | Some g \<Rightarrow> g)"

lemma group_of_Nil [simp]: "group_of [] k = []"
  by (simp add: group_of_def)

lemma group_of_add: "group_of (add_member k i gs) j = group_of gs j @ (if j = k then [i] else [])"
  by (induction k i gs rule: add_member.induct) (auto simp: group_of_def)

lemma keys_add_member:
  "fst ` set (add_member k i gs) = insert k (fst ` set gs)"
  by (induction k i gs rule: add_member.induct) auto

lemma distinct_add_member:
  "distinct (map fst gs) \<Longrightarrow> distinct (map fst (add_member k i gs))"
  by (induction k i gs rule: add_member.induct) (auto simp: keys_add_member)

lemma nonempty_add_member:
  "\<forall>g \<in> set gs. snd g \<noteq> [] \<Longrightarrow> \<forall>g \<in> set (add_member k i gs). snd g \<noteq> []"
  by (induction k i gs rule: add_member.induct) auto

lemma group_by_inv:
  assumes "distinct (map fst gs)" and "\<forall>g \<in> set gs. snd g \<noteq> []"
  shows "distinct (map fst (group_by key items cs gs)) \<and>
    (\<forall>g \<in> set (group_by key items cs gs). snd g \<noteq> []) \<and>
    (\<forall>k. set (group_of (group_by key items cs gs) k) = set (group_of gs k) \<union> sharing key items cs k)"
  using assms
proof (induction cs arbitrary: gs)
  case Nil
  then show ?case by (simp add: sharing_def)
next
  case (Cons c cs)
  define gs' where "gs' = (case (item_index items (lc_node c), lc_tag c) of
      (Some i, Some tag) \<Rightarrow> if tag \<noteq> [] then add_member (key c tag) i gs else gs | _ \<Rightarrow> gs)"
  have dist: "distinct (map fst gs')"
    using Cons.prems by (simp add: gs'_def distinct_add_member split: option.split)
  have nonempty: "\<forall>g \<in> set gs'. snd g \<noteq> []"
    using Cons.prems nonempty_add_member [OF Cons.prems(2)]
    by (simp add: gs'_def split: option.split)
  note IH = Cons.IH [OF dist nonempty]
  have "set (group_of gs' k) \<union> sharing key items cs k =
      set (group_of gs k) \<union> sharing key items (c # cs) k" for k
    by (auto simp: gs'_def sharing_def group_of_add split: option.splits)
  with IH show ?case unfolding group_by.simps gs'_def [symmetric] by simp
qed

lemma last_of_SomeD: "last_of key k xs = Some x \<Longrightarrow> x \<in> set xs \<and> key x = k"
proof -
  assume "last_of key k xs = Some x"
  then obtain j where "j < length (rev xs)" "key (rev xs ! j) = k" "x = rev xs ! j"
    by (auto simp: last_of_def find_Some_iff)
  then show ?thesis using nth_mem [of j "rev xs"] by simp
qed

lemma item_index_lt: "item_index items k = Some i \<Longrightarrow> i < length items \<and> nr_node (items ! i) = k"
  by (auto simp: item_index_def dest: last_of_SomeD)

lemma sharingI:
  "c \<in> set cs \<Longrightarrow> item_index items (lc_node c) = Some i \<Longrightarrow> lc_tag c = Some tag \<Longrightarrow> tag \<noteq> [] \<Longrightarrow>
   key c tag = k \<Longrightarrow> i \<in> sharing key items cs k"
  unfolding sharing_def by blast

lemma sharing_lt: "sharing key items cs k \<subseteq> {..<length items}"
  by (auto simp: sharing_def dest: item_index_lt)

text \<open>
  The groups of one field: their members are items of the plan, and when every node is reached
  through one inbound they are disjoint and each is all the items of its inbound.
\<close>

lemma groups_members:
  assumes "g \<in> set (map snd (group_by key items cs []))"
  shows "\<exists>k. set g = sharing key items cs k \<and> g = group_of (group_by key items cs []) k"
proof -
  note inv = group_by_inv [of "[]" key items cs]
  from assms obtain k where "(k, g) \<in> set (group_by key items cs [])" by auto
  with inv have "map_of (group_by key items cs []) k = Some g" by simp
  then have "g = group_of (group_by key items cs []) k" by (simp add: group_of_def)
  with inv show ?thesis by auto
qed

lemma groups_lt: "\<forall>g \<in> set (map snd (group_by key items cs [])). set g \<subseteq> {..<length items}"
  using groups_members sharing_lt by metis

lemma group_in:
  assumes "i \<in> sharing key items cs k"
  shows "\<exists>g \<in> set (map snd (group_by key items cs [])). set g = sharing key items cs k"
proof -
  let ?G = "group_by key items cs []"
  have "set (group_of ?G k) = sharing key items cs k"
    using group_by_inv [of "[]" key items cs] by simp
  with assms have "set (group_of ?G k) = sharing key items cs k" "group_of ?G k \<noteq> []" by auto
  moreover from this(2) have "(k, group_of ?G k) \<in> set ?G"
    by (auto simp: group_of_def dest: map_of_SomeD split: option.splits)
  ultimately show ?thesis by force
qed

definition one_inbound :: "(limit_credential \<Rightarrow> 'k) \<Rightarrow> limit_credential list \<Rightarrow> bool" where
  "one_inbound key cs \<longleftrightarrow> (\<forall>c \<in> set cs. \<forall>d \<in> set cs. lc_node c = lc_node d \<longrightarrow> key c = key d)"

lemma groups_disjoint:
  fixes items :: "node_read list"
  assumes "one_inbound (\<lambda>c. key c (the (lc_tag c))) cs"
  defines "gs \<equiv> map snd (group_by key items cs [])"
  shows "distinct gs \<and> (\<forall>g \<in> set gs. \<forall>h \<in> set gs. g \<noteq> h \<longrightarrow> set g \<inter> set h = {})"
proof -
  let ?G = "group_by key items cs []"
  have inv: "distinct (map fst ?G)" "\<forall>g \<in> set ?G. snd g \<noteq> []"
    using group_by_inv [of "[]" key items cs] by simp_all
  have mem: "set (snd p) = sharing key items cs (fst p)" if "p \<in> set ?G" for p
  proof -
    from that inv(1) have "map_of ?G (fst p) = Some (snd p)" by simp
    then have "group_of ?G (fst p) = snd p" by (simp add: group_of_def)
    moreover have "set (group_of ?G k) = sharing key items cs k" for k
      using group_by_inv [of "[]" key items cs] by simp
    ultimately show ?thesis by metis
  qed
  have disj: "fst p = fst q" if "p \<in> set ?G" "q \<in> set ?G" "i \<in> set (snd p)" "i \<in> set (snd q)" for p q i
  proof -
    have "i \<in> sharing key items cs (fst p)" "i \<in> sharing key items cs (fst q)"
      using that mem by simp_all
    then obtain c d where "c \<in> set cs" "d \<in> set cs"
        "item_index items (lc_node c) = Some i" "item_index items (lc_node d) = Some i"
        "key c (the (lc_tag c)) = fst p" "key d (the (lc_tag d)) = fst q"
      by (auto simp: sharing_def)
    moreover from this have "lc_node c = lc_node d" using item_index_lt by metis
    moreover have "lc_node c = lc_node d \<Longrightarrow> key c (the (lc_tag c)) = key d (the (lc_tag d))"
      using assms(1) \<open>c \<in> set cs\<close> \<open>d \<in> set cs\<close> unfolding one_inbound_def by blast
    ultimately show ?thesis by simp
  qed
  have same: "p = q" if "p \<in> set ?G" "q \<in> set ?G" "fst p = fst q" for p q
    using inv(1) that by (metis eq_key_imp_eq_value prod.collapse)
  have "inj_on snd (set ?G)"
  proof (rule inj_onI)
    fix p q
    assume pq: "p \<in> set ?G" "q \<in> set ?G" "snd p = snd q"
    with inv(2) have "hd (snd p) \<in> set (snd p)" "hd (snd p) \<in> set (snd q)" by auto
    with disj pq same show "p = q" by blast
  qed
  moreover have "distinct ?G" using inv(1) distinct_map by blast
  ultimately have "distinct gs" by (simp add: gs_def distinct_map)
  moreover have "set g \<inter> set h = {}" if gh: "g \<in> set gs" "h \<in> set gs" "g \<noteq> h" for g h
  proof -
    from gh obtain p q where "p \<in> set ?G" "g = snd p" "q \<in> set ?G" "h = snd q" by (auto simp: gs_def)
    moreover from this gh(3) have "fst p \<noteq> fst q" using same by blast
    ultimately show ?thesis using disj by blast
  qed
  ultimately show ?thesis by blast
qed


section \<open>Export and import\<close>

lemma tbl_put_fresh: "key r \<notin> key ` set rows \<Longrightarrow> tbl_put key r rows = rows @ [r]"
  by (induction rows) auto

lemma rename_keys_inj:
  assumes "\<forall>(k, v) \<in> set d. f k \<noteq> None" and "distinct (map (\<lambda>(k, v). f k) d)"
    and "\<forall>(k, v) \<in> set d. the (f k) \<notin> fst ` set acc"
  shows "rename_keys f err d acc = Inr (acc @ map (\<lambda>(k, v). (the (f k), v)) d)"
  using assms
proof (induction d arbitrary: acc)
  case (Cons p d)
  obtain k v k' where p: "p = (k, v)" and f: "f k = Some k'" using Cons.prems by (cases p) auto
  have put: "tbl_put fst (k', v) acc = acc @ [(k', v)]"
    using Cons.prems p f by (intro tbl_put_fresh) auto
  have ne: "f j \<noteq> Some k'" if "(j, w) \<in> set d" for j w
  proof
    assume "f j = Some k'"
    moreover have "f j \<in> set (map (\<lambda>(k, v). f k) d)" using that by force
    ultimately show False using Cons.prems(2) p f by simp
  qed
  have "rename_keys f err d (acc @ [(k', v)]) =
      Inr ((acc @ [(k', v)]) @ map (\<lambda>(k, v). (the (f k), v)) d)"
  proof (rule Cons.IH)
    show "\<forall>(k, v) \<in> set d. f k \<noteq> None" "distinct (map (\<lambda>(k, v). f k) d)"
      using Cons.prems by simp_all
    show "\<forall>(j, w) \<in> set d. the (f j) \<notin> fst ` set (acc @ [(k', v)])"
    proof -
      have "the (f j) \<notin> fst ` set (acc @ [(k', v)])" if jw: "(j, w) \<in> set d" for j w
      proof -
        from jw Cons.prems(1) obtain n where "f j = Some n" by fastforce
        moreover have "the (f j) \<notin> fst ` set acc" using Cons.prems(3) jw by fastforce
        ultimately show ?thesis using ne [OF jw] by simp
      qed
      then show ?thesis by blast
    qed
  qed
  with p f put show ?case by simp
qed simp

lemma rename_keys_defined:
  "rename_keys f err d acc = Inr r \<Longrightarrow> \<forall>(k, v) \<in> set d. f k \<noteq> None"
  by (induction f err d acc rule: rename_keys.induct) (auto split: option.splits)

lemma unique_name_inj:
  assumes "unique_name names i = Some n" and "unique_name names j = Some n"
  shows "i = j"
proof (rule ccontr)
  assume ne: "i \<noteq> j"
  let ?P = "\<lambda>(_, m). m = n"
  from assms have len: "length (filter ?P names) = 1"
    and "(i, n) \<in> set names" "(j, n) \<in> set names"
    by (auto simp: unique_name_def split: option.splits if_splits dest: map_of_SomeD)
  then have "(i, n) \<in> set (filter ?P names)" "(j, n) \<in> set (filter ?P names)" by auto
  moreover from len obtain p where "filter ?P names = [p]"
    by (cases "filter ?P names") auto
  ultimately show False using ne by auto
qed

definition map_keys :: "(string \<Rightarrow> string) \<Rightarrow> 'v limits \<Rightarrow> 'v limits" where
  "map_keys g d = map (\<lambda>(k, v). (g k, v)) d"

lemma valid_map_keys:
  "valid_overrides (ov\<lparr>ov_node_speeds := map_keys g s, ov_node_devices := map_keys g d\<rparr>) \<longleftrightarrow>
   valid_overrides (ov\<lparr>ov_node_speeds := s, ov_node_devices := d\<rparr>)"
  by (simp add: valid_overrides_def map_keys_def list_all_iff split_beta)

text \<open>Renaming along \<open>f\<close> and then along \<open>h\<close> is renaming by \<open>g\<close> when \<open>h\<close> after \<open>f\<close> is \<open>g\<close>.\<close>

lemma rename_twice:
  fixes d :: "'v limits"
  assumes out: "rename_keys f err d [] = Inr e" and "distinct (map fst d)"
    and f_inj: "\<And>i j n. f i = Some n \<Longrightarrow> f j = Some n \<Longrightarrow> i = j"
    and h: "\<And>i n. f i = Some n \<Longrightarrow> h n = Some (g i)" and "inj g"
  shows "e = map_keys (the \<circ> f) d \<and> rename_keys h err' e [] = Inr (map_keys g d)"
proof -
  have defd: "\<forall>(k, v) \<in> set d. f k \<noteq> None" using rename_keys_defined [OF out] .
  then have f_h: "h (the (f k)) = Some (g k)" if "(k, v) \<in> set d" for k v
    using h that by fastforce
  have "inj_on f (fst ` set d)"
  proof (rule inj_onI)
    fix i j
    assume ij: "i \<in> fst ` set d" "j \<in> fst ` set d" "f i = f j"
    with defd obtain n where "f i = Some n" by fastforce
    with ij(3) f_inj show "i = j" by metis
  qed
  then have "distinct (map f (map fst d))"
    using assms(2) by (simp only: distinct_map [of f] set_map)
  then have "distinct (map (\<lambda>(k, v). f k) d)" by (simp add: comp_def case_prod_unfold)
  with rename_keys_inj [of d f "[]" err] defd out have e: "e = map_keys (the \<circ> f) d"
    by (simp add: map_keys_def)
  have hs: "map (\<lambda>(k, v). h k) e = map (Some \<circ> g) (map fst d)"
    using f_h by (auto simp: e map_keys_def)
  have "distinct (map (Some \<circ> g) (map fst d))"
    using assms(2) \<open>inj g\<close> by (simp add: distinct_map inj_on_def)
  with hs have "distinct (map (\<lambda>(k, v). h k) e)" by (simp only: hs)
  moreover have "\<forall>(k, v) \<in> set e. h k \<noteq> None" using f_h by (fastforce simp: e map_keys_def)
  ultimately have "rename_keys h err' e [] = Inr (map (\<lambda>(k, v). (the (h k), v)) e)"
    using rename_keys_inj [of e h "[]" err'] by simp
  moreover have "map (\<lambda>(k, v). (the (h k), v)) e = map_keys g d"
    using f_h by (auto simp: e map_keys_def)
  ultimately show ?thesis using e by simp
qed

section \<open>Properties\<close>

text \<open>
  Sharing an inbound never loosens a limit. For every item of the per-node reading, whatever
  the credentials, its speed and connection limits are at least as tight as the limits resolved
  for its own node (0 meaning none), each is the resolved limit of some node of the plan, and the
  node, its name and its state are those of the plan.
\<close>

theorem sharing_never_loosens:
  fixes u p nodes cs i
  defines "own \<equiv> plan_items u p nodes" and "res \<equiv> node_limits u p nodes cs"
  shows "length res = length own \<and>
    (i < length own \<longrightarrow>
       tighter (ef_speed (res ! i)) (ef_speed (own ! i)) \<and>
       tighter (ef_devices (res ! i)) (ef_devices (own ! i)) \<and>
       ef_speed (res ! i) \<in> ef_speed ` set own \<and> ef_devices (res ! i) \<in> ef_devices ` set own \<and>
       nr_node (res ! i) = nr_node (own ! i) \<and> nr_name (res ! i) = nr_name (own ! i) \<and>
       nr_enabled (res ! i) = nr_enabled (own ! i))"
proof -
  define its where "its = share_speeds (map snd (speed_groups own cs)) own"
  let ?gs = "map snd (speed_groups own cs)" and ?hs = "map snd (connection_groups own cs)"
  have res: "res = share_devices ?hs its"
    by (simp add: res_def own_def its_def node_limits_def Let_def)
  have len: "length its = length own" by (simp add: its_def share_fields)
  have lt: "\<forall>g \<in> set ?gs. set g \<subseteq> {..<length own}" "\<forall>g \<in> set ?hs. set g \<subseteq> {..<length its}"
    unfolding len speed_groups_def connection_groups_def by (rule groups_lt)+
  have speed_rest: "ef_devices (its ! j) = ef_devices (own ! j)" if "j < length own" for j
    using speed_field.share_all_rest [OF that, of ?gs] by (simp add: its_def share_fields)
  have devs: "ef_devices ` set its = ef_devices ` set own"
    using speed_rest len by (simp add: set_conv_nth image_Collect) (metis (lifting))
  have nr: "(nr_node (res ! i), nr_name (res ! i), nr_enabled (res ! i)) =
      (nr_node (own ! i), nr_name (own ! i), nr_enabled (own ! i))" if "i < length own"
    using that speed_field.share_all_rest [of i own ?gs] devices_field.share_all_rest [of i its ?hs] len
    by (simp add: res share_fields its_def)
  have speed: "ef_speed (res ! i) = ef_speed (its ! i)" if "i < length own"
    using that devices_field.share_all_rest [of i its ?hs] len by (simp add: res share_fields)
  have "ef_speed (its ! i) \<in> ef_speed ` set its" "ef_devices (res ! i) \<in> ef_devices ` set res"
    if "i < length own"
    using that len by (simp_all add: res share_fields)
  moreover have "ef_speed ` set its \<subseteq> ef_speed ` set own" "ef_devices ` set res \<subseteq> ef_devices ` set own"
    using speed_field.share_all_values [OF lt(1)] devices_field.share_all_values [OF lt(2)] devs
    by (simp_all add: res its_def share_fields)
  moreover have "tighter (ef_speed (its ! i)) (ef_speed (own ! i))"
      "tighter (ef_devices (res ! i)) (ef_devices (own ! i))" if "i < length own"
    using that speed_field.share_all_tighter [of i own ?gs] devices_field.share_all_tighter [of i its ?hs]
      speed_rest len
    by (simp_all add: res its_def share_fields)
  moreover have "length res = length own" by (simp add: res share_fields len)
  ultimately show ?thesis using nr speed by auto
qed


text \<open>
  Nodes behind one inbound read one limit. When every node is reached through one inbound (all
  its credentials name the same server, inbound and mailbox), two enabled nodes of the plan behind
  the same inbound of the same server show the same connection limit, and with the same mailbox
  the same speed limit.
\<close>

theorem shared_inbound_agrees:
  assumes "one_inbound (\<lambda>c. (lc_server c, the (lc_tag c), lc_email c)) cs"
    and "c \<in> set cs" "d \<in> set cs" and "lc_server c = lc_server d" "lc_tag c = Some tag"
    and "lc_tag d = Some tag" "tag \<noteq> []"
    and "item_index (plan_items u p nodes) (lc_node c) = Some i"
    and "item_index (plan_items u p nodes) (lc_node d) = Some j"
  shows "ef_devices (node_limits u p nodes cs ! i) = ef_devices (node_limits u p nodes cs ! j) \<and>
    (lc_email c = lc_email d \<longrightarrow>
       ef_speed (node_limits u p nodes cs ! i) = ef_speed (node_limits u p nodes cs ! j))"
proof -
  define own where "own = plan_items u p nodes"
  define its where "its = share_speeds (map snd (speed_groups own cs)) own"
  let ?gs = "map snd (speed_groups own cs)" and ?hs = "map snd (connection_groups own cs)"
  let ?k = "\<lambda>c tag. (lc_server c, tag, lc_email c)" and ?l = "\<lambda>c tag. (lc_server c, tag)"
  have res: "node_limits u p nodes cs = share_devices ?hs its"
    by (simp add: own_def its_def node_limits_def Let_def)
  have len: "length its = length own" by (simp add: its_def share_fields)
  have lt: "\<forall>g \<in> set ?gs. set g \<subseteq> {..<length own}" "\<forall>g \<in> set ?hs. set g \<subseteq> {..<length its}"
    unfolding len speed_groups_def connection_groups_def by (rule groups_lt)+
  have one: "one_inbound (\<lambda>c. ?l c (the (lc_tag c))) cs"
    using assms(1) unfolding one_inbound_def prod.inject by blast
  have ij: "i \<in> sharing ?l own cs (lc_server c, tag)" "j \<in> sharing ?l own cs (lc_server c, tag)"
    using sharingI [of c cs own i tag ?l] sharingI [of d cs own j tag ?l] assms(2-9)
    by (simp_all add: own_def)
  obtain h where h: "h \<in> set ?hs" "i \<in> set h" "j \<in> set h"
    using ij group_in [of _ ?l own cs] unfolding connection_groups_def by blast
  have "ef_devices (share_devices ?hs its ! m) = shared_value (map (\<lambda>n. ef_devices (its ! n)) h)"
    if "m \<in> set h" for m
    using devices_field.share_all_disjoint [OF lt(2) _ _ h(1) that] groups_disjoint [of ?l cs own, OF one]
    unfolding share_fields connection_groups_def by blast
  with h have dev: "ef_devices (node_limits u p nodes cs ! i) = ef_devices (node_limits u p nodes cs ! j)"
    by (simp add: res)
  have "ef_speed (node_limits u p nodes cs ! i) = ef_speed (node_limits u p nodes cs ! j)"
    if email: "lc_email c = lc_email d"
  proof -
    have ij: "i \<in> sharing ?k own cs (lc_server c, tag, lc_email c)"
        "j \<in> sharing ?k own cs (lc_server c, tag, lc_email c)"
      using sharingI [of c cs own i tag ?k] sharingI [of d cs own j tag ?k] assms(2-9) email
      by (simp_all add: own_def)
    obtain g where g: "g \<in> set ?gs" "i \<in> set g" "j \<in> set g"
      using ij group_in [of _ ?k own cs] unfolding speed_groups_def by blast
    have "ef_speed (its ! m) = shared_value (map (\<lambda>n. ef_speed (own ! n)) g)" if "m \<in> set g" for m
      using speed_field.share_all_disjoint [OF lt(1) _ _ g(1) that] groups_disjoint [of ?k cs own, OF assms(1)]
      unfolding its_def share_fields speed_groups_def by blast
    moreover have "ef_speed (node_limits u p nodes cs ! m) = ef_speed (its ! m)" if "m < length own" for m
      using devices_field.share_all_rest [of m its ?hs] that len by (simp add: res share_fields)
    moreover have "i < length own" "j < length own" using assms(8,9) item_index_lt by (auto simp: own_def)
    ultimately show ?thesis using g by simp
  qed
  with dev show ?thesis by blast
qed

definition sample_limit_user :: limit_user where
  "sample_limit_user = \<lparr>lu_traffic = Some 5, lu_speed = None, lu_devices = Some 4,
     lu_node_speeds = [(''a'', 8)], lu_node_devices = [(''b'', 2)]\<rparr>"

definition sample_limit_plan :: limit_plan where
  "sample_limit_plan = \<lparr>lp_traffic = 9, lp_speed = 3, lp_devices = 0, lp_node_speeds = [],
     lp_node_devices = [], lp_nodes = [''a'', ''b'']\<rparr>"

definition sample_nodes :: "limit_node list" where
  "sample_nodes = [\<lparr>ln_id = ''a'', ln_name = ''A'', ln_parent = None, ln_enabled = True, ln_removal = None\<rparr>,
     \<lparr>ln_id = ''b'', ln_name = ''B'', ln_parent = Some ''a'', ln_enabled = True, ln_removal = None\<rparr>]"

definition sample_creds :: "limit_credential list" where
  "sample_creds = [\<lparr>lc_node = ''a'', lc_server = ''s'', lc_tag = Some ''in'', lc_email = ''u''\<rparr>,
     \<lparr>lc_node = ''b'', lc_server = ''s'', lc_tag = Some ''in'', lc_email = ''u''\<rparr>]"

theorem sharing_never_loosens_witness:
  "tighter (ef_devices (node_limits sample_limit_user (Some sample_limit_plan) sample_nodes sample_creds ! 0)) 4"
proof -
  have "length (plan_items sample_limit_user (Some sample_limit_plan) sample_nodes) = 2"
    and "ef_devices (plan_items sample_limit_user (Some sample_limit_plan) sample_nodes ! 0) = 4"
    by code_simp+
  with sharing_never_loosens [where i = 0 and u = sample_limit_user
      and p = "Some sample_limit_plan" and nodes = sample_nodes and cs = sample_creds]
  show ?thesis by simp
qed

theorem shared_inbound_agrees_witness:
  "ef_devices (node_limits sample_limit_user (Some sample_limit_plan) sample_nodes sample_creds ! 0) = 2 \<and>
   ef_devices (node_limits sample_limit_user (Some sample_limit_plan) sample_nodes sample_creds ! 1) = 2"
proof -
  have i: "item_index (plan_items sample_limit_user (Some sample_limit_plan) sample_nodes) ''a'' = Some 0"
    and j: "item_index (plan_items sample_limit_user (Some sample_limit_plan) sample_nodes) ''b'' = Some 1"
    and v: "ef_devices (node_limits sample_limit_user (Some sample_limit_plan) sample_nodes sample_creds ! 0) = 2"
    by code_simp+
  have "ef_devices (node_limits sample_limit_user (Some sample_limit_plan) sample_nodes sample_creds ! 0) =
      ef_devices (node_limits sample_limit_user (Some sample_limit_plan) sample_nodes sample_creds ! 1)"
    using i j shared_inbound_agrees [of sample_creds "sample_creds ! 0" "sample_creds ! 1" "''in''"
      sample_limit_user "Some sample_limit_plan" sample_nodes 0 1]
    by (simp add: sample_creds_def one_inbound_def)
  with v show ?thesis by simp
qed

text \<open>
  Catalog export and import keep the limits. Overrides exported under node names and imported
  into an installation whose nodes have the same unique names, with other identifiers, give the
  user exactly the quota, default limits and per-node limits he had, keyed by the new identifiers.
\<close>

theorem catalog_round_trip:
  assumes "catalog_overrides names u = Inr ov"
    and "distinct (map fst (lu_node_speeds u))" "distinct (map fst (lu_node_devices u))"
    and "\<forall>i n. unique_name names i = Some n \<longrightarrow> map_of names' n = Some (g i) \<and> n \<notin> set ambiguous"
    and "inj g"
  shows "\<exists>ov'. import_overrides names' ambiguous ov = Inr ov' \<and>
    apply_overrides ov' v = v\<lparr>lu_traffic := lu_traffic u, lu_speed := lu_speed u,
      lu_devices := lu_devices u, lu_node_speeds := map_keys g (lu_node_speeds u),
      lu_node_devices := map_keys g (lu_node_devices u)\<rparr>"
proof -
  let ?f = "unique_name names" and ?h = "unambiguous names' ambiguous"
  from assms(1) obtain ov0 where ov0: "overrides u = Inr ov0"
      and ren: "rename_overrides ?f (\<lambda>_. AmbiguousNodeName) ov0 = Inr ov"
    by (auto simp: catalog_overrides_def split: sum.splits)
  have h: "?h n = Some (g i)" if "?f i = Some n" for i n
    using assms(4) that by (simp add: unambiguous_def)
  from ren obtain s d where s: "rename_keys ?f (\<lambda>_. AmbiguousNodeName) (ov_node_speeds ov0) [] = Inr s"
      and d: "rename_keys ?f (\<lambda>_. AmbiguousNodeName) (ov_node_devices ov0) [] = Inr d"
      and ov: "ov = ov0\<lparr>ov_node_speeds := s, ov_node_devices := d\<rparr>"
    by (auto simp: rename_overrides_def Let_def split: sum.splits if_splits)
  have valid: "valid_overrides ov0" and fields: "ov_node_speeds ov0 = lu_node_speeds u"
      "ov_node_devices ov0 = lu_node_devices u" "ov_speed ov0 = lu_speed u" "ov_devices ov0 = lu_devices u"
      "ov_traffic_gb ov0 = map_option (\<lambda>q. of_int q / 1024 ^ 3) (lu_traffic u)"
    using ov0 by (auto simp: overrides_def Let_def split: if_splits)
  have finj: "i = j" if "?f i = Some n" "?f j = Some n" for i j n
    using that by (rule unique_name_inj)
  have s': "rename_keys ?h UnknownNodeName s [] = Inr (map_keys g (lu_node_speeds u))"
    using s assms(2) unfolding fields
    by (rule rename_twice [THEN conjunct2]) (erule (1) finj, erule h, rule \<open>inj g\<close>)
  have d': "rename_keys ?h UnknownNodeName d [] = Inr (map_keys g (lu_node_devices u))"
    using d assms(3) unfolding fields
    by (rule rename_twice [THEN conjunct2]) (erule (1) finj, erule h, rule \<open>inj g\<close>)
  let ?r = "ov0\<lparr>ov_node_speeds := map_keys g (lu_node_speeds u),
     ov_node_devices := map_keys g (lu_node_devices u)\<rparr>"
  have "valid_overrides ?r" using valid fields unfolding valid_map_keys by (cases ov0) simp
  then have "import_overrides names' ambiguous ov = Inr ?r"
    by (simp add: import_overrides_def rename_overrides_def ov s' d' Let_def)
  moreover have "map_option (\<lambda>g. py_int (g * 1024 ^ 3)) (ov_traffic_gb ?r) = lu_traffic u"
    by (cases "lu_traffic u") (simp_all add: fields py_int_def)
  ultimately show ?thesis by (simp add: apply_overrides_def fields)
qed

theorem catalog_round_trip_witness:
  "\<exists>ov ov'. catalog_overrides [(''a'', ''A''), (''b'', ''B'')] sample_limit_user = Inr ov \<and>
     import_overrides [(''A'', ''na''), (''B'', ''nb'')] [] ov = Inr ov' \<and>
     lu_traffic (apply_overrides ov' sample_limit_user) = Some 5"
proof -
  let ?names = "[(''a'', ''A''), (''b'', ''B'')]"
  have ex: "\<exists>ov. catalog_overrides ?names sample_limit_user = Inr ov"
    by (simp add: catalog_overrides_def overrides_def sample_limit_user_def rename_overrides_def
        unique_name_def valid_overrides_def valid_speed_def valid_connections_def valid_traffic_def)
  then obtain ov where ov: "catalog_overrides ?names sample_limit_user = Inr ov" ..
  have "\<forall>i n. unique_name ?names i = Some n \<longrightarrow>
      map_of [(''A'', ''na''), (''B'', ''nb'')] n = Some (''n'' @ i) \<and> n \<notin> set []"
    by (simp add: unique_name_def split: if_splits)
  then obtain ov' where "import_overrides [(''A'', ''na''), (''B'', ''nb'')] [] ov = Inr ov'"
      and "lu_traffic (apply_overrides ov' sample_limit_user) = lu_traffic sample_limit_user"
    using catalog_round_trip [OF ov, of "[(''A'', ''na''), (''B'', ''nb'')]" "\<lambda>i. ''n'' @ i" "[]" sample_limit_user]
    by (auto simp: sample_limit_user_def inj_on_def)
  with ov show ?thesis by (auto simp: sample_limit_user_def)
qed

end
