(* ===== verification/Json.thy ===== *)
theory Json
  imports Prelude
begin

text \<open>
  JSON values as the control plane handles them: the result of \<open>json.loads\<close>, Python's truth
  value and \<open>== 0\<close> on them, dict access, and the size of \<open>json.dumps\<close> with
  \<open>ensure_ascii=False\<close> and compact separators in UTF-8. A float carries its exact ratio and the
  text \<open>repr\<close> gives it; NaN and the infinities, which \<open>allow_nan=False\<close> rejects, are \<open>JNan\<close>.
  Objects keep the order of their keys.
\<close>

datatype json =
    JNull
  | JBool bool
  | JInt int
  | JFloat int nat string
  | JNan
  | JStr string
  | JArr "json list"
  | JObj "(string \<times> json) list"

text \<open>\<open>bool(v)\<close> and \<open>v == 0\<close>.\<close>

fun truthy :: "json \<Rightarrow> bool" where
  "truthy JNull = False"
| "truthy (JBool b) = b"
| "truthy (JInt n) = (n \<noteq> 0)"
| "truthy (JFloat a b r) = (a \<noteq> 0)"
| "truthy JNan = True"
| "truthy (JStr s) = (s \<noteq> [])"
| "truthy (JArr xs) = (xs \<noteq> [])"
| "truthy (JObj kvs) = (kvs \<noteq> [])"

fun equals_zero :: "json \<Rightarrow> bool" where
  "equals_zero (JBool b) = (\<not> b)"
| "equals_zero (JInt n) = (n = 0)"
| "equals_zero (JFloat a b r) = (a = 0)"
| "equals_zero _ = False"

fun is_dict :: "json \<Rightarrow> bool" where
  "is_dict (JObj _) = True"
| "is_dict _ = False"

text \<open>\<open>v.get(k)\<close> of a dict (\<open>None\<close> when absent); anything else has no keys.\<close>

fun jget :: "string \<Rightarrow> json \<Rightarrow> json option" where
  "jget k (JObj kvs) = map_of kvs k"
| "jget k _ = None"

definition jget_or :: "json \<Rightarrow> string \<Rightarrow> json \<Rightarrow> json" where
  "jget_or d k v = (case jget k v of Some w \<Rightarrow> w | None \<Rightarrow> d)"

text \<open>\<open>v.get(k)\<close>, with \<open>JNull\<close> for a missing key.\<close>

definition jfield :: "string \<Rightarrow> json \<Rightarrow> json" where
  "jfield k v = jget_or JNull k v"

text \<open>\<open>payload if isinstance(payload, dict) else {}\<close>.\<close>

definition as_dict :: "json \<Rightarrow> json" where
  "as_dict v = (if is_dict v then v else JObj [])"

fun elements :: "json \<Rightarrow> json list" where
  "elements (JArr xs) = xs"
| "elements _ = []"

text \<open>\<open>for x in v\<close>: a dict yields its keys, a string its characters; other values are not iterable.\<close>

fun iterated :: "json \<Rightarrow> json list" where
  "iterated (JArr xs) = xs"
| "iterated (JObj kvs) = map (JStr \<circ> fst) kvs"
| "iterated (JStr s) = map (\<lambda>c. JStr [c]) s"
| "iterated _ = []"

text \<open>A lower-case SHA-256 digest: \<open>re.fullmatch(r"[0-9a-f]{64}", s)\<close>.\<close>

fun is_digest :: "json \<Rightarrow> bool" where
  "is_digest (JStr s) =
     (length s = 64 \<and> list_all (\<lambda>c. is_dec c \<or> (97 \<le> code c \<and> code c \<le> 102)) s)"
| "is_digest _ = False"

section \<open>JSON comparison\<close>

text \<open>Python's \<open>==\<close> on parsed JSON: dicts up to the order of keys, numbers and booleans by value.\<close>

fun normal :: "json \<Rightarrow> json" where
  "normal (JBool b) = JInt (if b then 1 else 0)"
| "normal (JFloat a b r) = (if b \<noteq> 0 \<and> a mod int b = 0 then JInt (a div int b) else JFloat a b [])"
| "normal (JArr xs) = JArr (map normal xs)"
| "normal (JObj kvs) = JObj (sort_key fst (map (\<lambda>(k, v). (k, normal v)) kvs))"
| "normal v = v"

definition json_eq :: "json \<Rightarrow> json \<Rightarrow> bool" where
  "json_eq a b = (normal a = normal b)"

text \<open>\<open>k in v\<close> for a string \<open>k\<close>.\<close>

fun json_in :: "string \<Rightarrow> json \<Rightarrow> bool" where
  "json_in k (JArr xs) = (JStr k \<in> set xs)"
| "json_in k (JObj kvs) = (k \<in> fst ` set kvs)"
| "json_in k (JStr s) = list_ex (\<lambda>n. take (length k) (drop n s) = k) [0..<Suc (length s)]"
| "json_in k _ = False"

lemma json_eq_refl [simp]: "json_eq a a"
  by (simp add: json_eq_def)

text \<open>\<open>v[k] = x\<close> on a dict: in place, or at the end.\<close>

fun jput :: "string \<Rightarrow> json \<Rightarrow> json \<Rightarrow> json" where
  "jput k x (JObj kvs) = JObj (tbl_put fst (k, x) kvs)"
| "jput k x v = v"

section \<open>Size of the encoding\<close>

definition char_size :: "char \<Rightarrow> nat" where
  "char_size c =
     (if c = CHR 0x22 \<or> c = CHR 0x5C \<or> code c \<in> {8, 9, 10, 12, 13} then 2
      else if code c < 32 then 6 else if code c < 128 then 1 else 2)"

definition str_size :: "string \<Rightarrow> nat" where
  "str_size s = 2 + sum_list (map char_size s)"

text \<open>A list of encoded parts between brackets, separated by commas.\<close>

definition bracketed :: "nat list \<Rightarrow> nat" where
  "bracketed ns = 2 + sum_list ns + (length ns - 1)"

fun json_size :: "json \<Rightarrow> nat option" where
  "json_size JNull = Some 4"
| "json_size (JBool b) = Some (if b then 4 else 5)"
| "json_size (JInt n) = Some (length (int_str n))"
| "json_size (JFloat a b r) = Some (length r)"
| "json_size JNan = None"
| "json_size (JStr s) = Some (str_size s)"
| "json_size (JArr xs) =
     (if list_all (\<lambda>x. json_size x \<noteq> None) xs
      then Some (bracketed (map (\<lambda>x. the (json_size x)) xs)) else None)"
| "json_size (JObj kvs) =
     (if list_all (\<lambda>(k, v). json_size v \<noteq> None) kvs
      then Some (bracketed (map (\<lambda>(k, v). str_size k + 1 + the (json_size v)) kvs)) else None)"

end
