(* ===== verification/Commands.thy ===== *)
theory Commands
  imports Json
begin

text \<open>
  The durable command queue, rows and primitives: \<open>CommandModel\<close> and its neighbours in
  \<open>backend/app/open_node/services/inventory.py\<close>, the payload of
  \<open>domain/inventory.py\<close> (\<open>AgentCommandCreate\<close>), and the receipts a result must carry
  (\<open>node_cleanup.py\<close>, \<open>subscription_access.py\<close>, \<open>_apply_command_result\<close>).
  Identifiers drawn with \<open>uuid4\<close> are numbers taken from the counter \<open>fresh\<close> of the state.
  The record \<open>fleet\<close> also holds the rows of the change sets, which lease and complete commands.
\<close>

section \<open>Data\<close>

datatype http_method = GET | POST | PUT | PATCH | DELETE

record payload =
  pl_method :: http_method
  pl_path :: string
  pl_query :: string
  pl_body :: json
  pl_timeout :: int
  pl_stream :: bool

datatype cmd_status = Waiting | Pending | Leased | Succeeded | Failed | Skipped

record command =
  cm_id :: nat
  cm_server :: nat
  cm_request :: "nat \<times> nat"
  cm_payload :: payload
  cm_status :: cmd_status
  cm_depends :: "nat option"
  cm_attempts :: nat
  cm_result_status :: "int option"
  cm_result_body :: json
  cm_error :: "string option"
  cm_created :: time
  cm_leased :: "time option"
  cm_completed :: "time option"
  cm_updated :: time

record frame =
  fr_command :: nat
  fr_server :: nat
  fr_sequence :: nat
  fr_data :: string
  fr_received :: time

datatype server_status = ServerPending | Connected | Offline

record server_row =
  sv_id :: nat
  sv_token :: string
  sv_status :: server_status
  sv_heartbeat :: "time option"
  sv_updated :: time

record agent_row =
  ag_server :: nat
  ag_caps :: "string list"
  ag_seen :: time

datatype change_status =
    Planned | Dispatched | RollbackQueued | ChangeSucceeded | ChangeFailed | RolledBack
  | RollbackFailed | RollbackIncomplete | Cancelled | Accepted | NeedsReview

record change_row =
  ch_id :: nat
  ch_name :: string
  ch_status :: change_status
  ch_rollback_on_failure :: bool
  ch_rollback_reason :: string
  ch_resolution_reason :: string
  ch_version :: nat
  ch_archived :: bool
  ch_created :: time
  ch_updated :: time

record step_row =
  st_id :: nat
  st_change :: nat
  st_sequence :: nat
  st_server :: nat
  st_label :: string
  st_forward :: payload
  st_rollback :: "payload option"
  st_forward_id :: "nat option"
  st_rollback_id :: "nat option"
  st_history :: "nat list"

text \<open>A row of \<open>change_set_server_locks\<close> is the pair of its server and its change set.\<close>

record fleet =
  servers :: "server_row list"
  agents :: "agent_row list"
  shared_servers :: "nat list"
  cmds :: "command list"
  frames :: "frame list"
  changes :: "change_row list"
  steps :: "step_row list"
  locks :: "(nat \<times> nat) list"
  removals :: "nat list"
  fresh :: nat

datatype fleet_error =
    InvalidAgentToken
  | ServerNotFound nat
  | CommandNotFound
  | CommandNotReady
  | CapabilityUnavailable string
  | PayloadError string
  | ChangeSetNotFound
  | ChangeSetConflict string

definition terminal :: "command \<Rightarrow> bool" where
  "terminal c = (cm_status c = Succeeded \<or> cm_status c = Failed \<or> cm_status c = Skipped)"

definition get_cmd :: "nat \<Rightarrow> fleet \<Rightarrow> command option" where
  "get_cmd i s = tbl_get cm_id i (cmds s)"

definition upd_cmd :: "nat \<Rightarrow> (command \<Rightarrow> command) \<Rightarrow> fleet \<Rightarrow> fleet" where
  "upd_cmd i f s = s\<lparr>cmds := tbl_upd (\<lambda>c. cm_id c = i) f (cmds s)\<rparr>"

section \<open>Payloads and capabilities\<close>

fun method_str :: "http_method \<Rightarrow> string" where
  "method_str GET = ''GET''"
| "method_str POST = ''POST''"
| "method_str PUT = ''PUT''"
| "method_str PATCH = ''PATCH''"
| "method_str DELETE = ''DELETE''"

text \<open>\<open>validate_wire_payload\<close>: the RPC envelope must be JSON and fit in 4 MiB.\<close>

definition envelope :: "payload \<Rightarrow> json" where
  "envelope p = JObj [(''type'', JStr ''rpc_call''), (''payload'', JObj
     [(''request_id'', JStr (replicate 80 (CHR ''x''))), (''method'', JStr (method_str (pl_method p))),
      (''path'', JStr (pl_path p)), (''query'', JStr (pl_query p)), (''body'', pl_body p),
      (''timeout_ms'', JInt (pl_timeout p)), (''stream'', JBool (pl_stream p))])]"

definition wire_error :: "payload \<Rightarrow> string option" where
  "wire_error p =
     (case json_size (envelope p) of
        None \<Rightarrow> Some ''Command must contain valid UTF-8 JSON''
      | Some n \<Rightarrow> if n > 4 * 1024 * 1024 then Some ''Agent command exceeds the 4 MiB wire limit'' else None)"

definition limiter_path :: string where "limiter_path = ''/api/child/limiter''"
definition batch_path :: string where "batch_path = ''/api/child/batch-apply''"
definition cleanup_path :: string where "cleanup_path = ''/api/child/node-cleanup''"
definition access_path :: string where "access_path = ''/api/child/subscription-access''"
definition inbounds_path :: string where "inbounds_path = ''/api/child/inbounds''"
definition config_path :: string where "config_path = ''/api/child/xray/config''"

definition workspace_paths :: "string list" where
  "workspace_paths = [''/api/child/xray/config-files'', ''/api/child/xray/system-config'']"

definition settings_capabilities :: "(string \<times> string) list" where
  "settings_capabilities =
     [(''/api/child/agent/switch-xray-mode'', ''agent_switch_xray_mode''),
      (''/api/child/agent/switch-listen-port'', ''agent_switch_listen_port''),
      (''/api/child/agent/probe-master-url'', ''agent_probe_master_url''),
      (''/api/child/agent/update-master-url'', ''agent_update_master_url'')]"

definition required_capabilities :: "string \<Rightarrow> json \<Rightarrow> string list" where
  "required_capabilities path body =
     (let payload = as_dict body;
          needs_limiter = (path = limiter_path \<or>
            (path = batch_path \<and> truthy (jfield ''limiter_users'' payload)));
          raw_users =
            (if path = limiter_path then jget_or (JArr []) ''users'' payload
             else if path = batch_path then jget_or (JArr []) ''limiter_users'' payload else JArr []);
          rule_users =
            (if path = batch_path then map (jget_or (JObj []) ''user'') (filter is_dict (elements raw_users))
             else elements raw_users);
          needs_user_rules = list_ex (\<lambda>u. is_dict u \<and> truthy (jfield ''auto_speed_rules'' u)) rule_users;
          setting = map_of settings_capabilities path
      in map fst (filter (\<lambda>(c, needed). needed \<and> c \<noteq> [])
           [(''native_limiter'', needs_limiter),
            (''user_auto_speed_rules'', needs_user_rules),
            (''node_cleanup'', path = cleanup_path),
            (''xray_config_workspace'', path \<in> set workspace_paths),
            ((case setting of Some c \<Rightarrow> c | None \<Rightarrow> []), setting \<noteq> None),
            (''managed_protocols'', path = ''/api/child/managed-protocols'')]))"

definition agent_of :: "nat \<Rightarrow> fleet \<Rightarrow> agent_row option" where
  "agent_of sid s = tbl_get ag_server sid (agents s)"

definition agent_can :: "nat \<Rightarrow> string \<Rightarrow> fleet \<Rightarrow> bool" where
  "agent_can sid cap s = (case agent_of sid s of None \<Rightarrow> False | Some a \<Rightarrow> cap \<in> set (ag_caps a))"

text \<open>What a shared server may be asked: the two relayed mutations.\<close>

definition relayed :: "payload \<Rightarrow> bool" where
  "relayed p = (pl_method p = POST \<and> (pl_path p = inbounds_path \<or> pl_path p = access_path) \<and>
     pl_query p = [] \<and> \<not> pl_stream p)"

text \<open>\<open>_validate_command_capabilities\<close>: \<open>Some\<close> is the text of the exception.\<close>

definition capability_error :: "nat \<Rightarrow> payload \<Rightarrow> fleet \<Rightarrow> string option" where
  "capability_error sid p s =
     (if sid \<in> set (shared_servers s) then
        if relayed p then None
        else Some ''Shared servers are controlled through the owner's federation interface''
      else
        (let required = filter (\<lambda>c. c = ''xray_config_workspace'' \<or> c \<in> set (map snd settings_capabilities))
               (required_capabilities (pl_path p) (pl_body p));
             missing = filter (\<lambda>c. \<not> agent_can sid c s) required
         in case missing of
              [] \<Rightarrow> None
            | c # _ \<Rightarrow>
                if c = ''xray_config_workspace'' then
                  Some (''Upgrade the Open Node Agent on this server before using Xray system '' @
                    ''configuration or config files (missing xray_config_workspace capability)'')
                else Some (''This Agent cannot execute the requested operation (missing '' @ c @ '' capability)'')))"

text \<open>\<open>_required_capability_error\<close>: the check repeated when a command is leased.\<close>

definition spaced :: "string \<Rightarrow> string" where
  "spaced c = map (\<lambda>x. if x = CHR ''_'' then CHR '' '' else x) c"

definition lease_capability_error :: "command \<Rightarrow> fleet \<Rightarrow> string option" where
  "lease_capability_error c s =
     (if cm_server c \<in> set (shared_servers s) \<and> relayed (cm_payload c) then None
      else map_option
        (\<lambda>cap. ''Not sent: this command requires an Open Node Agent with '' @ spaced cap @ '' support'')
        (List.find (\<lambda>cap. \<not> agent_can (cm_server c) cap s)
          (required_capabilities (pl_path (cm_payload c)) (pl_body (cm_payload c)))))"

section \<open>Creating commands\<close>

definition new_command ::
  "nat \<Rightarrow> payload \<Rightarrow> time \<Rightarrow> command option \<Rightarrow> string option \<Rightarrow> fleet \<Rightarrow> fleet \<times> command" where
  "new_command sid p now depends_on skipped_error s =
     (let c = \<lparr>cm_id = fresh s, cm_server = sid, cm_request = (sid, fresh s), cm_payload = p,
                cm_status =
                  (if skipped_error \<noteq> None then Skipped
                   else if (case depends_on of Some d \<Rightarrow> cm_status d \<noteq> Succeeded | None \<Rightarrow> False) then Waiting
                   else Pending),
                cm_depends = map_option cm_id depends_on, cm_attempts = 0,
                cm_result_status = (if skipped_error \<noteq> None then Some 501 else None),
                cm_result_body = JNull, cm_error = skipped_error, cm_created = now, cm_leased = None,
                cm_completed = (if skipped_error \<noteq> None then Some now else None), cm_updated = now\<rparr>
      in (s\<lparr>cmds := cmds s @ [c], fresh := Suc (fresh s)\<rparr>, c))"

definition create_command_model ::
  "nat \<Rightarrow> payload \<Rightarrow> time \<Rightarrow> command option \<Rightarrow> fleet \<Rightarrow> fleet_error + (fleet \<times> command)" where
  "create_command_model sid p now depends_on s =
     (case wire_error p of
        Some e \<Rightarrow> Inl (PayloadError e)
      | None \<Rightarrow>
        (case capability_error sid p s of
           Some e \<Rightarrow> Inl (CapabilityUnavailable e)
         | None \<Rightarrow> Inr (new_command sid p now depends_on None s)))"

definition create_skipped_command ::
  "nat \<Rightarrow> payload \<Rightarrow> time \<Rightarrow> string \<Rightarrow> command option \<Rightarrow> fleet \<Rightarrow> fleet_error + (fleet \<times> command)" where
  "create_skipped_command sid p now err depends_on s =
     (case wire_error p of
        Some e \<Rightarrow> Inl (PayloadError e)
      | None \<Rightarrow> Inr (new_command sid p now depends_on (Some err) s))"

definition find_server :: "nat \<Rightarrow> fleet \<Rightarrow> server_row option" where
  "find_server sid s = tbl_get sv_id sid (servers s)"

definition create_command :: "nat \<Rightarrow> payload \<Rightarrow> time \<Rightarrow> fleet \<Rightarrow> fleet_error + (fleet \<times> command)" where
  "create_command sid p now s =
     (case find_server sid s of
        None \<Rightarrow> Inl (ServerNotFound sid)
      | Some _ \<Rightarrow> create_command_model sid p now None s)"

fun create_sequence ::
  "nat \<Rightarrow> payload list \<Rightarrow> time \<Rightarrow> command option \<Rightarrow> fleet \<Rightarrow> fleet_error + (fleet \<times> command list)" where
  "create_sequence sid [] now previous s = Inr (s, [])"
| "create_sequence sid (p # ps) now previous s =
     (case create_command_model sid p now previous s of
        Inl e \<Rightarrow> Inl e
      | Inr (s', c) \<Rightarrow>
        (case create_sequence sid ps now (Some c) s' of
           Inl e \<Rightarrow> Inl e
         | Inr (s'', cs) \<Rightarrow> Inr (s'', c # cs)))"

definition create_command_sequence ::
  "nat \<Rightarrow> payload list \<Rightarrow> time \<Rightarrow> fleet \<Rightarrow> fleet_error + (fleet \<times> command list)" where
  "create_command_sequence sid ps now s =
     (case find_server sid s of
        None \<Rightarrow> Inl (ServerNotFound sid)
      | Some _ \<Rightarrow> create_sequence sid ps now None s)"

section \<open>Leases and dependents\<close>

text \<open>Instants are milliseconds; \<open>_lease_expired\<close> and \<open>_command_is_lease_candidate\<close>.\<close>

definition lease_expired :: "command \<Rightarrow> time \<Rightarrow> bool" where
  "lease_expired c now =
     (case cm_leased c of None \<Rightarrow> True | Some t \<Rightarrow> now - t \<ge> pl_timeout (cm_payload c))"

definition lease_candidate :: "command \<Rightarrow> time \<Rightarrow> bool" where
  "lease_candidate c now =
     (cm_status c = Pending \<or> (cm_status c = Leased \<and> lease_expired c now))"

definition waits_for :: "nat \<Rightarrow> command \<Rightarrow> bool" where
  "waits_for p c = (cm_depends c = Some p \<and> cm_status c = Waiting)"

definition wake :: "time \<Rightarrow> command \<Rightarrow> command" where
  "wake now c = c\<lparr>cm_status := Pending, cm_updated := now\<rparr>"

definition drop_dependent :: "nat \<Rightarrow> time \<Rightarrow> command \<Rightarrow> command" where
  "drop_dependent p now c = c\<lparr>cm_status := Skipped, cm_completed := Some now, cm_updated := now,
     cm_error := Some (''Skipped because prerequisite '' @ nat_str p @ '' did not succeed'')\<rparr>"

definition succeeded :: "nat \<Rightarrow> command list \<Rightarrow> bool" where
  "succeeded p cs = (case tbl_get cm_id p cs of Some c \<Rightarrow> cm_status c = Succeeded | None \<Rightarrow> False)"

lemma count_updated:
  assumes "\<And>c. P c \<Longrightarrow> Q c" and "\<And>c. P c \<Longrightarrow> \<not> Q (f c)"
  shows "length (filter Q (tbl_upd P f cs)) + length (filter P cs) = length (filter Q cs)"
  using assms by (induction cs) (auto simp: tbl_upd_def)

text \<open>
  \<open>_advance_command_dependents\<close>: the stack of predecessors, its top first. Each turn takes waiting
  rows out of \<open>Waiting\<close> and pushes at most as many, which bounds the loop.
\<close>

function advance_dependents :: "nat list \<Rightarrow> time \<Rightarrow> command list \<Rightarrow> command list" where
  "advance_dependents [] now cs = cs"
| "advance_dependents (p # ps) now cs =
     (if succeeded p cs then advance_dependents ps now (tbl_upd (waits_for p) (wake now) cs)
      else advance_dependents (rev (map cm_id (filter (waits_for p) cs)) @ ps) now
             (tbl_upd (waits_for p) (drop_dependent p now) cs))"
  by pat_completeness auto

termination
proof (relation "measure (\<lambda>(ps, now, cs). length ps + 2 * length (filter (\<lambda>c. cm_status c = Waiting) cs))",
    goal_cases)
  case (2 p ps now cs)
  have "length (filter (\<lambda>c. cm_status c = Waiting) (tbl_upd (waits_for p) (wake now) cs)) +
      length (filter (waits_for p) cs) = length (filter (\<lambda>c. cm_status c = Waiting) cs)"
    by (rule count_updated) (auto simp: waits_for_def wake_def)
  then show ?case by simp
next
  case (3 p ps now cs)
  have "length (filter (\<lambda>c. cm_status c = Waiting) (tbl_upd (waits_for p) (drop_dependent p now) cs)) +
      length (filter (waits_for p) cs) = length (filter (\<lambda>c. cm_status c = Waiting) cs)"
    by (rule count_updated) (auto simp: waits_for_def drop_dependent_def)
  then show ?case by simp
qed simp

declare advance_dependents.simps [simp del]

definition advance_command_dependents :: "nat \<Rightarrow> time \<Rightarrow> fleet \<Rightarrow> fleet" where
  "advance_command_dependents i now s = s\<lparr>cmds := advance_dependents [i] now (cmds s)\<rparr>"

section \<open>Receipts\<close>

text \<open>
  \<open>access_entries\<close> and \<open>confirmation_error\<close> of \<open>subscription_access.py\<close>; \<open>digest\<close> is the SHA-256
  of the canonical JSON text.
\<close>

definition is_bool :: "json \<Rightarrow> bool" where
  "is_bool v = (v = JBool True \<or> v = JBool False)"

definition access_entries :: "(json \<Rightarrow> string) \<Rightarrow> json \<Rightarrow> json list option" where
  "access_entries digest body =
     (case jfield ''entries'' body of
        JArr es \<Rightarrow>
          if es \<noteq> [] \<and> list_all (\<lambda>e. is_dict e \<and> is_bool (jfield ''enabled'' e)) es \<and>
             jfield ''revision'' body = JStr (digest (JArr es))
          then Some es else None
      | _ \<Rightarrow> None)"

definition count_enabled :: "bool \<Rightarrow> json list \<Rightarrow> int" where
  "count_enabled b es = int (length (filter (\<lambda>e. jfield ''enabled'' e = JBool b) es))"

definition access_confirmation :: "(json \<Rightarrow> string) \<Rightarrow> command \<Rightarrow> json \<Rightarrow> string option" where
  "access_confirmation digest c body =
     (if pl_path (cm_payload c) \<noteq> access_path then None
      else if cm_attempts c = 0 then
        Some ''Unleased subscription access commands cannot be confirmed''
      else
        (case access_entries digest (pl_body (cm_payload c)) of
           None \<Rightarrow> Some ''Invalid subscription access command cannot be confirmed''
         | Some es \<Rightarrow>
           (let conf = jfield ''access'' body
            in if \<not> is_dict conf \<or> jfield ''applied'' conf \<noteq> JBool True \<or>
                  jfield ''revision'' conf \<noteq> jfield ''revision'' (pl_body (cm_payload c)) \<or>
                  jfield ''enabled'' conf \<noteq> JInt (count_enabled True es) \<or>
                  jfield ''disabled'' conf \<noteq> JInt (count_enabled False es) \<or>
                  jfield ''restart_required'' body = JBool True
               then Some ''Agent did not confirm the requested subscription access state''
               else None)))"

definition cleanup_confirmation :: "command \<Rightarrow> json \<Rightarrow> string option" where
  "cleanup_confirmation c body =
     (if pl_path (cm_payload c) \<noteq> cleanup_path then None
      else
        (let requested = as_dict (pl_body (cm_payload c));
             value = jfield ''node_cleanup'' body;
             action = jfield ''action'' requested;
             op = jfield ''operation_id'' requested
         in if action = JStr ''status'' \<and> is_dict value \<and> jfield ''exists'' value = JBool False then
              if cm_attempts c \<noteq> 0 \<and> jfield ''success'' body = JBool True \<and>
                 jfield ''restart_required'' body \<noteq> JBool True \<and>
                 op = jfield ''operation_id'' value \<and> truthy op \<and>
                 jfield ''applied'' value = JBool False \<and> jfield ''revision'' value = JNull \<and>
                 jfield ''impact'' value = JObj []
              then None
              else Some ''Agent did not confirm the absent node cleanup operation''
            else if cm_attempts c = 0 \<or> jfield ''success'' body \<noteq> JBool True \<or>
                 jfield ''restart_required'' body = JBool True \<or> \<not> is_dict value \<or>
                 \<not> is_digest (jfield ''revision'' value) \<or> \<not> is_dict (jfield ''impact'' value) \<or>
                 \<not> is_bool (jfield ''applied'' value) \<or>
                 jget_or (JBool True) ''exists'' value \<noteq> JBool True
            then Some ''Agent did not confirm the native node cleanup operation''
            else if action = JStr ''apply'' then
              if jfield ''applied'' value \<noteq> JBool True \<or>
                 jfield ''revision'' value \<noteq> jfield ''expected_revision'' requested \<or>
                 \<not> truthy op \<or> jfield ''operation_id'' value \<noteq> op
              then Some ''Agent did not confirm the requested node cleanup identity and revision''
              else None
            else if action = JStr ''preview'' then
              if truthy (jfield ''applied'' value)
              then Some ''Node cleanup preview unexpectedly reported an applied operation'' else None
            else if action = JStr ''status'' then
              if \<not> truthy op \<or> jfield ''operation_id'' value \<noteq> op
              then Some ''Node cleanup status identity does not match'' else None
            else Some ''Unknown node cleanup action cannot be confirmed''))"

text \<open>The limiter receipt of a batch that carries limits.\<close>

definition requests_limits :: "json \<Rightarrow> bool" where
  "requests_limits item =
     (\<not> is_dict item \<or> \<not> is_dict (jfield ''user'' item) \<or>
      \<not> equals_zero (jget_or (JInt 0) ''speed_limit'' (jfield ''user'' item)) \<or>
      \<not> equals_zero (jget_or (JInt 0) ''device_limit'' (jfield ''user'' item)) \<or>
      truthy (jfield ''auto_speed_rules'' (jfield ''user'' item)))"

definition limiter_confirmation :: "command \<Rightarrow> json \<Rightarrow> string option" where
  "limiter_confirmation c body =
     (let sent = pl_body (cm_payload c); users = jfield ''limiter_users'' sent
      in if pl_path (cm_payload c) = batch_path \<and> is_dict sent \<and> truthy users then
           (let conf = jfield ''limiter'' body
            in if \<not> is_dict conf \<or> jfield ''applied'' conf \<noteq> JBool True \<or>
                  (\<not> is_digest (jfield ''revision'' conf) \<and>
                   (list_ex requests_limits (iterated users) \<or> jfield ''unlimited'' conf \<noteq> JBool True))
               then Some ''Agent did not confirm native limiter enforcement'' else None)
         else None)"

text \<open>
  The verdict on a reported result: \<open>result_error\<close> of \<open>_apply_command_result\<close>. An empty error text
  counts as none.
\<close>

definition no_error :: "string option \<Rightarrow> bool" where
  "no_error e = (e = None \<or> e = Some [])"

definition or_else :: "string option \<Rightarrow> bool \<Rightarrow> string option \<Rightarrow> string option" where
  "or_else e guard e' = (if no_error e \<and> guard then e' else e)"

definition result_error ::
  "(json \<Rightarrow> string) \<Rightarrow> command \<Rightarrow> int \<Rightarrow> json \<Rightarrow> string option \<Rightarrow> string option" where
  "result_error digest c status reported err =
     (let body = as_dict reported; ok = (status < 400);
          e1 = or_else err (jfield ''success'' body = JBool False)
                 (Some ''Agent reported an unsuccessful result'');
          e2 = or_else e1 ok (access_confirmation digest c body);
          e3 = or_else e2 ok (cleanup_confirmation c body);
          e4 = (case limiter_confirmation c body of None \<Rightarrow> e3 | Some e \<Rightarrow> or_else e3 ok (Some e))
      in or_else e4 (pl_path (cm_payload c) = ''/api/child/xray/test-config'' \<and>
             jfield ''ok'' body \<noteq> JBool True)
           (Some ''Xray configuration validation did not return ok=true''))"


section \<open>How rows evolve\<close>

text \<open>
  A row keeps its identity, its attempts never fall, and once terminal it never changes;
  \<open>rows_le\<close> says this of whole tables.
\<close>

definition evolve :: "command \<Rightarrow> command \<Rightarrow> bool" where
  "evolve c c' \<longleftrightarrow>
     cm_id c' = cm_id c \<and> cm_server c' = cm_server c \<and> cm_request c' = cm_request c \<and>
     cm_payload c' = cm_payload c \<and> cm_depends c' = cm_depends c \<and> cm_created c' = cm_created c \<and>
     cm_attempts c \<le> cm_attempts c' \<and> (terminal c \<longrightarrow> c' = c)"

definition rows_le :: "command list \<Rightarrow> command list \<Rightarrow> bool" where
  "rows_le cs cs' \<longleftrightarrow>
     (\<forall>i c. tbl_get cm_id i cs = Some c \<longrightarrow> (\<exists>c'. tbl_get cm_id i cs' = Some c' \<and> evolve c c'))"

lemma evolve_refl [simp]: "evolve c c"
  by (simp add: evolve_def)

lemma evolve_trans: "evolve a b \<Longrightarrow> evolve b c \<Longrightarrow> evolve a c"
  by (auto simp: evolve_def)

lemma evolve_id: "evolve c c' \<Longrightarrow> cm_id c' = cm_id c"
  by (simp add: evolve_def)

lemma rows_le_refl [simp]: "rows_le cs cs"
  by (simp add: rows_le_def)

lemma rows_le_trans: "rows_le a b \<Longrightarrow> rows_le b c \<Longrightarrow> rows_le a c"
  unfolding rows_le_def by (meson evolve_trans)

lemma rows_le_upd:
  assumes "\<And>c. cm_id (f c) = cm_id c" and "\<And>c. c \<in> set cs \<Longrightarrow> P c \<Longrightarrow> evolve c (f c)"
  shows "rows_le cs (tbl_upd P f cs)"
  using assms by (auto simp: rows_le_def tbl_get_upd dest: tbl_get_SomeD)

lemma rows_le_append: "rows_le cs (cs @ ds)"
  by (simp add: rows_le_def tbl_get_append)

lemma succeeded_mono: "rows_le cs cs' \<Longrightarrow> succeeded p cs \<Longrightarrow> succeeded p cs'"
  by (auto simp: succeeded_def rows_le_def evolve_def terminal_def split: option.splits) force+

text \<open>
  The queue's invariant: identifiers are unique and below \<open>fresh\<close>; a row that is not waiting or
  skipped has its prerequisite succeeded; a leased row has been attempted.
\<close>

definition dep_done :: "command list \<Rightarrow> command \<Rightarrow> bool" where
  "dep_done cs c = (case cm_depends c of None \<Rightarrow> True | Some p \<Rightarrow> succeeded p cs)"

definition released :: "command \<Rightarrow> bool" where
  "released c = (cm_status c \<noteq> Waiting \<and> cm_status c \<noteq> Skipped)"

definition row_ok :: "nat \<Rightarrow> command list \<Rightarrow> command \<Rightarrow> bool" where
  "row_ok n cs c \<longleftrightarrow> cm_id c < n \<and> (released c \<longrightarrow> dep_done cs c) \<and>
     (cm_status c = Leased \<longrightarrow> cm_attempts c > 0)"

definition rows_ok :: "nat \<Rightarrow> command list \<Rightarrow> bool" where
  "rows_ok n cs \<longleftrightarrow> tbl_keyed cm_id cs \<and> (\<forall>c \<in> set cs. row_ok n cs c)"

abbreviation queue_ok :: "fleet \<Rightarrow> bool" where
  "queue_ok s \<equiv> rows_ok (fresh s) (cmds s)"

definition queue_next :: "fleet \<Rightarrow> fleet \<Rightarrow> bool" where
  "queue_next s s' \<longleftrightarrow>
     (queue_ok s \<longrightarrow> queue_ok s' \<and> rows_le (cmds s) (cmds s') \<and> fresh s \<le> fresh s')"

lemma dep_done_mono: "rows_le cs cs' \<Longrightarrow> dep_done cs c \<Longrightarrow> dep_done cs' c"
  by (auto simp: dep_done_def split: option.splits intro: succeeded_mono)

lemma queue_next_refl [simp]: "queue_next s s"
  by (simp add: queue_next_def)

lemma queue_next_trans: "queue_next a b \<Longrightarrow> queue_next b c \<Longrightarrow> queue_next a c"
  by (auto simp: queue_next_def intro: rows_le_trans)

lemma queue_next_same: "cmds s' = cmds s \<Longrightarrow> fresh s' = fresh s \<Longrightarrow> queue_next s s'"
  by (simp add: queue_next_def)

text \<open>An update of rows is legal when it evolves them and releases only rows whose prerequisite is done.\<close>

definition legal_update :: "command list \<Rightarrow> (command \<Rightarrow> bool) \<Rightarrow> (command \<Rightarrow> command) \<Rightarrow> bool" where
  "legal_update cs P f \<longleftrightarrow> (\<forall>c. cm_id (f c) = cm_id c) \<and>
     (\<forall>c \<in> set cs. P c \<longrightarrow> evolve c (f c) \<and> (released (f c) \<longrightarrow> released c \<or> dep_done cs c) \<and>
        (cm_status (f c) = Leased \<longrightarrow> cm_attempts (f c) > 0))"

lemma rows_ok_upd:
  assumes "rows_ok n cs" and "legal_update cs P f"
  shows "rows_ok n (tbl_upd P f cs) \<and> rows_le cs (tbl_upd P f cs)"
proof -
  have id: "cm_id (f c) = cm_id c" for c using assms(2) by (simp add: legal_update_def)
  have ev: "evolve c (f c)" if "c \<in> set cs" "P c" for c
    using assms(2) that by (simp add: legal_update_def)
  have le: "rows_le cs (tbl_upd P f cs)" using id ev by (rule rows_le_upd)
  have "map cm_id (tbl_upd P f cs) = map cm_id cs" using id by (rule map_tbl_upd)
  then have keyed: "tbl_keyed cm_id (tbl_upd P f cs)"
    using assms(1) by (simp only: rows_ok_def tbl_keyed_def)
  have "row_ok n (tbl_upd P f cs) (if P c then f c else c)" if c: "c \<in> set cs" for c
  proof (cases "P c")
    case True
    then have "cm_id (f c) = cm_id c" "cm_depends (f c) = cm_depends c"
      using ev [OF c True] by (simp_all add: evolve_def)
    moreover have "released (f c) \<Longrightarrow> dep_done cs c"
      using assms c True by (auto simp: legal_update_def rows_ok_def row_ok_def)
    ultimately show ?thesis
      using assms c True dep_done_mono [OF le, of c]
      by (auto simp: legal_update_def rows_ok_def row_ok_def dep_done_def)
  next
    case False
    then show ?thesis using assms(1) c dep_done_mono [OF le, of c]
      by (auto simp: rows_ok_def row_ok_def)
  qed
  with keyed le show ?thesis unfolding rows_ok_def ball_tbl_upd by blast
qed

lemma queue_next_upd:
  "legal_update (cmds s) P f \<Longrightarrow> queue_next s (s\<lparr>cmds := tbl_upd P f (cmds s)\<rparr>)"
  using rows_ok_upd by (auto simp: queue_next_def)

text \<open>Taking rows out of \<open>Waiting\<close> or \<open>Pending\<close> into \<open>Skipped\<close> is always legal.\<close>

lemma legal_skip:
  assumes "\<And>c. c \<in> set cs \<Longrightarrow> P c \<Longrightarrow> \<not> terminal c"
    and "\<And>c. evolve (c\<lparr>cm_status := Waiting\<rparr>) ((f c)\<lparr>cm_status := Waiting\<rparr>)"
    and "\<And>c. c \<in> set cs \<Longrightarrow> P c \<Longrightarrow> cm_status (f c) = Skipped"
  shows "legal_update cs P f"
proof -
  have "cm_id (f c) = cm_id c" for c using assms(2) [of c] by (simp add: evolve_def)
  moreover have "evolve c (f c)" if "c \<in> set cs" "P c" for c
    using assms(1) [OF that] assms(2) [of c] by (simp add: evolve_def terminal_def)
  ultimately show ?thesis using assms(3) by (simp add: legal_update_def released_def)
qed

text \<open>An update of the row a handler has read.\<close>

lemma upd_cmd_next:
  assumes "get_cmd i s = Some c" and "\<And>r. cm_id (f r) = cm_id r" and "evolve c (f c)"
    and "released (f c) \<Longrightarrow> released c" and "cm_status (f c) = Leased \<Longrightarrow> cm_attempts (f c) > 0"
  shows "queue_next s (upd_cmd i f s)"
proof -
  have "r = c" if "queue_ok s" "r \<in> set (cmds s)" "cm_id r = i" for r
    using tbl_get_keyed [of cm_id "cmds s" r] that assms(1) by (auto simp: rows_ok_def get_cmd_def)
  then have "queue_ok s \<Longrightarrow> legal_update (cmds s) (\<lambda>c. cm_id c = i) f"
    using assms(2-5) by (auto simp: legal_update_def)
  then show ?thesis unfolding upd_cmd_def using queue_next_upd by (auto simp: queue_next_def)
qed

lemma get_upd_cmd:
  "(\<And>r. cm_id (f r) = cm_id r) \<Longrightarrow> get_cmd i s = Some c \<Longrightarrow> get_cmd i (upd_cmd i f s) = Some (f c)"
  by (simp add: get_cmd_def upd_cmd_def tbl_get_upd) (metis tbl_get_SomeD)

lemma advance_dependents_rows:
  "rows_ok n cs \<Longrightarrow> rows_ok n (advance_dependents ps now cs) \<and> rows_le cs (advance_dependents ps now cs)"
proof (induction ps now cs rule: advance_dependents.induct)
  case (2 p ps now cs)
  show ?case
  proof (cases "succeeded p cs")
    case True
    then have "legal_update cs (waits_for p) (wake now)"
      by (simp add: legal_update_def waits_for_def wake_def evolve_def terminal_def dep_done_def)
    from rows_ok_upd [OF "2.prems" this] 2(1) True show ?thesis
      by (simp add: advance_dependents.simps) (blast intro: rows_le_trans)
  next
    case False
    have "legal_update cs (waits_for p) (drop_dependent p now)"
      by (rule legal_skip) (simp_all add: waits_for_def drop_dependent_def evolve_def terminal_def)
    from rows_ok_upd [OF "2.prems" this] 2(2) False show ?thesis
      by (simp add: advance_dependents.simps) (blast intro: rows_le_trans)
  qed
qed (simp add: advance_dependents.simps)

lemma advance_command_dependents_next: "queue_next s (advance_command_dependents i now s)"
  using advance_dependents_rows by (auto simp: queue_next_def advance_command_dependents_def)

text \<open>Creation appends one row; its prerequisite, when given, is a row of the table.\<close>

definition prior :: "fleet \<Rightarrow> command option \<Rightarrow> bool" where
  "prior s d = (case d of None \<Rightarrow> True | Some c \<Rightarrow> get_cmd (cm_id c) s = Some c)"

lemma get_cmd_fresh: "queue_ok s \<Longrightarrow> get_cmd (fresh s) s = None"
  by (auto simp: get_cmd_def rows_ok_def row_ok_def tbl_get_None)

lemma new_command_next:
  assumes "new_command sid p now d err s = (s', c)" and "queue_ok s" and "prior s d"
  shows "queue_ok s' \<and> rows_le (cmds s) (cmds s') \<and> fresh s' = Suc (fresh s) \<and>
    get_cmd (cm_id c) s' = Some c \<and> cm_id c = fresh s"
proof -
  have s': "s' = s\<lparr>cmds := cmds s @ [c], fresh := Suc (fresh s)\<rparr>" and id: "cm_id c = fresh s"
    and dep: "cm_depends c = map_option cm_id d" and st: "cm_status c \<noteq> Leased"
    and rel: "released c \<Longrightarrow> \<forall>x. d = Some x \<longrightarrow> cm_status x = Succeeded"
    using assms(1) by (auto simp: new_command_def Let_def released_def split: if_splits option.splits)
  have le: "rows_le (cmds s) (cmds s @ [c])" by (rule rows_le_append)
  have "cm_id c \<notin> cm_id ` set (cmds s)"
    using assms(2) by (auto simp: rows_ok_def row_ok_def id)
  then have keyed: "tbl_keyed cm_id (cmds s @ [c])"
    using assms(2) by (auto simp: rows_ok_def tbl_keyed_def)
  have "dep_done (cmds s @ [c]) c" if r: "released c"
  proof -
    have "dep_done (cmds s) c"
      using rel [OF r] assms(3)
      by (auto simp: dep_done_def dep prior_def get_cmd_def succeeded_def split: option.splits)
    then show ?thesis by (rule dep_done_mono [OF le])
  qed
  moreover have "row_ok (Suc (fresh s)) (cmds s @ [c]) x" if "x \<in> set (cmds s)" for x
    using assms(2) that dep_done_mono [OF le, of x] by (auto simp: rows_ok_def row_ok_def)
  ultimately have "rows_ok (Suc (fresh s)) (cmds s @ [c])"
    using keyed st by (auto simp: rows_ok_def row_ok_def id)
  moreover have "get_cmd (cm_id c) s' = Some c"
    using get_cmd_fresh [OF assms(2)] by (simp add: get_cmd_def s' id tbl_get_append tbl_get_Cons)
  ultimately show ?thesis using le by (simp add: s' id)
qed

text \<open>What creating a command leaves alone.\<close>

definition same_sets :: "fleet \<Rightarrow> fleet \<Rightarrow> bool" where
  "same_sets s s' \<longleftrightarrow> changes s' = changes s \<and> steps s' = steps s \<and> locks s' = locks s \<and>
     servers s' = servers s \<and> agents s' = agents s \<and> shared_servers s' = shared_servers s \<and>
     removals s' = removals s"

lemma same_sets_refl [simp]: "same_sets s s"
  by (simp add: same_sets_def)

lemma same_sets_trans: "same_sets a b \<Longrightarrow> same_sets b c \<Longrightarrow> same_sets a c"
  by (simp add: same_sets_def)

lemma new_command_same:
  "new_command sid p now d err s = (s', c) \<Longrightarrow> same_sets s s' \<and> cm_server c = sid"
  unfolding new_command_def Let_def by (auto simp: same_sets_def)

definition created :: "nat \<Rightarrow> fleet \<Rightarrow> fleet \<Rightarrow> command \<Rightarrow> bool" where
  "created sid s s' c \<longleftrightarrow> queue_ok s' \<and> rows_le (cmds s) (cmds s') \<and> fresh s' = Suc (fresh s) \<and>
     get_cmd (cm_id c) s' = Some c \<and> cm_id c = fresh s \<and> cm_server c = sid \<and> same_sets s s'"

lemma new_command_created:
  "new_command sid p now d err s = (s', c) \<Longrightarrow> queue_ok s \<Longrightarrow> prior s d \<Longrightarrow> created sid s s' c"
  unfolding created_def using new_command_next new_command_same by blast

lemma create_command_model_next:
  assumes "create_command_model sid p now d s = Inr (s', c)" and "queue_ok s" and "prior s d"
  shows "created sid s s' c"
proof -
  have "new_command sid p now d None s = (s', c)"
    using assms(1) by (simp add: create_command_model_def split: option.splits)
  then show ?thesis using assms(2,3) by (rule new_command_created)
qed

lemma create_skipped_command_next:
  assumes "create_skipped_command sid p now err d s = Inr (s', c)" and "queue_ok s" and "prior s d"
  shows "created sid s s' c"
proof -
  have "new_command sid p now d (Some err) s = (s', c)"
    using assms(1) by (simp add: create_skipped_command_def split: option.splits)
  then show ?thesis using assms(2,3) by (rule new_command_created)
qed

lemma create_sequence_next:
  "create_sequence sid ps now d s = Inr (s', cs) \<Longrightarrow> queue_ok s \<Longrightarrow> prior s d \<Longrightarrow>
   queue_ok s' \<and> rows_le (cmds s) (cmds s') \<and> fresh s \<le> fresh s' \<and> same_sets s s'"
proof (induction sid ps now d s arbitrary: s' cs rule: create_sequence.induct)
  case (2 sid p ps now d s)
  then obtain s1 c cs' where one: "create_command_model sid p now d s = Inr (s1, c)"
      and rest: "create_sequence sid ps now (Some c) s1 = Inr (s', cs')"
    by (auto split: sum.splits)
  from create_command_model_next [OF one "2.prems"(2,3)]
  have s1: "queue_ok s1" "rows_le (cmds s) (cmds s1)" "fresh s \<le> fresh s1" "prior s1 (Some c)" "same_sets s s1"
    unfolding created_def by (auto simp: prior_def)
  from "2.IH" [OF one refl rest s1(1,4)] s1 show ?case
    by (auto intro: rows_le_trans same_sets_trans)
qed simp

end
