(* ===== verification/Change_Sets.thy ===== *)
theory Change_Sets
  imports Commands
begin

text \<open>
  Coordinated changes over several servers: \<open>ChangeSetCoordinator\<close> of
  \<open>backend/app/open_node/services/change_sets.py\<close> and the change-set part of \<open>inventory.py\<close>.
  A change set reserves its servers, queues its forward commands as a chain, and compensates the
  attempted steps in reverse order when one fails or the operator asks. The coordinator's
  notification of \<open>private_routed_nodes.py\<close> at the end of \<open>advance\<close> touches only that component's
  rows and is left out.
\<close>

section \<open>Rows\<close>

definition get_change :: "nat \<Rightarrow> fleet \<Rightarrow> change_row option" where
  "get_change i s = tbl_get ch_id i (changes s)"

definition upd_change :: "nat \<Rightarrow> (change_row \<Rightarrow> change_row) \<Rightarrow> fleet \<Rightarrow> fleet" where
  "upd_change i f s = s\<lparr>changes := tbl_upd (\<lambda>c. ch_id c = i) f (changes s)\<rparr>"

definition set_status :: "nat \<Rightarrow> change_status \<Rightarrow> fleet \<Rightarrow> fleet" where
  "set_status i st s = upd_change i (\<lambda>c. c\<lparr>ch_status := st\<rparr>) s"

definition touch :: "nat \<Rightarrow> time \<Rightarrow> fleet \<Rightarrow> fleet" where
  "touch i now s = upd_change i (\<lambda>c. c\<lparr>ch_updated := now\<rparr>) s"

definition upd_step :: "nat \<Rightarrow> (step_row \<Rightarrow> step_row) \<Rightarrow> fleet \<Rightarrow> fleet" where
  "upd_step i f s = s\<lparr>steps := tbl_upd (\<lambda>x. st_id x = i) f (steps s)\<rparr>"

definition change_steps :: "nat \<Rightarrow> fleet \<Rightarrow> step_row list" where
  "change_steps ch s = sort_key st_sequence (filter (\<lambda>x. st_change x = ch) (steps s))"

definition lock_of :: "nat \<Rightarrow> fleet \<Rightarrow> nat option" where
  "lock_of sid s = map_of (locks s) sid"

text \<open>\<open>session.get(CommandModel, i) if i else None\<close>.\<close>

definition opt_cmd :: "nat option \<Rightarrow> fleet \<Rightarrow> command option" where
  "opt_cmd i s = (case i of None \<Rightarrow> None | Some j \<Rightarrow> get_cmd j s)"

definition forward_of :: "step_row \<Rightarrow> fleet \<Rightarrow> command option" where
  "forward_of st s = opt_cmd (st_forward_id st) s"

definition rollback_of :: "step_row \<Rightarrow> fleet \<Rightarrow> command option" where
  "rollback_of st s = opt_cmd (st_rollback_id st) s"

definition in_flight :: "command option \<Rightarrow> bool" where
  "in_flight c = (case c of None \<Rightarrow> False | Some d \<Rightarrow> \<not> terminal d \<and> cm_attempts d > 0)"

definition attempted :: "command option \<Rightarrow> bool" where
  "attempted c = (case c of None \<Rightarrow> False
     | Some d \<Rightarrow> cm_attempts d > 0 \<or> cm_status d = Succeeded \<or> cm_status d = Failed)"

definition unsent :: "command \<Rightarrow> bool" where
  "unsent c = ((cm_status c = Waiting \<or> cm_status c = Pending) \<and> cm_attempts c = 0)"

section \<open>Who owns a command, and what is still draining\<close>

definition links :: "step_row \<Rightarrow> nat \<Rightarrow> bool" where
  "links st i = (st_forward_id st = Some i \<or> st_rollback_id st = Some i)"

definition owner :: "nat \<Rightarrow> fleet \<Rightarrow> change_row option" where
  "owner i s =
     (case List.find (\<lambda>st. links st i) (steps s) of
        None \<Rightarrow> None
      | Some st \<Rightarrow> get_change (st_change st) s)"

fun opt_list :: "'a option \<Rightarrow> 'a list" where
  "opt_list None = []"
| "opt_list (Some x) = [x]"

definition command_ids :: "step_row list \<Rightarrow> nat list" where
  "command_ids sts =
     concat (map (\<lambda>st. opt_list (st_forward_id st) @ opt_list (st_rollback_id st) @ st_history st) sts)"

text \<open>The walk over prerequisites of \<open>draining\<close>; each turn marks one more row as seen.\<close>

function prerequisite_attempted :: "nat option \<Rightarrow> nat list \<Rightarrow> command list \<Rightarrow> bool" where
  "prerequisite_attempted None seen cs = False"
| "prerequisite_attempted (Some p) seen cs =
     (if p \<in> set seen then False
      else
        (case tbl_get cm_id p cs of
           None \<Rightarrow> False
         | Some parent \<Rightarrow>
             attempted (Some parent) \<or> prerequisite_attempted (cm_depends parent) (p # seen) cs))"
  by pat_completeness auto

termination
proof (relation "measure (\<lambda>(p, seen, cs). length (filter (\<lambda>c. cm_id c \<notin> set seen) cs))", goal_cases)
  case (2 p seen cs parent)
  then have "parent \<in> set cs" "cm_id parent = p" by (auto dest: tbl_get_SomeD)
  moreover have "filter (\<lambda>c. cm_id c \<notin> set (p # seen)) cs =
      filter (\<lambda>c. cm_id c \<noteq> p) (filter (\<lambda>c. cm_id c \<notin> set seen) cs)"
    by (rule sym) (simp add: conj_commute)
  ultimately have "length (filter (\<lambda>c. cm_id c \<notin> set (p # seen)) cs) <
      length (filter (\<lambda>c. cm_id c \<notin> set seen) cs)"
    using 2 by (metis (mono_tags, lifting) length_filter_less mem_Collect_eq set_filter)
  then show ?case by simp
qed simp

definition draining :: "fleet \<Rightarrow> command \<Rightarrow> nat list \<Rightarrow> bool" where
  "draining s c owned =
     (in_flight (Some c) \<or> prerequisite_attempted (cm_depends c) owned (cmds s))"

definition external_in_flight :: "fleet \<Rightarrow> step_row list \<Rightarrow> command list" where
  "external_in_flight s sts =
     (let ids = command_ids sts
      in filter (\<lambda>c. draining s c ids)
           (filter (\<lambda>c. cm_server c \<in> st_server ` set sts \<and> cm_id c \<notin> set ids \<and>
              (cm_status c = Waiting \<or> cm_status c = Pending \<or> cm_status c = Leased)) (cmds s)))"

section \<open>Capabilities and reservations\<close>

fun first_capability_error :: "(nat \<times> payload) list \<Rightarrow> fleet \<Rightarrow> fleet_error + string option" where
  "first_capability_error [] s = Inr None"
| "first_capability_error ((sid, p) # rest) s =
     (case find_server sid s of
        None \<Rightarrow> Inl (ServerNotFound sid)
      | Some _ \<Rightarrow>
        (case capability_error sid p s of
           Some e \<Rightarrow> Inr (Some e)
         | None \<Rightarrow> first_capability_error rest s))"

definition preflight :: "(nat \<times> payload) list \<Rightarrow> fleet \<Rightarrow> fleet_error + unit" where
  "preflight cs s =
     (case first_capability_error cs s of
        Inl e \<Rightarrow> Inl e
      | Inr (Some e) \<Rightarrow> Inl (ChangeSetConflict e)
      | Inr None \<Rightarrow> Inr ())"

definition rollback_creations :: "step_row list \<Rightarrow> bool \<Rightarrow> fleet \<Rightarrow> (nat \<times> payload) list" where
  "rollback_creations sts retry s =
     concat (map (\<lambda>st.
       if \<not> attempted (forward_of st s) then []
       else
         (case st_rollback st of
            None \<Rightarrow> []
          | Some p \<Rightarrow>
            (case rollback_of st s of
               None \<Rightarrow> [(st_server st, p)]
             | Some r \<Rightarrow>
                 if retry \<and> (cm_status r = Failed \<or> cm_status r = Skipped) then [(st_server st, p)] else [])))
       (rev sts))"

definition legacy_steps :: "fleet \<Rightarrow> step_row list" where
  "legacy_steps s =
     filter (\<lambda>st. (case get_change (st_change st) s of
        None \<Rightarrow> False | Some c \<Rightarrow> ch_status c = NeedsReview)) (steps s)"

fun reserve_servers :: "nat list \<Rightarrow> nat \<Rightarrow> fleet \<Rightarrow> fleet_error + fleet" where
  "reserve_servers [] ch s = Inr s"
| "reserve_servers (sid # sids) ch s =
     (if sid \<in> set (removals s) then Inl (ChangeSetConflict ''A target server has a pending node removal'')
      else if find_server sid s = None then Inl (ServerNotFound sid)
      else
        (case lock_of sid s of
           None \<Rightarrow> reserve_servers sids ch (s\<lparr>locks := locks s @ [(sid, ch)]\<rparr>)
         | Some other \<Rightarrow>
             if other \<noteq> ch then
               Inl (ChangeSetConflict (''Server '' @ nat_str sid @ '' is reserved by change set '' @ nat_str other))
             else reserve_servers sids ch s))"

definition reserve :: "nat \<Rightarrow> step_row list \<Rightarrow> fleet \<Rightarrow> fleet_error + fleet" where
  "reserve ch sts s =
     (if list_ex (\<lambda>st. st_server st \<in> st_server ` set sts \<and> st_change st \<noteq> ch) (legacy_steps s)
      then Inl (ChangeSetConflict ''A target has a legacy change set awaiting operator review'')
      else reserve_servers (sort (remdups (map st_server sts))) ch s)"

definition release :: "nat \<Rightarrow> fleet \<Rightarrow> fleet" where
  "release ch s = s\<lparr>locks := filter (\<lambda>(sid, c). c \<noteq> ch) (locks s)\<rparr>"

section \<open>Leasing under a reservation\<close>

definition can_lease :: "fleet \<Rightarrow> command \<Rightarrow> bool" where
  "can_lease s c =
     (let change = owner (cm_id c) s;
          legacy = filter (\<lambda>st. st_server st = cm_server c) (legacy_steps s)
      in if (case change of Some ch \<Rightarrow> ch_version ch = 0 | None \<Rightarrow> False) then in_flight (Some c)
         else if legacy \<noteq> [] then draining s c (command_ids legacy)
         else
           (case lock_of (cm_server c) s of
              None \<Rightarrow> change = None
            | Some holder \<Rightarrow>
              (case change of
                 Some ch \<Rightarrow>
                   if ch_id ch \<noteq> holder then draining s c (command_ids (change_steps holder s))
                   else if ch_status ch \<noteq> Dispatched \<and> ch_status ch \<noteq> RollbackQueued then False
                   else in_flight (Some c) \<or> external_in_flight s (change_steps (ch_id ch) s) = []
               | None \<Rightarrow> draining s c (command_ids (change_steps holder s)))))"

definition validate_result :: "fleet \<Rightarrow> command \<Rightarrow> fleet_error + unit" where
  "validate_result s c =
     (if cm_attempts c = 0 \<and>
         (owner (cm_id c) s \<noteq> None \<or> lock_of (cm_server c) s \<noteq> None \<or> \<not> can_lease s c)
      then Inl CommandNotReady else Inr ())"

section \<open>Advancing\<close>

definition stop_row :: "time \<Rightarrow> command \<Rightarrow> command" where
  "stop_row now c = c\<lparr>cm_status := Skipped, cm_completed := Some now, cm_updated := now,
     cm_error := Some ''Stopped before execution by change-set rollback or failure''\<rparr>"

fun stop_unsent :: "step_row list \<Rightarrow> time \<Rightarrow> fleet \<Rightarrow> fleet" where
  "stop_unsent [] now s = s"
| "stop_unsent (st # sts) now s =
     (case forward_of st s of
        None \<Rightarrow> stop_unsent sts now s
      | Some c \<Rightarrow>
          if unsent c then
            stop_unsent sts now (advance_command_dependents (cm_id c) now (upd_cmd (cm_id c) (stop_row now) s))
          else stop_unsent sts now s)"

definition failed_or_skipped :: "command \<Rightarrow> bool" where
  "failed_or_skipped c = (cm_status c = Failed \<or> cm_status c = Skipped)"

definition forwards :: "step_row list \<Rightarrow> fleet \<Rightarrow> command list" where
  "forwards sts s = List.map_filter (\<lambda>st. forward_of st s) sts"

text \<open>The first half of \<open>advance\<close>: a dispatched change set whose forward chain ended.\<close>

definition advance_forward :: "change_row \<Rightarrow> time \<Rightarrow> fleet \<Rightarrow> fleet" where
  "advance_forward ch now s =
     (let i = ch_id ch; sts = change_steps i s
      in if ch_status ch \<noteq> Dispatched then s
         else
           (case List.find failed_or_skipped (forwards sts s) of
              Some bad \<Rightarrow>
                upd_change i (\<lambda>c. c\<lparr>ch_status := (if ch_rollback_on_failure ch then RollbackQueued else ChangeFailed),
                    ch_rollback_reason := ''Forward command '' @ nat_str (cm_id bad) @ '' failed''\<rparr>)
                  (stop_unsent sts now s)
            | None \<Rightarrow>
                if list_all (\<lambda>c. cm_status c = Succeeded) (forwards sts s)
                then release i (set_status i ChangeSucceeded s) else s))"

definition skip_rollback :: "string \<Rightarrow> time \<Rightarrow> command \<Rightarrow> command" where
  "skip_rollback err now c = c\<lparr>cm_status := Skipped, cm_result_status := Some 501, cm_error := Some err,
     cm_completed := Some now, cm_updated := now\<rparr>"

text \<open>
  The compensation loop over the reversed steps: the rollback commands of the attempted steps, and
  whether an attempted step has none.
\<close>

fun queue_rollbacks ::
  "step_row list \<Rightarrow> string option \<Rightarrow> time \<Rightarrow> command option \<Rightarrow> fleet \<Rightarrow>
   fleet_error + (fleet \<times> nat list \<times> bool)" where
  "queue_rollbacks [] skip now previous s = Inr (s, [], False)"
| "queue_rollbacks (st # sts) skip now previous s =
     (if \<not> attempted (forward_of st s) then queue_rollbacks sts skip now previous s
      else
        (case st_rollback st of
           None \<Rightarrow>
             map_sum id (\<lambda>(s', ids, _). (s', ids, True)) (queue_rollbacks sts skip now previous s)
         | Some p \<Rightarrow>
           (case (case rollback_of st s of
                    None \<Rightarrow>
                      map_sum id (\<lambda>(s', c). (upd_step (st_id st) (\<lambda>x. x\<lparr>st_rollback_id := Some (cm_id c)\<rparr>) s', c))
                        (case skip of
                           Some err \<Rightarrow> create_skipped_command (st_server st) p now err previous s
                         | None \<Rightarrow> create_command_model (st_server st) p now previous s)
                  | Some c \<Rightarrow>
                      Inr (case skip of
                             None \<Rightarrow> (s, c)
                           | Some err \<Rightarrow>
                               if unsent c then (upd_cmd (cm_id c) (skip_rollback err now) s, skip_rollback err now c)
                               else (s, c))) of
              Inl e \<Rightarrow> Inl e
            | Inr (s', c) \<Rightarrow>
                map_sum id (\<lambda>(s'', ids, missing). (s'', cm_id c # ids, missing))
                  (queue_rollbacks sts skip now (Some c) s'))))"

definition settle_rollback :: "nat \<Rightarrow> command list \<Rightarrow> bool \<Rightarrow> fleet \<Rightarrow> fleet" where
  "settle_rollback i rbs missing s =
     (if list_ex failed_or_skipped rbs then set_status i RollbackFailed s
      else if list_all (\<lambda>c. cm_status c = Succeeded) rbs then
        (if missing then set_status i RollbackIncomplete s else release i (set_status i RolledBack s))
      else s)"

definition advance_rollback :: "nat \<Rightarrow> time \<Rightarrow> fleet \<Rightarrow> fleet_error + fleet" where
  "advance_rollback i now s0 =
     (let sts = change_steps i s0; s = stop_unsent sts now s0
      in if list_ex (\<lambda>st. in_flight (forward_of st s)) sts then Inr s
         else
           (case first_capability_error (rollback_creations sts False s) s of
              Inl e \<Rightarrow> Inl e
            | Inr err \<Rightarrow>
              (case queue_rollbacks (rev sts)
                      (map_option (\<lambda>e. ''Automatic rollback not queued: '' @ e) err) now None s of
                 Inl e \<Rightarrow> Inl e
               | Inr (s', ids, missing) \<Rightarrow>
                   Inr (settle_rollback i (List.map_filter (\<lambda>j. get_cmd j s') ids) missing s'))))"

definition advance :: "nat \<Rightarrow> time \<Rightarrow> fleet \<Rightarrow> fleet_error + fleet" where
  "advance i now s =
     (case get_change i s of
        None \<Rightarrow> Inr s
      | Some ch \<Rightarrow>
        (let s' = advance_forward ch now s
         in map_sum id (touch i now)
              (case get_change i s' of
                 Some ch' \<Rightarrow> if ch_status ch' = RollbackQueued then advance_rollback i now s' else Inr s'
               | None \<Rightarrow> Inr s')))"

definition advance_after_result :: "nat \<Rightarrow> time \<Rightarrow> fleet \<Rightarrow> fleet_error + fleet" where
  "advance_after_result cid now s =
     (case owner cid s of
        None \<Rightarrow> Inr s
      | Some ch \<Rightarrow> if ch_version ch \<noteq> 0 then advance (ch_id ch) now s else Inr s)"

section \<open>Operator requests\<close>

record step_create =
  sc_server :: nat
  sc_label :: string
  sc_forward :: payload
  sc_rollback :: "payload option"

record change_create =
  cc_name :: string
  cc_rollback_on_failure :: bool
  cc_steps :: "step_create list"

fun step_rows :: "nat \<Rightarrow> nat \<Rightarrow> nat \<Rightarrow> step_create list \<Rightarrow> step_row list" where
  "step_rows ch i n [] = []"
| "step_rows ch i n (sc # scs) =
     \<lparr>st_id = n, st_change = ch, st_sequence = i, st_server = sc_server sc,
      st_label = (if sc_label sc = [] then ''Step '' @ nat_str i else sc_label sc),
      st_forward = sc_forward sc, st_rollback = sc_rollback sc, st_forward_id = None,
      st_rollback_id = None, st_history = []\<rparr> # step_rows ch (Suc i) (Suc n) scs"

definition payload_errors :: "step_create list \<Rightarrow> string list" where
  "payload_errors scs = List.map_filter wire_error
     (concat (map (\<lambda>sc. sc_forward sc # opt_list (sc_rollback sc)) scs))"

definition create_change_set :: "change_create \<Rightarrow> time \<Rightarrow> fleet \<Rightarrow> fleet_error + (fleet \<times> nat)" where
  "create_change_set p now s =
     (case payload_errors (cc_steps p) of
        e # _ \<Rightarrow> Inl (PayloadError e)
      | [] \<Rightarrow>
        (case sort (filter (\<lambda>sid. find_server sid s = None) (map sc_server (cc_steps p))) of
           sid # _ \<Rightarrow> Inl (ServerNotFound sid)
         | [] \<Rightarrow>
           Inr (s\<lparr>changes := changes s @ [\<lparr>ch_id = fresh s, ch_name = cc_name p, ch_status = Planned,
                    ch_rollback_on_failure = cc_rollback_on_failure p, ch_rollback_reason = [],
                    ch_resolution_reason = [], ch_version = 1, ch_archived = False,
                    ch_created = now, ch_updated = now\<rparr>],
                  steps := steps s @ step_rows (fresh s) 1 (Suc (fresh s)) (cc_steps p),
                  fresh := Suc (fresh s) + length (cc_steps p)\<rparr>, fresh s)))"

fun dispatch_steps ::
  "step_row list \<Rightarrow> time \<Rightarrow> command option \<Rightarrow> fleet \<Rightarrow> fleet_error + (fleet \<times> command list)" where
  "dispatch_steps [] now previous s = Inr (s, [])"
| "dispatch_steps (st # sts) now previous s =
     (case create_command_model (st_server st) (st_forward st) now previous s of
        Inl e \<Rightarrow> Inl e
      | Inr (s', c) \<Rightarrow>
          map_sum id (\<lambda>(s'', cs). (s'', c # cs))
            (dispatch_steps sts now (Some c)
              (upd_step (st_id st) (\<lambda>x. x\<lparr>st_forward_id := Some (cm_id c)\<rparr>) s')))"

definition dispatch :: "nat \<Rightarrow> time \<Rightarrow> fleet \<Rightarrow> fleet_error + (fleet \<times> command list)" where
  "dispatch i now s =
     (case get_change i s of
        None \<Rightarrow> Inl ChangeSetNotFound
      | Some ch \<Rightarrow>
          if ch_archived ch then Inl (ChangeSetConflict ''An archived change set cannot be dispatched'')
          else if ch_status ch = Planned then
            (let sts = change_steps i s
             in case preflight (map (\<lambda>st. (st_server st, st_forward st)) sts) s of
                  Inl e \<Rightarrow> Inl e
                | Inr _ \<Rightarrow>
                  (case reserve i sts s of
                     Inl e \<Rightarrow> Inl e
                   | Inr s1 \<Rightarrow>
                     (case dispatch_steps sts now None s1 of
                        Inl e \<Rightarrow> Inl e
                      | Inr (s2, cs) \<Rightarrow> Inr (touch i now (set_status i Dispatched s2), cs))))
          else if ch_status ch \<noteq> Dispatched then
            Inl (ChangeSetConflict ''Only a planned change set can be dispatched'')
          else Inr (s, []))"

definition read_only :: "command \<Rightarrow> bool" where
  "read_only c = (pl_method (cm_payload c) = GET \<and> pl_path (cm_payload c) \<in>
     {config_path, ''/api/child/nginx/config'', ''/api/child/system/info'', ''/api/child/traffic'',
      ''/api/child/speed''})"

definition guard_late_rollback :: "step_row list \<Rightarrow> fleet \<Rightarrow> fleet_error + unit" where
  "guard_late_rollback sts s =
     (let ended = Max (set (List.map_filter cm_completed (forwards sts s)));
          later = filter (\<lambda>c. cm_server c \<in> st_server ` set sts \<and> cm_id c \<notin> set (command_ids sts) \<and>
            cm_attempts c > 0 \<and> (case cm_leased c of Some t \<Rightarrow> t \<ge> ended | None \<Rightarrow> False)) (cmds s)
      in if list_all read_only (later @ external_in_flight s sts) then Inr ()
         else Inl (ChangeSetConflict
           ''A target received later work; create a new recovery plan from its current state''))"

text \<open>A retry after \<open>ROLLBACK_FAILED\<close> archives the compensations that did not succeed.\<close>

definition archive_failed :: "fleet \<Rightarrow> step_row \<Rightarrow> step_row" where
  "archive_failed s st =
     (case rollback_of st s of
        Some c \<Rightarrow>
          if failed_or_skipped c
          then st\<lparr>st_history := st_history st @ [cm_id c], st_rollback_id := None\<rparr> else st
      | None \<Rightarrow> st)"

definition start_rollback :: "change_row \<Rightarrow> string \<Rightarrow> time \<Rightarrow> fleet \<Rightarrow> fleet_error + fleet" where
  "start_rollback ch reason now s =
     (let i = ch_id ch; sts = change_steps i s; retry = (ch_status ch = RollbackFailed)
      in case preflight (rollback_creations sts retry s) s of
           Inl e \<Rightarrow> Inl e
         | Inr _ \<Rightarrow>
           (case reserve i sts s of
              Inl e \<Rightarrow> Inl e
            | Inr s1 \<Rightarrow>
              (case (if ch_status ch = ChangeSucceeded then guard_late_rollback sts s1 else Inr ()) of
                 Inl e \<Rightarrow> Inl e
               | Inr _ \<Rightarrow>
                 (let s2 = (if retry then s1\<lparr>steps := tbl_upd (\<lambda>st. st_change st = i) (archive_failed s1) (steps s1)\<rparr>
                            else s1);
                      s3 = upd_change i (\<lambda>c. c\<lparr>ch_status := RollbackQueued,
                             ch_rollback_reason := (if ch_rollback_reason c = [] then reason
                                                    else ch_rollback_reason c)\<rparr>) s2
                  in advance i now s3))))"

text \<open>The commands returned are the compensations linked now and not before, last step first.\<close>

definition rollback :: "nat \<Rightarrow> string \<Rightarrow> time \<Rightarrow> fleet \<Rightarrow> fleet_error + (fleet \<times> nat list)" where
  "rollback i reason now s =
     (case get_change i s of
        None \<Rightarrow> Inl ChangeSetNotFound
      | Some ch \<Rightarrow>
          if ch_archived ch then
            Inl (ChangeSetConflict ''A target server was removed; create a new recovery plan'')
          else if ch_version ch = 0 then
            Inl (ChangeSetConflict
              ''Review legacy execution, accept its current state, then create a recovery plan'')
          else
            (case (if ch_status ch = Planned then Inr (set_status i Cancelled s)
                   else if ch_status ch = Cancelled \<or> ch_status ch = RolledBack then Inr s
                   else if ch_status ch = Accepted then
                     Inl (ChangeSetConflict ''An accepted change set cannot be rolled back; create a new plan'')
                   else start_rollback ch reason now s) of
               Inl e \<Rightarrow> Inl e
             | Inr s' \<Rightarrow>
                 Inr (touch i now s',
                   filter (\<lambda>j. get_cmd j s' \<noteq> None \<and> j \<notin> set (command_ids (change_steps i s)))
                     (concat (map (\<lambda>st. opt_list (st_rollback_id st)) (rev (change_steps i s')))))))"

definition review_state :: "change_status \<Rightarrow> bool" where
  "review_state st = (st \<in> {ChangeFailed, RollbackFailed, RollbackIncomplete, NeedsReview})"

definition accept :: "nat \<Rightarrow> string \<Rightarrow> time \<Rightarrow> fleet \<Rightarrow> fleet_error + (fleet \<times> unit)" where
  "accept i reason now s =
     (case get_change i s of
        None \<Rightarrow> Inl ChangeSetNotFound
      | Some ch \<Rightarrow>
          if \<not> review_state (ch_status ch) then
            Inl (ChangeSetConflict ''Only a stopped or incomplete change set can be accepted'')
          else if list_ex (\<lambda>j. in_flight (get_cmd j s)) (command_ids (change_steps i s)) then
            Inl (ChangeSetConflict ''Wait for every attempted command to return before accepting state'')
          else Inr (release i (upd_change i (\<lambda>c. c\<lparr>ch_status := Accepted,
                      ch_resolution_reason := reason, ch_updated := now\<rparr>) s), ()))"

record change_state =
  held_servers :: "nat list"
  blocking_commands :: "nat list"
  state_warnings :: "string list"

definition read_state :: "change_row \<Rightarrow> fleet \<Rightarrow> change_state" where
  "read_state ch s =
     (let sts = change_steps (ch_id ch) s;
          warnings =
            (if ch_archived ch then [''Server removed; this change set is archived and cannot be replayed''] else []) @
            (if ch_version ch = 0
             then [''Legacy execution needs operator review; unsent commands were stopped''] else []) @
            map (\<lambda>st. ''step '' @ nat_str (st_sequence st) @ '' has no rollback command'')
              (filter (\<lambda>st. attempted (forward_of st s) \<and> st_rollback st = None) sts);
          held = (if ch_status ch = NeedsReview then remdups (map st_server sts)
                  else map fst (filter (\<lambda>(sid, c). c = ch_id ch) (locks s)));
          blocking = (if held \<noteq> [] then map cm_id (external_in_flight s sts) else []) @
            (if ch_status ch = RollbackQueued \<or> ch_status ch = NeedsReview
             then filter (\<lambda>j. in_flight (get_cmd j s)) (command_ids sts) else [])
      in \<lparr>held_servers = sort held, blocking_commands = sort (remdups blocking), state_warnings = warnings\<rparr>)"

definition pause_row :: "time \<Rightarrow> command \<Rightarrow> command" where
  "pause_row now c = c\<lparr>cm_status := Skipped, cm_completed := Some now, cm_updated := now,
     cm_error := Some ''Paused legacy change set during coordination upgrade''\<rparr>"

text \<open>\<open>migrate_legacy\<close>: one change set of the old scheme.\<close>

definition migrate_change :: "time \<Rightarrow> nat \<Rightarrow> fleet \<Rightarrow> fleet" where
  "migrate_change now i s =
     (case get_change i s of
        None \<Rightarrow> s
      | Some ch \<Rightarrow>
          if ch_status ch = Planned then upd_change i (\<lambda>c. c\<lparr>ch_version := 1\<rparr>) s
          else if ch_status ch = Dispatched \<or> ch_status ch = RollbackQueued then
            upd_change i (\<lambda>c. c\<lparr>ch_status := NeedsReview, ch_updated := now\<rparr>)
              (s\<lparr>cmds := tbl_upd (\<lambda>c. cm_id c \<in> set (command_ids (change_steps i s)) \<and> unsent c)
                   (pause_row now) (cmds s)\<rparr>)
          else s)"

definition migrate_legacy :: "time \<Rightarrow> fleet \<Rightarrow> fleet" where
  "migrate_legacy now s =
     foldl (\<lambda>s' i. if (case get_change i s' of Some ch \<Rightarrow> ch_version ch = 0 | None \<Rightarrow> False)
                   then migrate_change now i s' else s')
       s (map ch_id (filter (\<lambda>c. ch_version c = 0) (changes s)))"

end
