(* ===== verification/Command_Queue.thy ===== *)
theory Command_Queue
  imports Change_Sets
begin

text \<open>
  The queue's handlers of \<open>InventoryStore\<close> (\<open>inventory.py\<close>): leasing, results, stream frames and
  capability loss, over the coordinator of \<open>Change_Sets\<close>. The answer of
  \<open>subscription_access.can_lease\<close> (with \<open>node_management\<close> behind it) is an input of a lease
  (\<open>verdict\<close>); the rows a result updates in other components are not part of this state, and the
  commands other components queue are further \<open>create_command\<close> calls of a run. Each handler runs in
  a serialised transaction (\<open>begin_serialized_write\<close>), so it is one step.
\<close>

section \<open>Claiming a lease\<close>

datatype verdict = Allow | Withhold | Retire string

definition not_sent :: string where
  "not_sent = ''Not sent: ''"

definition drop_prefix :: "string \<Rightarrow> string \<Rightarrow> string" where
  "drop_prefix p s = (if take (length p) s = p then drop (length p) s else s)"

definition terminal_row :: "string \<Rightarrow> int \<Rightarrow> time \<Rightarrow> command \<Rightarrow> command" where
  "terminal_row err status now c =
     c\<lparr>cm_status := (if cm_attempts c > 0 then Failed else Skipped),
       cm_result_status := Some status,
       cm_error := Some (if cm_attempts c > 0
         then ''Not retried after an earlier dispatch because its outcome is unknown. '' @ drop_prefix not_sent err
         else err),
       cm_leased := None, cm_completed := Some now, cm_updated := now\<rparr>"

definition terminalize :: "nat \<Rightarrow> time \<Rightarrow> string \<Rightarrow> int \<Rightarrow> fleet \<Rightarrow> fleet_error + fleet" where
  "terminalize i now err status s =
     advance_after_result i now
       (advance_command_dependents i now (upd_cmd i (terminal_row err status now) s))"

text \<open>\<open>SubscriptionAccessCoordinator.skip\<close>.\<close>

definition skip_row :: "string \<Rightarrow> time \<Rightarrow> command \<Rightarrow> command" where
  "skip_row err now c = c\<lparr>cm_status := Skipped, cm_error := Some err, cm_completed := Some now, cm_updated := now\<rparr>"

definition skip_command :: "nat \<Rightarrow> time \<Rightarrow> string \<Rightarrow> fleet \<Rightarrow> fleet_error + fleet" where
  "skip_command i now err s =
     advance_after_result i now (advance_command_dependents i now (upd_cmd i (skip_row err now) s))"

definition lease_row :: "time \<Rightarrow> command \<Rightarrow> command" where
  "lease_row now c = c\<lparr>cm_status := Leased, cm_attempts := Suc (cm_attempts c), cm_leased := Some now,
     cm_updated := now\<rparr>"

text \<open>The compare-and-set of the update statement: same status and attempts as the row read.\<close>

definition same_version :: "command \<Rightarrow> command \<Rightarrow> bool" where
  "same_version c r = (cm_id r = cm_id c \<and> cm_status r = cm_status c \<and> cm_attempts r = cm_attempts c)"

definition claim_lease :: "verdict \<Rightarrow> time \<Rightarrow> command \<Rightarrow> fleet \<Rightarrow> fleet_error + (fleet \<times> bool)" where
  "claim_lease v now c s =
     (if \<not> lease_candidate c now then Inr (s, False)
      else if \<not> can_lease s c then Inr (s, False)
      else
        (case v of
           Withhold \<Rightarrow> Inr (s, False)
         | Retire err \<Rightarrow>
             if cm_attempts c = 0 then map_sum id (\<lambda>s'. (s', False)) (skip_command (cm_id c) now err s)
             else Inr (s, False)
         | Allow \<Rightarrow>
           (case lease_capability_error c s of
              Some err \<Rightarrow> map_sum id (\<lambda>s'. (s', False)) (terminalize (cm_id c) now err 501 s)
            | None \<Rightarrow>
              (case wire_error (cm_payload c) of
                 Some err \<Rightarrow>
                   map_sum id (\<lambda>s'. (s', False)) (terminalize (cm_id c) now (not_sent @ err) 422 s)
               | None \<Rightarrow>
                   Inr (s\<lparr>cmds := tbl_upd (same_version c) (lease_row now) (cmds s)\<rparr>,
                     list_ex (same_version c) (cmds s))))))"

section \<open>Results\<close>

record result_report =
  rp_status :: int
  rp_body :: json
  rp_error :: "string option"

definition refresh_query :: string where
  "refresh_query = ''snapshot_source=master_write''"

definition mutating_prefixes :: "string list" where
  "mutating_prefixes =
     [''/api/child/xray/install'', ''/api/child/xray/install-stream'', ''/api/child/xray/rollback'',
      ''/api/child/tunnel/deploy'', inbounds_path, ''/api/child/outbounds'', ''/api/child/routing'',
      ''/api/child/egress/apply'', ''/api/child/warp/install'', ''/api/child/warp/license'',
      ''/api/child/warp/remove'', batch_path, access_path, config_path,
      ''/api/child/xray/config-files'', ''/api/child/xray/system-config'',
      ''/api/child/external-xray/takeover'']"

definition starts_with :: "string \<Rightarrow> string \<Rightarrow> bool" where
  "starts_with p s = (take (length p) s = p)"

definition should_refresh :: "payload \<Rightarrow> bool" where
  "should_refresh p =
     (if pl_method p = GET then False
      else
        (let path = takeWhile (\<lambda>c. c \<noteq> CHR ''?'') (pl_path p)
         in if path = cleanup_path then is_dict (pl_body p) \<and> jfield ''action'' (pl_body p) = JStr ''apply''
            else list_ex (\<lambda>pre. path = pre \<or> starts_with (pre @ ''/'') path) mutating_prefixes))"

definition refresh_payload :: payload where
  "refresh_payload = \<lparr>pl_method = GET, pl_path = config_path, pl_query = refresh_query, pl_body = JNull,
     pl_timeout = 60000, pl_stream = False\<rparr>"

definition queue_refresh :: "nat \<Rightarrow> command \<Rightarrow> result_report \<Rightarrow> time \<Rightarrow> fleet \<Rightarrow> fleet_error + fleet" where
  "queue_refresh sid c r now s =
     (if \<not> no_error (rp_error r) \<or> rp_status r \<ge> 400 then Inr s
      else if \<not> should_refresh (cm_payload c) then Inr s
      else if sid \<in> set (shared_servers s) then Inr s
      else if list_ex (\<lambda>x. cm_server x = sid \<and> pl_method (cm_payload x) = GET \<and>
                pl_path (cm_payload x) = config_path \<and> pl_query (cm_payload x) = refresh_query \<and>
                (cm_status x = Pending \<or> cm_status x = Leased)) (cmds s) then Inr s
      else map_sum id fst (create_command_model sid refresh_payload now None s))"

definition result_row :: "string option \<Rightarrow> result_report \<Rightarrow> time \<Rightarrow> command \<Rightarrow> command" where
  "result_row err r now c =
     c\<lparr>cm_status := (if \<not> no_error err \<or> rp_status r \<ge> 400 then Failed else Succeeded),
       cm_result_status := Some (rp_status r), cm_result_body := rp_body r, cm_error := err,
       cm_completed := Some now, cm_updated := now\<rparr>"

definition upd_server :: "nat \<Rightarrow> (server_row \<Rightarrow> server_row) \<Rightarrow> fleet \<Rightarrow> fleet" where
  "upd_server sid f s = s\<lparr>servers := tbl_upd (\<lambda>v. sv_id v = sid) f (servers s)\<rparr>"

definition uninstalled :: "command \<Rightarrow> json \<Rightarrow> bool" where
  "uninstalled c body =
     (pl_path (cm_payload c) \<in> {''/api/child/agent/uninstall'', ''/api/child/agent/uninstall-stream''} \<and>
      jfield ''installation_status'' body = JStr ''removed'')"

text \<open>What follows the update of the row: the server's heartbeat, the dependents, the refresh, the change set.\<close>

definition heard_from :: "command \<Rightarrow> command \<Rightarrow> json \<Rightarrow> time \<Rightarrow> server_row \<Rightarrow> server_row" where
  "heard_from c row body now v = v\<lparr>sv_heartbeat := Some now, sv_updated := now,
     sv_status := (if cm_status row = Succeeded \<and> uninstalled c (as_dict body) then Offline else sv_status v)\<rparr>"

definition propagate_result ::
  "nat \<Rightarrow> command \<Rightarrow> command \<Rightarrow> result_report \<Rightarrow> time \<Rightarrow> fleet \<Rightarrow> fleet_error + fleet" where
  "propagate_result sid c row r now s =
     (let s3 = advance_command_dependents (cm_id c) now (upd_server sid (heard_from c row (rp_body r) now) s)
      in case (if cm_status row \<noteq> Failed then queue_refresh sid c r now s3 else Inr s3) of
           Inl e \<Rightarrow> Inl e
         | Inr s4 \<Rightarrow> advance_after_result (cm_id c) now s4)"

definition apply_result ::
  "(json \<Rightarrow> string) \<Rightarrow> nat \<Rightarrow> command \<Rightarrow> result_report \<Rightarrow> time \<Rightarrow> fleet \<Rightarrow> fleet_error + fleet" where
  "apply_result digest sid c r now s =
     (if terminal c then Inr s
      else if cm_status c = Waiting then Inl CommandNotReady
      else
        (case validate_result s c of
           Inl e \<Rightarrow> Inl e
         | Inr _ \<Rightarrow>
           (let err = result_error digest c (rp_status r) (rp_body r) (rp_error r);
                s1 = s\<lparr>cmds := tbl_upd (same_version c) (result_row err r now) (cmds s)\<rparr>
            in if list_ex (same_version c) (cmds s)
               then propagate_result sid c (result_row err r now c) r now s1 else Inr s1)))"

section \<open>Handlers\<close>

definition server_by_token :: "string \<Rightarrow> fleet \<Rightarrow> fleet_error + server_row" where
  "server_by_token token s =
     (case List.find (\<lambda>v. sv_token v = token) (servers s) of
        None \<Rightarrow> Inl InvalidAgentToken | Some v \<Rightarrow> Inr v)"

definition seen_alive :: "nat \<Rightarrow> time \<Rightarrow> fleet \<Rightarrow> fleet" where
  "seen_alive sid now s =
     upd_server sid (\<lambda>v. v\<lparr>sv_status := Connected, sv_heartbeat := Some now, sv_updated := now\<rparr>) s"

definition dispatchable :: "nat \<Rightarrow> time \<Rightarrow> fleet \<Rightarrow> command list" where
  "dispatchable sid now s =
     filter (\<lambda>c. cm_status c = Pending \<or> lease_expired c now)
       (sort_key cm_created
         (filter (\<lambda>c. cm_server c = sid \<and> (cm_status c = Pending \<or> cm_status c = Leased)) (cmds s)))"

text \<open>The loop of \<open>lease_commands\<close> over the candidates; their rows are read again at each turn.\<close>

fun lease_loop ::
  "(nat \<Rightarrow> verdict) \<Rightarrow> time \<Rightarrow> int \<Rightarrow> nat list \<Rightarrow> nat list \<Rightarrow> fleet \<Rightarrow> fleet_error + (fleet \<times> nat list)" where
  "lease_loop vs now limit [] leased s = Inr (s, leased)"
| "lease_loop vs now limit (i # is) leased s =
     (if int (length leased) \<ge> limit then Inr (s, leased)
      else
        (case get_cmd i s of
           None \<Rightarrow> lease_loop vs now limit is leased s
         | Some c \<Rightarrow>
           (case claim_lease (vs i) now c s of
              Inl e \<Rightarrow> Inl e
            | Inr (s', ok) \<Rightarrow>
                lease_loop vs now limit is (if ok then leased @ [i] else leased) s')))"

definition lease_commands ::
  "string \<Rightarrow> int \<Rightarrow> time \<Rightarrow> (nat \<Rightarrow> verdict) \<Rightarrow> fleet \<Rightarrow> fleet_error + (fleet \<times> command list)" where
  "lease_commands token limit now vs s =
     (case server_by_token token s of
        Inl e \<Rightarrow> Inl e
      | Inr v \<Rightarrow>
        (let candidates = map cm_id (sort_key cm_created
               (filter (\<lambda>c. cm_server c = sv_id v \<and> (cm_status c = Pending \<or> cm_status c = Leased)) (cmds s)))
         in case lease_loop vs now limit candidates [] s of
              Inl e \<Rightarrow> Inl e
            | Inr (s', ids) \<Rightarrow>
                (let s'' = seen_alive (sv_id v) now s'
                 in Inr (s'', List.map_filter (\<lambda>i. get_cmd i s'') ids))))"

definition lease_for_push ::
  "nat \<Rightarrow> verdict \<Rightarrow> time \<Rightarrow> fleet \<Rightarrow> fleet_error + (fleet \<times> command option)" where
  "lease_for_push i v now s =
     (case get_cmd i s of
        None \<Rightarrow> Inl CommandNotFound
      | Some c \<Rightarrow>
          map_sum id (\<lambda>(s', ok). (s', if ok then get_cmd i s' else None)) (claim_lease v now c s))"

definition complete_command ::
  "(json \<Rightarrow> string) \<Rightarrow> string \<Rightarrow> nat \<Rightarrow> result_report \<Rightarrow> time \<Rightarrow> fleet \<Rightarrow> fleet_error + (fleet \<times> command option)" where
  "complete_command digest token i r now s =
     (case server_by_token token s of
        Inl e \<Rightarrow> Inl e
      | Inr v \<Rightarrow>
        (case get_cmd i s of
           None \<Rightarrow> Inl CommandNotFound
         | Some c \<Rightarrow>
             if cm_server c \<noteq> sv_id v then Inl CommandNotFound
             else map_sum id (\<lambda>s'. (s', get_cmd i s')) (apply_result digest (sv_id v) c r now s)))"

definition by_request :: "nat \<times> nat \<Rightarrow> nat \<Rightarrow> fleet \<Rightarrow> command option" where
  "by_request rid sid s = List.find (\<lambda>c. cm_request c = rid \<and> cm_server c = sid) (cmds s)"

definition complete_by_request ::
  "(json \<Rightarrow> string) \<Rightarrow> string \<Rightarrow> nat \<times> nat \<Rightarrow> result_report \<Rightarrow> time \<Rightarrow> fleet \<Rightarrow>
   fleet_error + (fleet \<times> command option)" where
  "complete_by_request digest token rid r now s =
     (case server_by_token token s of
        Inl e \<Rightarrow> Inl e
      | Inr v \<Rightarrow>
        (case by_request rid (sv_id v) s of
           None \<Rightarrow> Inl CommandNotFound
         | Some c \<Rightarrow>
             map_sum id (\<lambda>s'. (s', get_cmd (cm_id c) s')) (apply_result digest (sv_id v) c r now s)))"

definition append_frame ::
  "string \<Rightarrow> nat \<times> nat \<Rightarrow> string \<Rightarrow> time \<Rightarrow> fleet \<Rightarrow> fleet_error + (fleet \<times> frame)" where
  "append_frame token rid data now s =
     (case server_by_token token s of
        Inl e \<Rightarrow> Inl e
      | Inr v \<Rightarrow>
        (case by_request rid (sv_id v) s of
           None \<Rightarrow> Inl CommandNotFound
         | Some c \<Rightarrow>
             if \<not> pl_stream (cm_payload c) \<or> terminal c \<or> cm_status c = Waiting then Inl CommandNotFound
             else
               (let last_seq = foldl max 0 (map fr_sequence (filter (\<lambda>f. fr_command f = cm_id c) (frames s)));
                    f = \<lparr>fr_command = cm_id c, fr_server = sv_id v, fr_sequence = Suc last_seq,
                         fr_data = data, fr_received = now\<rparr>;
                    s1 = upd_cmd (cm_id c) (\<lambda>r. r\<lparr>cm_updated := now\<rparr>) (s\<lparr>frames := frames s @ [f]\<rparr>);
                    s2 = seen_alive (sv_id v) now s1
                in Inr (s2\<lparr>agents := tbl_upd (\<lambda>a. ag_server a = sv_id v) (\<lambda>a. a\<lparr>ag_seen := now\<rparr>) (agents s2)\<rparr>, f))))"

definition reconcile_capability_loss ::
  "nat \<Rightarrow> time \<Rightarrow> fleet \<Rightarrow> fleet_error + (fleet \<times> command option)" where
  "reconcile_capability_loss i now s =
     (case get_cmd i s of
        None \<Rightarrow> Inl CommandNotFound
      | Some c \<Rightarrow>
          map_sum id (\<lambda>s'. (s', get_cmd i s'))
            (if lease_candidate c now then
               (case lease_capability_error c s of
                  None \<Rightarrow> Inr s
                | Some err \<Rightarrow> terminalize i now err 501 s)
             else Inr s))"

definition release_lease :: "nat \<Rightarrow> nat \<Rightarrow> time \<Rightarrow> fleet \<Rightarrow> fleet_error + (fleet \<times> command option)" where
  "release_lease i attempts now s =
     (case get_cmd i s of
        None \<Rightarrow> Inl CommandNotFound
      | Some _ \<Rightarrow>
        (let s' = s\<lparr>cmds := tbl_upd (\<lambda>c. cm_id c = i \<and> cm_status c = Leased \<and> cm_attempts c = attempts)
               (\<lambda>c. c\<lparr>cm_status := Pending, cm_leased := None, cm_updated := now\<rparr>) (cmds s)\<rparr>
         in Inr (s', get_cmd i s')))"

section \<open>The queue as a machine\<close>

text \<open>
  One call per handler, and what the rest of the program does to this state: servers are added and
  shared, agents register their capabilities, node removals begin and end.
\<close>

datatype fcall =
    Create nat payload time
  | CreateSequence nat "payload list" time
  | Lease string int time "nat \<Rightarrow> verdict"
  | Push nat verdict time
  | Complete string nat result_report time
  | CompleteByRequest string "nat \<times> nat" result_report time
  | Frame string "nat \<times> nat" string time
  | CapabilityLoss nat time
  | ReleaseLease nat nat time
  | CreateChange change_create time
  | Dispatch nat time
  | RollBack nat string time
  | Accept nat string time
  | MigrateLegacy time
  | AddServer server_row
  | Share "nat list"
  | Register agent_row
  | SetRemovals "nat list"

definition fleet_step :: "(json \<Rightarrow> string) \<Rightarrow> fleet \<Rightarrow> fcall \<Rightarrow> fleet" where
  "fleet_step digest s call =
     (case call of
        Create sid p now \<Rightarrow> commit s (create_command sid p now s)
      | CreateSequence sid ps now \<Rightarrow> commit s (create_command_sequence sid ps now s)
      | Lease token limit now vs \<Rightarrow> commit s (lease_commands token limit now vs s)
      | Push i v now \<Rightarrow> commit s (lease_for_push i v now s)
      | Complete token i r now \<Rightarrow> commit s (complete_command digest token i r now s)
      | CompleteByRequest token rid r now \<Rightarrow> commit s (complete_by_request digest token rid r now s)
      | Frame token rid data now \<Rightarrow> commit s (append_frame token rid data now s)
      | CapabilityLoss i now \<Rightarrow> commit s (reconcile_capability_loss i now s)
      | ReleaseLease i n now \<Rightarrow> commit s (release_lease i n now s)
      | CreateChange p now \<Rightarrow> commit s (create_change_set p now s)
      | Dispatch i now \<Rightarrow> commit s (dispatch i now s)
      | RollBack i reason now \<Rightarrow> commit s (rollback i reason now s)
      | Accept i reason now \<Rightarrow> commit s (accept i reason now s)
      | MigrateLegacy now \<Rightarrow> migrate_legacy now s
      | AddServer v \<Rightarrow> s\<lparr>servers := tbl_put sv_id v (servers s)\<rparr>
      | Share ids \<Rightarrow> s\<lparr>shared_servers := ids\<rparr>
      | Register a \<Rightarrow> s\<lparr>agents := tbl_put ag_server a (agents s)\<rparr>
      | SetRemovals ids \<Rightarrow> s\<lparr>removals := ids\<rparr>)"

definition empty_fleet :: fleet where
  "empty_fleet = \<lparr>servers = [], agents = [], shared_servers = [], cmds = [], frames = [], changes = [],
     steps = [], locks = [], removals = [], fresh = 0\<rparr>"

end
