(* ===== verification/Fleet_Invariant.thy ===== *)
theory Fleet_Invariant
  imports Command_Queue
begin

text \<open>
  What the queue and the coordinator keep, over every run of \<open>fleet_step\<close>: rows evolve
  monotonically, a command is released only after its prerequisite succeeded, and every change set
  holds the servers its unfinished forward commands run on. The properties at the end rest on the
  invariant \<open>fleet_ok\<close>.
\<close>

section \<open>The invariant\<close>

text \<open>A row that is finished, or was sent at least once: never to be stopped as unsent.\<close>

definition settled :: "command \<Rightarrow> bool" where
  "settled c \<longleftrightarrow> terminal c \<or> cm_attempts c > 0"

definition steps_of :: "nat \<Rightarrow> fleet \<Rightarrow> step_row set" where
  "steps_of i s = {st \<in> set (steps s). st_change st = i}"

definition holds_servers :: "fleet \<Rightarrow> nat \<Rightarrow> bool" where
  "holds_servers s i \<longleftrightarrow> (\<forall>st \<in> steps_of i s. lock_of (st_server st) s = Some i)"

definition forwards_all :: "(command \<Rightarrow> bool) \<Rightarrow> fleet \<Rightarrow> nat \<Rightarrow> bool" where
  "forwards_all P s i \<longleftrightarrow> (\<forall>st \<in> steps_of i s. \<forall>c. forward_of st s = Some c \<longrightarrow> P c)"

definition unlinked :: "fleet \<Rightarrow> nat \<Rightarrow> bool" where
  "unlinked s i \<longleftrightarrow> (\<forall>st \<in> steps_of i s. st_forward_id st = None)"

text \<open>What the status of a coordinated change set says of its steps; of a legacy one, only when planned.\<close>

definition status_ok :: "fleet \<Rightarrow> nat \<Rightarrow> change_status \<Rightarrow> bool" where
  "status_ok s i st =
     (case st of
        Planned \<Rightarrow> unlinked s i
      | Cancelled \<Rightarrow> unlinked s i
      | Dispatched \<Rightarrow> holds_servers s i
      | RollbackQueued \<Rightarrow> holds_servers s i
      | ChangeFailed \<Rightarrow> holds_servers s i \<and> forwards_all settled s i
      | RollbackFailed \<Rightarrow> holds_servers s i \<and> forwards_all terminal s i
      | RollbackIncomplete \<Rightarrow> holds_servers s i \<and> forwards_all terminal s i
      | ChangeSucceeded \<Rightarrow> forwards_all terminal s i
      | RolledBack \<Rightarrow> forwards_all terminal s i
      | Accepted \<Rightarrow> forwards_all terminal s i
      | NeedsReview \<Rightarrow> False)"

definition change_ok :: "fleet \<Rightarrow> change_row \<Rightarrow> bool" where
  "change_ok s ch \<longleftrightarrow>
     (if ch_version ch = 0 then ch_status ch = Planned \<longrightarrow> unlinked s (ch_id ch)
      else status_ok s (ch_id ch) (ch_status ch))"

definition link_ok :: "fleet \<Rightarrow> step_row \<Rightarrow> bool" where
  "link_ok s st \<longleftrightarrow>
     (\<forall>j. st_forward_id st = Some j \<longrightarrow> (\<exists>c. get_cmd j s = Some c \<and> cm_server c = st_server st))"

definition tables_ok :: "fleet \<Rightarrow> bool" where
  "tables_ok s \<longleftrightarrow> queue_ok s \<and> tbl_keyed ch_id (changes s) \<and> (\<forall>ch \<in> set (changes s). ch_id ch < fresh s) \<and>
     tbl_keyed st_id (steps s) \<and>
     (\<forall>st \<in> set (steps s). st_id st < fresh s \<and> st_change st < fresh s \<and> link_ok s st) \<and>
     distinct (map fst (locks s))"

definition others_ok :: "nat \<Rightarrow> fleet \<Rightarrow> bool" where
  "others_ok i s \<longleftrightarrow> (\<forall>ch \<in> set (changes s). ch_id ch \<noteq> i \<longrightarrow> change_ok s ch)"

definition fleet_ok :: "fleet \<Rightarrow> bool" where
  "fleet_ok s \<longleftrightarrow> tables_ok s \<and> (\<forall>ch \<in> set (changes s). change_ok s ch)"

lemma fleet_ok_others: "fleet_ok s \<Longrightarrow> tables_ok s \<and> others_ok i s"
  by (simp add: fleet_ok_def others_ok_def)

lemma settled_mono: "evolve c c' \<Longrightarrow> settled c \<Longrightarrow> settled c'"
  by (auto simp: evolve_def settled_def)

lemma terminal_mono: "evolve c c' \<Longrightarrow> terminal c \<Longrightarrow> terminal c'"
  by (auto simp: evolve_def)

lemma get_cmd_le:
  "rows_le (cmds s) (cmds s') \<Longrightarrow> get_cmd j s = Some c \<Longrightarrow> \<exists>c'. get_cmd j s' = Some c' \<and> evolve c c'"
  by (auto simp: rows_le_def get_cmd_def)

lemma link_ok_mono: "rows_le (cmds s) (cmds s') \<Longrightarrow> link_ok s st \<Longrightarrow> link_ok s' st"
  unfolding link_ok_def by (fastforce dest: get_cmd_le simp: evolve_def)

section \<open>What a change of state must leave to keep the status of a change set true\<close>

text \<open>
  \<open>keeps i s s'\<close>: seen from change set \<open>i\<close>, rows only evolve, its steps keep server and forward
  link, and its locks stay.
\<close>

definition step_view :: "step_row \<Rightarrow> nat \<times> nat \<times> nat option" where
  "step_view st = (st_change st, st_server st, st_forward_id st)"

definition keeps :: "nat \<Rightarrow> fleet \<Rightarrow> fleet \<Rightarrow> bool" where
  "keeps i s s' \<longleftrightarrow> rows_le (cmds s) (cmds s') \<and>
     step_view ` steps_of i s' \<subseteq> step_view ` steps_of i s \<and>
     (\<forall>sid. lock_of sid s = Some i \<longrightarrow> lock_of sid s' = Some i)"

lemma keeps_refl [simp]: "keeps i s s"
  by (simp add: keeps_def)

lemma keeps_trans: "keeps i a b \<Longrightarrow> keeps i b c \<Longrightarrow> keeps i a c"
  unfolding keeps_def by (blast intro: rows_le_trans)

lemma keeps_step:
  assumes "keeps i s s'" and "st' \<in> steps_of i s'"
  shows "\<exists>st \<in> steps_of i s. st_server st = st_server st' \<and> st_forward_id st = st_forward_id st'"
proof -
  have "step_view st' \<in> step_view ` steps_of i s" using assms unfolding keeps_def by blast
  then obtain st where "st \<in> steps_of i s" "step_view st = step_view st'" by auto
  then show ?thesis by (auto simp: step_view_def)
qed

lemma keeps_holds: "keeps i s s' \<Longrightarrow> holds_servers s i \<Longrightarrow> holds_servers s' i"
  unfolding holds_servers_def using keeps_step by (metis keeps_def)

lemma keeps_unlinked: "keeps i s s' \<Longrightarrow> unlinked s i \<Longrightarrow> unlinked s' i"
  unfolding unlinked_def using keeps_step by metis

lemma keeps_forwards:
  assumes k: "keeps i s s'" and all: "forwards_all P s i" and links: "\<forall>st \<in> set (steps s). link_ok s st"
    and mono: "\<And>c c'. evolve c c' \<Longrightarrow> P c \<Longrightarrow> P c'"
  shows "forwards_all P s' i"
  unfolding forwards_all_def
proof (intro ballI allI impI)
  fix st' c'
  assume st': "st' \<in> steps_of i s'" and c': "forward_of st' s' = Some c'"
  from keeps_step [OF k st'] obtain st where st: "st \<in> steps_of i s" "st_forward_id st = st_forward_id st'"
    by blast
  from c' obtain j where j: "st_forward_id st' = Some j" "get_cmd j s' = Some c'"
    by (auto simp: forward_of_def opt_cmd_def split: option.splits)
  from links st j(1) obtain c where c: "get_cmd j s = Some c"
    by (fastforce simp: link_ok_def steps_of_def)
  then have "P c" using all st j(1) by (auto simp: forwards_all_def forward_of_def opt_cmd_def)
  moreover have "evolve c c'"
    using k c j(2) get_cmd_le [of s s' j c] by (auto simp: keeps_def)
  ultimately show "P c'" by (rule mono [rotated])
qed

lemma keeps_status:
  assumes "keeps i s s'" and "\<forall>st \<in> set (steps s). link_ok s st" and "status_ok s i st"
  shows "status_ok s' i st"
  using assms(3) keeps_holds [OF assms(1)] keeps_unlinked [OF assms(1)]
    keeps_forwards [OF assms(1) _ assms(2), of settled] keeps_forwards [OF assms(1) _ assms(2), of terminal]
    settled_mono terminal_mono
  by (cases st) (auto simp: status_ok_def)

lemma keeps_change:
  assumes "keeps (ch_id ch) s s'" and "\<forall>st \<in> set (steps s). link_ok s st" and "change_ok s ch"
  shows "change_ok s' ch"
  using assms keeps_status keeps_unlinked by (auto simp: change_ok_def)

section \<open>Primitive changes of state\<close>

text \<open>The queue's own operations.\<close>

lemma fleet_ok_queue:
  assumes "fleet_ok s" and "queue_next s s'" and "changes s' = changes s" "steps s' = steps s" "locks s' = locks s"
  shows "fleet_ok s'"
proof -
  have q: "queue_ok s'" "rows_le (cmds s) (cmds s')" "fresh s \<le> fresh s'"
    using assms(1,2) by (auto simp: queue_next_def fleet_ok_def tables_ok_def)
  have links: "\<forall>st \<in> set (steps s). link_ok s st" using assms(1) by (simp add: fleet_ok_def tables_ok_def)
  have "keeps i s s'" for i using q(2) assms(4,5) by (simp add: keeps_def steps_of_def lock_of_def)
  then have "\<forall>ch \<in> set (changes s'). change_ok s' ch"
    using keeps_change links assms(1,3) by (metis fleet_ok_def)
  moreover have "tables_ok s'"
    using assms q link_ok_mono [OF q(2)] by (fastforce simp: fleet_ok_def tables_ok_def)
  ultimately show ?thesis by (simp add: fleet_ok_def)
qed

text \<open>A new status for one change set.\<close>

lemma upd_change_fields [simp]:
  "cmds (upd_change i f s) = cmds s" "fresh (upd_change i f s) = fresh s"
  "steps (upd_change i f s) = steps s" "locks (upd_change i f s) = locks s"
  "get_cmd j (upd_change i f s) = get_cmd j s" "lock_of sid (upd_change i f s) = lock_of sid s"
  "steps_of j (upd_change i f s) = steps_of j s"
  by (simp_all add: upd_change_def get_cmd_def lock_of_def steps_of_def)

lemma upd_change_forward [simp]: "forward_of st (upd_change i f s) = forward_of st s"
  by (simp add: forward_of_def opt_cmd_def split: option.split)

lemma upd_change_conditions [simp]:
  "holds_servers (upd_change i f s) j = holds_servers s j" "unlinked (upd_change i f s) j = unlinked s j"
  "forwards_all P (upd_change i f s) j = forwards_all P s j" "link_ok (upd_change i f s) st = link_ok s st"
  by (simp_all add: holds_servers_def unlinked_def forwards_all_def link_ok_def)

lemma upd_change_status [simp]: "status_ok (upd_change i f s) j st = status_ok s j st"
  by (cases st) (simp_all add: status_ok_def)

lemma upd_change_change_ok [simp]: "change_ok (upd_change i f s) ch = change_ok s ch"
  by (simp add: change_ok_def)

lemma tables_ok_upd_change:
  assumes "tables_ok s" and "\<And>c. ch_id (f c) = ch_id c"
  shows "tables_ok (upd_change i f s)"
proof -
  have "map ch_id (changes (upd_change i f s)) = map ch_id (changes s)"
    unfolding upd_change_def by (simp add: map_tbl_upd assms(2))
  moreover have "\<forall>ch \<in> set (changes (upd_change i f s)). ch_id ch < fresh s"
    using assms by (auto simp: upd_change_def ball_tbl_upd tables_ok_def)
  ultimately show ?thesis using assms(1) by (simp add: tables_ok_def tbl_keyed_def)
qed

lemma upd_change_ok:
  assumes "tables_ok s" and "others_ok i s" and "\<And>c. ch_id (f c) = ch_id c"
    and "\<And>ch. ch \<in> set (changes s) \<Longrightarrow> ch_id ch = i \<Longrightarrow> change_ok s (f ch)"
  shows "fleet_ok (upd_change i f s)"
proof -
  have "\<forall>ch \<in> set (changes (upd_change i f s)). change_ok s ch"
    using assms(2,4) by (auto simp: upd_change_def ball_tbl_upd others_ok_def)
  then show ?thesis using tables_ok_upd_change [OF assms(1,3)] by (simp add: fleet_ok_def)
qed

text \<open>Locks: reserving adds only free servers, releasing removes only the own ones.\<close>

lemma map_of_filter_distinct:
  "distinct (map fst xs) \<Longrightarrow> map_of (filter (\<lambda>(k, v). P v) xs) k =
     (case map_of xs k of Some v \<Rightarrow> if P v then Some v else None | None \<Rightarrow> None)"
proof (induction xs)
  case (Cons x xs)
  obtain a b where x: "x = (a, b)" by (cases x)
  have "a \<notin> fst ` set xs" using Cons.prems by (simp add: x)
  then have "map_of xs a = None" by (simp add: map_of_eq_None_iff)
  with Cons show ?case by (auto simp: x split: option.splits)
qed simp

lemma lock_of_release:
  "tables_ok s \<Longrightarrow> lock_of sid (release i s) =
     (case lock_of sid s of Some j \<Rightarrow> if j \<noteq> i then Some j else None | None \<Rightarrow> None)"
  by (simp add: lock_of_def release_def tables_ok_def map_of_filter_distinct)

lemma release_fields [simp]:
  "cmds (release i s) = cmds s" "changes (release i s) = changes s" "steps (release i s) = steps s"
  "fresh (release i s) = fresh s" "get_change j (release i s) = get_change j s"
  "steps_of j (release i s) = steps_of j s" "forward_of st (release i s) = forward_of st s"
  "get_cmd j (release i s) = get_cmd j s"
  by (simp_all add: release_def get_change_def steps_of_def forward_of_def opt_cmd_def get_cmd_def split: option.splits)

lemma tables_ok_release:
  assumes "tables_ok s"
  shows "tables_ok (release i s)"
proof -
  have "distinct (map fst (locks (release i s)))"
    using assms by (simp add: tables_ok_def release_def distinct_map_filter)
  moreover have "link_ok (release i s) = link_ok s" by (simp add: link_ok_def fun_eq_iff)
  ultimately show ?thesis using assms by (simp add: tables_ok_def)
qed

definition lock_free :: "change_status \<Rightarrow> bool" where
  "lock_free st \<longleftrightarrow> st \<in> {ChangeSucceeded, RolledBack, Accepted, Planned, Cancelled}"

lemma status_ok_release:
  "lock_free st \<Longrightarrow> status_ok (release i s) j st = status_ok s j st"
  by (cases st) (auto simp: lock_free_def status_ok_def unlinked_def forwards_all_def)

lemma keeps_release: "tables_ok s \<Longrightarrow> i \<noteq> j \<Longrightarrow> keeps j s (release i s)"
  by (simp add: keeps_def lock_of_release)

lemma release_ok:
  assumes "fleet_ok s"
    and "\<And>ch. ch \<in> set (changes s) \<Longrightarrow> ch_id ch = i \<Longrightarrow> ch_version ch \<noteq> 0 \<Longrightarrow> lock_free (ch_status ch)"
  shows "fleet_ok (release i s)"
proof -
  have t: "tables_ok s" and links: "\<forall>st \<in> set (steps s). link_ok s st"
    using assms(1) by (simp_all add: fleet_ok_def tables_ok_def)
  have "change_ok (release i s) ch" if ch: "ch \<in> set (changes s)" for ch
  proof (cases "ch_id ch = i")
    case False
    then show ?thesis using keeps_change [OF keeps_release [OF t] links] assms(1) ch
      by (auto simp: fleet_ok_def)
  next
    case True
    have "change_ok s ch" using assms(1) ch by (simp add: fleet_ok_def)
    then show ?thesis using status_ok_release [OF assms(2) [OF ch True]]
      by (auto simp: change_ok_def unlinked_def)
  qed
  with tables_ok_release [OF t] show ?thesis by (simp add: fleet_ok_def)
qed


text \<open>Steps rewritten without touching server or forward link.\<close>

lemma steps_rewritten:
  fixes P :: "step_row \<Rightarrow> bool"
  assumes "fleet_ok s" and "\<And>x. st_id (f x) = st_id x" and "\<And>x. step_view (f x) = step_view x"
  defines "s' \<equiv> s\<lparr>steps := tbl_upd P f (steps s)\<rparr>"
  shows "fleet_ok s' \<and> keeps j s s'"
proof -
  have view: "step_view (if P x then f x else x) = step_view x" for x using assms(3) by simp
  have sub: "step_view ` steps_of j s' \<subseteq> step_view ` steps_of j s" for j
  proof
    fix v
    assume "v \<in> step_view ` steps_of j s'"
    then obtain x where x: "x \<in> set (steps s)" "v = step_view (if P x then f x else x)"
        "st_change (if P x then f x else x) = j"
      by (auto simp: steps_of_def s'_def tbl_upd_def)
    then have "st_change x = j" using view [of x] by (simp add: step_view_def)
    with x view show "v \<in> step_view ` steps_of j s" by (auto simp: steps_of_def)
  qed
  have k: "keeps j s s'" for j
    using sub by (simp add: keeps_def s'_def lock_of_def)
  have links: "\<forall>st \<in> set (steps s). link_ok s st" using assms(1) by (simp add: fleet_ok_def tables_ok_def)
  have "change_ok s' ch" if "ch \<in> set (changes s')" for ch
  proof -
    have "change_ok s ch" using that assms(1) by (simp add: s'_def fleet_ok_def)
    then show ?thesis by (rule keeps_change [OF k links])
  qed
  moreover have "tables_ok s'"
  proof -
    have "map st_id (steps s') = map st_id (steps s)"
      unfolding s'_def by (simp add: map_tbl_upd assms(2))
    moreover have "st_id y < fresh s \<and> st_change y < fresh s \<and> link_ok s' y"
      if "x \<in> set (steps s)" "y = (if P x then f x else x)" for x y
    proof -
      have "step_view y = step_view x" "st_id y = st_id x" using that(2) view assms(2) by simp_all
      then show ?thesis using assms(1) that(1)
        by (auto simp: step_view_def fleet_ok_def tables_ok_def link_ok_def s'_def get_cmd_def)
    qed
    ultimately show ?thesis
      using assms(1) unfolding tables_ok_def fleet_ok_def tbl_keyed_def
      by (auto simp: s'_def ball_tbl_upd)
  qed
  ultimately show ?thesis using k by (simp add: fleet_ok_def)
qed

section \<open>The coordinator\<close>

text \<open>
  \<open>advances s s'\<close>: a step of the coordinator that keeps the invariant, changes no status, and
  keeps every change set's view.
\<close>

definition advances :: "fleet \<Rightarrow> fleet \<Rightarrow> bool" where
  "advances s s' \<longleftrightarrow> (fleet_ok s \<longrightarrow> fleet_ok s' \<and> rows_le (cmds s) (cmds s') \<and> fresh s \<le> fresh s' \<and>
     changes s' = changes s \<and> locks s' = locks s \<and> (\<forall>j. keeps j s s'))"

lemma advances_refl [simp]: "advances s s"
  by (simp add: advances_def)

lemma advances_trans: "advances a b \<Longrightarrow> advances b c \<Longrightarrow> advances a c"
  unfolding advances_def by (auto intro: rows_le_trans keeps_trans)

lemma advances_queue:
  assumes "queue_next s s'" and "same_sets s s'"
  shows "advances s s'"
proof -
  have "fleet_ok s \<Longrightarrow> fleet_ok s'"
    using assms by (auto simp: same_sets_def intro: fleet_ok_queue)
  moreover have "fleet_ok s \<Longrightarrow> rows_le (cmds s) (cmds s') \<and> fresh s \<le> fresh s'"
    using assms(1) by (simp add: queue_next_def fleet_ok_def tables_ok_def)
  ultimately show ?thesis
    using assms(2) by (auto simp: advances_def keeps_def same_sets_def steps_of_def lock_of_def)
qed

lemma same_sets_cmds [simp]: "same_sets s (upd_cmd i f s)" "same_sets s (advance_command_dependents i now s)"
  by (simp_all add: same_sets_def upd_cmd_def advance_command_dependents_def)

lemma get_cmd_id: "get_cmd i s = Some c \<Longrightarrow> cm_id c = i"
  unfolding get_cmd_def by (drule tbl_get_SomeD) blast

lemma opt_cmd_get: "opt_cmd i s = Some c \<Longrightarrow> get_cmd (cm_id c) s = Some c"
proof (cases i)
  case (Some j)
  assume "opt_cmd i s = Some c"
  with Some have "get_cmd j s = Some c" by (simp add: opt_cmd_def)
  with get_cmd_id [OF this] show ?thesis by simp
qed (simp add: opt_cmd_def)

lemma opt_cmd_id: "forward_of st s = Some c \<Longrightarrow> get_cmd (cm_id c) s = Some c"
  unfolding forward_of_def by (rule opt_cmd_get)

lemma rollback_cmd_id: "rollback_of st s = Some c \<Longrightarrow> get_cmd (cm_id c) s = Some c"
  unfolding rollback_of_def by (rule opt_cmd_get)

text \<open>Skipping the row just read and dropping its dependents.\<close>

lemma skip_and_drop:
  assumes "get_cmd i s = Some c" and "\<not> terminal c" and "\<And>r. cm_status (f r) = Skipped \<or> cm_status (f r) = Failed \<and> cm_attempts r > 0"
    and "\<And>r. evolve (r\<lparr>cm_status := Waiting\<rparr>) ((f r)\<lparr>cm_status := Waiting\<rparr>)"
    and "cm_status (f c) = Failed \<longrightarrow> released c"
  shows "queue_next s (advance_command_dependents i now (upd_cmd i f s))"
proof -
  have "cm_id (f r) = cm_id r" for r using assms(4) [of r] by (simp add: evolve_def)
  moreover have "evolve c (f c)" using assms(2) assms(4) [of c] by (simp add: evolve_def terminal_def)
  moreover have "released (f c) \<Longrightarrow> released c" using assms(3) [of c] assms(5) by (auto simp: released_def)
  ultimately have "queue_next s (upd_cmd i f s)"
    using assms(1) assms(3) [of c] by (intro upd_cmd_next [of i s c]) auto
  then show ?thesis using advance_command_dependents_next queue_next_trans by blast
qed

lemma stop_one:
  assumes "forward_of st s = Some c" and "unsent c"
  shows "advances s (advance_command_dependents (cm_id c) now (upd_cmd (cm_id c) (stop_row now) s))"
proof (rule advances_queue)
  show "queue_next s (advance_command_dependents (cm_id c) now (upd_cmd (cm_id c) (stop_row now) s))"
    using assms opt_cmd_id [OF assms(1)]
    by (intro skip_and_drop) (auto simp: unsent_def terminal_def stop_row_def evolve_def)
  show "same_sets s (advance_command_dependents (cm_id c) now (upd_cmd (cm_id c) (stop_row now) s))"
    using same_sets_cmds same_sets_trans by blast
qed

lemma stop_unsent_advances: "advances s (stop_unsent sts now s)"
proof (induction sts arbitrary: s)
  case (Cons st sts)
  then show ?case
    by (auto split: option.split intro: advances_trans [OF stop_one])
qed simp

lemma not_unsent_settled: "row_ok n cs c \<Longrightarrow> \<not> unsent c \<Longrightarrow> settled c"
  by (cases "cm_status c") (auto simp: row_ok_def unsent_def settled_def terminal_def)

lemma settled_after:
  assumes "advances s s'" "fleet_ok s" and "st_forward_id st = Some j" "get_cmd j s = Some c" "settled c"
    and "forward_of st s' = Some c'"
  shows "settled c'"
  using assms get_cmd_le [of s s' j c] settled_mono by (auto simp: advances_def forward_of_def opt_cmd_def)

lemma stop_unsent_settled:
  assumes "fleet_ok s" and "\<forall>st \<in> set sts. st \<in> set (steps s)"
  shows "\<forall>st \<in> set sts. \<forall>c. forward_of st (stop_unsent sts now s) = Some c \<longrightarrow> settled c"
  using assms
proof (induction sts arbitrary: s)
  case (Cons st sts)
  define s1 where "s1 = (case forward_of st s of None \<Rightarrow> s | Some c \<Rightarrow> if unsent c
      then advance_command_dependents (cm_id c) now (upd_cmd (cm_id c) (stop_row now) s) else s)"
  have adv: "advances s s1" using stop_one by (auto simp: s1_def split: option.split)
  have eq: "stop_unsent (st # sts) now s = stop_unsent sts now s1"
    by (simp add: s1_def split: option.split)
  have ok1: "fleet_ok s1" using adv Cons.prems(1) by (simp add: advances_def)
  have steps1: "steps s1 = steps s"
    by (auto simp: s1_def upd_cmd_def advance_command_dependents_def split: option.split)
  have tail: "\<forall>st \<in> set sts. \<forall>c. forward_of st (stop_unsent sts now s1) = Some c \<longrightarrow> settled c"
    using Cons.IH [OF ok1] Cons.prems(2) steps1 by simp
  have "settled c'" if c': "forward_of st (stop_unsent sts now s1) = Some c'" for c'
  proof -
    from c' obtain j where j: "st_forward_id st = Some j" by (auto simp: forward_of_def opt_cmd_def split: option.splits)
    have "link_ok s st" using Cons.prems by (simp add: fleet_ok_def tables_ok_def)
    with j obtain c where c: "get_cmd j s = Some c" by (auto simp: link_ok_def)
    have fwd: "forward_of st s = Some c" using c j by (simp add: forward_of_def opt_cmd_def)
    have row: "row_ok (fresh s) (cmds s) c"
      using c Cons.prems(1) by (auto simp: get_cmd_def fleet_ok_def tables_ok_def rows_ok_def dest: tbl_get_SomeD)
    have "\<exists>d. get_cmd j s1 = Some d \<and> settled d"
    proof (cases "unsent c")
      case False
      then show ?thesis using not_unsent_settled [OF row] c fwd by (simp add: s1_def)
    next
      case True
      let ?s = "upd_cmd j (stop_row now) s"
      have id: "cm_id c = j" using c by (rule get_cmd_id)
      have "get_cmd j ?s = Some (stop_row now c)" using c by (intro get_upd_cmd) (simp_all add: stop_row_def)
      moreover have "queue_ok ?s"
      proof -
        have "queue_next s ?s" using True c
          by (intro upd_cmd_next) (auto simp: stop_row_def evolve_def terminal_def unsent_def released_def)
        then show ?thesis using Cons.prems(1) by (simp add: queue_next_def fleet_ok_def tables_ok_def)
      qed
      then have "rows_le (cmds ?s) (cmds s1)"
        using True fwd id advance_command_dependents_next [of ?s j now] by (simp add: s1_def queue_next_def)
      ultimately show ?thesis using get_cmd_le [of ?s s1 j "stop_row now c"] settled_mono
        by (fastforce simp: settled_def terminal_def stop_row_def)
    qed
    with settled_after [OF stop_unsent_advances ok1 j _ _ c'] show ?thesis by blast
  qed
  with tail eq show ?case by simp
qed simp


text \<open>Compensation commands.\<close>

lemma advances_upd_step:
  assumes "\<And>x. st_id (f x) = st_id x" and "\<And>x. step_view (f x) = step_view x"
  shows "advances s (upd_step i f s)"
  using steps_rewritten [of s f "\<lambda>x. st_id x = i"] assms by (simp add: advances_def upd_step_def)

lemma created_advances: "created sid s s' c \<Longrightarrow> advances s s'"
  unfolding created_def by (rule advances_queue) (auto simp: queue_next_def)

lemma prior_upd_step: "prior (upd_step i f s) d = prior s d"
  by (simp add: prior_def upd_step_def get_cmd_def split: option.split)

definition compensation ::
  "step_row \<Rightarrow> payload \<Rightarrow> string option \<Rightarrow> time \<Rightarrow> command option \<Rightarrow> fleet \<Rightarrow> fleet_error + (fleet \<times> command)" where
  "compensation st p skip now previous s =
     (case rollback_of st s of
        None \<Rightarrow>
          map_sum id (\<lambda>(s', c). (upd_step (st_id st) (\<lambda>x. x\<lparr>st_rollback_id := Some (cm_id c)\<rparr>) s', c))
            (case skip of
               Some err \<Rightarrow> create_skipped_command (st_server st) p now err previous s
             | None \<Rightarrow> create_command_model (st_server st) p now previous s)
      | Some c \<Rightarrow>
          Inr (case skip of
                 None \<Rightarrow> (s, c)
               | Some err \<Rightarrow>
                   if unsent c then (upd_cmd (cm_id c) (skip_rollback err now) s, skip_rollback err now c)
                   else (s, c)))"

lemma compensation_advances:
  assumes run: "compensation st p skip now d s = Inr (s', c)" and ok: "fleet_ok s" and pr: "prior s d"
  shows "advances s s' \<and> prior s' (Some c)"
proof (cases "rollback_of st s")
  case None
  have q: "queue_ok s" using ok by (simp add: fleet_ok_def tables_ok_def)
  from run None obtain s0 where s': "s' = upd_step (st_id st) (\<lambda>x. x\<lparr>st_rollback_id := Some (cm_id c)\<rparr>) s0"
      and new: "created (st_server st) s s0 c"
    using create_skipped_command_next [OF _ q pr] create_command_model_next [OF _ q pr]
    by (cases skip) (auto simp: compensation_def map_sum_eq_Inr split: sum.splits)
  have "advances s0 s'" unfolding s' by (rule advances_upd_step) (simp_all add: step_view_def)
  moreover have "prior s0 (Some c)" using new unfolding created_def prior_def by auto
  then have "prior s' (Some c)" by (simp add: s' prior_upd_step)
  ultimately show ?thesis using created_advances [OF new] advances_trans by blast
next
  case (Some r)
  have get: "get_cmd (cm_id r) s = Some r" using Some by (rule rollback_cmd_id)
  show ?thesis
  proof (cases "\<exists>err. skip = Some err \<and> unsent r")
    case False
    then have "s' = s" "c = r" using run Some by (auto simp: compensation_def split: option.splits if_splits)
    then show ?thesis using get by (simp add: prior_def)
  next
    case True
    then obtain err where s': "s' = upd_cmd (cm_id r) (skip_rollback err now) s" "c = skip_rollback err now r"
      and un: "unsent r" using run Some by (auto simp: compensation_def)
    have "queue_next s s'" unfolding s' using get un
      by (intro upd_cmd_next) (auto simp: skip_rollback_def evolve_def terminal_def unsent_def released_def)
    then have "advances s s'" by (rule advances_queue) (simp add: s')
    moreover have "get_cmd (cm_id r) s' = Some c"
      unfolding s' using get by (intro get_upd_cmd) (simp_all add: skip_rollback_def)
    ultimately show ?thesis by (simp add: prior_def s'(2) skip_rollback_def)
  qed
qed

lemma queue_rollbacks_advances:
  "queue_rollbacks sts skip now d s = Inr (s', ids, m) \<Longrightarrow> fleet_ok s \<Longrightarrow> prior s d \<Longrightarrow> advances s s'"
proof (induction sts arbitrary: d s s' ids m)
  case (Cons st sts)
  show ?case
  proof (cases "attempted (forward_of st s)")
    case False
    with Cons show ?thesis by auto
  next
    case True
    show ?thesis
    proof (cases "st_rollback st")
      case None
      with True Cons show ?thesis by (cases "queue_rollbacks sts skip now d s") auto
    next
      case (Some p)
      then have eq: "queue_rollbacks (st # sts) skip now d s =
          (case compensation st p skip now d s of Inl e \<Rightarrow> Inl e
           | Inr (s', c) \<Rightarrow> map_sum id (\<lambda>(s'', ids, missing). (s'', cm_id c # ids, missing))
               (queue_rollbacks sts skip now (Some c) s'))"
        using True by (simp add: compensation_def)
      from Cons.prems(1) obtain s1 c ids' where one: "compensation st p skip now d s = Inr (s1, c)"
          and rest: "queue_rollbacks sts skip now (Some c) s1 = Inr (s', ids', m)"
        unfolding eq by (auto simp: map_sum_eq_Inr split: sum.splits)
      from compensation_advances [OF one Cons.prems(2,3)]
      have s1: "advances s s1" "prior s1 (Some c)" by auto
      then have "fleet_ok s1" using Cons.prems(2) by (simp add: advances_def)
      from Cons.IH [OF rest this s1(2)] s1(1) show ?thesis using advances_trans by blast
    qed
  qed
qed simp

section \<open>Changing the status of a change set\<close>

definition next_ok :: "fleet \<Rightarrow> fleet \<Rightarrow> bool" where
  "next_ok s s' \<longleftrightarrow> (fleet_ok s \<longrightarrow> fleet_ok s' \<and> rows_le (cmds s) (cmds s') \<and> fresh s \<le> fresh s')"

lemma next_ok_refl [simp]: "next_ok s s"
  by (simp add: next_ok_def)

lemma next_ok_trans: "next_ok a b \<Longrightarrow> next_ok b c \<Longrightarrow> next_ok a c"
  unfolding next_ok_def by (auto intro: rows_le_trans)

lemma advances_next: "advances s s' \<Longrightarrow> next_ok s s'"
  by (simp add: advances_def next_ok_def)

lemma get_change_unique:
  "fleet_ok s \<Longrightarrow> ch \<in> set (changes s) \<Longrightarrow> ch_id ch = i \<Longrightarrow> get_change i s = Some ch"
  using tbl_get_keyed [of ch_id "changes s" ch] by (simp add: get_change_def fleet_ok_def tables_ok_def)

lemma get_change_in: "get_change i s = Some ch \<Longrightarrow> ch \<in> set (changes s) \<and> ch_id ch = i"
  unfolding get_change_def by (rule tbl_get_SomeD)

lemma restatus_ok:
  assumes "fleet_ok s" and "\<And>c. ch_id (f c) = ch_id c \<and> ch_version (f c) = ch_version c \<and> ch_status (f c) \<noteq> Planned"
    and "\<And>ch. get_change i s = Some ch \<Longrightarrow> ch_version ch \<noteq> 0 \<Longrightarrow> status_ok s i (ch_status (f ch))"
  shows "fleet_ok (upd_change i f s)"
proof (rule upd_change_ok)
  fix ch
  assume ch: "ch \<in> set (changes s)" "ch_id ch = i"
  then have "get_change i s = Some ch" using assms(1) get_change_unique by blast
  with assms(2,3) ch(2) show "change_ok s (f ch)" by (auto simp: change_ok_def)
qed (use assms(1,2) fleet_ok_others in blast)+

lemma restatus_next:
  assumes "\<And>c. ch_id (f c) = ch_id c \<and> ch_version (f c) = ch_version c \<and> ch_status (f c) \<noteq> Planned"
    and "\<And>ch. fleet_ok s \<Longrightarrow> get_change i s = Some ch \<Longrightarrow> ch_version ch \<noteq> 0 \<Longrightarrow> status_ok s i (ch_status (f ch))"
  shows "next_ok s (upd_change i f s)"
  using restatus_ok [OF _ assms] by (simp add: next_ok_def)

lemma touch_next: "next_ok s (touch i now s)"
proof -
  have "fleet_ok s \<Longrightarrow> fleet_ok (touch i now s)"
    unfolding touch_def
    by (rule upd_change_ok) (auto simp: fleet_ok_def others_ok_def change_ok_def)
  then show ?thesis by (simp add: next_ok_def touch_def)
qed

lemma finish_next:
  assumes "\<And>ch. fleet_ok s \<Longrightarrow> get_change i s = Some ch \<Longrightarrow> ch_version ch \<noteq> 0 \<Longrightarrow> forwards_all terminal s i" and "st \<in> {ChangeSucceeded, RolledBack, Accepted}"
    and "\<And>c. ch_id (f c) = ch_id c \<and> ch_version (f c) = ch_version c \<and> ch_status (f c) = st"
  shows "next_ok s (release i (upd_change i f s))"
proof -
  have "fleet_ok (release i (upd_change i f s))" if "fleet_ok s"
  proof (rule release_ok)
    show "fleet_ok (upd_change i f s)"
      using assms that by (intro restatus_ok [OF that]) (auto simp: status_ok_def)
    have "\<forall>ch \<in> set (changes (upd_change i f s)). ch_id ch = i \<longrightarrow> ch_status ch = st"
      unfolding upd_change_def by (simp add: ball_tbl_upd assms(3))
    then show "ch \<in> set (changes (upd_change i f s)) \<Longrightarrow> ch_id ch = i \<Longrightarrow> lock_free (ch_status ch)" for ch
      using assms(2) by (auto simp: lock_free_def)
  qed
  then show ?thesis by (simp add: next_ok_def)
qed

lemma status_held:
  assumes "fleet_ok s" and "get_change i s = Some ch" and "ch_version ch \<noteq> 0"
  shows "status_ok s i (ch_status ch)"
  using assms get_change_in [OF assms(2)] by (auto simp: fleet_ok_def change_ok_def)

lemma set_change_steps: "set (change_steps i s) = steps_of i s"
  by (simp add: change_steps_def steps_of_def)

lemma settle_next:
  assumes "forwards_all terminal s i" and "get_change i s = Some ch" and "ch_status ch = RollbackQueued"
  shows "next_ok s (settle_rollback i rbs missing s)"
proof -
  have held: "fleet_ok s \<Longrightarrow> ch_version ch \<noteq> 0 \<Longrightarrow> holds_servers s i"
    using status_held [of s i ch] assms(2,3) by (simp add: status_ok_def)
  have "next_ok s (set_status i st s)" if "st = RollbackFailed \<or> st = RollbackIncomplete" for st
    unfolding set_status_def using that held assms by (intro restatus_next) (auto simp: status_ok_def)
  moreover have "next_ok s (release i (set_status i RolledBack s))"
    unfolding set_status_def using assms(1) by (intro finish_next) simp_all
  ultimately show ?thesis by (simp add: settle_rollback_def)
qed

lemma stop_unsent_same: "same_sets s (stop_unsent sts now s)"
proof (induction sts arbitrary: s)
  case (Cons st sts)
  have "same_sets s (advance_command_dependents i now (upd_cmd i (stop_row now) s))" for i
    using same_sets_cmds same_sets_trans by blast
  with Cons show ?case by (auto split: option.split intro: same_sets_trans)
qed simp

lemma advance_rollback_next:
  assumes run: "advance_rollback i now s = Inr s'" and ch: "get_change i s = Some ch" "ch_status ch = RollbackQueued"
  shows "next_ok s s'"
proof -
  define sts where "sts = change_steps i s"
  define s1 where "s1 = stop_unsent sts now s"
  have adv1: "advances s s1" unfolding s1_def by (rule stop_unsent_advances)
  show ?thesis
  proof (cases "list_ex (\<lambda>st. in_flight (forward_of st s1)) sts")
    case True
    then have "s' = s1" using run by (simp add: advance_rollback_def Let_def sts_def [symmetric] s1_def [symmetric])
    then show ?thesis using adv1 advances_next by simp
  next
    case idle: False
    from run obtain skip s2 ids m where q: "queue_rollbacks (rev sts) skip now None s1 = Inr (s2, ids, m)"
        and s': "s' = settle_rollback i (List.map_filter (\<lambda>j. get_cmd j s2) ids) m s2"
      using idle by (auto simp: advance_rollback_def Let_def sts_def [symmetric] s1_def [symmetric] split: sum.splits)
    have "next_ok s s'" if ok: "fleet_ok s"
    proof -
      have ok1: "fleet_ok s1" using adv1 ok by (simp add: advances_def)
      have steps1: "steps s1 = steps s" using stop_unsent_same by (simp add: s1_def same_sets_def)
      have "forwards_all terminal s1 i"
        unfolding forwards_all_def
      proof (intro ballI allI impI)
        fix st c
        assume st: "st \<in> steps_of i s1" and c: "forward_of st s1 = Some c"
        then have mem: "st \<in> set sts" using steps1 by (simp add: sts_def set_change_steps steps_of_def)
        have "\<forall>x \<in> set sts. x \<in> set (steps s)" by (simp add: sts_def set_change_steps steps_of_def)
        then have "settled c" using stop_unsent_settled [OF ok] mem c by (simp add: s1_def)
        moreover have "\<not> in_flight (Some c)" using idle mem c by (auto simp: list_ex_iff)
        ultimately show "terminal c" by (auto simp: settled_def in_flight_def)
      qed
      moreover have adv2: "advances s1 s2"
        using q ok1 by (rule queue_rollbacks_advances) (simp add: prior_def)
      ultimately have "forwards_all terminal s2 i"
        using ok1 terminal_mono keeps_forwards [of i s1 s2 terminal]
        by (auto simp: advances_def fleet_ok_def tables_ok_def)
      moreover have "changes s2 = changes s" using adv1 adv2 ok ok1 by (simp add: advances_def)
      then have "get_change i s2 = Some ch" using ch(1) by (simp add: get_change_def)
      ultimately have "next_ok s2 s'" unfolding s' using ch(2) by (rule settle_next)
      then show ?thesis using adv1 adv2 advances_next next_ok_trans by blast
    qed
    then show ?thesis by (simp add: next_ok_def)
  qed
qed

lemma advance_forward_next:
  assumes "get_change (ch_id ch) s = Some ch"
  shows "next_ok s (advance_forward ch now s)"
proof (cases "ch_status ch = Dispatched")
  case False
  then show ?thesis by (simp add: advance_forward_def Let_def)
next
  case True
  define i where "i = ch_id ch"
  define sts where "sts = change_steps i s"
  have held: "fleet_ok s \<Longrightarrow> ch_version ch \<noteq> 0 \<Longrightarrow> holds_servers s i"
    using status_held [OF _ assms] True by (simp add: status_ok_def i_def)
  show ?thesis
  proof (cases "List.find failed_or_skipped (forwards sts s)")
    case (Some bad)
    define s1 where "s1 = stop_unsent sts now s"
    have adv: "advances s s1" unfolding s1_def by (rule stop_unsent_advances)
    define f :: "change_row \<Rightarrow> change_row" where "f = (\<lambda>c. c\<lparr>ch_status := (if ch_rollback_on_failure ch then RollbackQueued else ChangeFailed),
        ch_rollback_reason := ''Forward command '' @ nat_str (cm_id bad) @ '' failed''\<rparr>)"
    have eq: "advance_forward ch now s = upd_change i f s1"
      using True Some by (simp add: advance_forward_def Let_def i_def sts_def s1_def f_def)
    have "next_ok s (upd_change i f s1)" if ok: "fleet_ok s"
    proof -
      have ok1: "fleet_ok s1" and keep: "keeps i s s1" and same: "steps s1 = steps s" "changes s1 = changes s"
        using adv ok stop_unsent_same [of s sts now] by (simp_all add: advances_def s1_def same_sets_def)
      have "\<forall>x \<in> set sts. x \<in> set (steps s)" by (simp add: sts_def set_change_steps steps_of_def)
      then have "\<forall>st \<in> set sts. \<forall>c. forward_of st s1 = Some c \<longrightarrow> settled c"
        unfolding s1_def by (rule stop_unsent_settled [OF ok])
      moreover have "steps_of i s1 = set sts" using same(1) by (simp add: sts_def set_change_steps steps_of_def)
      ultimately have "forwards_all settled s1 i" by (simp add: forwards_all_def)
      moreover have "ch_version ch \<noteq> 0 \<Longrightarrow> holds_servers s1 i" using keeps_holds [OF keep] held ok by blast
      moreover have "get_change i s1 = Some ch" using assms same(2) by (simp add: get_change_def i_def)
      ultimately have "next_ok s1 (upd_change i f s1)"
        by (intro restatus_next) (auto simp: f_def status_ok_def)
      then show ?thesis using advances_next [OF adv] next_ok_trans by blast
    qed
    then show ?thesis unfolding eq by (simp add: next_ok_def)
  next
    case None
    show ?thesis
    proof (cases "list_all (\<lambda>c. cm_status c = Succeeded) (forwards sts s)")
      case False
      then show ?thesis using True None by (simp add: advance_forward_def Let_def i_def sts_def)
    next
      case all_done: True
      have "forwards_all terminal s i"
        unfolding forwards_all_def
      proof (intro ballI allI impI)
        fix st c
        assume "st \<in> steps_of i s" "forward_of st s = Some c"
        then have "c \<in> set (forwards sts s)"
          by (force simp: forwards_def sts_def set_change_steps map_filter_def)
        with all_done show "terminal c" by (simp add: list_all_iff terminal_def)
      qed
      then have "next_ok s (release i (upd_change i (\<lambda>c. c\<lparr>ch_status := ChangeSucceeded\<rparr>) s))"
        by (intro finish_next) simp_all
      then show ?thesis
        using True None all_done by (simp add: advance_forward_def Let_def i_def sts_def set_status_def)
    qed
  qed
qed

lemma advance_next: "advance i now s = Inr s' \<Longrightarrow> next_ok s s'"
proof (cases "get_change i s")
  case None
  then show "advance i now s = Inr s' \<Longrightarrow> ?thesis" by (simp add: advance_def)
next
  case (Some ch)
  assume run: "advance i now s = Inr s'"
  have id: "ch_id ch = i" using get_change_in [OF Some] by simp
  define s1 where "s1 = advance_forward ch now s"
  have one: "next_ok s s1" unfolding s1_def using Some id by (intro advance_forward_next) simp
  obtain s2 where s2: "(case get_change i s1 of
        Some ch' \<Rightarrow> if ch_status ch' = RollbackQueued then advance_rollback i now s1 else Inr s1
      | None \<Rightarrow> Inr s1) = Inr s2" and s': "s' = touch i now s2"
    using run Some by (auto simp: advance_def s1_def [symmetric] map_sum_eq_Inr)
  have "next_ok s1 s2"
    using s2 advance_rollback_next by (auto split: option.splits if_splits)
  then show ?thesis unfolding s' using one touch_next next_ok_trans by blast
qed

lemma advance_after_result_next: "advance_after_result c now s = Inr s' \<Longrightarrow> next_ok s s'"
  by (auto simp: advance_after_result_def split: option.splits if_splits intro: advance_next)


section \<open>Operator requests\<close>

lemma add_lock_ok:
  fixes i :: nat
  assumes "fleet_ok s" and "lock_of sid s = None"
  defines "s' \<equiv> s\<lparr>locks := locks s @ [(sid, i)]\<rparr>"
  shows "fleet_ok s' \<and> (\<forall>j. keeps j s s') \<and> lock_of sid s' = Some i"
proof -
  have grow: "lock_of k s' = (if k = sid then Some i else lock_of k s)" for k
    using assms(2) by (auto simp: lock_of_def s'_def map_add_def split: option.split)
  have k: "keeps j s s'" for j
  proof -
    have "lock_of n s = Some j \<Longrightarrow> lock_of n s' = Some j" for n using assms(2) by (auto simp: grow)
    then show ?thesis by (simp add: keeps_def) (simp add: s'_def steps_of_def)
  qed
  have links: "\<forall>st \<in> set (steps s). link_ok s st" using assms(1) by (simp add: fleet_ok_def tables_ok_def)
  have "change_ok s' ch" if "ch \<in> set (changes s')" for ch
  proof -
    have "change_ok s ch" using that assms(1) by (simp add: s'_def fleet_ok_def)
    then show ?thesis by (rule keeps_change [OF k links])
  qed
  moreover have "tables_ok s'"
    using assms(1,2) by (auto simp: s'_def tables_ok_def fleet_ok_def lock_of_def map_of_eq_None_iff
        link_ok_def get_cmd_def)
  ultimately show ?thesis using k grow by (auto simp: fleet_ok_def)
qed

definition reserved :: "nat list \<Rightarrow> nat \<Rightarrow> fleet \<Rightarrow> fleet \<Rightarrow> bool" where
  "reserved sids i s s' \<longleftrightarrow> fleet_ok s' \<and> cmds s' = cmds s \<and> changes s' = changes s \<and> steps s' = steps s \<and>
     fresh s' = fresh s \<and> (\<forall>k j. lock_of k s = Some j \<longrightarrow> lock_of k s' = Some j) \<and>
     (\<forall>k \<in> set sids. lock_of k s' = Some i)"

lemma reserve_servers_ok: "reserve_servers sids i s = Inr s' \<Longrightarrow> fleet_ok s \<Longrightarrow> reserved sids i s s'"
proof (induction sids arbitrary: s)
  case Nil
  then show ?case by (simp add: reserved_def)
next
  case (Cons sid sids)
  show ?case
  proof (cases "lock_of sid s")
    case None
    define s1 where "s1 = s\<lparr>locks := locks s @ [(sid, i)]\<rparr>"
    have s1: "fleet_ok s1" "\<forall>j. keeps j s s1" "lock_of sid s1 = Some i"
      using add_lock_ok [OF Cons.prems(2) None] by (simp_all add: s1_def)
    have "reserved sids i s1 s'"
      using Cons.IH [OF _ s1(1)] Cons.prems(1) None by (simp add: s1_def split: if_splits)
    with s1 show ?thesis by (simp add: reserved_def keeps_def) (auto simp: s1_def)
  next
    case (Some j)
    with Cons show ?thesis by (auto simp: reserved_def split: if_splits)
  qed
qed

lemma reserve_ok:
  assumes "reserve i sts s = Inr s'" and "fleet_ok s"
  shows "reserved (map st_server sts) i s s'"
proof -
  have "reserve_servers (sort (remdups (map st_server sts))) i s = Inr s'"
    using assms(1) by (simp add: reserve_def split: if_splits)
  from reserve_servers_ok [OF this assms(2)] show ?thesis by (simp add: reserved_def)
qed

lemma reserved_holds:
  "reserved (map st_server (change_steps i s)) i s s' \<Longrightarrow> holds_servers s' i"
  using set_change_steps [of i s] by (auto simp: reserved_def holds_servers_def steps_of_def)

lemma reserved_next: "reserved sids i s s' \<Longrightarrow> next_ok s s'"
  by (simp add: reserved_def next_ok_def)

text \<open>Dispatching links the steps of one change set; the others are not disturbed.\<close>

definition steps_known :: "nat \<Rightarrow> step_row list \<Rightarrow> fleet \<Rightarrow> bool" where
  "steps_known i sts s \<longleftrightarrow>
     (\<forall>st \<in> set sts. \<forall>x \<in> set (steps s). st_id x = st_id st \<longrightarrow> st_server x = st_server st \<and> st_change x = i)"

definition places :: "fleet \<Rightarrow> (nat \<times> nat) set" where
  "places s = (\<lambda>x. (st_change x, st_server x)) ` set (steps s)"

definition linking :: "nat \<Rightarrow> fleet \<Rightarrow> bool" where
  "linking i s \<longleftrightarrow> tables_ok s \<and> others_ok i s"

lemma link_step_ok:
  assumes "linking i s" and "created sid s s0 c"
    and "\<forall>x \<in> set (steps s). st_id x = k \<longrightarrow> st_server x = sid \<and> st_change x = i"
  defines "s1 \<equiv> upd_step k (\<lambda>x. x\<lparr>st_forward_id := Some (cm_id c)\<rparr>) s0"
  shows "linking i s1 \<and> rows_le (cmds s) (cmds s1) \<and> fresh s \<le> fresh s1 \<and> prior s1 (Some c) \<and>
    changes s1 = changes s \<and> locks s1 = locks s \<and> places s1 = places s"
proof -
  let ?f = "\<lambda>x. x\<lparr>st_forward_id := Some (cm_id c)\<rparr>"
  have new: "queue_ok s0" "rows_le (cmds s) (cmds s0)" "fresh s0 = Suc (fresh s)"
      "get_cmd (cm_id c) s0 = Some c" "cm_server c = sid" "steps s0 = steps s" "changes s0 = changes s" "locks s0 = locks s"
    using assms(2) unfolding created_def same_sets_def by auto
  have fields: "cmds s1 = cmds s0" "fresh s1 = fresh s0" "changes s1 = changes s" "locks s1 = locks s"
      "steps s1 = tbl_upd (\<lambda>x. st_id x = k) ?f (steps s)"
    using new by (simp_all add: s1_def upd_step_def)
  have t: "tables_ok s" and o: "others_ok i s" using assms(1) by (simp_all add: linking_def)
  have links: "\<forall>st \<in> set (steps s). link_ok s st" using t by (simp add: tables_ok_def)
  have le: "rows_le (cmds s) (cmds s1)" using new(2) by (simp add: fields)
  have "link_ok s1 (?f x)" if "x \<in> set (steps s)" "st_id x = k" for x
    using that assms(3) new(4,5) by (auto simp: link_ok_def get_cmd_def fields)
  then have "\<forall>st \<in> set (steps s1). st_id st < fresh s1 \<and> st_change st < fresh s1 \<and> link_ok s1 st"
    using t new(3) links link_ok_mono [OF le]
    unfolding fields ball_tbl_upd by (auto simp: tables_ok_def less_Suc_eq)
  moreover have "map st_id (steps s1) = map st_id (steps s)" by (simp add: fields map_tbl_upd)
  then have "tbl_keyed st_id (steps s1)" using t by (simp only: tables_ok_def tbl_keyed_def)
  ultimately have tables: "tables_ok s1"
    using t new by (auto simp: tables_ok_def fields)
  have "keeps j s s1" if "j \<noteq> i" for j
  proof -
    have "steps_of j s1 \<subseteq> steps_of j s"
      using that assms(3) by (auto simp: steps_of_def fields tbl_upd_def split: if_splits)
    then show ?thesis using le by (auto simp: keeps_def lock_of_def fields)
  qed
  then have "others_ok i s1"
    using o keeps_change [OF _ links] unfolding others_ok_def fields by blast
  moreover have "places s1 = places s"
    unfolding places_def fields tbl_upd_def set_map image_image by (rule image_cong) simp_all
  moreover have "prior s1 (Some c)" using new(4) by (simp add: prior_def get_cmd_def fields)
  ultimately show ?thesis using tables le new(3) fields by (simp add: linking_def)
qed

lemma dispatch_steps_ok:
  "dispatch_steps sts now d s = Inr (s', cs) \<Longrightarrow> linking i s \<Longrightarrow> steps_known i sts s \<Longrightarrow> prior s d \<Longrightarrow>
   linking i s' \<and> rows_le (cmds s) (cmds s') \<and> fresh s \<le> fresh s' \<and> changes s' = changes s \<and>
   locks s' = locks s \<and> places s' = places s"
proof (induction sts arbitrary: d s cs)
  case (Cons st sts)
  have q: "queue_ok s" using Cons.prems(2) by (simp add: linking_def tables_ok_def)
  from Cons.prems(1) obtain s0 c cs' where one: "create_command_model (st_server st) (st_forward st) now d s = Inr (s0, c)"
      and rest: "dispatch_steps sts now (Some c) (upd_step (st_id st) (\<lambda>x. x\<lparr>st_forward_id := Some (cm_id c)\<rparr>) s0) = Inr (s', cs')"
    by (auto simp: map_sum_eq_Inr split: sum.splits)
  define s1 where "s1 = upd_step (st_id st) (\<lambda>x. x\<lparr>st_forward_id := Some (cm_id c)\<rparr>) s0"
  have new: "created (st_server st) s s0 c" using one q Cons.prems(4) by (rule create_command_model_next)
  have "\<forall>x \<in> set (steps s). st_id x = st_id st \<longrightarrow> st_server x = st_server st \<and> st_change x = i"
    using Cons.prems(3) by (simp add: steps_known_def)
  note s1 = link_step_ok [OF Cons.prems(2) new this, folded s1_def]
  have "steps s1 = tbl_upd (\<lambda>x. st_id x = st_id st) (\<lambda>x. x\<lparr>st_forward_id := Some (cm_id c)\<rparr>) (steps s)"
    using new by (simp add: s1_def upd_step_def created_def same_sets_def)
  then have "steps_known i sts s1"
    using Cons.prems(3) unfolding steps_known_def by (simp add: ball_tbl_upd) metis
  then have "linking i s' \<and> rows_le (cmds s1) (cmds s') \<and> fresh s1 \<le> fresh s' \<and> changes s' = changes s1 \<and>
      locks s' = locks s1 \<and> places s' = places s1"
    using Cons.IH [OF rest [folded s1_def]] s1 by blast
  then show ?case using s1 rows_le_trans by (metis order_trans)
qed simp

lemma dispatch_next: "dispatch i now s = Inr (s', cs) \<Longrightarrow> next_ok s s'"
proof -
  assume run: "dispatch i now s = Inr (s', cs)"
  from run obtain ch where ch: "get_change i s = Some ch" by (auto simp: dispatch_def split: option.splits)
  show ?thesis
  proof (cases "ch_status ch = Planned")
    case False
    then have "s' = s" using run ch by (auto simp: dispatch_def split: if_splits)
    then show ?thesis by simp
  next
    case True
    define sts where "sts = change_steps i s"
    obtain s1 s2 where s1: "reserve i sts s = Inr s1" and s2: "dispatch_steps sts now None s1 = Inr (s2, cs)"
        and s': "s' = touch i now (set_status i Dispatched s2)"
      using run ch True by (auto simp: dispatch_def Let_def sts_def split: if_splits sum.splits)
    have "next_ok s s'" if ok: "fleet_ok s"
    proof -
      have res: "reserved (map st_server sts) i s s1" using s1 ok by (rule reserve_ok)
      then have ok1: "fleet_ok s1" and steps1: "steps s1 = steps s" by (simp_all add: reserved_def)
      have holds: "holds_servers s1 i" using res reserved_holds by (simp add: sts_def)
      have keyed: "tbl_keyed st_id (steps s)" using ok by (simp add: fleet_ok_def tables_ok_def)
      have "steps_known i sts s1"
        unfolding steps_known_def
      proof (intro ballI impI)
        fix st x
        assume "st \<in> set sts" "x \<in> set (steps s1)" "st_id x = st_id st"
        then have st: "st \<in> set (steps s)" "st_change st = i" "x \<in> set (steps s)" "st_id x = st_id st"
          using steps1 by (simp_all add: sts_def set_change_steps steps_of_def)
        have "x = st" using tbl_get_keyed [OF keyed st(1)] tbl_get_keyed [OF keyed st(3)] st(4) by simp
        then show "st_server x = st_server st \<and> st_change x = i" using st(2) by simp
      qed
      with s2 have two: "linking i s2 \<and> rows_le (cmds s1) (cmds s2) \<and> fresh s1 \<le> fresh s2 \<and>
          changes s2 = changes s1 \<and> locks s2 = locks s1 \<and> places s2 = places s1"
        using fleet_ok_others [OF ok1] by (intro dispatch_steps_ok) (auto simp: linking_def prior_def)
      have "holds_servers s2 i"
        unfolding holds_servers_def
      proof
        fix st
        assume "st \<in> steps_of i s2"
        then have "(i, st_server st) \<in> places s2" by (force simp: places_def steps_of_def)
        then obtain st1 where "st1 \<in> steps_of i s1" "st_server st1 = st_server st"
          using two by (auto simp: places_def steps_of_def)
        with holds two show "lock_of (st_server st) s2 = Some i"
          by (auto simp: holds_servers_def lock_of_def)
      qed
      then have "fleet_ok (set_status i Dispatched s2)"
        unfolding set_status_def using two
        by (intro upd_change_ok) (auto simp: linking_def change_ok_def status_ok_def)
      then have "next_ok s (set_status i Dispatched s2)"
        using two res by (auto simp: next_ok_def reserved_def set_status_def)
      then show ?thesis unfolding s' using touch_next next_ok_trans by blast
    qed
    then show ?thesis by (simp add: next_ok_def)
  qed
qed


text \<open>Rolling back and accepting.\<close>

lemma rewritten_next:
  assumes "\<And>x. st_id (f x) = st_id x" and "\<And>x. step_view (f x) = step_view x"
  shows "advances s (s\<lparr>steps := tbl_upd P f (steps s)\<rparr>)"
  using steps_rewritten [of s f P] assms by (simp add: advances_def)

lemma start_rollback_next:
  assumes run: "start_rollback ch reason now s = Inr s'" and ch: "get_change (ch_id ch) s = Some ch"
  shows "next_ok s s'"
proof -
  define i where "i = ch_id ch"
  define sts where "sts = change_steps i s"
  obtain s1 where s1: "reserve i sts s = Inr s1"
    using run by (auto simp: start_rollback_def Let_def i_def sts_def split: sum.splits)
  define s2 where "s2 = (if ch_status ch = RollbackFailed
    then s1\<lparr>steps := tbl_upd (\<lambda>st. st_change st = i) (archive_failed s1) (steps s1)\<rparr> else s1)"
  define f :: "change_row \<Rightarrow> change_row" where "f = (\<lambda>c. c\<lparr>ch_status := RollbackQueued,
     ch_rollback_reason := (if ch_rollback_reason c = [] then reason else ch_rollback_reason c)\<rparr>)"
  have adv: "advance i now (upd_change i f s2) = Inr s'"
    using run s1 unfolding s2_def f_def
    by (auto simp: start_rollback_def Let_def i_def sts_def split: sum.splits if_splits)
  have "advances s1 s2"
  proof -
    have "st_id (archive_failed s1 x) = st_id x \<and> step_view (archive_failed s1 x) = step_view x" for x
      by (simp add: archive_failed_def step_view_def split: option.split)
    then show ?thesis using rewritten_next [of "archive_failed s1" s1] by (simp add: s2_def)
  qed
  moreover have "fleet_ok s \<Longrightarrow> reserved (map st_server sts) i s s1"
    using s1 by (rule reserve_ok)
  ultimately have "next_ok s (upd_change i f s2)"
  proof -
    assume a: "advances s1 s2" and res: "fleet_ok s \<Longrightarrow> reserved (map st_server sts) i s s1"
    have "next_ok s (upd_change i f s2)" if ok: "fleet_ok s"
    proof -
      have ok1: "fleet_ok s1" and holds: "holds_servers s1 i"
        using res [OF ok] reserved_holds by (simp_all add: reserved_def sts_def)
      have "holds_servers s2 i" using keeps_holds [OF _ holds] a ok1 by (simp add: advances_def)
      then have "next_ok s2 (upd_change i f s2)"
        by (intro restatus_next) (simp_all add: f_def status_ok_def)
      then show ?thesis
        using reserved_next [OF res [OF ok]] advances_next [OF a] next_ok_trans by blast
    qed
    then show ?thesis by (simp add: next_ok_def)
  qed
  then show ?thesis using advance_next [OF adv] next_ok_trans by blast
qed

lemma rollback_next: "rollback i reason now s = Inr (s', ids) \<Longrightarrow> next_ok s s'"
proof -
  assume run: "rollback i reason now s = Inr (s', ids)"
  then obtain ch where ch: "get_change i s = Some ch" by (auto simp: rollback_def split: option.splits)
  have id: "ch_id ch = i" using get_change_in [OF ch] by simp
  from run ch obtain s1 where s1: "(if ch_status ch = Planned then Inr (set_status i Cancelled s)
        else if ch_status ch = Cancelled \<or> ch_status ch = RolledBack then Inr s
        else if ch_status ch = Accepted then
          Inl (ChangeSetConflict ''An accepted change set cannot be rolled back; create a new plan'')
        else start_rollback ch reason now s) = Inr s1" and s': "s' = touch i now s1"
    unfolding rollback_def by (simp split: if_splits sum.splits)
  have "next_ok s (set_status i Cancelled s)" if "ch_status ch = Planned"
    unfolding set_status_def using status_held [OF _ ch] ch that
    by (intro restatus_next) (auto simp: status_ok_def)
  then have "next_ok s s1"
    using s1 start_rollback_next [of ch reason now s s1] ch id by (auto split: if_splits)
  then show ?thesis unfolding s' using touch_next next_ok_trans by blast
qed

lemma accept_next: "accept i reason now s = Inr (s', u) \<Longrightarrow> next_ok s s'"
proof -
  assume run: "accept i reason now s = Inr (s', u)"
  then obtain ch where ch: "get_change i s = Some ch" and rev: "review_state (ch_status ch)"
      and idle: "\<not> list_ex (\<lambda>j. in_flight (get_cmd j s)) (command_ids (change_steps i s))"
      and s': "s' = release i (upd_change i (\<lambda>c. c\<lparr>ch_status := Accepted,
        ch_resolution_reason := reason, ch_updated := now\<rparr>) s)"
    by (auto simp: accept_def split: option.splits if_splits)
  have "forwards_all terminal s i" if ok: "fleet_ok s" and v: "ch_version ch \<noteq> 0"
  proof -
    have "forwards_all terminal s i \<Longrightarrow> forwards_all settled s i"
      by (simp add: forwards_all_def settled_def)
    then have "forwards_all settled s i"
      using status_held [OF ok ch v] rev by (auto simp: review_state_def status_ok_def)
    moreover have "\<not> in_flight (forward_of st s)" if "st \<in> steps_of i s" for st
    proof (cases "st_forward_id st")
      case (Some j)
      then have "j \<in> set (command_ids (change_steps i s))"
        using that by (force simp: command_ids_def set_change_steps)
      with idle Some show ?thesis by (simp add: list_ex_iff forward_of_def opt_cmd_def)
    qed (simp add: forward_of_def opt_cmd_def in_flight_def)
    ultimately show ?thesis by (force simp: forwards_all_def settled_def in_flight_def)
  qed
  then show ?thesis unfolding s' using ch by (intro finish_next) auto
qed

text \<open>New change sets.\<close>

lemma step_rows_view:
  "x \<in> set (step_rows ch i n scs) \<Longrightarrow>
     st_change x = ch \<and> st_forward_id x = None \<and> n \<le> st_id x \<and> st_id x < n + length scs"
  by (induction scs arbitrary: i n) fastforce+

lemma step_rows_ids: "map st_id (step_rows ch i n scs) = [n..<n + length scs]"
  by (induction scs arbitrary: i n) (simp_all add: upt_conv_Cons del: upt_Suc)

lemma create_change_set_next: "create_change_set p now s = Inr (s', i) \<Longrightarrow> next_ok s s'"
proof -
  assume run: "create_change_set p now s = Inr (s', i)"
  define new where "new = step_rows (fresh s) 1 (Suc (fresh s)) (cc_steps p)"
  define ch where "ch = \<lparr>ch_id = fresh s, ch_name = cc_name p, ch_status = Planned,
      ch_rollback_on_failure = cc_rollback_on_failure p, ch_rollback_reason = [],
      ch_resolution_reason = [], ch_version = 1, ch_archived = False, ch_created = now, ch_updated = now\<rparr>"
  have s': "s' = s\<lparr>changes := changes s @ [ch], steps := steps s @ new,
      fresh := Suc (fresh s) + length (cc_steps p)\<rparr>"
    using run unfolding create_change_set_def new_def ch_def
    by (simp split: list.splits) metis
  have ch: "ch_id ch = fresh s" "ch_status ch = Planned" "ch_version ch = 1" by (simp_all add: ch_def)
  have "fleet_ok s'" if ok: "fleet_ok s"
  proof -
    have t: "tables_ok s" using ok by (simp add: fleet_ok_def)
    have links: "\<forall>st \<in> set (steps s). link_ok s st" using t by (simp add: tables_ok_def)
    have rows: "x \<in> set new \<Longrightarrow> st_change x = fresh s \<and> st_forward_id x = None \<and>
        Suc (fresh s) \<le> st_id x \<and> st_id x < Suc (fresh s) + length (cc_steps p)" for x
      unfolding new_def by (rule step_rows_view)
    have "keeps j s s'" if "j \<noteq> fresh s" for j
      using that rows by (auto simp: keeps_def s' steps_of_def lock_of_def)
    then have old: "change_ok s' c" if "c \<in> set (changes s)" for c
      using that ok t keeps_change [OF _ links, of c s'] by (auto simp: fleet_ok_def tables_ok_def)
    have "unlinked s' (fresh s)"
      using rows t by (auto simp: unlinked_def steps_of_def s' tables_ok_def)
    then have "change_ok s' ch" using ch by (simp add: change_ok_def status_ok_def)
    moreover have "tables_ok s'"
    proof -
      have "tbl_keyed ch_id (changes s @ [ch])"
        using t ch(1) by (auto simp: tables_ok_def tbl_keyed_def)
      moreover have "distinct (map st_id (steps s @ new))"
      proof -
        have "distinct (map st_id new)"
          unfolding new_def step_rows_ids by simp
        moreover have "st_id x < fresh s" if "x \<in> set (steps s)" for x
          using t that by (simp add: tables_ok_def)
        then have "set (map st_id (steps s)) \<inter> set (map st_id new) = {}"
          using rows by fastforce
        ultimately show ?thesis using t by (simp add: tables_ok_def tbl_keyed_def)
      qed
      moreover have "\<forall>st \<in> set (steps s @ new). st_id st < fresh s' \<and> st_change st < fresh s' \<and> link_ok s' st"
        using t rows by (fastforce simp: tables_ok_def link_ok_def s' get_cmd_def)
      moreover have "rows_ok (fresh s') (cmds s)"
        using t by (fastforce simp: tables_ok_def rows_ok_def row_ok_def s')
      moreover have "\<forall>c \<in> set (changes s @ [ch]). ch_id c < fresh s'"
        using t ch(1) by (fastforce simp: tables_ok_def s')
      ultimately show ?thesis using t by (simp add: tables_ok_def s' tbl_keyed_def)
    qed
    ultimately show ?thesis using old by (auto simp: fleet_ok_def s')
  qed
  then show ?thesis by (simp add: next_ok_def s')
qed

text \<open>The migration of the old scheme.\<close>

lemma migrate_change_next:
  assumes "get_change i s = Some ch" and "ch_version ch = 0"
  shows "next_ok s (migrate_change now i s)"
proof -
  have planned: "next_ok s (upd_change i (\<lambda>c. c\<lparr>ch_version := 1\<rparr>) s)" if "ch_status ch = Planned"
  proof -
    have "fleet_ok (upd_change i (\<lambda>c. c\<lparr>ch_version := 1\<rparr>) s)" if ok: "fleet_ok s"
    proof (rule upd_change_ok)
      fix c
      assume "c \<in> set (changes s)" "ch_id c = i"
      then have "c = ch" using get_change_unique [OF ok] assms(1) by fastforce
      moreover have "change_ok s ch" using ok get_change_in [OF assms(1)] by (simp add: fleet_ok_def)
      ultimately show "change_ok s (c\<lparr>ch_version := 1\<rparr>)"
        using \<open>ch_status ch = Planned\<close> assms(2) \<open>ch_id c = i\<close> by (simp add: change_ok_def status_ok_def)
    qed (use ok fleet_ok_others in auto)
    then show ?thesis by (simp add: next_ok_def)
  qed
  define P where "P = (\<lambda>c. cm_id c \<in> set (command_ids (change_steps i s)) \<and> unsent c)"
  define s1 where "s1 = s\<lparr>cmds := tbl_upd P (pause_row now) (cmds s)\<rparr>"
  have "legal_update (cmds s) P (pause_row now)"
    by (rule legal_skip) (auto simp: P_def unsent_def terminal_def pause_row_def evolve_def)
  then have "queue_next s s1" unfolding s1_def by (rule queue_next_upd)
  then have one: "advances s s1" by (rule advances_queue) (simp add: s1_def same_sets_def)
  moreover have "get_change i s1 = Some ch" using assms(1) by (simp add: s1_def get_change_def)
  then have "next_ok s1 (upd_change i (\<lambda>c. c\<lparr>ch_status := NeedsReview, ch_updated := now\<rparr>) s1)"
    using assms(2) by (intro restatus_next) auto
  ultimately have "next_ok s (upd_change i (\<lambda>c. c\<lparr>ch_status := NeedsReview, ch_updated := now\<rparr>) s1)"
    using advances_next next_ok_trans by blast
  with planned assms(1) show ?thesis
    by (simp add: migrate_change_def s1_def P_def)
qed

lemma migrate_legacy_next: "next_ok s (migrate_legacy now s)"
proof -
  have "next_ok s0 (foldl (\<lambda>s' i. if (case get_change i s' of Some ch \<Rightarrow> ch_version ch = 0 | None \<Rightarrow> False)
      then migrate_change now i s' else s') s0 ids)" for s0 ids
  proof (induction ids arbitrary: s0)
    case (Cons i ids)
    have "next_ok s0 (if (case get_change i s0 of Some ch \<Rightarrow> ch_version ch = 0 | None \<Rightarrow> False)
        then migrate_change now i s0 else s0)"
      using migrate_change_next by (auto split: option.split)
    with Cons show ?case using next_ok_trans by (simp only: foldl.simps)
  qed simp
  then show ?thesis unfolding migrate_legacy_def .
qed


section \<open>The queue's handlers\<close>

lemma queue_next_ok:
  assumes "queue_next s s'" and "changes s' = changes s" "steps s' = steps s" "locks s' = locks s"
  shows "next_ok s s'"
  using assms fleet_ok_queue [OF _ assms] by (simp add: next_ok_def queue_next_def fleet_ok_def tables_ok_def)

lemma same_sets_next: "queue_next s s' \<Longrightarrow> same_sets s s' \<Longrightarrow> next_ok s s'"
  by (rule queue_next_ok) (simp_all add: same_sets_def)

lemma upd_server_next: "next_ok s (upd_server sid f s)"
  by (rule queue_next_ok) (simp_all add: upd_server_def queue_next_same)

lemma skip_chain_next:
  assumes "get_cmd i s = Some c" and "\<not> terminal c"
    and "\<And>r. cm_status (f r) = Skipped \<or> cm_status (f r) = Failed \<and> cm_attempts r > 0"
    and "\<And>r. evolve (r\<lparr>cm_status := Waiting\<rparr>) ((f r)\<lparr>cm_status := Waiting\<rparr>)"
    and "cm_status (f c) = Failed \<longrightarrow> released c"
    and "advance_after_result i now (advance_command_dependents i now (upd_cmd i f s)) = Inr s'"
  shows "next_ok s s'"
proof -
  let ?s1 = "advance_command_dependents i now (upd_cmd i f s)"
  have "queue_next s ?s1" using assms(1-5) by (rule skip_and_drop)
  moreover have "same_sets s ?s1" using same_sets_cmds same_sets_trans by blast
  ultimately have "next_ok s ?s1" by (rule same_sets_next)
  with advance_after_result_next [OF assms(6)] show ?thesis using next_ok_trans by blast
qed

lemma candidate_released: "lease_candidate c now \<Longrightarrow> released c \<and> \<not> terminal c"
  by (auto simp: lease_candidate_def released_def terminal_def)

lemma terminalize_next:
  assumes "terminalize i now err st s = Inr s'" and "get_cmd i s = Some c" and "lease_candidate c now"
  shows "next_ok s s'"
  using assms candidate_released [OF assms(3)] unfolding terminalize_def
  by (intro skip_chain_next [where f = "terminal_row err st now"]) (auto simp: terminal_row_def evolve_def terminal_def)

lemma skip_command_next:
  assumes "skip_command i now err s = Inr s'" and "get_cmd i s = Some c" and "lease_candidate c now"
  shows "next_ok s s'"
  using assms candidate_released [OF assms(3)] unfolding skip_command_def
  by (intro skip_chain_next [where f = "skip_row err now"]) (auto simp: skip_row_def evolve_def terminal_def)

lemma lease_update_next:
  assumes "lease_candidate c now"
  shows "next_ok s (s\<lparr>cmds := tbl_upd (same_version c) (lease_row now) (cmds s)\<rparr>)"
proof (rule same_sets_next)
  have "legal_update (cmds s) (same_version c) (lease_row now)"
    using assms by (auto simp: legal_update_def same_version_def lease_row_def evolve_def terminal_def
        released_def lease_candidate_def)
  then show "queue_next s (s\<lparr>cmds := tbl_upd (same_version c) (lease_row now) (cmds s)\<rparr>)"
    by (rule queue_next_upd)
qed (simp add: same_sets_def)

lemma claim_lease_next:
  assumes run: "claim_lease v now c s = Inr (s', ok)" and get: "get_cmd (cm_id c) s = Some c"
  shows "next_ok s s'"
proof (cases "lease_candidate c now")
  case False
  then show ?thesis using run by (simp add: claim_lease_def)
next
  case cand: True
  show ?thesis
  proof (cases v)
    case Allow
    then show ?thesis
      using run cand lease_update_next [OF cand] terminalize_next [OF _ get cand]
      by (auto simp: claim_lease_def map_sum_eq_Inr split: if_splits option.splits)
  next
    case Withhold
    then show ?thesis using run cand by (auto simp: claim_lease_def split: if_splits)
  next
    case (Retire err)
    then show ?thesis
      using run cand skip_command_next [OF _ get cand]
      by (auto simp: claim_lease_def map_sum_eq_Inr split: if_splits)
  qed
qed

lemma lease_loop_next: "lease_loop vs now limit is leased s = Inr (s', ids) \<Longrightarrow> next_ok s s'"
proof (induction vs now limit "is" leased s rule: lease_loop.induct)
  case (2 vs now limit i "is" leased s)
  show ?case
  proof (cases "int (length leased) \<ge> limit")
    case True
    then show ?thesis using "2.prems" by simp
  next
    case more: False
    show ?thesis
    proof (cases "get_cmd i s")
      case None
      then show ?thesis using "2.IH"(1) "2.prems" more by simp
    next
      case (Some c)
      then obtain s1 ok where one: "claim_lease (vs i) now c s = Inr (s1, ok)"
          and rest: "lease_loop vs now limit is (if ok then leased @ [i] else leased) s1 = Inr (s', ids)"
        using "2.prems" more by (auto split: sum.splits)
      have "get_cmd (cm_id c) s = Some c" using Some get_cmd_id [OF Some] by simp
      from claim_lease_next [OF one this] "2.IH"(2) [OF more Some one refl rest]
      show ?thesis by (rule next_ok_trans)
    qed
  qed
qed simp

lemma lease_commands_next: "lease_commands token limit now vs s = Inr (s', cs) \<Longrightarrow> next_ok s s'"
proof -
  assume run: "lease_commands token limit now vs s = Inr (s', cs)"
  then obtain v where v: "server_by_token token s = Inr v"
    by (auto simp: lease_commands_def split: sum.splits)
  obtain s1 ids "is" where loop: "lease_loop vs now limit is [] s = Inr (s1, ids)"
      and s': "s' = seen_alive (sv_id v) now s1"
    using run unfolding lease_commands_def v Let_def by (auto split: sum.splits)
  have "next_ok s1 s'" unfolding s' seen_alive_def by (rule upd_server_next)
  with lease_loop_next [OF loop] show ?thesis by (rule next_ok_trans)
qed

lemma lease_for_push_next: "lease_for_push i v now s = Inr (s', r) \<Longrightarrow> next_ok s s'"
proof -
  assume "lease_for_push i v now s = Inr (s', r)"
  then obtain c ok where c: "get_cmd i s = Some c" and run: "claim_lease v now c s = Inr (s', ok)"
    by (auto simp: lease_for_push_def map_sum_eq_Inr split: option.splits)
  have "get_cmd (cm_id c) s = Some c" using c get_cmd_id [OF c] by simp
  with run show ?thesis by (rule claim_lease_next)
qed

lemma queue_refresh_next: "queue_refresh sid c r now s = Inr s' \<Longrightarrow> next_ok s s'"
proof -
  assume run: "queue_refresh sid c r now s = Inr s'"
  have "next_ok s s'" if ok: "fleet_ok s"
  proof -
    have q: "queue_ok s" using ok by (simp add: fleet_ok_def tables_ok_def)
    from run have "s' = s \<or> (\<exists>d. create_command_model sid refresh_payload now None s = Inr (s', d))"
      by (auto simp: queue_refresh_def map_sum_eq_Inr split: if_splits)
    then show ?thesis
      using create_command_model_next [OF _ q] created_advances advances_next by (fastforce simp: prior_def)
  qed
  then show ?thesis by (simp add: next_ok_def)
qed

lemma result_update_next:
  assumes "\<not> terminal c" and "cm_status c \<noteq> Waiting"
  shows "next_ok s (s\<lparr>cmds := tbl_upd (same_version c) (result_row err r now) (cmds s)\<rparr>)"
proof (rule same_sets_next)
  have "legal_update (cmds s) (same_version c) (result_row err r now)"
    using assms by (auto simp: legal_update_def same_version_def result_row_def evolve_def terminal_def released_def)
  then show "queue_next s (s\<lparr>cmds := tbl_upd (same_version c) (result_row err r now) (cmds s)\<rparr>)"
    by (rule queue_next_upd)
qed (simp add: same_sets_def)

lemma dependents_next: "next_ok s (advance_command_dependents i now s)"
  by (rule same_sets_next) (simp_all add: advance_command_dependents_next)

lemma propagate_result_next: "propagate_result sid c row r now s = Inr s' \<Longrightarrow> next_ok s s'"
proof -
  assume run: "propagate_result sid c row r now s = Inr s'"
  define s3 where "s3 = advance_command_dependents (cm_id c) now (upd_server sid (heard_from c row (rp_body r) now) s)"
  obtain s4 where s4: "(if cm_status row \<noteq> Failed then queue_refresh sid c r now s3 else Inr s3) = Inr s4"
      and last: "advance_after_result (cm_id c) now s4 = Inr s'"
    using run unfolding propagate_result_def Let_def s3_def [symmetric] by (auto split: sum.splits)
  have "next_ok s s3" unfolding s3_def using upd_server_next dependents_next next_ok_trans by blast
  moreover have "next_ok s3 s4" using s4 queue_refresh_next by (auto split: if_splits)
  ultimately show ?thesis using advance_after_result_next [OF last] next_ok_trans by blast
qed

lemma apply_result_next:
  assumes run: "apply_result digest sid c r now s = Inr s'"
  shows "next_ok s s'"
proof (cases "terminal c \<or> cm_status c = Waiting")
  case True
  then show ?thesis using run by (auto simp: apply_result_def split: if_splits)
next
  case False
  define err where "err = result_error digest c (rp_status r) (rp_body r) (rp_error r)"
  define s1 where "s1 = s\<lparr>cmds := tbl_upd (same_version c) (result_row err r now) (cmds s)\<rparr>"
  have one: "next_ok s s1" unfolding s1_def using False by (intro result_update_next) auto
  have "s' = s1 \<or> propagate_result sid c (result_row err r now c) r now s1 = Inr s'"
    using run False unfolding apply_result_def Let_def err_def [symmetric] s1_def [symmetric]
    by (simp split: sum.splits if_splits)
  then show ?thesis using one propagate_result_next next_ok_trans by blast
qed

lemma complete_command_next: "complete_command digest token i r now s = Inr (s', c) \<Longrightarrow> next_ok s s'"
  by (auto simp: complete_command_def map_sum_eq_Inr intro: apply_result_next split: sum.splits option.splits if_splits)

lemma complete_by_request_next: "complete_by_request digest token rid r now s = Inr (s', c) \<Longrightarrow> next_ok s s'"
  by (auto simp: complete_by_request_def map_sum_eq_Inr intro: apply_result_next split: sum.splits option.splits)

lemma append_frame_next: "append_frame token rid data now s = Inr (s', f) \<Longrightarrow> next_ok s s'"
proof -
  assume run: "append_frame token rid data now s = Inr (s', f)"
  then obtain v c where v: "server_by_token token s = Inr v"
      and c: "by_request rid (sv_id v) s = Some c" "\<not> terminal c" "pl_stream (cm_payload c)" "cm_status c \<noteq> Waiting"
    by (auto simp: append_frame_def Let_def split: sum.splits option.splits if_splits)
  have s': "cmds s' = tbl_upd (\<lambda>x. cm_id x = cm_id c) (\<lambda>x. x\<lparr>cm_updated := now\<rparr>) (cmds s)"
        "changes s' = changes s" "steps s' = steps s" "locks s' = locks s" "fresh s' = fresh s"
    using run v c by (auto simp: append_frame_def Let_def seen_alive_def upd_server_def upd_cmd_def)
  have mem: "c \<in> set (cmds s)" using c(1) by (auto simp: by_request_def find_Some_iff)
  have "queue_next s s'"
  proof -
    have "queue_ok s' \<and> rows_le (cmds s) (cmds s')" if q: "queue_ok s"
    proof -
      have "get_cmd (cm_id c) s = Some c"
        using q mem tbl_get_keyed [of cm_id "cmds s" c] by (simp add: rows_ok_def get_cmd_def)
      moreover have "cm_attempts c > 0" if "cm_status c = Leased"
        using q mem that by (simp add: rows_ok_def row_ok_def)
      ultimately have "queue_next s (upd_cmd (cm_id c) (\<lambda>x. x\<lparr>cm_updated := now\<rparr>) s)"
        using c(2) by (intro upd_cmd_next) (auto simp: evolve_def released_def)
      then show ?thesis using q by (simp add: queue_next_def upd_cmd_def s')
    qed
    then show ?thesis by (simp add: queue_next_def s'(5))
  qed
  then show ?thesis by (rule queue_next_ok) (rule s')+
qed

lemma reconcile_capability_loss_next: "reconcile_capability_loss i now s = Inr (s', c) \<Longrightarrow> next_ok s s'"
  by (auto simp: reconcile_capability_loss_def map_sum_eq_Inr intro: terminalize_next
      split: option.splits if_splits)

lemma release_lease_next: "release_lease i n now s = Inr (s', c) \<Longrightarrow> next_ok s s'"
proof -
  assume "release_lease i n now s = Inr (s', c)"
  then have s': "s' = s\<lparr>cmds := tbl_upd (\<lambda>c. cm_id c = i \<and> cm_status c = Leased \<and> cm_attempts c = n)
      (\<lambda>c. c\<lparr>cm_status := Pending, cm_leased := None, cm_updated := now\<rparr>) (cmds s)\<rparr>"
    by (auto simp: release_lease_def Let_def split: option.splits)
  have "legal_update (cmds s) (\<lambda>c. cm_id c = i \<and> cm_status c = Leased \<and> cm_attempts c = n)
      (\<lambda>c. c\<lparr>cm_status := Pending, cm_leased := None, cm_updated := now\<rparr>)"
    by (auto simp: legal_update_def evolve_def released_def terminal_def)
  then have "queue_next s s'" unfolding s' by (rule queue_next_upd)
  then show ?thesis by (rule same_sets_next) (simp add: s' same_sets_def)
qed

lemma create_command_next: "create_command sid p now s = Inr (s', c) \<Longrightarrow> next_ok s s'"
proof -
  assume "create_command sid p now s = Inr (s', c)"
  then have run: "create_command_model sid p now None s = Inr (s', c)"
    by (simp add: create_command_def split: option.splits)
  have "next_ok s s'" if "fleet_ok s"
    using create_command_model_next [OF run] that created_advances advances_next
    by (fastforce simp: prior_def fleet_ok_def tables_ok_def)
  then show ?thesis by (simp add: next_ok_def)
qed

lemma create_command_sequence_next: "create_command_sequence sid ps now s = Inr (s', cs) \<Longrightarrow> next_ok s s'"
proof -
  assume "create_command_sequence sid ps now s = Inr (s', cs)"
  then have run: "create_sequence sid ps now None s = Inr (s', cs)"
    by (simp add: create_command_sequence_def split: option.splits)
  have "next_ok s s'" if ok: "fleet_ok s"
  proof -
    have "queue_ok s' \<and> rows_le (cmds s) (cmds s') \<and> fresh s \<le> fresh s' \<and> same_sets s s'"
      using create_sequence_next [OF run] ok by (simp add: fleet_ok_def tables_ok_def prior_def)
    then show ?thesis by (intro same_sets_next) (simp_all add: queue_next_def)
  qed
  then show ?thesis by (simp add: next_ok_def)
qed

section \<open>Every call keeps the invariant\<close>

lemma commit_next: "(\<And>s' r. h = Inr (s', r) \<Longrightarrow> next_ok s s') \<Longrightarrow> next_ok s (commit s h)"
  by (cases h) auto

lemma fleet_step_next: "next_ok s (fleet_step digest s call)"
proof (cases call)
  case (AddServer v)
  then show ?thesis by (auto simp: fleet_step_def queue_next_same intro: queue_next_ok)
next
  case (Share ids)
  then show ?thesis by (auto simp: fleet_step_def queue_next_same intro: queue_next_ok)
next
  case (Register a)
  then show ?thesis by (auto simp: fleet_step_def queue_next_same intro: queue_next_ok)
next
  case (SetRemovals ids)
  then show ?thesis by (auto simp: fleet_step_def queue_next_same intro: queue_next_ok)
qed (auto simp: fleet_step_def migrate_legacy_next intro!: commit_next
    intro: create_command_next create_command_sequence_next lease_commands_next lease_for_push_next
      complete_command_next complete_by_request_next append_frame_next reconcile_capability_loss_next
      release_lease_next create_change_set_next dispatch_next rollback_next accept_next)

text \<open>Seen from a starting state: the invariant, and the rows that were there have only evolved.\<close>

definition later_ok :: "fleet \<Rightarrow> fleet \<Rightarrow> bool" where
  "later_ok s0 s \<longleftrightarrow> fleet_ok s \<and> rows_le (cmds s0) (cmds s)"

interpretation fleet_machine: step_invariant "fleet_step digest" "later_ok s0" for digest s0
  using fleet_step_next by unfold_locales (auto simp: later_ok_def next_ok_def intro: rows_le_trans)

lemma run_later: "fleet_ok s \<Longrightarrow> later_ok s (run (fleet_step digest) s calls)"
  by (rule fleet_machine.run_inv) (simp add: later_ok_def)

end
