(* ===== verification/Fleet_Safety.thy ===== *)
theory Fleet_Safety
  imports Fleet_Invariant
begin

text \<open>
  The properties of the command queue and of change sets, over every history of the fleet that
  starts empty: any interleaving of operators, agents with late or repeated results, lease
  expiries and registrations.
\<close>

definition history :: "(json \<Rightarrow> string) \<Rightarrow> fcall list \<Rightarrow> fleet" where
  "history digest calls = run (fleet_step digest) empty_fleet calls"

lemma empty_fleet_ok: "fleet_ok empty_fleet"
  by (simp add: empty_fleet_def fleet_ok_def tables_ok_def rows_ok_def tbl_keyed_def)

lemma history_ok: "fleet_ok (history digest calls)"
  using run_later [OF empty_fleet_ok] by (simp add: history_def later_ok_def)

lemma history_append:
  "later_ok (history digest calls) (history digest (calls @ rest))"
  unfolding history_def run_append by (rule run_later) (use history_ok in \<open>simp add: history_def\<close>)

text \<open>A change set whose work or compensation is not over.\<close>

definition unresolved :: "change_row \<Rightarrow> bool" where
  "unresolved ch \<longleftrightarrow> ch_version ch \<noteq> 0 \<and>
     ch_status ch \<in> {Dispatched, RollbackQueued, ChangeFailed, RollbackFailed, RollbackIncomplete}"

lemma unresolved_holds:
  assumes "fleet_ok s" and "ch \<in> set (changes s)" and "unresolved ch"
  shows "holds_servers s (ch_id ch)"
  using assms by (auto simp: fleet_ok_def unresolved_def change_ok_def status_ok_def)

lemma in_flight_unresolved:
  assumes "fleet_ok s" and "ch \<in> set (changes s)" and "ch_version ch \<noteq> 0"
    and "st \<in> steps_of (ch_id ch) s" and "in_flight (forward_of st s)"
  shows "unresolved ch"
proof -
  obtain c where c: "forward_of st s = Some c" "\<not> terminal c"
    using assms(5) by (auto simp: in_flight_def split: option.splits)
  have "status_ok s (ch_id ch) (ch_status ch)" using assms(1-3) by (auto simp: fleet_ok_def change_ok_def)
  with c assms(3,4) show ?thesis
    by (cases "ch_status ch")
       (auto simp: status_ok_def unresolved_def forwards_all_def unlinked_def forward_of_def opt_cmd_def)
qed

section \<open>Properties\<close>

text \<open>
  C11: Change sets never overlap. In every history, two unresolved change sets have no target server
  in common, and a forward command that is in flight belongs to an unresolved change set that holds
  the reservation of the server the command runs on. So no two change sets ever have forward
  commands in flight on the same server.
\<close>

theorem change_sets_exclusive:
  fixes digest calls
  defines "s \<equiv> history digest calls"
  assumes "ch \<in> set (changes s)" and "ch_version ch \<noteq> 0"
  shows "(\<forall>other \<in> set (changes s). unresolved ch \<longrightarrow> unresolved other \<longrightarrow> ch_id other \<noteq> ch_id ch \<longrightarrow>
      st_server ` steps_of (ch_id ch) s \<inter> st_server ` steps_of (ch_id other) s = {}) \<and>
    (\<forall>st \<in> steps_of (ch_id ch) s. \<forall>c. forward_of st s = Some c \<longrightarrow> in_flight (Some c) \<longrightarrow>
      unresolved ch \<and> lock_of (cm_server c) s = Some (ch_id ch))"
proof -
  have ok: "fleet_ok s" unfolding s_def by (rule history_ok)
  have "st_server ` steps_of (ch_id ch) s \<inter> st_server ` steps_of (ch_id other) s = {}"
    if "other \<in> set (changes s)" "unresolved ch" "unresolved other" "ch_id other \<noteq> ch_id ch" for other
    using unresolved_holds [OF ok assms(2) that(2)] unresolved_holds [OF ok that(1,3)] that(4)
    by (auto simp: holds_servers_def)
  moreover have "unresolved ch \<and> lock_of (cm_server c) s = Some (ch_id ch)"
    if st: "st \<in> steps_of (ch_id ch) s" and c: "forward_of st s = Some c" and fl: "in_flight (Some c)" for st c
  proof -
    have un: "unresolved ch" using in_flight_unresolved [OF ok assms(2,3) st] c fl by simp
    have "link_ok s st" using ok st by (simp add: fleet_ok_def tables_ok_def steps_of_def)
    then have "cm_server c = st_server st"
      using c by (auto simp: link_ok_def forward_of_def opt_cmd_def split: option.splits)
    with un unresolved_holds [OF ok assms(2) un] st show ?thesis by (simp add: holds_servers_def)
  qed
  ultimately show ?thesis by blast
qed

definition sample_payload :: "string \<Rightarrow> payload" where
  "sample_payload path = \<lparr>pl_method = POST, pl_path = path, pl_query = [], pl_body = JNull,
     pl_timeout = 30000, pl_stream = False\<rparr>"

definition sample_change :: change_create where
  "sample_change = \<lparr>cc_name = ''c'', cc_rollback_on_failure = True,
     cc_steps = [\<lparr>sc_server = 7, sc_label = [], sc_forward = sample_payload ''/api/child/routing'',
                  sc_rollback = Some (sample_payload ''/api/child/outbounds'')\<rparr>,
                 \<lparr>sc_server = 8, sc_label = [], sc_forward = sample_payload ''/api/child/routing'',
                  sc_rollback = Some (sample_payload ''/api/child/outbounds'')\<rparr>]\<rparr>"

definition sample_server :: "nat \<Rightarrow> string \<Rightarrow> server_row" where
  "sample_server i token = \<lparr>sv_id = i, sv_token = token, sv_status = Connected, sv_heartbeat = None,
     sv_updated = 0\<rparr>"

text \<open>A change set over two servers: created as 0 with steps 1 and 2, its commands are 3 and 4.\<close>

definition sample_calls :: "fcall list" where
  "sample_calls = [AddServer (sample_server 7 ''t7''), AddServer (sample_server 8 ''t8''),
     CreateChange sample_change 1, Dispatch 0 2, Push 3 Allow 3]"

definition sample_report :: "int \<Rightarrow> result_report" where
  "sample_report st = \<lparr>rp_status = st, rp_body = JNull, rp_error = None\<rparr>"

definition no_digest :: "json \<Rightarrow> string" where
  "no_digest v = []"

text \<open>The state these calls leave: the first command leased, the second waiting for it.\<close>

definition sample_command :: "nat \<Rightarrow> nat \<Rightarrow> cmd_status \<Rightarrow> nat option \<Rightarrow> nat \<Rightarrow> time option \<Rightarrow> time \<Rightarrow> command" where
  "sample_command i sid st dep n leased updated =
     \<lparr>cm_id = i, cm_server = sid, cm_request = (sid, i), cm_payload = sample_payload ''/api/child/routing'',
      cm_status = st, cm_depends = dep, cm_attempts = n, cm_result_status = None, cm_result_body = JNull,
      cm_error = None, cm_created = 2, cm_leased = leased, cm_completed = None, cm_updated = updated\<rparr>"

definition sample_step :: "nat \<Rightarrow> nat \<Rightarrow> string \<Rightarrow> nat \<Rightarrow> step_row" where
  "sample_step i sid label forward =
     \<lparr>st_id = i, st_change = 0, st_sequence = i, st_server = sid, st_label = label,
      st_forward = sample_payload ''/api/child/routing'',
      st_rollback = Some (sample_payload ''/api/child/outbounds''),
      st_forward_id = Some forward, st_rollback_id = None, st_history = []\<rparr>"

definition sample_state :: fleet where
  "sample_state =
     \<lparr>servers = [sample_server 7 ''t7'', sample_server 8 ''t8''], agents = [], shared_servers = [],
      cmds = [sample_command 3 7 Leased None 1 (Some 3) 3, sample_command 4 8 Waiting (Some 3) 0 None 2],
      frames = [],
      changes = [\<lparr>ch_id = 0, ch_name = ''c'', ch_status = Dispatched, ch_rollback_on_failure = True,
        ch_rollback_reason = [], ch_resolution_reason = [], ch_version = 1, ch_archived = False,
        ch_created = 1, ch_updated = 2\<rparr>],
      steps = [sample_step 1 7 ''Step 1'' 3, sample_step 2 8 ''Step 2'' 4],
      locks = [(7, 0), (8, 0)], removals = [], fresh = 5\<rparr>"

lemma sample_history: "history no_digest sample_calls = sample_state"
  by code_simp

lemma sample_history_more:
  "history no_digest (sample_calls @ rest) = run (fleet_step no_digest) sample_state rest"
  unfolding sample_history [symmetric] by (simp add: history_def run_append)

theorem change_sets_exclusive_witness:
  "lock_of 7 (history no_digest sample_calls) = Some 0"
proof -
  let ?s = "history no_digest sample_calls"
  have facts: "map ch_id (changes ?s) = [0]" "map ch_version (changes ?s) = [1]"
      "map (\<lambda>st. (st_change st, st_forward_id st)) (steps ?s) = [(0, Some 3), (0, Some 4)]"
      "map_option (\<lambda>c. (cm_server c, cm_attempts c, cm_status c)) (get_cmd 3 ?s) = Some (7, 1, Leased)"
    by (simp_all add: sample_history sample_state_def sample_step_def sample_command_def get_cmd_def tbl_get_def)
  then obtain ch where ch: "ch \<in> set (changes ?s)" "ch_version ch \<noteq> 0" "ch_id ch = 0"
    by (cases "changes ?s") auto
  from facts(3) obtain st where st: "st \<in> steps_of 0 ?s" "st_forward_id st = Some 3"
    by (cases "steps ?s") (auto simp: steps_of_def)
  from facts(4) obtain c where c: "get_cmd 3 ?s = Some c" "cm_server c = 7" "in_flight (Some c)"
    by (auto simp: in_flight_def terminal_def)
  then have "forward_of st ?s = Some c" using st(2) by (simp add: forward_of_def opt_cmd_def)
  with change_sets_exclusive [OF ch(1,2)] st(1) c ch(3) show ?thesis by auto
qed

text \<open>
  C20: Results are final. Once a command has succeeded, failed or been skipped, no later call, be it
  a repeated or late result of an agent, another lease, a rollback or a migration, changes its row
  in any field; and every other row keeps its payload and target, with attempts that never fall.
\<close>

theorem results_are_final:
  assumes "get_cmd i (history digest calls) = Some c"
  shows "\<exists>c'. get_cmd i (history digest (calls @ rest)) = Some c' \<and>
    cm_payload c' = cm_payload c \<and> cm_server c' = cm_server c \<and> cm_attempts c \<le> cm_attempts c' \<and>
    (terminal c \<longrightarrow> c' = c)"
proof -
  have "rows_le (cmds (history digest calls)) (cmds (history digest (calls @ rest)))"
    using history_append by (simp add: later_ok_def)
  from get_cmd_le [OF this assms] show ?thesis by (auto simp: evolve_def)
qed

theorem results_are_final_witness:
  "map_option cm_status (get_cmd 3 (history no_digest
     (sample_calls @ [Complete ''t7'' 3 (sample_report 200) 4] @ [Complete ''t7'' 3 (sample_report 500) 5]))) =
   Some Succeeded"
proof -
  let ?calls = "sample_calls @ [Complete ''t7'' 3 (sample_report 200) 4]"
  have "map_option cm_status (get_cmd 3 (history no_digest ?calls)) = Some Succeeded"
    unfolding sample_history_more by code_simp
  then obtain c where c: "get_cmd 3 (history no_digest ?calls) = Some c" "cm_status c = Succeeded" by auto
  from results_are_final [OF c(1), of "[Complete ''t7'' 3 (sample_report 500) 5]"] c(2)
  show ?thesis by (auto simp: terminal_def)
qed

text \<open>
  C21: A prerequisite comes first. In every history, a command that depends on another one is
  pending, leased, failed or succeeded only if that other command has succeeded: no agent is ever
  handed a step before the one it builds on is confirmed.
\<close>

theorem prerequisite_first:
  assumes "get_cmd i (history digest calls) = Some c" and "cm_depends c = Some p"
    and "cm_status c \<noteq> Waiting" "cm_status c \<noteq> Skipped"
  shows "\<exists>d. get_cmd p (history digest calls) = Some d \<and> cm_status d = Succeeded"
proof -
  let ?s = "history digest calls"
  have "c \<in> set (cmds ?s)" using assms(1) unfolding get_cmd_def by (blast dest: tbl_get_SomeD)
  then have "row_ok (fresh ?s) (cmds ?s) c"
    using history_ok [of digest calls] by (simp add: fleet_ok_def tables_ok_def rows_ok_def)
  then show ?thesis
    using assms(2-4) by (auto simp: row_ok_def released_def dep_done_def succeeded_def get_cmd_def split: option.splits)
qed

theorem prerequisite_first_witness:
  "\<exists>d. get_cmd 3 (history no_digest
     (sample_calls @ [Complete ''t7'' 3 (sample_report 200) 4, Push 4 Allow 5])) = Some d \<and> cm_status d = Succeeded"
proof -
  let ?calls = "sample_calls @ [Complete ''t7'' 3 (sample_report 200) 4, Push 4 Allow 5]"
  have "map_option (\<lambda>c. (cm_depends c, cm_status c)) (get_cmd 4 (history no_digest ?calls)) = Some (Some 3, Leased)"
    unfolding sample_history_more by code_simp
  then obtain c where "get_cmd 4 (history no_digest ?calls) = Some c" "cm_depends c = Some 3" "cm_status c = Leased"
    by auto
  from prerequisite_first [OF this(1,2)] this(3) show ?thesis by simp
qed

end
