(* ===== verification/Compensation.thy ===== *)
theory Compensation
  imports Change_Sets
begin

text \<open>
  What a rollback queues, against a reference definition: one command for every attempted step that
  has a rollback payload, last step first, each waiting for the one before it.
\<close>

definition compensable :: "fleet \<Rightarrow> step_row \<Rightarrow> bool" where
  "compensable s st \<longleftrightarrow> attempted (forward_of st s) \<and> st_rollback st \<noteq> None"

fun compensations :: "time \<Rightarrow> nat \<Rightarrow> nat option \<Rightarrow> step_row list \<Rightarrow> command list" where
  "compensations now i previous [] = []"
| "compensations now i previous (st # sts) =
     \<lparr>cm_id = i, cm_server = st_server st, cm_request = (st_server st, i),
      cm_payload = the (st_rollback st), cm_status = (if previous = None then Pending else Waiting),
      cm_depends = previous, cm_attempts = 0, cm_result_status = None, cm_result_body = JNull,
      cm_error = None, cm_created = now, cm_leased = None, cm_completed = None, cm_updated = now\<rparr>
     # compensations now (Suc i) (Some i) sts"

text \<open>A step never compensated before whose payload its server accepts.\<close>

definition accepted_step :: "fleet \<Rightarrow> step_row \<Rightarrow> bool" where
  "accepted_step s st \<longleftrightarrow> st_rollback_id st = None \<and>
     (\<forall>i. st_forward_id st = Some i \<longrightarrow> get_cmd i s \<noteq> None) \<and>
     (case st_rollback st of None \<Rightarrow> True
      | Some p \<Rightarrow> wire_error p = None \<and> capability_error (st_server st) p s = None)"

lemma new_command_row:
  assumes "\<forall>d. previous = Some d \<longrightarrow> cm_status d \<noteq> Succeeded" and "st_rollback st = Some p"
  shows "new_command (st_server st) p now previous None s =
    (s\<lparr>cmds := cmds s @ compensations now (fresh s) (map_option cm_id previous) [st], fresh := Suc (fresh s)\<rparr>,
     hd (compensations now (fresh s) (map_option cm_id previous) [st]))"
  using assms by (auto simp: new_command_def Let_def split: option.splits)

lemma compensations_status:
  "c = hd (compensations now i previous [st]) \<Longrightarrow> cm_status c \<noteq> Succeeded \<and> cm_id c = i"
  by simp

definition grown :: "fleet \<Rightarrow> fleet \<Rightarrow> bool" where
  "grown s s' \<longleftrightarrow> (\<exists>new. cmds s' = cmds s @ new) \<and> agents s' = agents s \<and> shared_servers s' = shared_servers s"

lemma grown_capability: "grown s s' \<Longrightarrow> capability_error sid p s' = capability_error sid p s"
  by (auto simp: grown_def capability_error_def agent_can_def agent_of_def)

lemma grown_forward: "grown s s' \<Longrightarrow> accepted_step s st \<Longrightarrow> forward_of st s' = forward_of st s"
  by (auto simp: grown_def accepted_step_def forward_of_def opt_cmd_def get_cmd_def tbl_get_append split: option.splits)

lemma grown_accepted: "grown s s' \<Longrightarrow> accepted_step s st \<Longrightarrow> accepted_step s' st"
  using grown_capability [of s s']
  by (auto simp: accepted_step_def grown_def get_cmd_def tbl_get_append split: option.splits)

lemma grown_compensable:
  "grown s s' \<Longrightarrow> \<forall>st \<in> set sts. accepted_step s st \<Longrightarrow> filter (compensable s') sts = filter (compensable s) sts"
  by (rule filter_cong) (auto simp: compensable_def grown_forward)

definition uncompensated :: "fleet \<Rightarrow> step_row \<Rightarrow> bool" where
  "uncompensated s st \<longleftrightarrow> attempted (forward_of st s) \<and> st_rollback st = None"

lemma grown_uncompensated:
  "grown s s' \<Longrightarrow> \<forall>st \<in> set sts. accepted_step s st \<Longrightarrow> list_ex (uncompensated s') sts = list_ex (uncompensated s) sts"
  by (auto simp: list_ex_iff uncompensated_def grown_forward)

lemma queue_rollbacks_fresh:
  assumes "\<forall>st \<in> set sts. accepted_step s st" and "\<forall>d. previous = Some d \<longrightarrow> cm_status d \<noteq> Succeeded"
  shows "\<exists>s'. queue_rollbacks sts None now previous s =
      Inr (s', [fresh s ..< fresh s + length (filter (compensable s) sts)], list_ex (uncompensated s) sts) \<and>
    cmds s' = cmds s @ compensations now (fresh s) (map_option cm_id previous) (filter (compensable s) sts)"
  using assms
proof (induction sts arbitrary: s previous)
  case Nil
  then show ?case by simp
next
  case (Cons st sts)
  consider (idle) "\<not> attempted (forward_of st s)"
    | (missing) "attempted (forward_of st s)" "st_rollback st = None"
    | (queue) p where "attempted (forward_of st s)" "st_rollback st = Some p"
    by (cases "st_rollback st") auto
  then show ?case
  proof cases
    case idle
    with Cons.IH [of s previous] Cons.prems show ?thesis by (simp add: compensable_def uncompensated_def)
  next
    case missing
    with Cons.IH [of s previous] Cons.prems show ?thesis by (auto simp: compensable_def uncompensated_def)
  next
    case queue
    let ?c = "hd (compensations now (fresh s) (map_option cm_id previous) [st])"
    let ?s = "upd_step (st_id st) (\<lambda>x. x\<lparr>st_rollback_id := Some (fresh s)\<rparr>)
       (s\<lparr>cmds := cmds s @ compensations now (fresh s) (map_option cm_id previous) [st], fresh := Suc (fresh s)\<rparr>)"
    have ok: "accepted_step s st" using Cons.prems(1) by simp
    have id: "cm_id ?c = fresh s" "cm_status ?c \<noteq> Succeeded" by auto
    have create: "create_command_model (st_server st) p now previous s = Inr
        (s\<lparr>cmds := cmds s @ compensations now (fresh s) (map_option cm_id previous) [st], fresh := Suc (fresh s)\<rparr>, ?c)"
      using ok queue(2) new_command_row [OF Cons.prems(2) queue(2), of now s]
      by (simp add: accepted_step_def create_command_model_def)
    have none: "rollback_of st s = None" using ok by (simp add: accepted_step_def rollback_of_def opt_cmd_def)
    have step: "queue_rollbacks (st # sts) None now previous s =
        map_sum id (\<lambda>(s'', ids, missing). (s'', fresh s # ids, missing)) (queue_rollbacks sts None now (Some ?c) ?s)"
      using queue none by (simp add: create id(1) del: compensations.simps)
    have g: "grown s ?s" by (simp add: grown_def upd_step_def)
    have acc: "\<forall>x \<in> set sts. accepted_step ?s x" using Cons.prems(1) grown_accepted [OF g] by simp
    from Cons.IH [of ?s "Some ?c", OF acc] id(2)
    obtain s' where "queue_rollbacks sts None now (Some ?c) ?s =
        Inr (s', [fresh ?s ..< fresh ?s + length (filter (compensable ?s) sts)], list_ex (uncompensated ?s) sts)"
      "cmds s' = cmds ?s @ compensations now (fresh ?s) (map_option cm_id (Some ?c)) (filter (compensable ?s) sts)"
      by blast
    moreover have "compensable s st" "\<not> uncompensated s st" "fresh ?s = Suc (fresh s)"
        "cmds ?s = cmds s @ compensations now (fresh s) (map_option cm_id previous) [st]"
      using queue by (simp_all add: compensable_def uncompensated_def upd_step_def)
    moreover have "fresh s # [Suc (fresh s) ..< Suc (fresh s + n)] = [fresh s ..< Suc (fresh s + n)]" for n
      by (simp add: upt_conv_Cons del: upt_Suc)
    ultimately show ?thesis
      using step Cons.prems(1) id(1) grown_compensable [OF g, of sts] grown_uncompensated [OF g, of sts]
      by (simp del: upt_Suc)
  qed
qed

text \<open>
  C12: Compensation undoes in reverse. When no step has been compensated before and the servers
  accept the rollback payloads, the compensation of a change set succeeds and adds exactly one
  command for every attempted step that has a rollback payload, from the last step to the first,
  each depending on the one before it and only the first ready to run; and it reports a gap exactly
  when an attempted step has no rollback payload.
\<close>

theorem compensation_reverses_steps:
  assumes "\<forall>st \<in> set sts. accepted_step s st"
  shows "\<exists>s'. queue_rollbacks (rev sts) None now None s =
      Inr (s', [fresh s ..< fresh s + length (filter (compensable s) (rev sts))], list_ex (uncompensated s) (rev sts)) \<and>
    cmds s' = cmds s @ compensations now (fresh s) None (rev (filter (compensable s) sts))"
  using queue_rollbacks_fresh [of "rev sts" s None now] assms by (simp add: rev_filter)

definition done_command :: "nat \<Rightarrow> nat \<Rightarrow> command" where
  "done_command i sid = \<lparr>cm_id = i, cm_server = sid, cm_request = (sid, i),
     cm_payload = \<lparr>pl_method = POST, pl_path = ''/api/child/routing'', pl_query = [], pl_body = JNull,
       pl_timeout = 30000, pl_stream = False\<rparr>,
     cm_status = Succeeded, cm_depends = None, cm_attempts = 1, cm_result_status = Some 200,
     cm_result_body = JNull, cm_error = None, cm_created = 1, cm_leased = Some 1, cm_completed = Some 2,
     cm_updated = 2\<rparr>"

definition undo_payload :: payload where
  "undo_payload = \<lparr>pl_method = POST, pl_path = ''/api/child/outbounds'', pl_query = [], pl_body = JNull,
     pl_timeout = 30000, pl_stream = False\<rparr>"

definition undo_step :: "nat \<Rightarrow> nat \<Rightarrow> nat \<Rightarrow> step_row" where
  "undo_step i sid forward = \<lparr>st_id = i, st_change = 0, st_sequence = i, st_server = sid, st_label = [],
     st_forward = undo_payload, st_rollback = Some undo_payload, st_forward_id = Some forward,
     st_rollback_id = None, st_history = []\<rparr>"

definition undo_state :: fleet where
  "undo_state = \<lparr>servers = [], agents = [], shared_servers = [], cmds = [done_command 3 7, done_command 4 8],
     frames = [], changes = [], steps = [undo_step 1 7 3, undo_step 2 8 4], locks = [], removals = [], fresh = 5\<rparr>"

theorem compensation_reverses_steps_witness:
  "\<exists>s'. queue_rollbacks (rev (steps undo_state)) None 9 None undo_state = Inr (s', [5, 6], False) \<and>
     map cm_server (drop 2 (cmds s')) = [8, 7]"
proof -
  have wire: "wire_error undo_payload = None \<and> capability_error 7 undo_payload undo_state = None \<and>
      capability_error 8 undo_payload undo_state = None" by code_simp
  have "\<forall>st \<in> set (steps undo_state). accepted_step undo_state st"
    using wire by (auto simp: accepted_step_def undo_state_def undo_step_def done_command_def get_cmd_def tbl_get_def)
  from compensation_reverses_steps [OF this, of 9]
  show ?thesis
    by (auto simp: undo_state_def undo_step_def done_command_def compensable_def uncompensated_def forward_of_def
        opt_cmd_def get_cmd_def tbl_get_def attempted_def upt_conv_Cons)
qed

end
