(* ===== verification/Admin_Auth.thy ===== *)
theory Admin_Auth
  imports Prelude
begin

text \<open>
  The administrator's accounts, sessions and second factor: \<open>AuthStore\<close> of
  \<open>backend/app/open_node/services/auth.py\<close>. Every handler runs in one transaction, so it is one
  step; it returns the state with either an exception or its value, because some exceptions leave a
  change behind (an expired challenge is deleted, a failed code is counted). Instants are
  milliseconds. Random draws are functions of a counter. Hashing (SHA-256, Argon2), TOTP (\<open>pyotp\<close>)
  and the sealing of secrets (Fernet) are the record \<open>crypto\<close>, a parameter.
\<close>

section \<open>Data\<close>

record crypto =
  sha :: "string \<Rightarrow> string"
  verifies :: "string \<Rightarrow> string \<Rightarrow> bool"
  hash_password :: "nat \<Rightarrow> string \<Rightarrow> string"
  draw_token :: "nat \<Rightarrow> string"
  draw_epoch :: "nat \<Rightarrow> string"
  draw_code :: "nat \<Rightarrow> string"
  draw_secret :: "nat \<Rightarrow> string"
  totp_at :: "string \<Rightarrow> int \<Rightarrow> string"
  totp_uri :: "string \<Rightarrow> string \<Rightarrow> string"
  has_key :: bool
  seal :: "nat \<Rightarrow> string \<Rightarrow> string"
  unseal :: "string \<Rightarrow> string option"

record administrator =
  ad_name :: string
  ad_hash :: string

record profile =
  pf_email :: string
  pf_nickname :: string
  pf_avatar :: string
  pf_revision :: nat

record factor =
  fa_secret :: "string option"
  fa_last :: int
  fa_recovery :: "string list"
  fa_pending :: "string option"
  fa_pending_expires :: time
  fa_pending_session :: "string option"

record op_session =
  os_hash :: string
  os_csrf :: string
  os_expires :: time
  os_seen :: time

record window =
  lw_key :: string
  lw_attempts :: nat
  lw_expires :: time

datatype challenge_kind = VerifyFactor | EnrollFactor

record challenge =
  oc_hash :: string
  oc_credential :: string
  oc_kind :: challenge_kind
  oc_expires :: time
  oc_attempts :: nat
  oc_pending :: "string option"

record ticket =
  ti_hash :: "string option"
  ti_expires :: time
  ti_completed :: "time option"

record branding =
  br_revision :: nat
  br_site :: string
  br_brand :: string

record auth =
  admin :: "administrator option"
  admin_profile :: "profile option"
  second_factor :: "factor option"
  require_totp :: "bool option"
  epoch :: "string option"
  setup_ticket :: "ticket option"
  sessions :: "op_session list"
  windows :: "window list"
  challenges :: "challenge list"
  site :: "branding option"
  draws :: nat

datatype auth_error =
    AuthenticationError
  | FactorUnavailable
  | SecurityConflict string
  | RateLimited
  | AlreadyExists
  | SetupError nat string
  | BackupAuthorizationError

type_synonym 'a outcome = "auth \<times> (auth_error + 'a)"

record enrollment =
  en_secret :: string
  en_uri :: string
  en_expires :: time

record identity =
  id_username :: string
  id_csrf :: string

record auth_result =
  ar_token :: "string option"
  ar_identity :: "identity option"
  ar_challenge :: "string option"
  ar_enrollment :: "enrollment option"
  ar_codes :: "string list"

text \<open>The truth value of an optional string, and of a nullable policy row.\<close>

definition present :: "string option \<Rightarrow> bool" where
  "present x = (x \<noteq> None \<and> x \<noteq> Some [])"

definition enrolled :: "auth \<Rightarrow> bool" where
  "enrolled s = (case second_factor s of None \<Rightarrow> False | Some f \<Rightarrow> present (fa_secret f))"

definition mandatory :: "auth \<Rightarrow> bool" where
  "mandatory s = (require_totp s = Some True)"

definition live :: "'a option \<Rightarrow> ('a \<Rightarrow> bool) \<Rightarrow> bool" where
  "live x p = (case x of None \<Rightarrow> False | Some r \<Rightarrow> p r)"

definition get_session :: "string \<Rightarrow> auth \<Rightarrow> op_session option" where
  "get_session h s = tbl_get os_hash h (sessions s)"

definition get_challenge :: "string \<Rightarrow> auth \<Rightarrow> challenge option" where
  "get_challenge h s = tbl_get oc_hash h (challenges s)"

definition new_factor :: factor where
  "new_factor = \<lparr>fa_secret = None, fa_last = -1, fa_recovery = [], fa_pending = None,
     fa_pending_expires = 0, fa_pending_session = None\<rparr>"

text \<open>\<open>_factor_row (db, create=True)\<close>.\<close>

definition factor_row :: "auth \<Rightarrow> factor" where
  "factor_row s = (case second_factor s of None \<Rightarrow> new_factor | Some f \<Rightarrow> f)"

definition advance_epoch :: "crypto \<Rightarrow> auth \<Rightarrow> auth" where
  "advance_epoch K s = s\<lparr>epoch := Some (draw_epoch K (draws s)), draws := Suc (draws s)\<rparr>"

section \<open>Profile and account\<close>

definition profile_state :: "administrator \<Rightarrow> profile option \<Rightarrow> string \<times> profile" where
  "profile_state a p =
     (case p of
        None \<Rightarrow> (ad_name a, \<lparr>pf_email = [], pf_nickname = ad_name a, pf_avatar = [], pf_revision = 0\<rparr>)
      | Some r \<Rightarrow> (ad_name a, r\<lparr>pf_nickname := (if pf_nickname r = [] then ad_name a else pf_nickname r)\<rparr>))"

definition read_profile :: "string \<Rightarrow> auth \<Rightarrow> (string \<times> profile) outcome" where
  "read_profile username s =
     (case admin s of
        None \<Rightarrow> (s, Inl AuthenticationError)
      | Some a \<Rightarrow>
          if ad_name a \<noteq> username then (s, Inl AuthenticationError)
          else (s, Inr (profile_state a (admin_profile s))))"

definition update_profile ::
  "crypto \<Rightarrow> string \<Rightarrow> string \<Rightarrow> string \<Rightarrow> string \<Rightarrow> nat \<Rightarrow> auth \<Rightarrow> (string \<times> profile) outcome" where
  "update_profile K username email nickname avatar expected s =
     (case admin s of
        None \<Rightarrow> (s, Inl AuthenticationError)
      | Some a \<Rightarrow>
          if ad_name a \<noteq> username then (s, Inl AuthenticationError)
          else
            (let current = (case admin_profile s of None \<Rightarrow> 0 | Some p \<Rightarrow> pf_revision p)
             in if current \<noteq> expected then
                  (s, Inl (SecurityConflict ''Administrator profile changed; reload it''))
                else
                  (let p = \<lparr>pf_email = email, pf_nickname = (if nickname = [] then ad_name a else nickname),
                            pf_avatar = avatar, pf_revision = Suc current\<rparr>
                   in (advance_epoch K (s\<lparr>admin_profile := Some p\<rparr>), Inr (profile_state a (Some p))))))"

definition close_ticket :: "time \<Rightarrow> ticket \<Rightarrow> ticket" where
  "close_ticket now t = t\<lparr>ti_hash := None, ti_expires := 0, ti_completed := Some now\<rparr>"

definition set_administrator ::
  "crypto \<Rightarrow> string \<Rightarrow> string \<Rightarrow> bool \<Rightarrow> time \<Rightarrow> auth \<Rightarrow> unit outcome" where
  "set_administrator K username password reset now s =
     (let hashed = hash_password K (draws s) password;
          s1 = s\<lparr>draws := Suc (draws s)\<rparr>;
          finish = (\<lambda>t. ((advance_epoch K t)\<lparr>setup_ticket := map_option (close_ticket now) (setup_ticket t)\<rparr>, Inr ()))
      in case admin s of
           Some a \<Rightarrow>
             if \<not> reset then (s, Inl AlreadyExists)
             else finish (s1\<lparr>admin := Some \<lparr>ad_name = username, ad_hash = hashed\<rparr>, sessions := [],
                    challenges := [], second_factor := None, windows := [],
                    require_totp := map_option (\<lambda>_. False) (require_totp s)\<rparr>)
         | None \<Rightarrow>
             finish (s1\<lparr>admin := Some \<lparr>ad_name = username, ad_hash = hashed\<rparr>,
               admin_profile := Some \<lparr>pf_email = [], pf_nickname = username, pf_avatar = [], pf_revision = 0\<rparr>\<rparr>))"

text \<open>\<open>allow_login_attempt\<close>: a fixed window of sixty seconds per key.\<close>

definition allow_login_attempt :: "crypto \<Rightarrow> string \<Rightarrow> nat \<Rightarrow> time \<Rightarrow> auth \<Rightarrow> auth \<times> bool" where
  "allow_login_attempt K peer limit now s =
     (let key = sha K peer;
          ws = filter (\<lambda>w. \<not> lw_expires w \<le> now) (windows s);
          ws1 = (if tbl_get lw_key key ws = None
                 then ws @ [\<lparr>lw_key = key, lw_attempts = 0, lw_expires = now + 60000\<rparr>] else ws);
          hit = (\<lambda>w. lw_key w = key \<and> lw_attempts w < limit)
      in (s\<lparr>windows := tbl_upd hit (\<lambda>w. w\<lparr>lw_attempts := Suc (lw_attempts w)\<rparr>) ws1\<rparr>, list_ex hit ws1))"

section \<open>Factor verification\<close>

definition newline :: char where "newline = CHR 0x0A"

definition seal_secret :: "crypto \<Rightarrow> administrator \<Rightarrow> string \<Rightarrow> nat \<Rightarrow> auth_error + string" where
  "seal_secret K a secret n =
     (if \<not> has_key K then Inl FactorUnavailable
      else Inr (seal K n (sha K (ad_name a) @ newline # secret)))"

definition open_secret :: "crypto \<Rightarrow> administrator \<Rightarrow> string \<Rightarrow> auth_error + string" where
  "open_secret K a value =
     (if \<not> has_key K then Inl FactorUnavailable
      else
        (case unseal K value of
           None \<Rightarrow> Inl FactorUnavailable
         | Some text \<Rightarrow>
           (let (prefix, found, secret) = py_partition newline text
            in if \<not> found \<or> prefix \<noteq> sha K (ad_name a) then Inl FactorUnavailable else Inr secret)))"

definition six_digits :: "string \<Rightarrow> bool" where
  "six_digits pin = (length pin = 6 \<and> list_all is_dec pin)"

definition totp_step :: "crypto \<Rightarrow> string \<Rightarrow> string \<Rightarrow> int \<Rightarrow> time \<Rightarrow> int option" where
  "totp_step K secret pin least now =
     (if \<not> six_digits pin then None
      else
        (let counter = now div 30000
         in List.find (\<lambda>step. step > least \<and> totp_at K secret step = pin) [counter + 1, counter, counter - 1]))"

definition lower_char :: "char \<Rightarrow> char" where
  "lower_char c =
     (if (65 \<le> code c \<and> code c \<le> 90) \<or> (192 \<le> code c \<and> code c \<le> 222 \<and> code c \<noteq> 215)
      then char_of (code c + 32) else c)"

definition recovery_form :: "string \<Rightarrow> string" where
  "recovery_form pin = map lower_char (filter (\<lambda>c. c \<noteq> CHR ''-'') (py_strip pin))"

definition is_recovery :: "string \<Rightarrow> bool" where
  "is_recovery c = (length c = 20 \<and>
     list_all (\<lambda>x. is_dec x \<or> (97 \<le> code x \<and> code x \<le> 102)) c)"

definition verify_factor ::
  "crypto \<Rightarrow> administrator \<Rightarrow> factor \<Rightarrow> string \<Rightarrow> time \<Rightarrow> auth_error + factor option" where
  "verify_factor K a f pin now =
     (case fa_secret f of
        None \<Rightarrow> Inr None
      | Some sealed \<Rightarrow>
          if sealed = [] then Inr None
          else if is_recovery (recovery_form pin) then
            (let target = sha K (ad_name a @ '':'' @ recovery_form pin)
             in if target \<in> set (fa_recovery f)
                then Inr (Some (f\<lparr>fa_recovery := filter (\<lambda>c. c \<noteq> target) (fa_recovery f)\<rparr>))
                else Inr None)
          else
            (case open_secret K a sealed of
               Inl e \<Rightarrow> Inl e
             | Inr secret \<Rightarrow>
               (case totp_step K secret (py_strip pin) (fa_last f) now of
                  None \<Rightarrow> Inr None
                | Some step \<Rightarrow> Inr (Some (f\<lparr>fa_last := step\<rparr>)))))"

definition grouped :: "string \<Rightarrow> string" where
  "grouped c = py_join ''-'' (map (\<lambda>i. take 5 (drop i c)) [0, 5, 10, 15])"

definition new_recovery_codes :: "crypto \<Rightarrow> administrator \<Rightarrow> nat \<Rightarrow> string list \<times> string list" where
  "new_recovery_codes K a n =
     (let codes = map (draw_code K) [n ..< n + 10]
      in (map (\<lambda>c. sha K (ad_name a @ '':'' @ c)) codes, map grouped codes))"

section \<open>Sessions and challenges\<close>

definition new_session :: "crypto \<Rightarrow> administrator \<Rightarrow> time \<Rightarrow> time \<Rightarrow> auth \<Rightarrow> auth \<times> string \<times> identity" where
  "new_session K a lifetime now s =
     (let token = draw_token K (draws s); csrf = draw_token K (Suc (draws s));
          row = \<lparr>os_hash = sha K token, os_csrf = csrf, os_expires = now + lifetime, os_seen = now\<rparr>
      in (s\<lparr>sessions := filter (\<lambda>r. \<not> os_expires r \<le> now) (sessions s) @ [row],
            draws := draws s + 2\<rparr>, token, \<lparr>id_username = ad_name a, id_csrf = csrf\<rparr>))"

text \<open>There is one administrator, so a new challenge replaces every earlier one.\<close>

definition new_challenge ::
  "crypto \<Rightarrow> administrator \<Rightarrow> challenge_kind \<Rightarrow> string option \<Rightarrow> time \<Rightarrow> auth \<Rightarrow> auth \<times> string \<times> time" where
  "new_challenge K a kind pending now s =
     (let token = draw_token K (draws s);
          row = \<lparr>oc_hash = sha K token, oc_credential = ad_hash a, oc_kind = kind,
                 oc_expires = now + 300000, oc_attempts = 0, oc_pending = pending\<rparr>
      in (s\<lparr>challenges := [row], draws := Suc (draws s)\<rparr>, token, now + 300000))"

definition login ::
  "crypto \<Rightarrow> string \<Rightarrow> string \<Rightarrow> time \<Rightarrow> time \<Rightarrow> auth \<Rightarrow> (auth_result option) outcome" where
  "login K username password lifetime now s =
     (case admin s of
        None \<Rightarrow> (s, Inr None)
      | Some a \<Rightarrow>
          if ad_name a \<noteq> username \<or> \<not> verifies K password (ad_hash a) then (s, Inr None)
          else if enrolled s then
            (let (s1, token, _) = new_challenge K a VerifyFactor None now s
             in (s1, Inr (Some \<lparr>ar_token = None, ar_identity = None, ar_challenge = Some token,
                               ar_enrollment = None, ar_codes = []\<rparr>)))
          else if mandatory s then
            (let secret = draw_secret K (draws s)
             in case seal_secret K a secret (draws s) of
                  Inl e \<Rightarrow> (s, Inl e)
                | Inr sealed \<Rightarrow>
                  (let (s1, token, expires) =
                         new_challenge K a EnrollFactor (Some sealed) now (s\<lparr>draws := Suc (draws s)\<rparr>)
                   in (s1, Inr (Some \<lparr>ar_token = None, ar_identity = None, ar_challenge = Some token,
                         ar_enrollment = Some \<lparr>en_secret = secret, en_uri = totp_uri K secret (ad_name a),
                                               en_expires = expires\<rparr>, ar_codes = []\<rparr>))))
          else
            (let (s1, token, ident) = new_session K a lifetime now s
             in (s1, Inr (Some \<lparr>ar_token = Some token, ar_identity = Some ident, ar_challenge = None,
                               ar_enrollment = None, ar_codes = []\<rparr>))))"

definition factor_key :: "crypto \<Rightarrow> string" where
  "factor_key K = sha K ''administrator:second-factor:1''"

text \<open>\<open>_consume_factor_attempt\<close>: ten verifications a minute whatever the peer or the challenge.\<close>

definition consume_factor_attempt :: "crypto \<Rightarrow> time \<Rightarrow> auth \<Rightarrow> auth_error + auth" where
  "consume_factor_attempt K now s =
     (let key = factor_key K; bump = (\<lambda>f. s\<lparr>windows := tbl_upd (\<lambda>w. lw_key w = key) f (windows s)\<rparr>)
      in case tbl_get lw_key key (windows s) of
           None \<Rightarrow> Inr (s\<lparr>windows := windows s @ [\<lparr>lw_key = key, lw_attempts = 1, lw_expires = now + 60000\<rparr>]\<rparr>)
         | Some w \<Rightarrow>
             if lw_expires w \<le> now then Inr (bump (\<lambda>x. x\<lparr>lw_attempts := 1, lw_expires := now + 60000\<rparr>))
             else if lw_attempts w \<ge> 10 then Inl RateLimited
             else Inr (bump (\<lambda>x. x\<lparr>lw_attempts := Suc (lw_attempts x)\<rparr>)))"

text \<open>The check of a code against a challenge: the factor afterwards and the new recovery codes.\<close>

definition challenge_accepts ::
  "crypto \<Rightarrow> administrator \<Rightarrow> challenge \<Rightarrow> auth \<Rightarrow> string \<Rightarrow> time \<Rightarrow>
   auth_error + (factor \<times> string list) option" where
  "challenge_accepts K a row s pin now =
     (case oc_kind row of
        VerifyFactor \<Rightarrow>
          (case second_factor s of
             None \<Rightarrow> Inr None
           | Some f \<Rightarrow> map_sum id (map_option (\<lambda>f'. (f', []))) (verify_factor K a f pin now))
      | EnrollFactor \<Rightarrow>
          (let f = factor_row s
           in if \<not> present (oc_pending row) \<or> present (fa_secret f) then Inr None
              else
                (case open_secret K a (the (oc_pending row)) of
                   Inl e \<Rightarrow> Inl e
                 | Inr secret \<Rightarrow>
                   (case totp_step K secret (py_strip pin) (-1) now of
                      None \<Rightarrow> Inr None
                    | Some step \<Rightarrow>
                      (let (hashes, codes) = new_recovery_codes K a (draws s)
                       in Inr (Some (f\<lparr>fa_secret := oc_pending row, fa_last := step, fa_recovery := hashes\<rparr>,
                                     codes)))))))"

text \<open>
  \<open>complete_login\<close> once its challenge was found good: the attempt counted on the challenge, the
  session granted for an accepted code, and the two together.
\<close>

definition count_attempt :: "challenge \<Rightarrow> auth \<Rightarrow> auth" where
  "count_attempt row s = s\<lparr>challenges := tbl_upd (\<lambda>c. oc_hash c = oc_hash row)
       (\<lambda>c. c\<lparr>oc_attempts := Suc (oc_attempts c)\<rparr>) (challenges s),
     second_factor := (if oc_kind row = EnrollFactor then Some (factor_row s) else second_factor s)\<rparr>"

definition grant_login ::
  "crypto \<Rightarrow> administrator \<Rightarrow> challenge_kind \<Rightarrow> factor \<Rightarrow> string list \<Rightarrow> time \<Rightarrow> time \<Rightarrow> auth \<Rightarrow> auth_result outcome" where
  "grant_login K a kind f codes lifetime now s =
     (let s2 = s\<lparr>second_factor := Some f, draws := draws s + length codes\<rparr>;
          s3 = (if kind = EnrollFactor then advance_epoch K (s2\<lparr>sessions := []\<rparr>) else s2);
          (s4, token, ident) = new_session K a lifetime now (s3\<lparr>challenges := []\<rparr>)
      in (s4, Inr \<lparr>ar_token = Some token, ar_identity = Some ident, ar_challenge = None,
                   ar_enrollment = None, ar_codes = codes\<rparr>))"

definition finish_challenge ::
  "crypto \<Rightarrow> administrator \<Rightarrow> challenge \<Rightarrow> string \<Rightarrow> time \<Rightarrow> time \<Rightarrow> auth \<Rightarrow> auth \<Rightarrow> auth_result outcome" where
  "finish_challenge K a row pin lifetime now s s1 =
     (case challenge_accepts K a row (count_attempt row s1) pin now of
        Inl e \<Rightarrow> (s, Inl e)
      | Inr None \<Rightarrow> (count_attempt row s1, Inl AuthenticationError)
      | Inr (Some (f, codes)) \<Rightarrow> grant_login K a (oc_kind row) f codes lifetime now (count_attempt row s1))"

definition challenge_valid :: "administrator \<Rightarrow> challenge \<Rightarrow> time \<Rightarrow> bool" where
  "challenge_valid a row now =
     (oc_credential row = ad_hash a \<and> oc_expires row > now \<and> oc_attempts row < 5)"

definition complete_login ::
  "crypto \<Rightarrow> string \<Rightarrow> string \<Rightarrow> time \<Rightarrow> time \<Rightarrow> auth \<Rightarrow> auth_result outcome" where
  "complete_login K token pin lifetime now s =
     (if token = [] \<or> length token > 128 then (s, Inl AuthenticationError)
      else
        (case (get_challenge (sha K token) s, admin s) of
           (None, _) \<Rightarrow> (s, Inl AuthenticationError)
         | (Some row, None) \<Rightarrow>
             (s\<lparr>challenges := tbl_del oc_hash (oc_hash row) (challenges s)\<rparr>, Inl AuthenticationError)
         | (Some row, Some a) \<Rightarrow>
             if \<not> challenge_valid a row now then
               (s\<lparr>challenges := tbl_del oc_hash (oc_hash row) (challenges s)\<rparr>, Inl AuthenticationError)
             else
               (case consume_factor_attempt K now s of
                  Inl e \<Rightarrow> (s, Inl e)
                | Inr s1 \<Rightarrow> finish_challenge K a row pin lifetime now s s1)))"

definition authenticate :: "crypto \<Rightarrow> string option \<Rightarrow> time \<Rightarrow> time \<Rightarrow> auth \<Rightarrow> auth \<times> identity option" where
  "authenticate K token idle now s =
     (case token of
        None \<Rightarrow> (s, None)
      | Some t \<Rightarrow>
          if t = [] \<or> length t > 128 then (s, None)
          else
            (let usable = (\<lambda>r. os_hash r = sha K t \<and> os_expires r > now \<and> os_seen r > now - idle)
             in case List.find usable (sessions s) of
                  None \<Rightarrow> (s, None)
                | Some r \<Rightarrow>
                  (case admin s of
                     Some a \<Rightarrow>
                       if mandatory s \<and> \<not> enrolled s
                       then (s\<lparr>sessions := tbl_del os_hash (sha K t) (sessions s)\<rparr>, None)
                       else (s\<lparr>sessions := tbl_upd usable (\<lambda>x. x\<lparr>os_seen := now\<rparr>) (sessions s)\<rparr>,
                             Some \<lparr>id_username = ad_name a, id_csrf = os_csrf r\<rparr>)
                   | None \<Rightarrow> (s\<lparr>sessions := tbl_del os_hash (sha K t) (sessions s)\<rparr>, None))))"

definition logout :: "crypto \<Rightarrow> string \<Rightarrow> auth \<Rightarrow> auth" where
  "logout K token s = s\<lparr>sessions := tbl_del os_hash (sha K token) (sessions s)\<rparr>"

section \<open>Changing the second factor, the policy and the password\<close>

record security_state =
  se_enabled :: bool
  se_available :: bool
  se_codes :: nat
  se_required :: bool

definition security :: "crypto \<Rightarrow> auth \<Rightarrow> security_state" where
  "security K s = \<lparr>se_enabled = enrolled s, se_available = has_key K,
     se_codes = (case second_factor s of None \<Rightarrow> 0 | Some f \<Rightarrow> length (fa_recovery f)),
     se_required = mandatory s\<rparr>"

text \<open>An unexpired session and the right password: the administrator, if both are there.\<close>

definition password_proof :: "crypto \<Rightarrow> string \<Rightarrow> string \<Rightarrow> time \<Rightarrow> auth \<Rightarrow> administrator option" where
  "password_proof K session_token password now s =
     (case admin s of
        None \<Rightarrow> None
      | Some a \<Rightarrow>
          if live (get_session (sha K session_token) s) (\<lambda>r. os_expires r > now) \<and>
             verifies K password (ad_hash a) then Some a else None)"

definition begin_totp :: "crypto \<Rightarrow> string \<Rightarrow> string \<Rightarrow> time \<Rightarrow> auth \<Rightarrow> enrollment outcome" where
  "begin_totp K session_token password now s =
     (case password_proof K session_token password now s of
        None \<Rightarrow> (s, Inl AuthenticationError)
      | Some a \<Rightarrow>
          if enrolled s then
            (s, Inl (SecurityConflict ''Administrator two-factor authentication is already enabled''))
          else
            (let secret = draw_secret K (draws s)
             in case seal_secret K a secret (draws s) of
                  Inl e \<Rightarrow> (s, Inl e)
                | Inr sealed \<Rightarrow>
                  (advance_epoch K (s\<lparr>second_factor := Some ((factor_row s)\<lparr>fa_pending := Some sealed,
                       fa_pending_expires := now + 600000, fa_pending_session := Some (sha K session_token)\<rparr>),
                     draws := Suc (draws s)\<rparr>),
                   Inr \<lparr>en_secret = secret, en_uri = totp_uri K secret (ad_name a), en_expires = now + 600000\<rparr>)))"

definition keep_only :: "string \<Rightarrow> auth \<Rightarrow> auth" where
  "keep_only h s = s\<lparr>sessions := filter (\<lambda>r. os_hash r = h) (sessions s), challenges := []\<rparr>"

text \<open>A pending enrollment that this session may still confirm.\<close>

definition pending_for :: "factor \<Rightarrow> string \<Rightarrow> time \<Rightarrow> bool" where
  "pending_for f h now = (\<not> present (fa_secret f) \<and> present (fa_pending f) \<and>
     fa_pending_expires f > now \<and> fa_pending_session f = Some h)"

definition confirm_totp :: "crypto \<Rightarrow> string \<Rightarrow> string \<Rightarrow> time \<Rightarrow> auth \<Rightarrow> (string list) outcome" where
  "confirm_totp K session_token pin now s =
     (let h = sha K session_token; conflict = (s, Inl (SecurityConflict ''Two-factor enrollment expired; start again''))
      in case (admin s, second_factor s) of
           (Some a, Some f) \<Rightarrow>
             if \<not> live (get_session h s) (\<lambda>r. os_expires r > now) \<or> \<not> pending_for f h now then conflict
             else
               (case open_secret K a (the (fa_pending f)) of
                  Inl e \<Rightarrow> (s, Inl e)
                | Inr secret \<Rightarrow>
                  (case totp_step K secret (py_strip pin) (-1) now of
                     None \<Rightarrow> (s, Inl AuthenticationError)
                   | Some step \<Rightarrow>
                     (let (hashes, codes) = new_recovery_codes K a (draws s);
                          f' = f\<lparr>fa_secret := fa_pending f, fa_last := step, fa_pending := None,
                                 fa_pending_session := None, fa_pending_expires := 0, fa_recovery := hashes\<rparr>
                      in (advance_epoch K (keep_only h (s\<lparr>second_factor := Some f', draws := draws s + 10\<rparr>)), Inr codes))))
         | _ \<Rightarrow> conflict)"

text \<open>\<open>_security_proof\<close>: the administrator and the factor after the pin was spent.\<close>

definition security_proof ::
  "crypto \<Rightarrow> string \<Rightarrow> string \<Rightarrow> string \<Rightarrow> time \<Rightarrow> auth \<Rightarrow> auth_error + (administrator \<times> factor)" where
  "security_proof K session_token password pin now s =
     (case (password_proof K session_token password now s, second_factor s) of
        (Some a, Some f) \<Rightarrow>
          if \<not> present (fa_secret f) then Inl AuthenticationError
          else
            (case verify_factor K a f pin now of
               Inl e \<Rightarrow> Inl e
             | Inr None \<Rightarrow> Inl AuthenticationError
             | Inr (Some f') \<Rightarrow> Inr (a, f'))
      | _ \<Rightarrow> Inl AuthenticationError)"

definition update_totp ::
  "crypto \<Rightarrow> string \<Rightarrow> string \<Rightarrow> string \<Rightarrow> bool \<Rightarrow> time \<Rightarrow> auth \<Rightarrow> (string list) outcome" where
  "update_totp K session_token password pin disable now s =
     (case security_proof K session_token password pin now s of
        Inl e \<Rightarrow> (s, Inl e)
      | Inr (a, f) \<Rightarrow>
          if disable \<and> mandatory s then
            (s, Inl (SecurityConflict ''Disable the mandatory administrator 2FA policy first''))
          else
            (let h = sha K session_token
             in if disable then (advance_epoch K (keep_only h (s\<lparr>second_factor := Some new_factor\<rparr>)), Inr [])
                else
                  (let (hashes, codes) = new_recovery_codes K a (draws s)
                   in (advance_epoch K (keep_only h (s\<lparr>second_factor := Some (f\<lparr>fa_recovery := hashes\<rparr>),
                         draws := draws s + 10\<rparr>)), Inr codes))))"

definition update_policy ::
  "crypto \<Rightarrow> string \<Rightarrow> string \<Rightarrow> string \<Rightarrow> bool \<Rightarrow> time \<Rightarrow> auth \<Rightarrow> security_state outcome" where
  "update_policy K session_token password pin required now s =
     (case password_proof K session_token password now s of
        None \<Rightarrow> (s, Inl AuthenticationError)
      | Some a \<Rightarrow>
          if required \<and> \<not> enrolled s then
            (s, Inl (SecurityConflict ''Enable administrator two-factor authentication before requiring it''))
          else
            (case (case second_factor s of
                     None \<Rightarrow> Inr (Some None)
                   | Some f \<Rightarrow>
                       if present (fa_secret f) then map_sum id (map_option Some) (verify_factor K a f pin now)
                       else Inr (Some (Some f))) of
               Inl e \<Rightarrow> (s, Inl e)
             | Inr None \<Rightarrow> (s, Inl AuthenticationError)
             | Inr (Some f) \<Rightarrow>
               (let s1 = advance_epoch K (keep_only (sha K session_token)
                           (s\<lparr>second_factor := f, require_totp := Some required\<rparr>))
                in (s1, Inr (security K s1)))))"

definition change_password :: "crypto \<Rightarrow> string \<Rightarrow> string \<Rightarrow> auth \<Rightarrow> auth \<times> bool" where
  "change_password K current_password new_password s =
     (case admin s of
        None \<Rightarrow> (s, False)
      | Some a \<Rightarrow>
          if \<not> verifies K current_password (ad_hash a) then (s, False)
          else
            (advance_epoch K (s\<lparr>admin := Some (a\<lparr>ad_hash := hash_password K (draws s) new_password\<rparr>),
               draws := Suc (draws s), sessions := [], challenges := [],
               second_factor := map_option (\<lambda>f. f\<lparr>fa_pending := None, fa_pending_session := None,
                 fa_pending_expires := 0\<rparr>) (second_factor s)\<rparr>), True))"

end
