(* ===== verification/Admin_Setup.thy ===== *)
theory Admin_Setup
  imports Admin_Auth
begin

text \<open>
  First-run setup (\<open>services/initial_setup.py\<close>), site branding (\<open>services/branding.py\<close>,
  \<open>domain/branding.py\<close>), the profile fields of \<open>domain/auth.py\<close> and the authorization of backup
  jobs (\<open>services/backup_authorization.py\<close>), which all work on the administrator's state, and the
  machine over every handler that changes that state. Titles are Latin-1 text: the Unicode
  categories are written out for code points below 256.
\<close>

section \<open>Titles and profile fields\<close>

text \<open>Categories Cc (controls) and Cf (the soft hyphen) are refused; Zs does not count as visible.\<close>

definition hidden_char :: "char \<Rightarrow> bool" where
  "hidden_char c = (code c < 32 \<or> (127 \<le> code c \<and> code c < 160) \<or> code c = 173)"

definition visible_char :: "char \<Rightarrow> bool" where
  "visible_char c = ((32 < code c \<and> code c < 127) \<or> (160 < code c \<and> code c \<noteq> 173))"

definition branding_title :: "string \<Rightarrow> nat \<Rightarrow> string option" where
  "branding_title value limit =
     (if list_ex hidden_char value then None
      else
        (let r = py_strip value
         in if \<not> list_ex visible_char value \<or> \<not> (1 \<le> length r \<and> length r \<le> limit) then None else Some r))"

definition profile_text :: "string \<Rightarrow> nat \<Rightarrow> bool \<Rightarrow> string option" where
  "profile_text value limit optional =
     (if list_ex (\<lambda>c. code c < 32 \<or> code c = 127) value then None
      else
        (let r = squash_spaces value
         in if r = [] \<and> optional then Some []
            else if r = [] \<or> length r > limit then None else Some r))"

text \<open>
  The pattern \<open>[^\s@]+@[^\s@]+\.[^\s@]+\<close>: one \<open>@\<close> and no space, something before it, and after it
  a dot that is neither the first nor the last character.
\<close>

definition inner_dot :: "string \<Rightarrow> bool" where
  "inner_dot d = (CHR ''.'' \<in> set (butlast (tl d)))"

definition email_pattern :: "string \<Rightarrow> bool" where
  "email_pattern v =
     (let (local, found, rest) = py_partition (CHR ''@'') v
      in found \<and> local \<noteq> [] \<and> CHR ''@'' \<notin> set rest \<and> \<not> list_ex py_space v \<and> inner_dot rest)"

definition valid_email :: "string \<Rightarrow> string option" where
  "valid_email value =
     (let r = py_strip value
      in if r \<noteq> [] \<and> (\<not> email_pattern r \<or> list_ex (\<lambda>c. code c < 33 \<or> code c = 127) r) then None else Some r)"

section \<open>Branding\<close>

definition max_revision :: nat where
  "max_revision = 9007199254740991"

lemma max_revision: "max_revision = 2 ^ 53 - 1"
  by (simp add: max_revision_def)

definition unavailable :: auth_error where "unavailable = SetupError 503 ''setup_unavailable''"

datatype branding_error = BrandingInvalid | BrandingConflict | BrandingUnavailable

text \<open>\<open>_settings\<close>: the stored row must exist, be canonical and have a revision in range.\<close>

definition settings :: "auth \<Rightarrow> branding_error + branding" where
  "settings s =
     (case site s of
        None \<Rightarrow> Inl BrandingUnavailable
      | Some b \<Rightarrow>
          if br_revision b \<le> max_revision \<and> branding_title (br_site b) 80 = Some (br_site b) \<and>
             branding_title (br_brand b) 40 = Some (br_brand b) then Inr b
          else Inl BrandingUnavailable)"

definition create_schema :: "auth \<Rightarrow> branding_error + auth" where
  "create_schema s =
     (let s' = (if site s = None
                then s\<lparr>site := Some \<lparr>br_revision = 0, br_site = ''Open Node'', br_brand = ''Open Node''\<rparr>\<rparr> else s)
      in map_sum id (\<lambda>_. s') (settings s'))"

definition update_settings ::
  "string \<Rightarrow> string \<Rightarrow> nat \<Rightarrow> auth \<Rightarrow> branding_error + (auth \<times> branding)" where
  "update_settings site_title brand_title expected s =
     (case (branding_title site_title 80, branding_title brand_title 40) of
        (Some st, Some bt) \<Rightarrow>
          if expected > max_revision then Inl BrandingInvalid
          else
            (case settings s of
               Inl e \<Rightarrow> Inl e
             | Inr saved \<Rightarrow>
                 if br_revision saved \<noteq> expected then Inl BrandingConflict
                 else if br_revision saved = max_revision then Inl BrandingUnavailable
                 else
                   (let s' = s\<lparr>site := Some \<lparr>br_revision = Suc (br_revision saved), br_site = st, br_brand = bt\<rparr>\<rparr>
                    in map_sum id (\<lambda>b. (s', b)) (settings s')))
      | _ \<Rightarrow> Inl BrandingInvalid)"

section \<open>First-run setup\<close>

definition setup_digest :: "crypto \<Rightarrow> string \<Rightarrow> string" where
  "setup_digest K token = sha K (''open-node/initial-setup/v1'' @ CHR 0x00 # token)"

definition setup_completed :: "auth \<Rightarrow> bool" where
  "setup_completed s \<longleftrightarrow> admin s \<noteq> None \<or> epoch s \<noteq> None \<or>
     (case setup_ticket s of None \<Rightarrow> False | Some t \<Rightarrow> ti_completed t \<noteq> None)"

definition setup_status :: "auth \<Rightarrow> bool \<times> bool" where
  "setup_status s = (setup_completed s, \<not> setup_completed s)"

definition issue_ticket :: "crypto \<Rightarrow> time \<Rightarrow> auth \<Rightarrow> (string \<times> time) outcome" where
  "issue_ticket K now s =
     (if setup_completed s then (s, Inl (SetupError 409 ''setup_already_completed''))
      else
        (let token = draw_token K (draws s)
         in (s\<lparr>setup_ticket := Some \<lparr>ti_hash = Some (setup_digest K token), ti_expires = now + 1800000,
                ti_completed = None\<rparr>, draws := Suc (draws s)\<rparr>, Inr (token, now + 1800000))))"

definition authorize_ticket :: "crypto \<Rightarrow> string \<Rightarrow> time \<Rightarrow> auth \<Rightarrow> auth_error + ticket" where
  "authorize_ticket K token now s =
     (if setup_completed s then Inl (SetupError 409 ''setup_already_completed'')
      else
        (case setup_ticket s of
           None \<Rightarrow> Inl (SetupError 403 ''setup_ticket_invalid'')
         | Some t \<Rightarrow>
             if setup_digest K token \<noteq> (if present (ti_hash t) then the (ti_hash t) else replicate 64 (CHR ''0'')) \<or>
                ti_expires t \<le> now
             then Inl (SetupError 403 ''setup_ticket_invalid'') else Inr t))"

definition authorize_restore :: "crypto \<Rightarrow> string \<Rightarrow> time \<Rightarrow> auth \<Rightarrow> auth_error + string" where
  "authorize_restore K token now s = map_sum id (\<lambda>_. setup_digest K token) (authorize_ticket K token now s)"

record setup_request =
  sr_username :: string
  sr_password :: string
  sr_site :: string
  sr_brand :: string
  sr_email :: string
  sr_nickname :: string
  sr_avatar :: string

definition complete_setup :: "crypto \<Rightarrow> setup_request \<Rightarrow> time \<Rightarrow> auth \<Rightarrow> unit outcome" where
  "complete_setup K r now s =
     (if setup_completed s then (s, Inl (SetupError 409 ''setup_already_completed''))
      else
        (case settings s of
           Inl e \<Rightarrow> (s, Inl unavailable)
         | Inr saved \<Rightarrow>
             if br_revision saved \<ge> max_revision then (s, Inl unavailable)
             else
               (let hashed = hash_password K (draws s) (sr_password r);
                    s1 = advance_epoch K (s\<lparr>draws := Suc (draws s),
                      site := Some \<lparr>br_revision = Suc (br_revision saved), br_site = sr_site r, br_brand = sr_brand r\<rparr>,
                      admin := Some \<lparr>ad_name = sr_username r, ad_hash = hashed\<rparr>,
                      admin_profile := Some \<lparr>pf_email = sr_email r,
                        pf_nickname = (if sr_nickname r = [] then sr_username r else sr_nickname r),
                        pf_avatar = sr_avatar r, pf_revision = 0\<rparr>,
                      sessions := [], challenges := []\<rparr>)
                in (s1\<lparr>setup_ticket := Some \<lparr>ti_hash = None, ti_expires = 0, ti_completed = Some now\<rparr>\<rparr>, Inr ()))))"

section \<open>Backup authorization\<close>

record backup_authorization =
  ba_session :: string
  ba_epoch :: string
  ba_expires :: time

text \<open>The code check of \<open>issue\<close>: the factor afterwards, \<open>None\<close> for a refusal.\<close>

definition backup_code :: "crypto \<Rightarrow> administrator \<Rightarrow> auth \<Rightarrow> string \<Rightarrow> time \<Rightarrow> factor option option" where
  "backup_code K a s pin now =
     (case second_factor s of
        None \<Rightarrow> Some None
      | Some f \<Rightarrow>
          if present (fa_secret f) then
            (case verify_factor K a f pin now of Inr (Some f') \<Rightarrow> Some (Some f') | _ \<Rightarrow> None)
          else Some (Some f))"

definition issue_backup ::
  "crypto \<Rightarrow> string \<Rightarrow> string \<Rightarrow> string \<Rightarrow> time \<Rightarrow> time \<Rightarrow> auth \<Rightarrow> backup_authorization outcome" where
  "issue_backup K token password pin idle now s =
     (if token = [] \<or> length token > 128 then (s, Inl BackupAuthorizationError)
      else
        (let h = sha K token; (s1, allowed) = allow_login_attempt K ''administrator:backup'' 5 now s
         in if \<not> allowed then (s1, Inl RateLimited)
            else
              (case (admin s1, get_session h s1) of
                 (Some a, Some r) \<Rightarrow>
                   if os_expires r \<le> now \<or> os_seen r \<le> now - idle \<or> password = [] \<or> length password > 1024 \<or>
                      length pin > 64 \<or> \<not> verifies K password (ad_hash a) \<or> (mandatory s1 \<and> \<not> enrolled s1)
                   then (s1, Inl BackupAuthorizationError)
                   else
                     (case backup_code K a s1 pin now of
                        None \<Rightarrow> (s1, Inl BackupAuthorizationError)
                      | Some f \<Rightarrow>
                        (let s2 = s1\<lparr>second_factor := f\<rparr>;
                             s3 = (if epoch s2 = None then advance_epoch K s2 else s2)
                         in (s3, Inr \<lparr>ba_session = h, ba_epoch = the (epoch s3),
                               ba_expires = min (os_expires r) (now + 900000)\<rparr>)))
               | _ \<Rightarrow> (s1, Inl BackupAuthorizationError))))"

definition is_authorized :: "backup_authorization \<Rightarrow> time \<Rightarrow> time \<Rightarrow> auth \<Rightarrow> bool" where
  "is_authorized b idle now s =
     (if ba_expires b \<le> now then False
      else
        (case (get_session (ba_session b) s, epoch s, admin s) of
           (Some r, Some e, Some a) \<Rightarrow>
             os_expires r > now \<and> os_seen r > now - idle \<and> e = ba_epoch b \<and> \<not> (mandatory s \<and> \<not> enrolled s)
         | _ \<Rightarrow> False))"

section \<open>The administrator as a machine\<close>

datatype acall =
    SetAdministrator string string bool
  | UpdateProfile string string string string nat
  | AllowAttempt string nat
  | Login string string time
  | CompleteLogin string string time
  | Authenticate "string option" time
  | Logout string
  | BeginTotp string string
  | ConfirmTotp string string
  | UpdateTotp string string string bool
  | UpdatePolicy string string string bool
  | ChangePassword string string
  | IssueTicket
  | CompleteSetup setup_request
  | IssueBackup string string string time
  | UpdateBranding string string nat

definition auth_step :: "crypto \<Rightarrow> auth \<Rightarrow> acall \<times> time \<Rightarrow> auth" where
  "auth_step K s cn =
     (case cn of (c, now) \<Rightarrow>
       (case c of
          SetAdministrator u p r \<Rightarrow> fst (set_administrator K u p r now s)
        | UpdateProfile u e n v x \<Rightarrow> fst (update_profile K u e n v x s)
        | AllowAttempt p l \<Rightarrow> fst (allow_login_attempt K p l now s)
        | Login u p l \<Rightarrow> fst (login K u p l now s)
        | CompleteLogin t p l \<Rightarrow> fst (complete_login K t p l now s)
        | Authenticate t i \<Rightarrow> fst (authenticate K t i now s)
        | Logout t \<Rightarrow> logout K t s
        | BeginTotp t p \<Rightarrow> fst (begin_totp K t p now s)
        | ConfirmTotp t p \<Rightarrow> fst (confirm_totp K t p now s)
        | UpdateTotp t p c d \<Rightarrow> fst (update_totp K t p c d now s)
        | UpdatePolicy t p c r \<Rightarrow> fst (update_policy K t p c r now s)
        | ChangePassword p q \<Rightarrow> fst (change_password K p q s)
        | IssueTicket \<Rightarrow> fst (issue_ticket K now s)
        | CompleteSetup r \<Rightarrow> fst (complete_setup K r now s)
        | IssueBackup t p c i \<Rightarrow> fst (issue_backup K t p c i now s)
        | UpdateBranding a b x \<Rightarrow> (case update_settings a b x s of Inl e \<Rightarrow> s | Inr (s', _) \<Rightarrow> s')))"

text \<open>A database just created: its tables are empty but for the branding row.\<close>

definition fresh_auth :: auth where
  "fresh_auth = \<lparr>admin = None, admin_profile = None, second_factor = None, require_totp = None, epoch = None,
     setup_ticket = None, sessions = [], windows = [], challenges = [],
     site = Some \<lparr>br_revision = 0, br_site = ''Open Node'', br_brand = ''Open Node''\<rparr>, draws = 0\<rparr>"

definition auth_history :: "crypto \<Rightarrow> (acall \<times> time) list \<Rightarrow> auth" where
  "auth_history K calls = run (auth_step K) fresh_auth calls"

end
