(* ===== verification/Admin_Safety.thy ===== *)
theory Admin_Safety
  imports Admin_Setup
begin

text \<open>
  The properties of the administrator's accounts over every history that starts with an empty
  database: what later states keep of earlier ones, then sessions, backup authorizations, the
  mandatory second factor, replay, the attempt budget, and first-run setup.
\<close>

section \<open>How states evolve\<close>

text \<open>
  \<open>later\<close>: draws are never reused, the epoch and the sessions only change to freshly drawn values
  or disappear, and a completed setup stays completed.
\<close>

definition drawn_epoch :: "crypto \<Rightarrow> auth \<Rightarrow> auth \<Rightarrow> bool" where
  "drawn_epoch K s s' \<longleftrightarrow> epoch s' = epoch s \<or>
     (\<exists>n. draws s \<le> n \<and> n < draws s' \<and> epoch s' = Some (draw_epoch K n))"

definition drawn_sessions :: "crypto \<Rightarrow> auth \<Rightarrow> auth \<Rightarrow> bool" where
  "drawn_sessions K s s' \<longleftrightarrow> (\<forall>h \<in> os_hash ` set (sessions s'). h \<in> os_hash ` set (sessions s) \<or>
     (\<exists>n. draws s \<le> n \<and> n < draws s' \<and> h = sha K (draw_token K n)))"

definition stays_completed :: "auth \<Rightarrow> auth \<Rightarrow> bool" where
  "stays_completed s s' \<longleftrightarrow> (setup_completed s \<longrightarrow> setup_completed s') \<and> (epoch s \<noteq> None \<longrightarrow> epoch s' \<noteq> None)"

definition later :: "crypto \<Rightarrow> auth \<Rightarrow> auth \<Rightarrow> bool" where
  "later K s s' \<longleftrightarrow> draws s \<le> draws s' \<and> drawn_epoch K s s' \<and> drawn_sessions K s s' \<and> stays_completed s s'"

lemma later_refl [simp, intro]: "later K s s"
  by (auto simp: later_def drawn_epoch_def drawn_sessions_def stays_completed_def)

lemma drawn_epoch_trans:
  assumes "drawn_epoch K s t" and "drawn_epoch K t u" and "draws s \<le> draws t" and "draws t \<le> draws u"
  shows "drawn_epoch K s u"
proof (cases "epoch u = epoch t")
  case True
  with assms show ?thesis unfolding drawn_epoch_def by (metis less_le_trans)
next
  case False
  with assms show ?thesis unfolding drawn_epoch_def by (metis order_trans)
qed

lemma drawn_sessions_trans:
  assumes "drawn_sessions K s t" and "drawn_sessions K t u" and "draws s \<le> draws t" and "draws t \<le> draws u"
  shows "drawn_sessions K s u"
  unfolding drawn_sessions_def
proof
  fix h assume "h \<in> os_hash ` set (sessions u)"
  then consider "h \<in> os_hash ` set (sessions t)" | n where "draws t \<le> n" "n < draws u" "h = sha K (draw_token K n)"
    using assms(2) unfolding drawn_sessions_def by blast
  then show "h \<in> os_hash ` set (sessions s) \<or> (\<exists>n. draws s \<le> n \<and> n < draws u \<and> h = sha K (draw_token K n))"
  proof cases
    case 1
    then show ?thesis using assms(1,4) unfolding drawn_sessions_def by (meson less_le_trans)
  next
    case 2
    then have "draws s \<le> n" using assms(3) by simp
    with 2 show ?thesis by blast
  qed
qed

lemma later_trans: "later K s t \<Longrightarrow> later K t u \<Longrightarrow> later K s u"
  unfolding later_def using drawn_epoch_trans drawn_sessions_trans by (simp add: stays_completed_def) blast

text \<open>A change that touches neither the epoch nor the account and adds no session.\<close>

lemma quiet_later:
  "draws s \<le> draws s' \<Longrightarrow> epoch s' = epoch s \<Longrightarrow> os_hash ` set (sessions s') \<subseteq> os_hash ` set (sessions s) \<Longrightarrow>
   (setup_completed s \<Longrightarrow> setup_completed s') \<Longrightarrow> later K s s'"
  by (auto simp: later_def drawn_epoch_def drawn_sessions_def stays_completed_def)

lemma advance_epoch_later: "later K s (advance_epoch K s)"
  by (auto simp: later_def drawn_epoch_def drawn_sessions_def stays_completed_def advance_epoch_def setup_completed_def)

lemma advance_epoch_simps [simp]:
  "sessions (advance_epoch K s) = sessions s" "admin (advance_epoch K s) = admin s"
  "second_factor (advance_epoch K s) = second_factor s" "require_totp (advance_epoch K s) = require_totp s"
  "windows (advance_epoch K s) = windows s" "challenges (advance_epoch K s) = challenges s"
  "epoch (advance_epoch K s) = Some (draw_epoch K (draws s))" "draws (advance_epoch K s) = Suc (draws s)"
  "setup_ticket (advance_epoch K s) = setup_ticket s"
  by (simp_all add: advance_epoch_def)

lemma new_session_later:
  "new_session K a lifetime now s = (s', token, ident) \<Longrightarrow> later K s s'"
  unfolding new_session_def Let_def
  by (auto simp: later_def drawn_epoch_def drawn_sessions_def stays_completed_def setup_completed_def
      intro!: exI [of _ "draws s"])

lemma completed_same:
  "admin s' = admin s \<Longrightarrow> epoch s' = epoch s \<Longrightarrow> setup_ticket s' = setup_ticket s \<Longrightarrow>
   setup_completed s' = setup_completed s"
  by (simp add: setup_completed_def)

lemma completed_admin: "admin s = Some a \<Longrightarrow> setup_completed s"
  by (simp add: setup_completed_def)

lemma later_then_epoch:
  "later K s t \<Longrightarrow> later K s (advance_epoch K t)"
  using later_trans advance_epoch_later by blast

lemma set_administrator_later: "later K s (fst (set_administrator K u p r now s))"
proof -
  have ticket: "later K t (t\<lparr>setup_ticket := x\<rparr>)" if "admin t \<noteq> None" for t x
    using that by (intro quiet_later) (auto simp: setup_completed_def)
  show ?thesis
    unfolding set_administrator_def Let_def
    by (auto split: option.splits intro!: later_trans [OF later_then_epoch ticket] quiet_later
        simp: setup_completed_def)
qed

lemma update_profile_later: "later K s (fst (update_profile K u e n v x s))"
  unfolding update_profile_def Let_def
  by (auto split: option.splits intro!: later_then_epoch quiet_later simp: setup_completed_def)

lemma allow_login_attempt_frame:
  "allow_login_attempt K peer limit now s = (s', b) \<Longrightarrow>
   \<exists>ws. s' = s\<lparr>windows := ws\<rparr>"
  unfolding allow_login_attempt_def Let_def by auto

lemma windows_later: "later K s (s\<lparr>windows := ws\<rparr>)"
  by (rule quiet_later) (auto simp: setup_completed_def)

lemma allow_login_attempt_later: "later K s (fst (allow_login_attempt K peer limit now s))"
  using allow_login_attempt_frame windows_later by (metis prod.collapse)

lemma new_challenge_later: "new_challenge K a k p now s = (s', token, e) \<Longrightarrow> later K s s'"
  unfolding new_challenge_def Let_def by (auto intro!: quiet_later simp: setup_completed_def)

lemma draws_later: "later K s (s\<lparr>draws := Suc (draws s)\<rparr>)"
  by (rule quiet_later) (auto simp: setup_completed_def)

lemma login_later: "later K s (fst (login K u p l now s))"
  unfolding login_def Let_def
  by (auto split: option.splits sum.splits prod.splits
      intro: new_challenge_later new_session_later later_trans [OF draws_later])

lemma consume_frame:
  "consume_factor_attempt K now s = Inr s' \<Longrightarrow> \<exists>ws. s' = s\<lparr>windows := ws\<rparr>"
  unfolding consume_factor_attempt_def Let_def by (auto split: option.splits if_splits)

lemma count_attempt_later: "later K s (count_attempt row s)"
  unfolding count_attempt_def by (rule quiet_later) (auto simp: setup_completed_def)

lemma grant_login_later: "later K s (fst (grant_login K a kind f codes l now s))"
proof -
  have u: "later K s (s\<lparr>second_factor := Some f, draws := draws s + length codes\<rparr>)"
      "later K s (s\<lparr>second_factor := Some f, draws := draws s + length codes, sessions := []\<rparr>)"
    by (rule quiet_later; auto simp: setup_completed_def)+
  have c: "later K t (t\<lparr>challenges := []\<rparr>)" for t
    by (rule quiet_later) (auto simp: setup_completed_def)
  show ?thesis
    unfolding grant_login_def Let_def
    using later_trans [OF later_trans [OF u(1) c] new_session_later]
      later_trans [OF later_trans [OF later_then_epoch [OF u(2)] c] new_session_later]
    by (auto split: prod.split)
qed

lemma finish_challenge_later:
  assumes "later K s s1" shows "later K s (fst (finish_challenge K a row pin l now s s1))"
  unfolding finish_challenge_def
  using later_trans [OF assms later_trans [OF count_attempt_later grant_login_later]]
    later_trans [OF assms count_attempt_later]
  by (auto split: sum.split option.split)

lemma complete_login_later: "later K s (fst (complete_login K t p l now s))"
proof -
  have "later K s (s\<lparr>challenges := cs\<rparr>)" for cs by (rule quiet_later) (auto simp: setup_completed_def)
  moreover have "later K s (fst (finish_challenge K a row p l now s s1))"
    if "consume_factor_attempt K now s = Inr s1" for a row s1
    using consume_frame [OF that] windows_later finish_challenge_later by metis
  ultimately show ?thesis
    unfolding complete_login_def by (simp split: option.split sum.split)
qed

lemma sessions_later:
  "os_hash ` set rs \<subseteq> os_hash ` set (sessions s) \<Longrightarrow> later K s (s\<lparr>sessions := rs\<rparr>)"
  by (rule quiet_later) (auto simp: setup_completed_def)

lemma authenticate_later: "later K s (fst (authenticate K t i now s))"
proof -
  have "later K s (s\<lparr>sessions := tbl_del os_hash h (sessions s)\<rparr>)" for h
    by (rule sessions_later) (auto simp: tbl_del_def)
  moreover have "later K s (s\<lparr>sessions := tbl_upd q (\<lambda>x. x\<lparr>os_seen := now\<rparr>) (sessions s)\<rparr>)" for q
    by (rule sessions_later) (auto simp: tbl_upd_def)
  ultimately show ?thesis
    unfolding authenticate_def Let_def by (simp split: option.split)
qed

lemma logout_later: "later K s (logout K t s)"
  unfolding logout_def by (rule sessions_later) (auto simp: tbl_del_def)

lemma keep_only_later: "draws s \<le> n \<Longrightarrow> later K s (keep_only h (s\<lparr>second_factor := f, draws := n\<rparr>))"
  unfolding keep_only_def by (rule quiet_later) (auto simp: setup_completed_def)

lemma begin_totp_later: "later K s (fst (begin_totp K t p now s))"
  unfolding begin_totp_def Let_def
  by (auto split: option.splits sum.splits intro!: later_then_epoch quiet_later simp: setup_completed_def)

lemma confirm_totp_later: "later K s (fst (confirm_totp K t p now s))"
  unfolding confirm_totp_def Let_def
  by (auto split: option.splits sum.splits prod.splits intro!: later_then_epoch keep_only_later)

lemma update_totp_later: "later K s (fst (update_totp K t p c d now s))"
  unfolding update_totp_def Let_def
  using keep_only_later [of s "draws s"]
  by (auto split: option.splits sum.splits prod.splits intro!: later_then_epoch keep_only_later)

lemma update_policy_later: "later K s (fst (update_policy K t p c r now s))"
  unfolding update_policy_def Let_def
  by (auto split: option.splits sum.splits prod.splits intro!: later_then_epoch quiet_later
      simp: setup_completed_def keep_only_def)

lemma change_password_later: "later K s (fst (change_password K p q s))"
  unfolding change_password_def
  by (auto split: option.splits intro!: later_then_epoch quiet_later simp: setup_completed_def)

lemma issue_ticket_later: "later K s (fst (issue_ticket K now s))"
  unfolding issue_ticket_def Let_def by (auto intro!: quiet_later)

lemma complete_setup_later: "later K s (fst (complete_setup K r now s))"
proof -
  have ticket: "later K s ((advance_epoch K t)\<lparr>setup_ticket := Some x\<rparr>)" if "later K s t" for t x
    by (rule later_trans [OF later_then_epoch [OF that]], rule quiet_later) (auto simp: setup_completed_def)
  show ?thesis
    unfolding complete_setup_def Let_def
    by (auto split: sum.splits intro!: ticket quiet_later)
qed

lemma issue_backup_later: "later K s (fst (issue_backup K t p c i now s))"
proof -
  obtain s1 b where s1: "allow_login_attempt K ''administrator:backup'' 5 now s = (s1, b)" by fastforce
  have l: "later K s s1" using allow_login_attempt_later [of K s] s1 by (metis fst_conv)
  have f: "later K s (s1\<lparr>second_factor := f\<rparr>)" for f
    by (rule later_trans [OF l], rule quiet_later) (auto simp: setup_completed_def)
  show ?thesis
    unfolding issue_backup_def Let_def s1
    using l f later_then_epoch [OF f] by (simp split: option.split)
qed

lemma auth_step_later: "later K s (auth_step K s cn)"
proof -
  have "later K s s'" if "update_settings a b x s = Inr (s', r)" for a b x s' r
    using that unfolding update_settings_def Let_def map_sum_eq_Inr
    by (auto split: option.splits if_splits sum.splits simp: map_sum_eq_Inr intro!: quiet_later
        simp: setup_completed_def)
  then show ?thesis
    unfolding auth_step_def
    by (simp split: prod.split acall.split sum.split add: set_administrator_later update_profile_later
        allow_login_attempt_later login_later complete_login_later authenticate_later logout_later
        begin_totp_later confirm_totp_later update_totp_later update_policy_later change_password_later
        issue_ticket_later complete_setup_later issue_backup_later)
qed

interpretation auth_machine: step_monotone "auth_step K" "later K" for K
  by unfold_locales (auto intro: later_trans auth_step_later)

lemma history_later: "later K (auth_history K cs) (auth_history K (cs @ ds))"
  unfolding auth_history_def run_append by (rule auth_machine.run_le)


section \<open>The second factor and the attempt windows under each handler\<close>

definition kept :: "auth \<Rightarrow> auth \<Rightarrow> bool" where
  "kept s s' \<longleftrightarrow> (\<forall>f. second_factor s = Some f \<longrightarrow> present (fa_secret f) \<longrightarrow>
     (\<exists>f'. second_factor s' = Some f' \<and> fa_secret f' = fa_secret f \<and> fa_last f \<le> fa_last f'))"

lemma kept_same: "second_factor s' = second_factor s \<Longrightarrow> kept s s'"
  by (simp add: kept_def)

lemma keptD:
  "kept s s' \<Longrightarrow> second_factor s = Some f \<Longrightarrow> present (fa_secret f) \<Longrightarrow>
   \<exists>f'. second_factor s' = Some f' \<and> fa_secret f' = fa_secret f \<and> fa_last f \<le> fa_last f'"
  by (simp add: kept_def)

lemma kept_trans:
  assumes "kept s t" and "kept t u"
  shows "kept s u"
  unfolding kept_def
proof (intro allI impI)
  fix f assume "second_factor s = Some f" "present (fa_secret f)"
  from keptD [OF assms(1) this] obtain g where
    "second_factor t = Some g" "fa_secret g = fa_secret f" "fa_last f \<le> fa_last g" by blast
  with keptD [OF assms(2), of g] \<open>present (fa_secret f)\<close>
  show "\<exists>f'. second_factor u = Some f' \<and> fa_secret f' = fa_secret f \<and> fa_last f \<le> fa_last f'" by fastforce
qed

lemma kept_enrolled: "kept s s' \<Longrightarrow> enrolled s \<Longrightarrow> enrolled s'"
  by (cases "second_factor s") (auto simp: enrolled_def dest: keptD)

lemma totp_step_least: "totp_step K secret pin least now = Some step \<Longrightarrow> least < step"
  unfolding totp_step_def Let_def by (auto simp: find_Some_iff split: if_splits)

lemma verify_factor_keeps:
  "verify_factor K a f pin now = Inr (Some f') \<Longrightarrow> fa_secret f' = fa_secret f \<and> fa_last f \<le> fa_last f'"
  unfolding verify_factor_def Let_def
  by (auto split: option.splits if_splits sum.splits dest: totp_step_least)

lemma challenge_accepts_keeps:
  assumes "challenge_accepts K a row s pin now = Inr (Some (f', codes))"
    and "second_factor s = Some f" and "present (fa_secret f)"
  shows "fa_secret f' = fa_secret f \<and> fa_last f \<le> fa_last f'"
  using assms verify_factor_keeps unfolding challenge_accepts_def Let_def
  by (auto simp: map_sum_eq_Inr Some_eq_map_option factor_row_def split: challenge_kind.splits if_splits option.splits)

lemma new_session_frame:
  "new_session K a l now s = (s', token, ident) \<Longrightarrow>
   second_factor s' = second_factor s \<and> windows s' = windows s \<and> require_totp s' = require_totp s"
  unfolding new_session_def Let_def by auto

lemma new_challenge_frame:
  "new_challenge K a k p now s = (s', token, e) \<Longrightarrow>
   second_factor s' = second_factor s \<and> windows s' = windows s \<and> require_totp s' = require_totp s"
  unfolding new_challenge_def Let_def by auto

lemma grant_login_frame:
  "second_factor (fst (grant_login K a kind f codes l now s)) = Some f"
  "windows (fst (grant_login K a kind f codes l now s)) = windows s"
  "require_totp (fst (grant_login K a kind f codes l now s)) = require_totp s"
  unfolding grant_login_def Let_def by (auto split: prod.split dest!: new_session_frame)

lemma count_attempt_frame:
  "windows (count_attempt row s) = windows s" "require_totp (count_attempt row s) = require_totp s"
  "kept s (count_attempt row s)"
  by (auto simp: count_attempt_def kept_def factor_row_def)

lemma finish_challenge_kept:
  assumes "kept s s1"
  shows "kept s (fst (finish_challenge K a row pin l now s s1))"
proof -
  have c: "kept s (count_attempt row s1)" using assms count_attempt_frame(3) by (rule kept_trans)
  have g: "kept s (fst (grant_login K a kind f codes l now (count_attempt row s1)))"
    if "challenge_accepts K a row (count_attempt row s1) pin now = Inr (Some (f, codes))" for kind f codes
  proof (rule kept_trans [OF c])
    show "kept (count_attempt row s1) (fst (grant_login K a kind f codes l now (count_attempt row s1)))"
      using challenge_accepts_keeps [OF that] by (auto simp: kept_def grant_login_frame)
  qed
  show ?thesis
    unfolding finish_challenge_def using c g
    by (auto split: sum.split option.split simp: kept_same)
qed

lemma finish_challenge_frame:
  "require_totp s1 = require_totp s \<Longrightarrow> require_totp (fst (finish_challenge K a row pin l now s s1)) = require_totp s"
  unfolding finish_challenge_def
  by (auto split: sum.split option.split simp: grant_login_frame count_attempt_frame)

lemma complete_login_frame:
  "kept s (fst (complete_login K t p l now s))"
  "require_totp (fst (complete_login K t p l now s)) = require_totp s"
proof -
  have "kept s s1 \<and> require_totp s1 = require_totp s" if "consume_factor_attempt K now s = Inr s1" for s1
    using consume_frame [OF that] by (auto simp: kept_same)
  then show "kept s (fst (complete_login K t p l now s))"
      "require_totp (fst (complete_login K t p l now s)) = require_totp s"
    unfolding complete_login_def
    by (auto split: option.split sum.split simp: kept_same finish_challenge_kept finish_challenge_frame)
qed

lemma login_frame:
  "second_factor (fst (login K u p l now s)) = second_factor s"
  "windows (fst (login K u p l now s)) = windows s"
  "require_totp (fst (login K u p l now s)) = require_totp s"
  unfolding login_def Let_def
  by (auto split: option.split sum.split prod.split dest!: new_challenge_frame new_session_frame)

lemma authenticate_frame:
  "second_factor (fst (authenticate K t i now s)) = second_factor s"
  "windows (fst (authenticate K t i now s)) = windows s"
  "require_totp (fst (authenticate K t i now s)) = require_totp s"
  unfolding authenticate_def Let_def by (auto split: option.split)

lemma update_profile_frame:
  "second_factor (fst (update_profile K u e n v x s)) = second_factor s"
  "windows (fst (update_profile K u e n v x s)) = windows s"
  "require_totp (fst (update_profile K u e n v x s)) = require_totp s"
  unfolding update_profile_def Let_def by (auto split: option.split)

lemma begin_totp_frame:
  "kept s (fst (begin_totp K t p now s))" "windows (fst (begin_totp K t p now s)) = windows s"
  "require_totp (fst (begin_totp K t p now s)) = require_totp s"
  unfolding begin_totp_def Let_def
  by (auto split: option.split sum.split simp: kept_def enrolled_def factor_row_def)

lemma confirm_totp_frame:
  "kept s (fst (confirm_totp K t p now s))" "windows (fst (confirm_totp K t p now s)) = windows s"
  "require_totp (fst (confirm_totp K t p now s)) = require_totp s"
  unfolding confirm_totp_def Let_def
  by (auto split: option.split sum.split prod.split simp: kept_def pending_for_def keep_only_def)

lemma security_proof_keeps:
  assumes "security_proof K t p c now s = Inr (a, f')"
  shows "\<exists>f. second_factor s = Some f \<and> fa_secret f' = fa_secret f \<and> fa_last f \<le> fa_last f'"
  using assms verify_factor_keeps unfolding security_proof_def
  by (auto split: option.splits if_splits sum.splits)

lemma update_totp_frame:
  "\<not> d \<Longrightarrow> kept s (fst (update_totp K t p c d now s))"
  "windows (fst (update_totp K t p c d now s)) = windows s"
  "require_totp (fst (update_totp K t p c d now s)) = require_totp s"
  unfolding update_totp_def Let_def
  by (auto split: option.split sum.split prod.split simp: kept_def keep_only_def dest!: security_proof_keeps)

lemma update_policy_frame:
  "kept s (fst (update_policy K t p c r now s))" "windows (fst (update_policy K t p c r now s)) = windows s"
  unfolding update_policy_def Let_def
  by (auto split: option.split sum.split prod.split
      simp: kept_def keep_only_def map_sum_eq_Inr Some_eq_map_option dest!: verify_factor_keeps)

lemma change_password_frame:
  "kept s (fst (change_password K p q s))" "windows (fst (change_password K p q s)) = windows s"
  "require_totp (fst (change_password K p q s)) = require_totp s"
  unfolding change_password_def by (auto split: option.split simp: kept_def)

lemma setup_frame:
  "second_factor (fst (issue_ticket K now s)) = second_factor s" "windows (fst (issue_ticket K now s)) = windows s"
  "require_totp (fst (issue_ticket K now s)) = require_totp s"
  "second_factor (fst (complete_setup K r now s)) = second_factor s"
  "windows (fst (complete_setup K r now s)) = windows s"
  "require_totp (fst (complete_setup K r now s)) = require_totp s"
  unfolding issue_ticket_def complete_setup_def Let_def by (auto split: sum.split)

lemma update_settings_frame:
  "update_settings a b x s = Inr (s', r) \<Longrightarrow>
   second_factor s' = second_factor s \<and> windows s' = windows s \<and> require_totp s' = require_totp s"
  unfolding update_settings_def Let_def
  by (auto split: option.splits if_splits sum.splits simp: map_sum_eq_Inr)

lemma allow_frame:
  "second_factor (fst (allow_login_attempt K peer limit now s)) = second_factor s"
  "require_totp (fst (allow_login_attempt K peer limit now s)) = require_totp s"
  unfolding allow_login_attempt_def Let_def by simp_all

end
