(* ===== verification/Admin_Properties.thy ===== *)
theory Admin_Properties
  imports Admin_Safety
begin

text \<open>
  What the administrator's accounts guarantee: revoked sessions and backup authorizations stay
  revoked, a mandatory second factor is always enrolled, codes are not replayed, guesses are
  limited, setup happens once.
\<close>

definition ok :: "'a outcome \<Rightarrow> bool" where
  "ok r = (\<not> isl (snd r))"

lemma ok_simps [simp]: "ok (s, Inr v)" "\<not> ok (s, Inl e)"
  by (simp_all add: ok_def)

lemma fresh_later: "later K fresh_auth (auth_history K cs)"
  using history_later [of K "[]" cs] by (simp add: auth_history_def)

section \<open>Sessions\<close>

text \<open>Concrete functions for the witnesses: injective draws, hashing as the identity.\<close>

definition sample_crypto :: crypto where
  "sample_crypto = \<lparr>sha = (\<lambda>x. x), verifies = (\<lambda>p h. p = h), hash_password = (\<lambda>n p. p),
     draw_token = (\<lambda>n. replicate n (CHR ''x'')), draw_epoch = (\<lambda>n. replicate n (CHR ''e'')),
     draw_code = (\<lambda>n. replicate 20 (CHR ''0'')), draw_secret = (\<lambda>n. ''S''),
     totp_at = (\<lambda>secret step. if even step then ''000000'' else ''111111''), totp_uri = (\<lambda>secret name. secret),
     has_key = True, seal = (\<lambda>n x. x), unseal = Some\<rparr>"

lemma replicate_inj: "inj (\<lambda>n. replicate n x)"
  by (rule injI) (metis length_replicate)

text \<open>An administrator who signed in, and who then enrolled a second factor.\<close>

definition signed_in :: "(acall \<times> time) list" where
  "signed_in = [(SetAdministrator ''a'' ''p'' False, 0), (Login ''a'' ''p'' 1000000000, 0)]"

definition with_factor :: "(acall \<times> time) list" where
  "with_factor = signed_in @ [(BeginTotp ''xx'' ''p'', 0), (ConfirmTotp ''xx'' ''000000'', 0)]"

text \<open>The calls that end the session with hash \<open>h\<close>.\<close>

definition ends_session :: "crypto \<Rightarrow> string \<Rightarrow> acall \<Rightarrow> time \<Rightarrow> auth \<Rightarrow> bool" where
  "ends_session K h c now s =
     (case c of
        Logout t \<Rightarrow> sha K t = h
      | ChangePassword p q \<Rightarrow> snd (change_password K p q s)
      | SetAdministrator u p r \<Rightarrow> r \<and> admin s \<noteq> None
      | ConfirmTotp t p \<Rightarrow> ok (confirm_totp K t p now s) \<and> sha K t \<noteq> h
      | UpdateTotp t p x d \<Rightarrow> ok (update_totp K t p x d now s) \<and> sha K t \<noteq> h
      | UpdatePolicy t p x r \<Rightarrow> ok (update_policy K t p x r now s) \<and> sha K t \<noteq> h
      | _ \<Rightarrow> False)"

lemma get_session_None: "get_session h s = None \<longleftrightarrow> h \<notin> os_hash ` set (sessions s)"
  by (simp add: get_session_def tbl_get_None)

lemma keep_only_session: "h \<noteq> h' \<Longrightarrow> h' \<notin> os_hash ` set (sessions (keep_only h s))"
  by (auto simp: keep_only_def)

lemma ends_session_gone:
  assumes "ends_session K h c now s"
  shows "h \<notin> os_hash ` set (sessions (auth_step K s (c, now)))"
proof (cases c)
  case (Logout t)
  with assms show ?thesis by (auto simp: ends_session_def auth_step_def logout_def tbl_del_def)
next
  case (ChangePassword p q)
  with assms show ?thesis
    by (auto simp: ends_session_def auth_step_def change_password_def split: option.splits if_splits)
next
  case (SetAdministrator u p r)
  with assms show ?thesis
    by (auto simp: ends_session_def auth_step_def set_administrator_def Let_def)
next
  case (ConfirmTotp t p)
  with assms keep_only_session [of "sha K t" h] show ?thesis
    unfolding ends_session_def auth_step_def confirm_totp_def Let_def
    by (auto split: option.splits if_splits sum.splits prod.splits)
next
  case (UpdateTotp t p x d)
  with assms keep_only_session [of "sha K t" h] show ?thesis
    unfolding ends_session_def auth_step_def update_totp_def Let_def
    by (auto split: option.splits if_splits sum.splits prod.splits)
next
  case (UpdatePolicy t p x r)
  with assms keep_only_session [of "sha K t" h] show ?thesis
    unfolding ends_session_def auth_step_def update_policy_def Let_def
    by (auto split: option.splits if_splits sum.splits prod.splits)
qed (use assms in \<open>auto simp: ends_session_def\<close>)

lemma authenticate_needs_session:
  "snd (authenticate K (Some t) i now s) = Some x \<Longrightarrow> sha K t \<in> os_hash ` set (sessions s)"
  unfolding authenticate_def Let_def by (auto split: if_splits option.splits dest!: find_SomeD simp: image_iff intro: sym)

text \<open>
  C37: Revoked sessions stay out. Once a session has been ended, by its logout, by a password
  change, by a reset of the administrator, or by a change of the second factor or its policy from
  another session, its token authenticates nothing, at that moment or after any further calls,
  provided the drawn tokens have distinct digests.
\<close>

theorem revoked_session_stays_out:
  assumes "inj (\<lambda>n. sha K (draw_token K n))"
    and "get_session (sha K t) (auth_history K cs) \<noteq> None"
    and "ends_session K (sha K t) c now (auth_history K cs)"
  shows "snd (authenticate K (Some t) idle n (auth_history K (cs @ (c, now) # ds))) = None"
proof -
  let ?s = "auth_history K cs" and ?t = "auth_history K (cs @ [(c, now)])"
    and ?u = "auth_history K (cs @ (c, now) # ds)"
  from assms(2) fresh_later [of K cs] obtain m where m: "m < draws ?s" "sha K t = sha K (draw_token K m)"
    by (auto simp: get_session_None later_def drawn_sessions_def fresh_auth_def)
  have "auth_step K ?s (c, now) = ?t" by (simp add: auth_history_def run_append)
  with ends_session_gone [OF assms(3)] have gone: "sha K t \<notin> os_hash ` set (sessions ?t)" by simp
  have "draws ?s \<le> draws ?t" using history_later [of K cs "[(c, now)]"] by (simp add: later_def)
  moreover have "later K ?t ?u" using history_later [of K "cs @ [(c, now)]" ds] by simp
  ultimately have "sha K t \<notin> os_hash ` set (sessions ?u)"
  proof -
    assume *: "draws ?s \<le> draws ?t" "later K ?t ?u"
    show ?thesis
    proof
      assume "sha K t \<in> os_hash ` set (sessions ?u)"
      with gone *(2) obtain k where "draws ?t \<le> k" "sha K t = sha K (draw_token K k)"
        unfolding later_def drawn_sessions_def by blast
      with m assms(1) *(1) show False by (metis (mono_tags, lifting) injD leD order_trans)
    qed
  qed
  then show ?thesis using authenticate_needs_session by (metis not_None_eq)
qed

theorem revoked_session_stays_out_witness:
  "snd (authenticate sample_crypto (Some ''xx'') 1000000 3
     (auth_history sample_crypto (signed_in @ [(ChangePassword ''p'' ''q'', 1), (Login ''a'' ''q'' 100000, 2)]))) = None"
proof (rule revoked_session_stays_out)
  show "inj (\<lambda>n. sha sample_crypto (draw_token sample_crypto n))"
    using replicate_inj by (simp add: sample_crypto_def)
  show "get_session (sha sample_crypto ''xx'') (auth_history sample_crypto signed_in) \<noteq> None" by code_simp
  show "ends_session sample_crypto (sha sample_crypto ''xx'') (ChangePassword ''p'' ''q'') 1
      (auth_history sample_crypto signed_in)" by code_simp
qed

section \<open>Backup authorizations\<close>

text \<open>The calls that change who may download backups.\<close>

definition security_change :: "crypto \<Rightarrow> acall \<Rightarrow> time \<Rightarrow> auth \<Rightarrow> bool" where
  "security_change K c now s =
     (case c of
        SetAdministrator u p r \<Rightarrow> ok (set_administrator K u p r now s)
      | UpdateProfile u e n v x \<Rightarrow> ok (update_profile K u e n v x s)
      | BeginTotp t p \<Rightarrow> ok (begin_totp K t p now s)
      | ConfirmTotp t p \<Rightarrow> ok (confirm_totp K t p now s)
      | UpdateTotp t p x d \<Rightarrow> ok (update_totp K t p x d now s)
      | UpdatePolicy t p x r \<Rightarrow> ok (update_policy K t p x r now s)
      | ChangePassword p q \<Rightarrow> snd (change_password K p q s)
      | _ \<Rightarrow> False)"

definition new_epoch :: "crypto \<Rightarrow> auth \<Rightarrow> auth \<Rightarrow> bool" where
  "new_epoch K s s' \<longleftrightarrow> (\<exists>n. draws s \<le> n \<and> n < draws s' \<and> epoch s' = Some (draw_epoch K n))"

lemma new_epoch_advance: "draws s \<le> draws t \<Longrightarrow> new_epoch K s (advance_epoch K t)"
  by (auto simp: new_epoch_def)

lemma security_change_epoch:
  assumes "security_change K c now s"
  shows "new_epoch K s (auth_step K s (c, now))"
proof (cases c)
  case (SetAdministrator u p r)
  have "new_epoch K s ((advance_epoch K t)\<lparr>setup_ticket := x\<rparr>)" if "draws s \<le> draws t" for t x
    using that by (auto simp: new_epoch_def)
  with SetAdministrator assms show ?thesis
    unfolding security_change_def auth_step_def set_administrator_def Let_def
    by (auto split: option.splits if_splits)
next
  case (UpdateProfile u e n v x)
  with assms show ?thesis
    unfolding security_change_def auth_step_def update_profile_def Let_def
    by (auto split: option.splits if_splits intro!: new_epoch_advance)
next
  case (BeginTotp t p)
  with assms show ?thesis
    unfolding security_change_def auth_step_def begin_totp_def Let_def
    by (auto split: option.splits if_splits sum.splits intro!: new_epoch_advance)
next
  case (ConfirmTotp t p)
  with assms show ?thesis
    unfolding security_change_def auth_step_def confirm_totp_def Let_def
    by (auto split: option.splits if_splits sum.splits prod.splits intro!: new_epoch_advance simp: keep_only_def)
next
  case (UpdateTotp t p x d)
  with assms show ?thesis
    unfolding security_change_def auth_step_def update_totp_def Let_def
    by (auto split: option.splits if_splits sum.splits prod.splits intro!: new_epoch_advance simp: keep_only_def)
next
  case (UpdatePolicy t p x r)
  with assms show ?thesis
    unfolding security_change_def auth_step_def update_policy_def Let_def
    by (auto split: option.splits if_splits sum.splits prod.splits intro!: new_epoch_advance simp: keep_only_def)
next
  case (ChangePassword p q)
  with assms show ?thesis
    unfolding security_change_def auth_step_def change_password_def
    by (auto split: option.splits if_splits intro!: new_epoch_advance)
qed (use assms in \<open>auto simp: security_change_def\<close>)

text \<open>
  A security change ends every backup authorization for good. After a successful change of
  the password, profile, second factor, policy or administrator, an authorization issued under the
  epoch before it is refused at every later time, whatever calls follow, also ones that restore the
  earlier settings; provided the drawn epochs are distinct.
\<close>

theorem backup_authorization_revoked:
  assumes "inj (draw_epoch K)"
    and "epoch (auth_history K cs) = Some (ba_epoch b)"
    and "security_change K c now (auth_history K cs)"
  shows "\<not> is_authorized b idle n (auth_history K (cs @ (c, now) # ds))"
proof -
  let ?s = "auth_history K cs" and ?t = "auth_history K (cs @ [(c, now)])"
    and ?u = "auth_history K (cs @ (c, now) # ds)"
  from assms(2) fresh_later [of K cs] obtain m where m: "m < draws ?s" "ba_epoch b = draw_epoch K m"
    by (auto simp: later_def drawn_epoch_def fresh_auth_def)
  have "auth_step K ?s (c, now) = ?t" by (simp add: auth_history_def run_append)
  with security_change_epoch [OF assms(3)] have "new_epoch K ?s ?t" by simp
  then obtain k where k: "draws ?s \<le> k" "k < draws ?t" "epoch ?t = Some (draw_epoch K k)"
    by (auto simp: new_epoch_def)
  have "later K ?t ?u" using history_later [of K "cs @ [(c, now)]" ds] by simp
  then have "epoch ?u = epoch ?t \<or> (\<exists>j. draws ?t \<le> j \<and> epoch ?u = Some (draw_epoch K j))"
    unfolding later_def drawn_epoch_def by blast
  then obtain j where j: "draws ?s \<le> j" "epoch ?u = Some (draw_epoch K j)"
  proof
    assume "epoch ?u = epoch ?t"
    with k that show thesis by auto
  next
    assume "\<exists>j. draws ?t \<le> j \<and> epoch ?u = Some (draw_epoch K j)"
    then obtain j where "draws ?t \<le> j" "epoch ?u = Some (draw_epoch K j)" by blast
    with k(1,2) that [of j] show thesis by linarith
  qed
  then have "epoch ?u \<noteq> Some (ba_epoch b)" using m assms(1) by (auto dest: injD)
  then show ?thesis by (auto simp: is_authorized_def split: option.splits)
qed

theorem backup_authorization_revoked_witness:
  "\<not> is_authorized \<lparr>ba_session = ''xx'', ba_epoch = ''e'', ba_expires = 900000\<rparr> 1000000 3
     (auth_history sample_crypto (signed_in @ [(UpdateProfile ''a'' [] ''n'' [] 0, 1), (UpdateProfile ''a'' [] ''a'' [] 1, 2)]))"
proof (rule backup_authorization_revoked)
  show "inj (draw_epoch sample_crypto)" using replicate_inj by (simp add: sample_crypto_def)
  show "epoch (auth_history sample_crypto signed_in) =
      Some (ba_epoch \<lparr>ba_session = ''xx'', ba_epoch = ''e'', ba_expires = 900000\<rparr>)" by code_simp
  show "security_change sample_crypto (UpdateProfile ''a'' [] ''n'' [] 0) 1 (auth_history sample_crypto signed_in)"
    by code_simp
qed

section \<open>The second factor\<close>

lemma update_policy_mandatory:
  "mandatory (fst (update_policy K t p c r now s)) \<Longrightarrow> mandatory s \<or> enrolled s"
  unfolding update_policy_def Let_def
  by (cases "password_proof K t p now s") (auto simp: mandatory_def keep_only_def split: sum.splits option.splits if_splits)

lemma issue_backup_frame:
  "kept s (fst (issue_backup K t p x i now s))"
  "require_totp (fst (issue_backup K t p x i now s)) = require_totp s"
proof -
  obtain s1 b where s1: "allow_login_attempt K ''administrator:backup'' 5 now s = (s1, b)" by fastforce
  then have f: "second_factor s1 = second_factor s" "require_totp s1 = require_totp s"
    using allow_frame [of K "''administrator:backup''" 5 now s] by simp_all
  have k1: "kept s (s1\<lparr>second_factor := f\<rparr>)" if "backup_code K a s1 x now = Some f" for a f
    using that f unfolding kept_def backup_code_def
    by (auto split: option.splits sum.splits if_splits dest!: verify_factor_keeps)
  have k: "kept s t" if "backup_code K a s1 x now = Some f" "second_factor t = f" for a f t
    using k1 [OF that(1)] that(2) by (simp add: kept_def)
  show "kept s (fst (issue_backup K t p x i now s))"
    unfolding issue_backup_def Let_def s1 using k f kept_same by (simp split: option.split)
  show "require_totp (fst (issue_backup K t p x i now s)) = require_totp s"
    unfolding issue_backup_def Let_def s1 using f by (simp split: option.split)
qed

lemma mandatory_step:
  assumes "mandatory s \<longrightarrow> enrolled s"
  shows "mandatory (auth_step K s cn) \<longrightarrow> enrolled (auth_step K s cn)"
proof -
  obtain c now where cn: "cn = (c, now)" by fastforce
  have same: "mandatory s' \<Longrightarrow> enrolled s'" if "kept s s'" "require_totp s' = require_totp s" for s'
    using that assms kept_enrolled by (auto simp: mandatory_def)
  note frames = kept_same login_frame authenticate_frame update_profile_frame begin_totp_frame
    confirm_totp_frame change_password_frame setup_frame allow_frame complete_login_frame
  show ?thesis
  proof (cases c)
    case (SetAdministrator u p r)
    with assms cn show ?thesis
      by (auto simp: auth_step_def set_administrator_def Let_def mandatory_def enrolled_def split: option.splits)
  next
    case (UpdateTotp t p x d)
    show ?thesis
    proof (cases d)
      case True
      with UpdateTotp assms cn show ?thesis
        unfolding auth_step_def update_totp_def Let_def
        by (auto simp: mandatory_def keep_only_def split: sum.splits)
    next
      case False
      with UpdateTotp cn same [OF update_totp_frame(1,3)] show ?thesis by (simp add: auth_step_def)
    qed
  next
    case (UpdatePolicy t p x r)
    have "kept s (auth_step K s cn)" using UpdatePolicy cn update_policy_frame by (simp add: auth_step_def)
    then have e: "enrolled s \<Longrightarrow> enrolled (auth_step K s cn)" by (rule kept_enrolled)
    have "mandatory (auth_step K s cn) \<Longrightarrow> mandatory s \<or> enrolled s"
      unfolding UpdatePolicy cn auth_step_def prod.case acall.case
      by (rule update_policy_mandatory)
    with e assms show ?thesis by blast
  next
    case (IssueBackup t p x i)
    with issue_backup_frame cn same show ?thesis by (simp add: auth_step_def)
  next
    case (UpdateBranding a b x)
    with cn same assms show ?thesis
      by (auto simp: auth_step_def kept_same split: sum.split dest!: update_settings_frame)
  qed (use cn in \<open>auto simp: auth_step_def frames logout_def intro: same [rotated 2]\<close>)
qed

interpretation mandatory_machine: step_invariant "auth_step K" "\<lambda>s. mandatory s \<longrightarrow> enrolled s" for K
  by unfold_locales (rule mandatory_step)

text \<open>
  A mandatory second factor is always enrolled. In every history of the administrator's
  accounts, whenever the policy requires two-factor authentication the account has a TOTP secret;
  so the enrolment branch of a login is only ever a safeguard.
\<close>

theorem mandatory_factor_enrolled:
  assumes "mandatory (auth_history K cs)"
  shows "enrolled (auth_history K cs)"
  using assms mandatory_machine.run_inv [of fresh_auth K cs]
  by (auto simp: auth_history_def mandatory_def fresh_auth_def)

theorem mandatory_factor_enrolled_witness:
  "enrolled (auth_history sample_crypto (with_factor @ [(UpdatePolicy ''xx'' ''p'' ''000000'' True, 60000)]))"
  by (rule mandatory_factor_enrolled) code_simp


definition clears_factor :: "acall \<Rightarrow> bool" where
  "clears_factor c = (case c of SetAdministrator u p r \<Rightarrow> True | UpdateTotp t p x d \<Rightarrow> d | _ \<Rightarrow> False)"

lemma kept_step: "\<not> clears_factor c \<Longrightarrow> kept s (auth_step K s (c, now))"
proof (cases c)
  case (UpdateTotp t p x d)
  assume "\<not> clears_factor c"
  with UpdateTotp update_totp_frame(1) show ?thesis by (simp add: auth_step_def clears_factor_def)
next
  case (UpdateBranding a b x)
  then show ?thesis by (auto simp: auth_step_def kept_same split: sum.split dest!: update_settings_frame)
qed (auto simp: auth_step_def clears_factor_def kept_same login_frame authenticate_frame update_profile_frame
    begin_totp_frame confirm_totp_frame change_password_frame setup_frame allow_frame complete_login_frame
    update_policy_frame issue_backup_frame logout_def)

lemma kept_run: "\<forall>(c, t) \<in> set ds. \<not> clears_factor c \<Longrightarrow> kept s (run (auth_step K) s ds)"
proof (induction ds arbitrary: s)
  case Nil
  then show ?case by (simp add: kept_same)
next
  case (Cons d ds)
  obtain c t where d: "d = (c, t)" by fastforce
  with Cons.prems have "kept s (auth_step K s d)" using kept_step by simp
  with Cons.IH [of "auth_step K s d"] Cons.prems show ?case using kept_trans by fastforce
qed

text \<open>
  A TOTP code is spent. When a code was accepted for a time step, every code accepted later
  under the same enrolment is the code of a strictly later time step, whatever calls lie between,
  as long as none of them removes the factor.
\<close>

theorem totp_code_spent:
  assumes "\<forall>(c, t) \<in> set ds. \<not> clears_factor c"
    and "second_factor (auth_history K cs) = Some f" "present (fa_secret f)"
    and "second_factor (auth_history K (cs @ ds)) = Some g"
    and "verify_factor K a g pin now = Inr (Some g')" "\<not> is_recovery (recovery_form pin)"
  shows "fa_last f < fa_last g' \<and> (\<exists>secret. open_secret K a (the (fa_secret f)) = Inr secret \<and>
    totp_at K secret (fa_last g') = py_strip pin)"
proof -
  have "kept (auth_history K cs) (auth_history K (cs @ ds))"
    unfolding auth_history_def run_append using assms(1) by (rule kept_run)
  with assms(2-4) have g: "fa_secret g = fa_secret f" "fa_last f \<le> fa_last g" by (auto dest: keptD)
  obtain sealed where sealed: "fa_secret f = Some sealed" "sealed \<noteq> []"
    using assms(3) by (auto simp: present_def)
  with assms(5,6) g(1) obtain secret where o1: "open_secret K a sealed = Inr secret"
      and step: "totp_step K secret (py_strip pin) (fa_last g) now = Some (fa_last g')"
    unfolding verify_factor_def by (auto split: sum.splits option.splits)
  from step have "totp_at K secret (fa_last g') = py_strip pin"
    unfolding totp_step_def Let_def by (auto split: if_splits dest!: find_SomeD)
  with totp_step_least [OF step] g(2) o1 sealed(1) show ?thesis by auto
qed

theorem totp_code_spent_witness:
  "0 < (2 :: int) \<and> totp_at sample_crypto ''S'' 2 = ''000000''"
proof -
  let ?s = "auth_history sample_crypto with_factor" and ?a = "\<lparr>ad_name = ''a'', ad_hash = ''p''\<rparr>"
  let ?ds = "[(Login ''a'' ''p'' 100000, 30000)]"
  have facts: "map_option (\<lambda>f. (present (fa_secret f), fa_last f)) (second_factor ?s) = Some (True, 0)"
    "second_factor (auth_history sample_crypto (with_factor @ ?ds)) = second_factor ?s"
    "map_option (\<lambda>f. map_sum id (map_option fa_last) (verify_factor sample_crypto ?a f ''000000'' 60000)) (second_factor ?s) =
     Some (Inr (Some 2))"
    "map_option (\<lambda>f. open_secret sample_crypto ?a (the (fa_secret f))) (second_factor ?s) = Some (Inr ''S'')"
    "\<not> is_recovery (recovery_form ''000000'')" "py_strip ''000000'' = ''000000''"
    by code_simp+
  then obtain f g where "second_factor ?s = Some f" "present (fa_secret f)" "fa_last f = 0"
      "verify_factor sample_crypto ?a f ''000000'' 60000 = Inr (Some g)" "fa_last g = 2"
      "open_secret sample_crypto ?a (the (fa_secret f)) = Inr ''S''"
    by (auto simp: map_sum_eq_Inr Some_eq_map_option)
  with totp_code_spent [of ?ds sample_crypto with_factor f f ?a "''000000''" 60000 g] facts show ?thesis
    by (auto simp: clears_factor_def)
qed

section \<open>The attempt budget\<close>

text \<open>A call that compares a code with the second factor of a login.\<close>

definition tries_factor :: "crypto \<Rightarrow> auth \<Rightarrow> acall \<times> time \<Rightarrow> bool" where
  "tries_factor K s cn =
     (case cn of
        (CompleteLogin t p l, now) \<Rightarrow>
          t \<noteq> [] \<and> length t \<le> 128 \<and>
          (case (get_challenge (sha K t) s, admin s) of
             (Some row, Some a) \<Rightarrow> challenge_valid a row now \<and>
               snd (complete_login K t p l now s) \<notin> {Inl RateLimited, Inl FactorUnavailable}
           | _ \<Rightarrow> False)
      | _ \<Rightarrow> False)"

fun tries :: "crypto \<Rightarrow> auth \<Rightarrow> (acall \<times> time) list \<Rightarrow> nat" where
  "tries K s [] = 0"
| "tries K s (c # cs) = (if tries_factor K s c then 1 else 0) + tries K (auth_step K s c) cs"

definition is_reset :: "acall \<Rightarrow> bool" where
  "is_reset c = (case c of SetAdministrator u p r \<Rightarrow> True | _ \<Rightarrow> False)"

text \<open>What is left of the budget for the minute that starts at \<open>t0\<close>.\<close>

definition budget :: "crypto \<Rightarrow> time \<Rightarrow> auth \<Rightarrow> nat" where
  "budget K t0 s =
     (case tbl_get lw_key (factor_key K) (windows s) of
        None \<Rightarrow> 10
      | Some w \<Rightarrow> if lw_expires w \<ge> t0 + 60000 then 10 - lw_attempts w else 20 - min 10 (lw_attempts w))"

lemma budget_windows: "windows s' = windows s \<Longrightarrow> budget K t0 s' = budget K t0 s"
  by (simp add: budget_def)

definition windows_ok :: "auth \<Rightarrow> bool" where
  "windows_ok s \<longleftrightarrow> tbl_keyed lw_key (windows s)"

lemma windows_ok_same: "windows s' = windows s \<Longrightarrow> windows_ok s \<Longrightarrow> windows_ok s'"
  by (simp add: windows_ok_def)

lemma consume_windows_ok: "consume_factor_attempt K now s = Inr s1 \<Longrightarrow> windows_ok s \<Longrightarrow> windows_ok s1"
  unfolding consume_factor_attempt_def Let_def windows_ok_def
  by (auto simp: tbl_keyed_upd tbl_keyed_append split: option.splits if_splits)

lemma allow_windows_ok: "windows_ok s \<Longrightarrow> windows_ok (fst (allow_login_attempt K peer limit now s))"
  unfolding allow_login_attempt_def Let_def windows_ok_def
  by (simp add: tbl_keyed_upd tbl_keyed_append tbl_keyed_filter)

lemma consume_budget:
  assumes "consume_factor_attempt K now s = Inr s1" and "t0 \<le> now" and "now < t0 + 60000"
  shows "Suc (budget K t0 s1) \<le> budget K t0 s"
  using assms unfolding consume_factor_attempt_def Let_def
  by (cases "tbl_get lw_key (factor_key K) (windows s)")
     (auto simp: budget_def tbl_get_upd_key tbl_get_append_new split: if_splits)

lemma allow_budget:
  assumes "windows_ok s" and "t0 \<le> now" and "now < t0 + 60000"
  shows "budget K t0 (fst (allow_login_attempt K peer limit now s)) \<le> budget K t0 s"
proof -
  let ?k = "factor_key K" and ?key = "sha K peer"
  let ?hit = "\<lambda>w. lw_key w = ?key \<and> lw_attempts w < limit"
  let ?bump = "\<lambda>w. w\<lparr>lw_attempts := Suc (lw_attempts w)\<rparr>"
  have upd: "tbl_get lw_key ?k (tbl_upd ?hit ?bump ws) =
      map_option (\<lambda>w. if ?hit w then ?bump w else w) (tbl_get lw_key ?k ws)" for ws
    by (rule tbl_get_upd) simp
  have keep: "tbl_get lw_key ?k (filter (\<lambda>w. \<not> lw_expires w \<le> now) (windows s)) =
      (case tbl_get lw_key ?k (windows s) of None \<Rightarrow> None | Some r \<Rightarrow> if \<not> lw_expires r \<le> now then Some r else None)"
    using assms(1) unfolding windows_ok_def by (rule tbl_get_filter)
  have app: "tbl_get lw_key ?k (ws @ [w]) =
      (case tbl_get lw_key ?k ws of None \<Rightarrow> if lw_key w = ?k then Some w else None | Some r \<Rightarrow> Some r)" for ws w
    by (induction ws) (auto simp: tbl_get_Cons split: if_splits)
  show ?thesis
    using assms(2,3) unfolding allow_login_attempt_def Let_def budget_def
    by (cases "tbl_get lw_key ?k (windows s)") (auto simp: upd keep app)
qed

lemma challenge_accepts_error: "challenge_accepts K a row s pin now = Inl e \<Longrightarrow> e = FactorUnavailable"
  unfolding challenge_accepts_def verify_factor_def open_secret_def Let_def
  by (auto split: challenge_kind.splits option.splits if_splits sum.splits prod.splits)

lemma finish_challenge_windows:
  "snd (finish_challenge K a row pin l now s s1) \<noteq> Inl FactorUnavailable \<Longrightarrow>
   windows (fst (finish_challenge K a row pin l now s s1)) = windows s1"
  unfolding finish_challenge_def
  by (auto split: sum.splits option.splits simp: grant_login_frame count_attempt_frame dest: challenge_accepts_error)

lemma finish_challenge_error:
  "snd (finish_challenge K a row pin l now s s1) = Inl FactorUnavailable \<Longrightarrow>
   fst (finish_challenge K a row pin l now s s1) = s"
  unfolding finish_challenge_def grant_login_def Let_def
  by (auto split: sum.splits option.splits prod.splits)

lemma finish_challenge_rate: "snd (finish_challenge K a row pin l now s s1) \<noteq> Inl RateLimited"
  unfolding finish_challenge_def grant_login_def Let_def
  by (auto split: sum.splits option.splits prod.splits dest: challenge_accepts_error)

lemma consume_error: "consume_factor_attempt K now s = Inl e \<Longrightarrow> e = RateLimited"
  unfolding consume_factor_attempt_def Let_def by (auto split: option.splits if_splits)

lemma complete_login_valid:
  assumes "t \<noteq> []" "length t \<le> 128" "get_challenge (sha K t) s = Some row" "admin s = Some a" "challenge_valid a row now"
  shows "complete_login K t p l now s =
    (case consume_factor_attempt K now s of Inl e \<Rightarrow> (s, Inl e) | Inr s1 \<Rightarrow> finish_challenge K a row p l now s s1)"
  using assms by (simp add: complete_login_def)

lemma complete_login_invalid:
  assumes "\<not> (t \<noteq> [] \<and> length t \<le> 128 \<and> (\<exists>row a. get_challenge (sha K t) s = Some row \<and> admin s = Some a \<and> challenge_valid a row now))"
  shows "windows (fst (complete_login K t p l now s)) = windows s"
  using assms unfolding complete_login_def by (auto split: option.split)

lemma complete_login_budget:
  assumes "t0 \<le> now" and "now < t0 + 60000"
  shows "(if tries_factor K s (CompleteLogin t p l, now) then 1 else 0) +
    budget K t0 (fst (complete_login K t p l now s)) \<le> budget K t0 s"
proof (cases "t \<noteq> [] \<and> length t \<le> 128 \<and>
    (\<exists>row a. get_challenge (sha K t) s = Some row \<and> admin s = Some a \<and> challenge_valid a row now)")
  case False
  then have "\<not> tries_factor K s (CompleteLogin t p l, now)"
    by (auto simp: tries_factor_def split: option.splits)
  with budget_windows [OF complete_login_invalid [OF False]] show ?thesis by simp
next
  case True
  then obtain row a where v: "t \<noteq> []" "length t \<le> 128" "get_challenge (sha K t) s = Some row" "admin s = Some a"
      "challenge_valid a row now" by blast
  note eq = complete_login_valid [OF v, of p l]
  show ?thesis
  proof (cases "consume_factor_attempt K now s")
    case (Inl e)
    then have "e = RateLimited" by (rule consume_error)
    with Inl eq v show ?thesis by (simp add: tries_factor_def)
  next
    case (Inr s1)
    let ?r = "finish_challenge K a row p l now s s1"
    show ?thesis
    proof (cases "snd ?r = Inl FactorUnavailable")
      case True
      with finish_challenge_error [OF True] Inr eq v show ?thesis by (simp add: tries_factor_def)
    next
      case False
      from budget_windows [OF finish_challenge_windows [OF False], of K t0] consume_budget [OF Inr assms] Inr eq
      show ?thesis by simp
    qed
  qed
qed

lemma issue_backup_windows:
  "windows (fst (issue_backup K t p x i now s)) = windows s \<or>
   windows (fst (issue_backup K t p x i now s)) = windows (fst (allow_login_attempt K ''administrator:backup'' 5 now s))"
proof -
  obtain s1 b where s1: "allow_login_attempt K ''administrator:backup'' 5 now s = (s1, b)" by fastforce
  show ?thesis unfolding issue_backup_def Let_def s1 by (simp split: option.split)
qed

lemma other_windows:
  assumes "\<not> is_reset c"
    and "\<And>p l. c \<noteq> AllowAttempt p l" "\<And>t p l. c \<noteq> CompleteLogin t p l" "\<And>t p x i. c \<noteq> IssueBackup t p x i"
  shows "windows (auth_step K s (c, now)) = windows s"
proof (cases c)
  case (UpdateBranding a b x)
  then show ?thesis by (auto simp: auth_step_def split: sum.split dest!: update_settings_frame)
qed (use assms in \<open>auto simp: is_reset_def auth_step_def login_frame authenticate_frame update_profile_frame
    begin_totp_frame confirm_totp_frame change_password_frame setup_frame update_policy_frame
    update_totp_frame logout_def\<close>)

lemma step_windows_ok: "windows_ok s \<Longrightarrow> windows_ok (auth_step K s (c, now))"
proof -
  assume w: "windows_ok s"
  have comp: "windows_ok (fst (complete_login K t p l now s))" for t p l
  proof (cases "t \<noteq> [] \<and> length t \<le> 128 \<and>
      (\<exists>row a. get_challenge (sha K t) s = Some row \<and> admin s = Some a \<and> challenge_valid a row now)")
    case False
    from windows_ok_same [OF complete_login_invalid [OF False] w] show ?thesis .
  next
    case True
    then obtain row a where v: "t \<noteq> []" "length t \<le> 128" "get_challenge (sha K t) s = Some row" "admin s = Some a"
        "challenge_valid a row now" by blast
    show ?thesis
      unfolding complete_login_valid [OF v]
      using w consume_windows_ok [OF _ w] finish_challenge_error finish_challenge_windows windows_ok_same
      by (cases "consume_factor_attempt K now s") (auto, metis)
  qed
  show ?thesis
  proof (cases "is_reset c")
    case True
    then obtain u p r where "c = SetAdministrator u p r" by (auto simp: is_reset_def split: acall.splits)
    with w show ?thesis
      by (auto simp: auth_step_def set_administrator_def Let_def windows_ok_def tbl_keyed_def split: option.split)
  next
    case False
    show ?thesis
      using w comp allow_windows_ok issue_backup_windows other_windows [OF False, of K s now]
      by (cases c) (auto simp: auth_step_def windows_ok_def, (metis allow_windows_ok windows_ok_def)+)
  qed
qed

lemma step_budget:
  assumes "windows_ok s" and "t0 \<le> now" and "now < t0 + 60000" and "\<not> is_reset c"
  shows "(if tries_factor K s (c, now) then 1 else 0) + budget K t0 (auth_step K s (c, now)) \<le> budget K t0 s"
proof (cases "\<exists>t p l. c = CompleteLogin t p l")
  case True
  then obtain t p l where "c = CompleteLogin t p l" by blast
  with complete_login_budget [OF assms(2,3), of K s t p l] show ?thesis by (simp add: auth_step_def)
next
  case False
  then have no: "\<not> tries_factor K s (c, now)" by (auto simp: tries_factor_def split: acall.splits)
  have allow: "budget K t0 (fst (allow_login_attempt K p l now s)) \<le> budget K t0 s" for p l
    using assms(1-3) by (rule allow_budget)
  consider (a) p l where "c = AllowAttempt p l" | (b) t p x i where "c = IssueBackup t p x i"
    | (other) "\<And>p l. c \<noteq> AllowAttempt p l" "\<And>t p x i. c \<noteq> IssueBackup t p x i" by blast
  then have "budget K t0 (auth_step K s (c, now)) \<le> budget K t0 s"
  proof cases
    case a
    with allow show ?thesis by (simp add: auth_step_def)
  next
    case b
    with allow issue_backup_windows [of K t p x i now s] show ?thesis
      by (auto simp: auth_step_def budget_def)
  next
    case other
    have "windows (auth_step K s (c, now)) = windows s"
      using False by (intro other_windows [OF assms(4) other(1) _ other(2)]) blast
    from budget_windows [OF this] show ?thesis by simp
  qed
  with no show ?thesis by simp
qed

lemma tries_budget:
  "windows_ok s \<Longrightarrow> \<forall>(c, now) \<in> set ds. t0 \<le> now \<and> now < t0 + 60000 \<and> \<not> is_reset c \<Longrightarrow>
   tries K s ds \<le> budget K t0 s"
proof (induction ds arbitrary: s)
  case (Cons d ds)
  obtain c now where d: "d = (c, now)" by fastforce
  with Cons.prems have "(if tries_factor K s d then 1 else 0) + budget K t0 (auth_step K s d) \<le> budget K t0 s"
    using step_budget [OF Cons.prems(1), of t0 now c K] by simp
  moreover have "tries K (auth_step K s d) ds \<le> budget K t0 (auth_step K s d)"
    using Cons.prems d by (intro Cons.IH step_windows_ok [of s K c now, folded d]) auto
  ultimately show ?case by simp
qed simp

interpretation windows_machine: step_invariant "auth_step K" windows_ok for K
  using step_windows_ok by unfold_locales force



section \<open>First-run setup\<close>

text \<open>
  C38: Setup happens once. After a successful first-run setup, whatever calls follow, no further
  setup succeeds, no ticket is issued, and no restore ticket is honoured.
\<close>

theorem setup_happens_once:
  assumes "ok (complete_setup K r now (auth_history K cs))"
  shows "\<not> ok (complete_setup K r' t (auth_history K (cs @ (CompleteSetup r, now) # ds))) \<and>
    \<not> ok (issue_ticket K t (auth_history K (cs @ (CompleteSetup r, now) # ds))) \<and>
    isl (authorize_restore K token t (auth_history K (cs @ (CompleteSetup r, now) # ds)))"
proof -
  let ?t = "auth_history K (cs @ [(CompleteSetup r, now)])"
  have "?t = fst (complete_setup K r now (auth_history K cs))"
    by (simp add: auth_history_def run_append auth_step_def)
  then have "setup_completed ?t"
    using assms unfolding complete_setup_def Let_def
    by (auto simp: setup_completed_def split: if_splits sum.splits)
  moreover have "later K ?t (auth_history K (cs @ (CompleteSetup r, now) # ds))"
    using history_later [of K "cs @ [(CompleteSetup r, now)]" ds] by simp
  ultimately have "setup_completed (auth_history K (cs @ (CompleteSetup r, now) # ds))"
    by (auto simp: later_def stays_completed_def)
  then show ?thesis
    by (simp add: complete_setup_def issue_ticket_def authorize_restore_def authorize_ticket_def)
qed

definition sample_setup :: setup_request where
  "sample_setup = \<lparr>sr_username = ''a'', sr_password = ''p'', sr_site = ''Site'', sr_brand = ''Brand'', sr_email = [],
     sr_nickname = [], sr_avatar = []\<rparr>"

theorem setup_happens_once_witness:
  "\<not> ok (complete_setup sample_crypto sample_setup 5
     (auth_history sample_crypto ([(IssueTicket, 0)] @ [(CompleteSetup sample_setup, 1), (ChangePassword ''p'' ''q'', 2)])))"
proof -
  have "branding_title ''Open Node'' 80 = Some ''Open Node'' \<and> branding_title ''Open Node'' 40 = Some ''Open Node''"
    by code_simp
  then have "ok (complete_setup sample_crypto sample_setup 1 (auth_history sample_crypto [(IssueTicket, 0)]))"
    by (simp add: auth_history_def auth_step_def issue_ticket_def complete_setup_def settings_def setup_completed_def
        fresh_auth_def max_revision_def Let_def)
  from setup_happens_once [OF this] show ?thesis by blast
qed


section \<open>Where sessions come from, and titles\<close>

lemma keep_only_mem: "r \<in> set (sessions (keep_only h s)) \<Longrightarrow> r \<in> set (sessions s)"
  by (simp add: keep_only_def)

lemma other_sessions:
  assumes "\<And>u p l. c \<noteq> Login u p l" and "\<And>t p l. c \<noteq> CompleteLogin t p l"
  shows "os_hash ` set (sessions (auth_step K s (c, now))) \<subseteq> os_hash ` set (sessions s)"
proof (cases c)
  case (SetAdministrator u p r)
  then show ?thesis by (auto simp: auth_step_def set_administrator_def Let_def split: option.split)
next
  case (UpdateProfile u e n v x)
  then show ?thesis by (auto simp: auth_step_def update_profile_def Let_def split: option.split)
next
  case (AllowAttempt p l)
  then show ?thesis by (simp add: auth_step_def allow_login_attempt_def Let_def)
next
  case (Authenticate t i)
  then show ?thesis
    by (auto simp: auth_step_def authenticate_def Let_def tbl_del_def keys_tbl_upd split: option.split)
next
  case (Logout t)
  then show ?thesis by (auto simp: auth_step_def logout_def tbl_del_def)
next
  case (BeginTotp t p)
  then show ?thesis by (auto simp: auth_step_def begin_totp_def Let_def split: option.split sum.split)
next
  case (ConfirmTotp t p)
  then show ?thesis
    by (auto simp: auth_step_def confirm_totp_def Let_def split: option.split sum.split prod.split dest!: keep_only_mem)
next
  case (UpdateTotp t p x d)
  then show ?thesis
    by (auto simp: auth_step_def update_totp_def Let_def split: sum.split prod.split dest!: keep_only_mem)
next
  case (UpdatePolicy t p x r)
  then show ?thesis
    by (auto simp: auth_step_def update_policy_def Let_def split: option.split sum.split dest!: keep_only_mem)
next
  case (ChangePassword p q)
  then show ?thesis by (auto simp: auth_step_def change_password_def split: option.split)
next
  case (CompleteSetup r)
  then show ?thesis by (auto simp: auth_step_def complete_setup_def Let_def split: sum.split)
next
  case IssueTicket
  then show ?thesis by (auto simp: auth_step_def issue_ticket_def Let_def)
next
  case (IssueBackup t p x i)
  obtain s1 b where s1: "allow_login_attempt K ''administrator:backup'' 5 now s = (s1, b)" by fastforce
  then have "sessions s1 = sessions s" using allow_login_attempt_frame [OF s1] by auto
  then have "sessions (fst (issue_backup K t p x i now s)) = sessions s"
    unfolding issue_backup_def Let_def s1 by (simp split: option.split)
  with IssueBackup show ?thesis by (simp add: auth_step_def)
next
  case (UpdateBranding a b x)
  then show ?thesis
    by (auto simp: auth_step_def update_settings_def Let_def map_sum_eq_Inr split: option.split sum.split)
qed (use assms in auto)

text \<open>The two ways to a session: a password where no factor is needed, or a good code for a live challenge.\<close>

definition password_login :: "crypto \<Rightarrow> acall \<Rightarrow> auth \<Rightarrow> bool" where
  "password_login K c s =
     (case (c, admin s) of
        (Login u p l, Some a) \<Rightarrow> ad_name a = u \<and> verifies K p (ad_hash a) \<and> \<not> enrolled s \<and> \<not> mandatory s
      | _ \<Rightarrow> False)"

definition code_login :: "crypto \<Rightarrow> acall \<Rightarrow> time \<Rightarrow> auth \<Rightarrow> bool" where
  "code_login K c now s =
     (case (c, admin s) of
        (CompleteLogin t p l, Some a) \<Rightarrow>
          (case (get_challenge (sha K t) s, consume_factor_attempt K now s) of
             (Some row, Inr s1) \<Rightarrow> challenge_valid a row now \<and>
               (case challenge_accepts K a row (count_attempt row s1) p now of Inr (Some r) \<Rightarrow> True | _ \<Rightarrow> False)
           | _ \<Rightarrow> False)
      | _ \<Rightarrow> False)"

lemma login_sessions:
  "os_hash ` set (sessions (fst (login K u p l now s))) \<subseteq> os_hash ` set (sessions s) \<or> password_login K (Login u p l) s"
  unfolding login_def password_login_def Let_def new_challenge_def
  by (auto split: option.split sum.split prod.split)

lemma finish_challenge_sessions:
  assumes "consume_factor_attempt K now s = Inr s1"
  shows "sessions (fst (finish_challenge K a row p l now s s1)) = sessions s \<or>
    (\<exists>r. challenge_accepts K a row (count_attempt row s1) p now = Inr (Some r))"
  using consume_frame [OF assms] unfolding finish_challenge_def
  by (cases "challenge_accepts K a row (count_attempt row s1) p now") (auto simp: count_attempt_def split: option.split)

lemma complete_login_sessions:
  "sessions (fst (complete_login K t p l now s)) = sessions s \<or> code_login K (CompleteLogin t p l) now s"
proof (cases "t \<noteq> [] \<and> length t \<le> 128 \<and>
    (\<exists>row a. get_challenge (sha K t) s = Some row \<and> admin s = Some a \<and> challenge_valid a row now)")
  case False
  then show ?thesis unfolding complete_login_def by (auto split: option.split)
next
  case True
  then obtain row a where v: "t \<noteq> []" "length t \<le> 128" "get_challenge (sha K t) s = Some row" "admin s = Some a"
      "challenge_valid a row now" by blast
  show ?thesis
  proof (cases "consume_factor_attempt K now s")
    case (Inl e)
    with complete_login_valid [OF v, of p l] show ?thesis by simp
  next
    case (Inr s1)
    from finish_challenge_sessions [OF Inr, of a row p l] complete_login_valid [OF v, of p l] Inr v show ?thesis
      by (auto simp: code_login_def)
  qed
qed

text \<open>
  C25: No session without proof. A call that adds a session either gave the administrator's name
  and password while no second factor was enrolled or required, or gave a code that the second
  factor accepted for a live challenge within its budget.
\<close>

theorem session_needs_proof:
  assumes "h \<in> os_hash ` set (sessions (auth_step K s (c, now)))" and "h \<notin> os_hash ` set (sessions s)"
  shows "password_login K c s \<or> code_login K c now s"
proof -
  consider (l) u p l where "c = Login u p l" | (c) t p l where "c = CompleteLogin t p l"
    | (other) "\<And>u p l. c \<noteq> Login u p l" "\<And>t p l. c \<noteq> CompleteLogin t p l" by blast
  then show ?thesis
  proof cases
    case l
    with login_sessions [of K u p l now s] assms show ?thesis by (auto simp: auth_step_def)
  next
    case c
    with complete_login_sessions [of K t p l now s] assms show ?thesis by (auto simp: auth_step_def)
  next
    case other
    with other_sessions [OF other] assms show ?thesis by blast
  qed
qed

theorem session_needs_proof_witness:
  "password_login sample_crypto (Login ''a'' ''p'' 100000)
     (auth_history sample_crypto [(SetAdministrator ''a'' ''p'' False, 0)]) \<or>
   code_login sample_crypto (Login ''a'' ''p'' 100000) 5
     (auth_history sample_crypto [(SetAdministrator ''a'' ''p'' False, 0)])"
proof (rule session_needs_proof [of "''xx''"])
  let ?s = "auth_history sample_crypto [(SetAdministrator ''a'' ''p'' False, 0)]"
  have "map os_hash (sessions (auth_step sample_crypto ?s (Login ''a'' ''p'' 100000, 5))) = [''xx'']"
    "sessions ?s = []" by code_simp+
  then show "''xx'' \<in> os_hash ` set (sessions (auth_step sample_crypto ?s (Login ''a'' ''p'' 100000, 5)))"
      "''xx'' \<notin> os_hash ` set (sessions ?s)"
    by (simp_all flip: set_map)
qed

lemma visible_not_space: "visible_char c \<Longrightarrow> \<not> py_space c"
  by (auto simp: visible_char_def py_space_def)



end
