(* ===== verification/Billing.thy ===== *)
theory Billing
  imports Calendar User_Limits
begin

text \<open>
  What subscribers are charged: the traffic ledger, plan weights, quotas and the monthly reset, all
  methods of \<open>InventoryStore\<close> in \<open>backend/app/open_node/services/inventory.py\<close>. Weighted byte
  counts are Python floats there and exact rationals here. The component nodes of a topology, which
  \<open>_validated_node_topology_stages\<close> reads, are a field of its node (empty when it is invalid).
\<close>

section \<open>Data\<close>

record bill_user =
  bu_name :: string
  bu_limits :: limit_user
  bu_removal :: bool
  bu_active :: bool
  bu_plan :: "string option"
  bu_started :: "instant option"
  bu_expires :: "instant option"
  bu_resets :: bool
  bu_reset_day :: int
  bu_last_reset :: "instant option"
  bu_created :: instant
  bu_updated :: instant

record bill_plan =
  bp_id :: string
  bp_name :: string
  bp_limits :: limit_plan
  bp_two_way :: bool
  bp_multipliers :: "rat limits"

record bill_node =
  bn_id :: string
  bn_orchestrated :: bool
  bn_components :: "string list"

record bill_credential =
  bc_user :: string
  bc_node :: string
  bc_server :: string
  bc_email :: string
  bc_raw_email :: "string option"

record ledger =
  le_user :: string
  le_server :: string
  le_email :: string
  le_node :: "string option"
  le_up :: int
  le_down :: int
  le_weighted_up :: rat
  le_weighted_down :: rat
  le_last_up :: int
  le_last_down :: int
  le_reported :: "instant option"
  le_updated :: instant

record archived =
  ac_user :: string
  ac_server :: string
  ac_up :: int
  ac_down :: int
  ac_weighted_up :: rat
  ac_weighted_down :: rat
  ac_updated :: instant

text \<open>\<open>stats["user"]\<close>: the counters of each mailbox, non-negative by \<open>TrafficData\<close>.\<close>

type_synonym user_stats = "(string \<times> nat \<times> nat) list"

record telemetry =
  te_server :: string
  te_reported :: instant
  te_received :: instant
  te_users :: "user_stats option"

record billing =
  b_users :: "bill_user list"
  b_plans :: "bill_plan list"
  b_nodes :: "bill_node list"
  b_credentials :: "bill_credential list"
  b_ledgers :: "ledger list"
  b_archived :: "archived list"
  b_servers :: "string list"
  b_telemetry :: "telemetry list"

datatype billing_error = UserNotFound

definition plan_of :: "bill_user \<Rightarrow> billing \<Rightarrow> bill_plan option" where
  "plan_of u s =
     (case bu_plan u of
        None \<Rightarrow> None
      | Some p \<Rightarrow> if p = [] then None else tbl_get bp_id p (b_plans s))"

section \<open>Weights and attribution\<close>

definition traffic_factor :: "bill_plan option \<Rightarrow> rat" where
  "traffic_factor p = (case p of Some q \<Rightarrow> if bp_two_way q then 2 else 1 | None \<Rightarrow> 1)"

definition component_ids :: "string \<Rightarrow> billing \<Rightarrow> string list" where
  "component_ids entry s =
     (case tbl_get bn_id entry (b_nodes s) of
        Some n \<Rightarrow> if bn_orchestrated n then bn_components n else [entry]
      | None \<Rightarrow> [entry])"

text \<open>\<open>_subscription_topology_component_owners\<close>: a component of two entries has no owner.\<close>

definition add_owner :: "string \<Rightarrow> string \<Rightarrow> (string \<rightharpoonup> string option) \<Rightarrow> (string \<rightharpoonup> string option)" where
  "add_owner entry c owners =
     (case owners c of
        None \<Rightarrow> owners(c \<mapsto> Some entry)
      | Some w \<Rightarrow> if w = Some entry then owners else owners(c \<mapsto> None))"

definition component_owners :: "bill_plan \<Rightarrow> billing \<Rightarrow> (string \<rightharpoonup> string option)" where
  "component_owners p s =
     fold (\<lambda>entry owners. fold (add_owner entry) (component_ids entry s) owners) (lp_nodes (bp_limits p)) Map.empty"

definition billing_weight :: "bill_plan option \<Rightarrow> string \<Rightarrow> billing \<Rightarrow> rat" where
  "billing_weight p node s =
     (case p of
        None \<Rightarrow> 1
      | Some q \<Rightarrow>
        (let billed = (if node = [] then node
                       else (case component_owners q s node of Some (Some w) \<Rightarrow> if w = [] then node else w | _ \<Rightarrow> node));
             multiplier = (case map_of (bp_multipliers q) billed of Some m \<Rightarrow> m | None \<Rightarrow> 1)
         in multiplier * traffic_factor p))"

definition raw_email :: "bill_credential \<Rightarrow> string option" where
  "raw_email c = (case bc_raw_email c of Some e \<Rightarrow> if e = [] then None else Some e | None \<Rightarrow> None)"

definition credential_emails :: "bill_credential \<Rightarrow> string list" where
  "credential_emails c =
     bc_email c # (case raw_email c of Some e \<Rightarrow> if e = bc_email c then [] else [e] | None \<Rightarrow> [])"

definition credential_plan :: "bill_credential \<Rightarrow> billing \<Rightarrow> bill_plan option" where
  "credential_plan c s =
     (case tbl_get bu_name (bc_user c) (b_users s) of None \<Rightarrow> None | Some u \<Rightarrow> plan_of u s)"

text \<open>
  \<open>_subscription_billing_attribution_by_email\<close>: the last credential with the mailbox, else the first
  whose raw mailbox it is.
\<close>

definition attribution :: "string \<Rightarrow> string \<Rightarrow> billing \<Rightarrow> (string \<times> string \<times> rat) option" where
  "attribution sid email s =
     (let cs = filter (\<lambda>c. bc_server c = sid) (b_credentials s);
          found = (case last_of bc_email email cs of
                     Some c \<Rightarrow> Some c
                   | None \<Rightarrow> List.find (\<lambda>c. raw_email c = Some email) cs)
      in map_option (\<lambda>c. (bc_user c, bc_node c, billing_weight (credential_plan c s) (bc_node c) s)) found)"

section \<open>The ledger\<close>

abbreviation ledger_key :: "ledger \<Rightarrow> string \<times> string \<times> string" where
  "ledger_key l \<equiv> (le_user l, le_server l, le_email l)"

definition new_ledger ::
  "string \<Rightarrow> string \<Rightarrow> string \<Rightarrow> string \<Rightarrow> rat \<Rightarrow> int \<Rightarrow> int \<Rightarrow> instant \<Rightarrow> instant \<Rightarrow> ledger" where
  "new_ledger user sid email node weight up down reported now =
     \<lparr>le_user = user, le_server = sid, le_email = email, le_node = Some node, le_up = up, le_down = down,
      le_weighted_up = of_int up * weight, le_weighted_down = of_int down * weight, le_last_up = up,
      le_last_down = down, le_reported = Some reported, le_updated = now\<rparr>"

definition grown :: "int \<Rightarrow> int \<Rightarrow> int" where
  "grown old new = (if new \<ge> old then new - old else new)"

definition charge :: "string \<Rightarrow> rat \<Rightarrow> int \<Rightarrow> int \<Rightarrow> instant \<Rightarrow> instant \<Rightarrow> ledger \<Rightarrow> ledger" where
  "charge node weight up down reported now l =
     (let du = grown (le_last_up l) up; dd = grown (le_last_down l) down
      in l\<lparr>le_up := le_up l + du, le_down := le_down l + dd,
           le_weighted_up := le_weighted_up l + of_int du * weight,
           le_weighted_down := le_weighted_down l + of_int dd * weight,
           le_node := Some node, le_last_up := up, le_last_down := down,
           le_reported := Some reported, le_updated := now\<rparr>)"

definition stale :: "instant \<Rightarrow> ledger \<Rightarrow> bool" where
  "stale reported l = (case le_reported l of Some t \<Rightarrow> reported \<le> t | None \<Rightarrow> False)"

definition record_item ::
  "string \<Rightarrow> instant \<Rightarrow> instant \<Rightarrow> string \<times> nat \<times> nat \<Rightarrow> billing \<Rightarrow> billing" where
  "record_item sid reported now item s =
     (case item of (email, up, down) \<Rightarrow>
       (case attribution sid email s of
          None \<Rightarrow> s
        | Some (user, node, weight) \<Rightarrow>
          (let key = (user, sid, email)
           in case tbl_get ledger_key key (b_ledgers s) of
                None \<Rightarrow> s\<lparr>b_ledgers := b_ledgers s @
                    [new_ledger user sid email node weight (int up) (int down) reported now]\<rparr>
              | Some l \<Rightarrow>
                  if stale reported l then s
                  else s\<lparr>b_ledgers := tbl_upd (\<lambda>x. ledger_key x = key)
                         (charge node weight (int up) (int down) reported now) (b_ledgers s)\<rparr>)))"

definition record_ledger ::
  "string \<Rightarrow> user_stats option \<Rightarrow> instant \<Rightarrow> instant \<Rightarrow> billing \<Rightarrow> billing" where
  "record_ledger sid stats reported now s =
     (case stats of None \<Rightarrow> s | Some items \<Rightarrow> fold (record_item sid reported now) items s)"

section \<open>Reset boundaries\<close>

definition month_delta :: "int \<Rightarrow> nat \<Rightarrow> int \<Rightarrow> int \<times> nat" where
  "month_delta y m d = (let a = y * 12 + int m - 1 + d in (a div 12, nat (a mod 12) + 1))"

definition monthly_reset_at :: "int \<times> nat \<Rightarrow> int \<Rightarrow> instant" where
  "monthly_reset_at ym day = (case ym of (y, m) \<Rightarrow> ((y, m, nat (min day (int (month_len y m)))), 0))"

fun month_of :: "instant \<Rightarrow> int \<times> nat" where
  "month_of ((y, m, d), t) = (y, m)"

definition reset_boundaries :: "bill_user \<Rightarrow> instant \<Rightarrow> instant option \<times> instant option" where
  "reset_boundaries u now =
     (if \<not> bu_resets u \<or> bu_reset_day u \<le> 0 then (None, None)
      else
        (let (y, m) = month_of now; current = monthly_reset_at (y, m) (bu_reset_day u)
         in if now \<ge> current then
              (Some current, Some (monthly_reset_at (month_delta y m 1) (bu_reset_day u)))
            else (Some (monthly_reset_at (month_delta y m (-1)) (bu_reset_day u)), Some current)))"

definition reset_due :: "bill_user \<Rightarrow> bill_plan option \<Rightarrow> bool \<Rightarrow> instant option \<Rightarrow> bool" where
  "reset_due u p expired due =
     (if \<not> bu_active u \<or> p = None \<or> expired \<or> \<not> bu_resets u then False
      else
        (case due of
           None \<Rightarrow> False
         | Some moment \<Rightarrow>
             if moment \<le> (case bu_started u of Some t \<Rightarrow> t | None \<Rightarrow> bu_created u) then False
             else (case bu_last_reset u of None \<Rightarrow> True | Some r \<Rightarrow> r < moment)))"

section \<open>Usage\<close>

definition latest_telemetry :: "string \<Rightarrow> billing \<Rightarrow> telemetry option" where
  "latest_telemetry sid s =
     (case filter (\<lambda>t. te_server t = sid) (b_telemetry s) of
        [] \<Rightarrow> None
      | t # ts \<Rightarrow> Some (foldl (\<lambda>a b. if (te_reported a, te_received a) < (te_reported b, te_received b) then b else a) t ts))"

definition latest_stats :: "string \<Rightarrow> billing \<Rightarrow> user_stats option" where
  "latest_stats sid s = (case latest_telemetry sid s of None \<Rightarrow> None | Some t \<Rightarrow> te_users t)"

definition user_credentials :: "string \<Rightarrow> billing \<Rightarrow> bill_credential list" where
  "user_credentials user s = filter (\<lambda>c. bc_user c = user) (b_credentials s)"

definition user_ledgers :: "string \<Rightarrow> billing \<Rightarrow> ledger list" where
  "user_ledgers user s = filter (\<lambda>l. le_user l = user) (b_ledgers s)"

definition user_archived :: "string \<Rightarrow> billing \<Rightarrow> archived list" where
  "user_archived user s = sort_key ac_server (filter (\<lambda>a. ac_user a = user) (b_archived s))"

definition latest_user_traffic :: "string \<Rightarrow> billing \<Rightarrow> int \<times> int" where
  "latest_user_traffic user s =
     (let emails = remdups (concat (map (\<lambda>c. bc_email c # (case raw_email c of Some e \<Rightarrow> [e] | None \<Rightarrow> []))
            (user_credentials user s)));
          hits = concat (map (\<lambda>sid. case latest_stats sid s of
                   None \<Rightarrow> [] | Some us \<Rightarrow> List.map_filter (map_of us) emails) (b_servers s))
      in (sum_list (map (int \<circ> fst) hits), sum_list (map (int \<circ> snd) hits)))"

definition latest_weighted_traffic :: "string \<Rightarrow> billing \<Rightarrow> rat \<times> rat" where
  "latest_weighted_traffic user s =
     (let hits = List.map_filter (\<lambda>c.
            case latest_stats (bc_server c) s of
              None \<Rightarrow> None
            | Some us \<Rightarrow> map_option (\<lambda>v. (v, billing_weight (credential_plan c s) (bc_node c) s))
                (case List.find (\<lambda>e. map_of us e \<noteq> None) (credential_emails c) of
                   None \<Rightarrow> None | Some e \<Rightarrow> map_of us e)) (user_credentials user s)
      in (sum_list (map (\<lambda>((up, down), w). of_nat up * w) hits),
          sum_list (map (\<lambda>((up, down), w). of_nat down * w) hits)))"

definition user_traffic :: "string \<Rightarrow> billing \<Rightarrow> int \<times> int" where
  "user_traffic user s =
     (let ls = user_ledgers user s; as = user_archived user s;
          (up, down) = (if ls \<noteq> [] then (sum_list (map le_up ls), sum_list (map le_down ls))
                        else latest_user_traffic user s)
      in (up + sum_list (map ac_up as), down + sum_list (map ac_down as)))"

definition user_weighted_traffic :: "string \<Rightarrow> billing \<Rightarrow> rat \<times> rat" where
  "user_weighted_traffic user s =
     (let ls = user_ledgers user s; as = user_archived user s;
          (up, down) = (if ls \<noteq> [] then (sum_list (map le_weighted_up ls), sum_list (map le_weighted_down ls))
                        else latest_weighted_traffic user s)
      in (up + sum_list (map ac_weighted_up as), down + sum_list (map ac_weighted_down as)))"

record quota =
  qu_available :: bool
  qu_expired :: bool
  qu_over :: bool
  qu_reset_due :: bool
  qu_up :: int
  qu_down :: int
  qu_weighted_up :: rat
  qu_weighted_down :: rat
  qu_charged :: int
  qu_limit :: int
  qu_remaining :: int
  qu_percent :: rat
  qu_due_at :: "instant option"
  qu_next_at :: "instant option"

text \<open>\<open>round(x, 2)\<close>: half to even, on the exact value.\<close>

definition round_2 :: "rat \<Rightarrow> rat" where
  "round_2 x =
     (let f = \<lfloor>x * 100\<rfloor>; r = x * 100 - of_int f
      in of_int (if r < 1 / 2 then f else if r > 1 / 2 then f + 1 else if even f then f else f + 1) / 100)"

definition charged_usage :: "string \<Rightarrow> billing \<Rightarrow> int" where
  "charged_usage user s = (case user_weighted_traffic user s of (up, down) \<Rightarrow> py_int (up + down))"

definition expired :: "bill_user \<Rightarrow> instant \<Rightarrow> bool" where
  "expired u now = (case bu_expires u of Some t \<Rightarrow> now > t | None \<Rightarrow> False)"

definition due :: "bill_user \<Rightarrow> instant \<Rightarrow> billing \<Rightarrow> bool" where
  "due u now s = reset_due u (plan_of u s) (expired u now) (fst (reset_boundaries u now))"

definition quota_status :: "bill_user \<Rightarrow> bill_plan option \<Rightarrow> instant \<Rightarrow> billing \<Rightarrow> quota" where
  "quota_status u p now s =
     (let (up, down) = user_traffic (bu_name u) s;
          (wup, wdown) = user_weighted_traffic (bu_name u) s;
          limit = traffic_limit (bu_limits u) (map_option bp_limits p);
          charged = charged_usage (bu_name u) s;
          over = (p \<noteq> None \<and> limit > 0 \<and> charged \<ge> limit);
          (due_at, next_at) = reset_boundaries u now
      in \<lparr>qu_available = (bu_active u \<and> \<not> bu_removal u \<and> p \<noteq> None \<and> \<not> expired u now \<and> \<not> over),
          qu_expired = expired u now, qu_over = over, qu_reset_due = reset_due u p (expired u now) due_at,
          qu_up = up, qu_down = down, qu_weighted_up = wup, qu_weighted_down = wdown, qu_charged = charged,
          qu_limit = limit, qu_remaining = (if limit \<noteq> 0 then max (limit - charged) 0 else 0),
          qu_percent = (if limit \<noteq> 0 then round_2 (of_int charged / of_int limit * 100) else 0),
          qu_due_at = due_at, qu_next_at = next_at\<rparr>)"

section \<open>Resets\<close>

definition baseline :: "string \<Rightarrow> string \<Rightarrow> billing \<Rightarrow> (int \<times> int \<times> instant) option" where
  "baseline sid email s =
     (case latest_telemetry sid s of
        None \<Rightarrow> None
      | Some t \<Rightarrow>
        (case te_users t of
           None \<Rightarrow> None
         | Some us \<Rightarrow> map_option (\<lambda>(up, down). (int up, int down, te_reported t)) (map_of us email)))"

definition credential_baseline :: "bill_credential \<Rightarrow> billing \<Rightarrow> string \<times> int \<times> int \<times> instant option" where
  "credential_baseline c s =
     (case List.find (\<lambda>e. baseline (bc_server c) e s \<noteq> None) (credential_emails c) of
        Some e \<Rightarrow> (case the (baseline (bc_server c) e s) of (up, down, moment) \<Rightarrow> (e, up, down, Some moment))
      | None \<Rightarrow> (bc_email c, 0, 0, None))"

definition rebase_ledger :: "instant \<Rightarrow> billing \<Rightarrow> ledger \<Rightarrow> ledger" where
  "rebase_ledger now s l =
     (let l' = (case baseline (le_server l) (le_email l) s of
                  Some (up, down, moment) \<Rightarrow> l\<lparr>le_last_up := up, le_last_down := down, le_reported := Some moment\<rparr>
                | None \<Rightarrow> l)
      in l'\<lparr>le_up := 0, le_down := 0, le_weighted_up := 0, le_weighted_down := 0, le_updated := now\<rparr>)"

text \<open>A zero row for a credential whose mailbox has none yet.\<close>

definition open_ledger :: "instant \<Rightarrow> bill_credential \<Rightarrow> billing \<Rightarrow> billing" where
  "open_ledger now c s =
     (let (email, up, down, moment) = credential_baseline c s
      in if tbl_get ledger_key (bc_user c, bc_server c, email) (b_ledgers s) \<noteq> None then s
         else s\<lparr>b_ledgers := b_ledgers s @
                [\<lparr>le_user = bc_user c, le_server = bc_server c, le_email = email, le_node = Some (bc_node c),
                  le_up = 0, le_down = 0, le_weighted_up = 0, le_weighted_down = 0, le_last_up = up,
                  le_last_down = down, le_reported = moment, le_updated = now\<rparr>]\<rparr>)"

definition clear_archived :: "instant \<Rightarrow> archived \<Rightarrow> archived" where
  "clear_archived now a = a\<lparr>ac_up := 0, ac_down := 0, ac_weighted_up := 0, ac_weighted_down := 0, ac_updated := now\<rparr>"

definition reset_user :: "string \<Rightarrow> instant \<Rightarrow> billing \<Rightarrow> billing" where
  "reset_user user now s =
     (let s1 = s\<lparr>b_ledgers := tbl_upd (\<lambda>l. le_user l = user) (rebase_ledger now s) (b_ledgers s)\<rparr>;
          s2 = fold (open_ledger now) (user_credentials user s) s1
      in s2\<lparr>b_users := tbl_upd (\<lambda>u. bu_name u = user) (\<lambda>u. u\<lparr>bu_last_reset := Some now, bu_updated := now\<rparr>) (b_users s2),
            b_archived := tbl_upd (\<lambda>a. ac_user a = user) (clear_archived now) (b_archived s2)\<rparr>)"

definition user_quota :: "string \<Rightarrow> instant \<Rightarrow> billing \<Rightarrow> billing_error + quota" where
  "user_quota user now s =
     (case tbl_get bu_name user (b_users s) of
        None \<Rightarrow> Inl UserNotFound
      | Some u \<Rightarrow> Inr (quota_status u (plan_of u s) now s))"

definition reset_traffic :: "string \<Rightarrow> instant \<Rightarrow> billing \<Rightarrow> billing_error + (billing \<times> quota)" where
  "reset_traffic user now s =
     (case tbl_get bu_name user (b_users s) of
        None \<Rightarrow> Inl UserNotFound
      | Some u \<Rightarrow>
        (let s' = reset_user user now s
         in map_sum id (\<lambda>q. (s', q)) (user_quota user now s')))"

text \<open>\<open>reset_due_subscription_traffic\<close>: the new state and the names of the users reset.\<close>

definition reset_if_due :: "instant \<Rightarrow> string \<Rightarrow> billing \<times> string list \<Rightarrow> billing \<times> string list" where
  "reset_if_due now user acc =
     (case acc of (s, names) \<Rightarrow>
       (case tbl_get bu_name user (b_users s) of
          None \<Rightarrow> (s, names)
        | Some u \<Rightarrow> if due u now s then (reset_user user now s, names @ [user]) else (s, names)))"

definition reset_all_due :: "instant \<Rightarrow> billing \<Rightarrow> billing \<times> string list" where
  "reset_all_due now s = fold (reset_if_due now) (sort (map bu_name (b_users s))) (s, [])"

text \<open>A dry run only names the users that are due.\<close>

definition due_users :: "instant \<Rightarrow> billing \<Rightarrow> string list" where
  "due_users now s =
     filter (\<lambda>n. case tbl_get bu_name n (b_users s) of Some u \<Rightarrow> due u now s | None \<Rightarrow> False)
       (sort (map bu_name (b_users s)))"

end
