(* ===== verification/Billing_Properties.thy ===== *)
theory Billing_Properties
  imports Billing
begin

text \<open>
  What billing guarantees: a report is charged once, usage is the weighted growth of the counters,
  a reset starts from zero, and the monthly reset settles every user it names.
\<close>

section \<open>Reports\<close>

lemma ledgers_frame [simp]:
  "component_ids entry (s\<lparr>b_ledgers := ls\<rparr>) = component_ids entry s"
  "component_owners p (s\<lparr>b_ledgers := ls\<rparr>) = component_owners p s"
  "billing_weight q node (s\<lparr>b_ledgers := ls\<rparr>) = billing_weight q node s"
  "plan_of u (s\<lparr>b_ledgers := ls\<rparr>) = plan_of u s"
  "credential_plan c (s\<lparr>b_ledgers := ls\<rparr>) = credential_plan c s"
  "attribution sid e (s\<lparr>b_ledgers := ls\<rparr>) = attribution sid e s"
proof -
  show c: "component_ids entry (s\<lparr>b_ledgers := ls\<rparr>) = component_ids entry s" for entry
    by (simp add: component_ids_def split: option.split)
  show ow: "component_owners p (s\<lparr>b_ledgers := ls\<rparr>) = component_owners p s" for p
    by (simp add: component_owners_def c)
  show w: "billing_weight q node (s\<lparr>b_ledgers := ls\<rparr>) = billing_weight q node s" for q node
    by (simp add: billing_weight_def ow split: option.split)
  show u: "plan_of u (s\<lparr>b_ledgers := ls\<rparr>) = plan_of u s" for u
    by (simp add: plan_of_def split: option.split)
  show p: "credential_plan c (s\<lparr>b_ledgers := ls\<rparr>) = credential_plan c s" for c
    by (simp add: credential_plan_def u split: option.split)
  show "attribution sid e (s\<lparr>b_ledgers := ls\<rparr>) = attribution sid e s"
    by (simp add: attribution_def w p)
qed

lemma charge_key [simp]: "ledger_key (charge node w up down r n l) = ledger_key l"
  by (simp add: charge_def Let_def)

lemma record_item_key:
  assumes "attribution sid e s = Some (user, node, w)"
  shows "tbl_get ledger_key (user, sid, e) (b_ledgers (record_item sid r n (e, up, down) s)) =
    Some (case tbl_get ledger_key (user, sid, e) (b_ledgers s) of
            None \<Rightarrow> new_ledger user sid e node w (int up) (int down) r n
          | Some l \<Rightarrow> if stale r l then l else charge node w (int up) (int down) r n l)"
  using assms tbl_get_upd_key [of ledger_key "charge node w (int up) (int down) r n" "(user, sid, e)" "b_ledgers s"]
  by (auto simp: record_item_def Let_def tbl_get_append_new new_ledger_def split: option.split)

lemma record_item_other:
  assumes "snd (snd k) \<noteq> e"
  shows "tbl_get ledger_key k (b_ledgers (record_item sid r n (e, up, down) s)) = tbl_get ledger_key k (b_ledgers s)"
proof -
  have "tbl_get ledger_key k (ls @ [new_ledger user sid e node w x y r n]) = tbl_get ledger_key k ls"
    for ls :: "ledger list" and user node w x y
    using assms by (induction ls) (auto simp: tbl_get_Cons new_ledger_def)
  moreover have "tbl_get ledger_key k (tbl_upd (\<lambda>x. ledger_key x = (user, sid, e)) (charge node w x y r n) ls) =
      tbl_get ledger_key k ls" for ls user node w x y
    using assms tbl_get_upd [of ledger_key "charge node w x y r n" k "\<lambda>x. ledger_key x = (user, sid, e)" ls]
    by (cases "tbl_get ledger_key k ls") (auto dest: tbl_get_SomeD)
  ultimately show ?thesis
    by (auto simp: record_item_def Let_def split: option.split prod.split)
qed

lemma record_item_attribution [simp]: "attribution sid e (record_item sid' r n item s) = attribution sid e s"
  by (auto simp: record_item_def Let_def split: option.split prod.split)

definition covers :: "string \<Rightarrow> instant \<Rightarrow> string \<Rightarrow> billing \<Rightarrow> bool" where
  "covers sid r e s \<longleftrightarrow> (\<forall>user node w. attribution sid e s = Some (user, node, w) \<longrightarrow>
     (\<exists>l. tbl_get ledger_key (user, sid, e) (b_ledgers s) = Some l \<and> stale r l))"

lemma covers_idle: "covers sid r e s \<Longrightarrow> record_item sid r n (e, up, down) s = s"
  by (auto simp: covers_def record_item_def Let_def split: option.split)

lemma record_item_covers: "covers sid r e (record_item sid r n (e, up, down) s)"
  unfolding covers_def
  by (auto simp: record_item_key stale_def new_ledger_def charge_def Let_def split: option.split)

lemma record_item_keeps:
  assumes "covers sid r e s"
  shows "covers sid r e (record_item sid r n item s)"
proof -
  obtain e' up down where item: "item = (e', up, down)" by (cases item)
  show ?thesis
  proof (cases "e' = e")
    case True
    with covers_idle [OF assms] assms item show ?thesis by simp
  next
    case False
    with assms item show ?thesis by (simp add: covers_def record_item_other)
  qed
qed

lemma fold_covers:
  "(\<forall>item \<in> set done. covers sid r (fst item) s) \<Longrightarrow>
   \<forall>item \<in> set (done @ items). covers sid r (fst item) (fold (record_item sid r n) items s)"
proof (induction items arbitrary: "done" s)
  case (Cons item items)
  obtain e up down where item: "item = (e, up, down)" by (cases item)
  have "\<forall>i \<in> set (done @ [item]). covers sid r (fst i) (record_item sid r n item s)"
    using Cons.prems record_item_keeps record_item_covers [of sid r e n up down s] item by auto
  from Cons.IH [OF this] show ?case by simp
qed simp

lemma fold_covered: "\<forall>item \<in> set items. covers sid r (fst item) s \<Longrightarrow> fold (record_item sid r n) items s = s"
  by (induction items) (auto simp: covers_idle)

text \<open>
  C32: A report is charged once. Recording the same telemetry report again, at any later moment,
  changes nothing: no subscriber is charged twice for a report the agent repeats.
\<close>

theorem report_charged_once:
  "record_ledger sid stats reported later (record_ledger sid stats reported now s) =
   record_ledger sid stats reported now s"
  using fold_covers [of "[]" sid reported s _ now] fold_covered
  by (auto simp: record_ledger_def split: option.split)

lemma fold_record_other:
  "e \<notin> fst ` set items \<Longrightarrow>
   tbl_get ledger_key (user, sid, e) (b_ledgers (fold (record_item sid' r n) items s)) =
   tbl_get ledger_key (user, sid, e) (b_ledgers s)"
proof (induction items arbitrary: s)
  case (Cons item items)
  obtain e' up down where "item = (e', up, down)" by (cases item)
  with Cons show ?case by (auto simp: record_item_other)
qed simp

lemma fold_record_attribution [simp]:
  "attribution sid e (fold (record_item sid' r n) items s) = attribution sid e s"
  by (induction items arbitrary: s) auto

lemma record_ledger_key:
  assumes "attribution sid e s = Some (user, node, w)" and "distinct (map fst items)"
    and "(e, up, down) \<in> set items" and "tbl_get ledger_key (user, sid, e) (b_ledgers s) = Some l"
    and "\<not> stale r l"
  shows "tbl_get ledger_key (user, sid, e) (b_ledgers (record_ledger sid (Some items) r n s)) =
    Some (charge node w (int up) (int down) r n l)"
proof -
  obtain xs ys where items: "items = xs @ (e, up, down) # ys" using assms(3) by (auto dest: split_list)
  with assms(2) have out: "e \<notin> fst ` set xs" "e \<notin> fst ` set ys" by auto
  show ?thesis
    using assms(1,4,5) out by (simp add: record_ledger_def items fold_record_other record_item_key)
qed

text \<open>A mailbox's counters over a series of reports: never falling, at growing times.\<close>

fun rising :: "string \<Rightarrow> nat \<Rightarrow> nat \<Rightarrow> instant option \<Rightarrow> (user_stats \<times> instant \<times> instant) list \<Rightarrow> bool" where
  "rising e u d since [] = True"
| "rising e u d since ((items, r, n) # rest) =
     (distinct (map fst items) \<and>
      (case map_of items e of
         None \<Rightarrow> False
       | Some (u', d') \<Rightarrow> u \<le> u' \<and> d \<le> d' \<and> (case since of None \<Rightarrow> True | Some t \<Rightarrow> t < r) \<and>
           rising e u' d' (Some r) rest))"

fun final_counters :: "string \<Rightarrow> nat \<times> nat \<Rightarrow> (user_stats \<times> instant \<times> instant) list \<Rightarrow> nat \<times> nat" where
  "final_counters e ud [] = ud"
| "final_counters e ud ((items, r, n) # rest) =
     final_counters e (case map_of items e of Some v \<Rightarrow> v | None \<Rightarrow> ud) rest"

definition feed :: "string \<Rightarrow> (user_stats \<times> instant \<times> instant) list \<Rightarrow> billing \<Rightarrow> billing" where
  "feed sid reports s = fold (\<lambda>(items, r, n). record_ledger sid (Some items) r n) reports s"

text \<open>One subscriber with a two-way plan of weight 3/2, a credential and a ledger row.\<close>

definition sample_user :: bill_user where
  "sample_user = \<lparr>bu_name = ''u'', bu_limits = \<lparr>lu_traffic = None, lu_speed = None, lu_devices = None,
       lu_node_speeds = [], lu_node_devices = []\<rparr>, bu_removal = False, bu_active = True,
     bu_plan = Some ''p'', bu_started = Some ((2025, 1, 1), 0), bu_expires = None, bu_resets = True,
     bu_reset_day = 31, bu_last_reset = None, bu_created = ((2025, 1, 1), 0), bu_updated = ((2025, 1, 1), 0)\<rparr>"

definition sample_plan :: bill_plan where
  "sample_plan = \<lparr>bp_id = ''p'', bp_name = ''P'', bp_limits = \<lparr>lp_traffic = 1000, lp_speed = 0, lp_devices = 0,
       lp_node_speeds = [], lp_node_devices = [], lp_nodes = [''n'']\<rparr>, bp_two_way = True,
     bp_multipliers = [(''n'', 3 / 2)]\<rparr>"

definition sample_ledger :: ledger where
  "sample_ledger = \<lparr>le_user = ''u'', le_server = ''s'', le_email = ''m'', le_node = Some ''n'', le_up = 7,
     le_down = 9, le_weighted_up = 21, le_weighted_down = 27, le_last_up = 100, le_last_down = 200,
     le_reported = Some ((2025, 2, 1), 0), le_updated = ((2025, 2, 1), 0)\<rparr>"

definition sample_billing :: billing where
  "sample_billing = \<lparr>b_users = [sample_user], b_plans = [sample_plan],
     b_nodes = [\<lparr>bn_id = ''n'', bn_orchestrated = False, bn_components = []\<rparr>],
     b_credentials = [\<lparr>bc_user = ''u'', bc_node = ''n'', bc_server = ''s'', bc_email = ''m'', bc_raw_email = None\<rparr>],
     b_ledgers = [sample_ledger], b_archived = [], b_servers = [''s''], b_telemetry = []\<rparr>"

lemma record_ledger_attribution [simp]: "attribution sid e (record_ledger sid' st r n s) = attribution sid e s"
  by (auto simp: record_ledger_def split: option.split)

text \<open>
  Usage is the growth of the counters. Over any series of reports of a mailbox whose counters
  do not fall, together with any other mailboxes, the bytes charged to its ledger are exactly what
  the counters grew by, and the weighted bytes are that growth times the weight of its node.
\<close>

theorem usage_is_counter_growth:
  assumes "attribution sid e s = Some (user, node, w)"
    and "tbl_get ledger_key (user, sid, e) (b_ledgers s) = Some l"
    and "le_last_up l = int u" "le_last_down l = int d"
    and "rising e u d (le_reported l) reports"
    and "final_counters e (u, d) reports = (u', d')"
  shows "\<exists>l'. tbl_get ledger_key (user, sid, e) (b_ledgers (feed sid reports s)) = Some l' \<and>
    le_up l' - le_up l = int u' - int u \<and> le_down l' - le_down l = int d' - int d \<and>
    le_weighted_up l' - le_weighted_up l = of_int (int u' - int u) * w \<and>
    le_weighted_down l' - le_weighted_down l = of_int (int d' - int d) * w"
  using assms
proof (induction reports arbitrary: s l u d)
  case Nil
  then show ?case by (simp add: feed_def)
next
  case (Cons report rest)
  obtain items r n where report: "report = (items, r, n)" by (cases report)
  from Cons.prems(5) report obtain u1 d1 where m: "distinct (map fst items)" "map_of items e = Some (u1, d1)"
      "u \<le> u1" "d \<le> d1" "case le_reported l of None \<Rightarrow> True | Some t \<Rightarrow> t < r" "rising e u1 d1 (Some r) rest"
    by (auto split: option.splits)
  let ?l = "charge node w (int u1) (int d1) r n l" and ?s = "record_ledger sid (Some items) r n s"
  have "\<not> stale r l" using m(5) by (auto simp: stale_def split: option.splits)
  with record_ledger_key [OF Cons.prems(1) m(1) map_of_SomeD [OF m(2)] Cons.prems(2)]
  have get: "tbl_get ledger_key (user, sid, e) (b_ledgers ?s) = Some ?l" by blast
  have att: "attribution sid e ?s = Some (user, node, w)" using Cons.prems(1) by simp
  have l: "le_last_up ?l = int u1" "le_last_down ?l = int d1" "rising e u1 d1 (le_reported ?l) rest"
    using m(6) by (simp_all add: charge_def Let_def)
  have "final_counters e (u1, d1) rest = (u', d')" using Cons.prems(6) report m(2) by simp
  from Cons.IH [OF att get l this] obtain l' where l':
    "tbl_get ledger_key (user, sid, e) (b_ledgers (feed sid rest ?s)) = Some l'"
    "le_up l' - le_up ?l = int u' - int u1" "le_down l' - le_down ?l = int d' - int d1"
    "le_weighted_up l' - le_weighted_up ?l = of_int (int u' - int u1) * w"
    "le_weighted_down l' - le_weighted_down ?l = of_int (int d' - int d1) * w" by blast
  have c: "le_up ?l = le_up l + (int u1 - int u)" "le_down ?l = le_down l + (int d1 - int d)"
    "le_weighted_up ?l = le_weighted_up l + of_int (int u1 - int u) * w"
    "le_weighted_down ?l = le_weighted_down l + of_int (int d1 - int d) * w"
    using m(3,4) Cons.prems(3,4) by (simp_all add: charge_def grown_def Let_def)
  have f: "feed sid (report # rest) s = feed sid rest ?s" by (simp add: feed_def report)
  from l'(4,5) c(3,4) have "le_weighted_up l' - le_weighted_up l = of_int (int u' - int u) * w"
      "le_weighted_down l' - le_weighted_down l = of_int (int d' - int d) * w"
    by (simp_all add: algebra_simps)
  with l' c(1,2) f show ?case by auto
qed


theorem usage_is_counter_growth_witness:
  "\<exists>l'. tbl_get ledger_key (''u'', ''s'', ''m'') (b_ledgers (feed ''s''
     [([(''x'', 5, 5), (''m'', 150, 200)], ((2025, 2, 2), 0), ((2025, 2, 2), 1)),
      ([(''m'', 160, 220)], ((2025, 2, 3), 0), ((2025, 2, 3), 1))] sample_billing)) = Some l' \<and>
     le_up l' - 7 = 60 \<and> le_weighted_up l' - 21 = 180"
proof -
  have a: "attribution ''s'' ''m'' sample_billing = Some (''u'', ''n'', 3)"
    by (simp add: attribution_def sample_billing_def last_of_def billing_weight_def credential_plan_def plan_of_def
        sample_user_def sample_plan_def tbl_get_Cons component_owners_def component_ids_def add_owner_def traffic_factor_def)
  have l: "tbl_get ledger_key (''u'', ''s'', ''m'') (b_ledgers sample_billing) = Some sample_ledger"
    by (simp add: sample_billing_def sample_ledger_def tbl_get_Cons)
  from usage_is_counter_growth [OF a l, of 100 200
      "[([(''x'', 5, 5), (''m'', 150, 200)], ((2025, 2, 2), 0), ((2025, 2, 2), 1)),
        ([(''m'', 160, 220)], ((2025, 2, 3), 0), ((2025, 2, 3), 1))]" 160 220]
  show ?thesis by (auto simp: sample_ledger_def less_prod_def')
qed

section \<open>Resets\<close>

definition zero_ledger :: "ledger \<Rightarrow> bool" where
  "zero_ledger l \<longleftrightarrow> le_up l = 0 \<and> le_down l = 0 \<and> le_weighted_up l = 0 \<and> le_weighted_down l = 0"

definition zero_archived :: "archived \<Rightarrow> bool" where
  "zero_archived a \<longleftrightarrow> ac_up a = 0 \<and> ac_down a = 0 \<and> ac_weighted_up a = 0 \<and> ac_weighted_down a = 0"

text \<open>What the rows of a user look like while its reset runs.\<close>

definition zeroed :: "string \<Rightarrow> billing \<Rightarrow> bool" where
  "zeroed user s \<longleftrightarrow> (\<forall>l \<in> set (b_ledgers s). le_user l = user \<longrightarrow> zero_ledger l)"

lemma rebase_ledger_simps [simp]: "le_user (rebase_ledger now s l) = le_user l" "zero_ledger (rebase_ledger now s l)"
  by (auto simp: rebase_ledger_def Let_def zero_ledger_def split: option.split prod.split)

lemma open_ledger_frame [simp]:
  "b_credentials (open_ledger now c s) = b_credentials s" "b_users (open_ledger now c s) = b_users s"
  "b_plans (open_ledger now c s) = b_plans s" "b_archived (open_ledger now c s) = b_archived s"
  by (auto simp: open_ledger_def split: prod.split)

lemma fold_open_ledger_frame [simp]:
  "b_credentials (fold (open_ledger now) cs s) = b_credentials s" "b_users (fold (open_ledger now) cs s) = b_users s"
  "b_plans (fold (open_ledger now) cs s) = b_plans s" "b_archived (fold (open_ledger now) cs s) = b_archived s"
  by (induction cs arbitrary: s) auto

lemma open_ledger_zeroed: "zeroed user s \<Longrightarrow> zeroed user (open_ledger now c s)"
  by (auto simp: open_ledger_def zeroed_def zero_ledger_def split: prod.split)

lemma fold_open_ledger_zeroed: "zeroed user s \<Longrightarrow> zeroed user (fold (open_ledger now) cs s)"
  by (induction cs arbitrary: s) (auto simp: open_ledger_zeroed)

lemma open_ledger_user: "\<exists>l \<in> set (b_ledgers (open_ledger now c s)). le_user l = bc_user c"
  by (auto simp: open_ledger_def split: prod.split dest: tbl_get_SomeD)

lemma open_ledger_mono: "set (b_ledgers s) \<subseteq> set (b_ledgers (open_ledger now c s))"
  by (auto simp: open_ledger_def split: prod.split)

lemma fold_open_ledger_mono: "set (b_ledgers s) \<subseteq> set (b_ledgers (fold (open_ledger now) cs s))"
  using open_ledger_mono by (induction cs arbitrary: s) (simp, simp, blast)

lemma fold_open_ledger_user:
  "c \<in> set cs \<Longrightarrow> \<exists>l \<in> set (b_ledgers (fold (open_ledger now) cs s)). le_user l = bc_user c"
proof (induction cs arbitrary: s)
  case (Cons a cs)
  then show ?case
    using open_ledger_user [of now a s] fold_open_ledger_mono [of "open_ledger now a s" now cs] by auto
qed simp

lemma reset_user_frame [simp]:
  "b_credentials (reset_user user now s) = b_credentials s" "b_plans (reset_user user now s) = b_plans s"
  by (simp_all add: reset_user_def Let_def)

lemma reset_user_zeroed: "zeroed user (reset_user user now s)"
proof -
  have "zeroed user (s\<lparr>b_ledgers := tbl_upd (\<lambda>l. le_user l = user) (rebase_ledger now s) (b_ledgers s)\<rparr>)"
    by (auto simp: zeroed_def ball_tbl_upd)
  from fold_open_ledger_zeroed [OF this] show ?thesis by (simp add: reset_user_def Let_def zeroed_def)
qed

lemma reset_user_ledgers:
  assumes "user_ledgers user (reset_user user now s) = []"
  shows "user_credentials user (reset_user user now s) = []"
proof (rule ccontr)
  assume "user_credentials user (reset_user user now s) \<noteq> []"
  then obtain c where c: "c \<in> set (user_credentials user s)"
    by (auto simp: user_credentials_def filter_empty_conv)
  then have "bc_user c = user" by (simp add: user_credentials_def)
  with fold_open_ledger_user [OF c] assms show False
    by (fastforce simp: reset_user_def Let_def user_ledgers_def filter_empty_conv)
qed

lemma reset_user_archived: "a \<in> set (user_archived user (reset_user user now s)) \<Longrightarrow> zero_archived a"
proof -
  have "\<forall>a \<in> set (b_archived (reset_user user now s)). ac_user a = user \<longrightarrow> zero_archived a"
    by (simp add: reset_user_def Let_def ball_tbl_upd clear_archived_def zero_archived_def)
  then show "a \<in> set (user_archived user (reset_user user now s)) \<Longrightarrow> zero_archived a"
    by (simp add: user_archived_def)
qed

lemma sum_list_zero: "(\<And>x. x \<in> set xs \<Longrightarrow> f x = 0) \<Longrightarrow> sum_list (map f xs) = (0 :: 'a::comm_monoid_add)"
  by (induction xs) auto

text \<open>
  A reset starts from zero. After the traffic of a user was reset, its usage is zero, raw and
  weighted, archived servers and credentials without a ledger row included; so with a positive
  quota the user is no longer over it.
\<close>

theorem reset_starts_at_zero:
  "user_traffic user (reset_user user now s) = (0, 0) \<and> user_weighted_traffic user (reset_user user now s) = (0, 0) \<and>
   charged_usage user (reset_user user now s) = 0"
proof -
  let ?s = "reset_user user now s"
  have led: "zero_ledger l" if "l \<in> set (user_ledgers user ?s)" for l
    using that reset_user_zeroed [of user now s] by (auto simp: user_ledgers_def zeroed_def)
  have arc: "zero_archived a" if "a \<in> set (user_archived user ?s)" for a
    using that by (rule reset_user_archived)
  have none: "latest_user_traffic user ?s = (0, 0) \<and> latest_weighted_traffic user ?s = (0, 0)"
    if "user_ledgers user ?s = []"
  proof -
    have "(case latest_stats sid ?s of None \<Rightarrow> [] | Some us \<Rightarrow> List.map_filter (map_of us) []) = []" for sid
      by (simp add: map_filter_simps split: option.split)
    then have "concat (map (\<lambda>sid. case latest_stats sid ?s of None \<Rightarrow> [] | Some us \<Rightarrow> List.map_filter (map_of us) []) ss) = []"
      for ss by simp
    with reset_user_ledgers [OF that] show ?thesis
      by (simp add: latest_user_traffic_def latest_weighted_traffic_def Let_def map_filter_simps del: concat_eq_Nil_conv)
  qed
  have a: "sum_list (map ac_up (user_archived user ?s)) = 0" "sum_list (map ac_down (user_archived user ?s)) = 0"
    "sum_list (map ac_weighted_up (user_archived user ?s)) = 0" "sum_list (map ac_weighted_down (user_archived user ?s)) = 0"
    using arc by (auto intro!: sum_list_zero simp: zero_archived_def)
  have l: "sum_list (map le_up (user_ledgers user ?s)) = 0" "sum_list (map le_down (user_ledgers user ?s)) = 0"
    "sum_list (map le_weighted_up (user_ledgers user ?s)) = 0" "sum_list (map le_weighted_down (user_ledgers user ?s)) = 0"
    using led by (auto intro!: sum_list_zero simp: zero_ledger_def)
  have "user_traffic user ?s = (0, 0)" "user_weighted_traffic user ?s = (0, 0)"
    using none a l by (auto simp: user_traffic_def user_weighted_traffic_def Let_def)
  then show ?thesis by (simp add: charged_usage_def py_int_def)
qed

section \<open>The monthly reset\<close>

lemma month_delta_next: "1 \<le> m \<Longrightarrow> m \<le> 12 \<Longrightarrow> month_delta y m 1 = (if m = 12 then (y + 1, 1) else (y, m + 1))"
proof -
  assume m: "1 \<le> m" "m \<le> 12"
  have e: "y * 12 + int m - 1 + 1 = int m + 12 * y" by simp
  show ?thesis
    unfolding month_delta_def Let_def e
    using m by (auto simp: div_add1_eq nat_eq_iff)
qed

lemma month_delta_previous:
  "1 \<le> m \<Longrightarrow> m \<le> 12 \<Longrightarrow> month_delta y m (-1) = (if m = 1 then (y - 1, 12) else (y, m - 1))"
proof -
  assume m: "1 \<le> m" "m \<le> 12"
  have e: "y * 12 + int m - 1 + -1 = (int m - 2) + 12 * y" by simp
  have "(int m - 2) div 12 = (if m = 1 then -1 else 0)" "(int m - 2) mod 12 = (if m = 1 then 11 else int m - 2)"
    using m by auto
  then show ?thesis
    unfolding month_delta_def Let_def e
    using m by auto
qed

text \<open>
  The reset boundaries bracket the present. For a user with a monthly reset day and any valid
  moment, the last boundary is not after it and the next one is after it, whatever the length of
  the months.
\<close>

theorem reset_boundaries_bracket:
  assumes "bu_resets u" and "0 < bu_reset_day u" and "valid_date (day_of now)"
  shows "\<exists>a b. reset_boundaries u now = (Some a, Some b) \<and> a \<le> now \<and> now < b"
proof -
  obtain y m d t where now: "now = ((y, m, d), t)" by (metis prod.exhaust)
  have m: "1 \<le> m" "m \<le> 12" using assms(3) now by (simp_all add: valid_date_def)
  have earlier: "monthly_reset_at ym k < now" if "ym < (y, m)" for ym k
    using that now by (cases ym) (auto simp: monthly_reset_at_def less_prod_def')
  have upcoming: "now < monthly_reset_at ym k" if "(y, m) < ym" for ym k
    using that now by (cases ym) (auto simp: monthly_reset_at_def less_prod_def')
  have months: "(y, m) < month_delta y m 1" "month_delta y m (-1) < (y, m)"
    using m by (auto simp: month_delta_next month_delta_previous less_prod_def')
  show ?thesis
  proof (cases "monthly_reset_at (y, m) (bu_reset_day u) \<le> now")
    case True
    have "now < monthly_reset_at (month_delta y m 1) (bu_reset_day u)" using months(1) by (rule upcoming)
    with True assms now show ?thesis by (simp add: reset_boundaries_def)
  next
    case False
    have "monthly_reset_at (month_delta y m (-1)) (bu_reset_day u) < now" using months(2) by (rule earlier)
    then have "monthly_reset_at (month_delta y m (-1)) (bu_reset_day u) \<le> now"
        "now < monthly_reset_at (y, m) (bu_reset_day u)"
      using False by (simp_all only: less_imp_le not_le)
    with False assms(1,2) now show ?thesis by (simp add: reset_boundaries_def)
  qed
qed

theorem reset_boundaries_bracket_witness:
  "\<exists>a b. reset_boundaries sample_user ((2024, 2, 29), 5) = (Some a, Some b) \<and> a \<le> ((2024, 2, 29), 5) \<and>
     ((2024, 2, 29), 5) < b"
  by (rule reset_boundaries_bracket)
    (auto simp: sample_user_def valid_date_def month_len_def leap_year_def)

lemma boundary_reached:
  assumes "valid_date (day_of now)" and "fst (reset_boundaries u now) = Some a"
  shows "a \<le> now"
proof -
  have "bu_resets u \<and> 0 < bu_reset_day u" using assms(2) by (auto simp: reset_boundaries_def split: if_splits)
  with reset_boundaries_bracket [of u now] assms show ?thesis by auto
qed

lemma reset_user_users:
  "tbl_get bu_name n (b_users (reset_user user now s)) =
   map_option (\<lambda>u. if n = user then u\<lparr>bu_last_reset := Some now, bu_updated := now\<rparr> else u) (tbl_get bu_name n (b_users s))"
proof -
  have "tbl_get bu_name n (b_users (reset_user user now s)) = map_option
      (\<lambda>u. if bu_name u = user then u\<lparr>bu_last_reset := Some now, bu_updated := now\<rparr> else u) (tbl_get bu_name n (b_users s))"
    by (simp add: reset_user_def Let_def tbl_get_upd)
  then show ?thesis by (cases "tbl_get bu_name n (b_users s)") (auto dest: tbl_get_SomeD)
qed

definition is_due :: "instant \<Rightarrow> billing \<Rightarrow> string \<Rightarrow> bool" where
  "is_due now s n = (case tbl_get bu_name n (b_users s) of Some u \<Rightarrow> due u now s | None \<Rightarrow> False)"

lemma due_frame: "b_plans s' = b_plans s \<Longrightarrow> due u now s' = due u now s"
  by (simp add: due_def plan_of_def split: option.split)

lemma not_due_after_reset:
  assumes "valid_date (day_of now)"
  shows "\<not> due (u\<lparr>bu_last_reset := Some now, bu_updated := now\<rparr>) now s"
proof -
  let ?u = "u\<lparr>bu_last_reset := Some now, bu_updated := now\<rparr>"
  have "reset_boundaries ?u now = reset_boundaries u now"
    by (simp add: reset_boundaries_def Let_def split: prod.split)
  with boundary_reached [OF assms, of u] show ?thesis
    by (cases "fst (reset_boundaries u now)") (auto simp: due_def reset_due_def)
qed

lemma is_due_reset:
  assumes "valid_date (day_of now)"
  shows "is_due now (reset_user user now s) n = (n \<noteq> user \<and> is_due now s n)"
  using not_due_after_reset [OF assms] due_frame [of "reset_user user now s" s]
  by (auto simp: is_due_def reset_user_users split: option.split)

lemma reset_if_due_step:
  "reset_if_due now n (s, names) = (if is_due now s n then (reset_user n now s, names @ [n]) else (s, names))"
  by (simp add: reset_if_due_def is_due_def split: option.split)

lemma fold_reset_if_due:
  assumes "valid_date (day_of now)" and "distinct ns"
  shows "\<exists>s'. fold (reset_if_due now) ns (s, names) = (s', names @ filter (is_due now s) ns) \<and>
    (\<forall>n. is_due now s' n = (n \<notin> set ns \<and> is_due now s n)) \<and>
    map bu_name (b_users s') = map bu_name (b_users s)"
  using assms(2)
proof (induction ns arbitrary: s names)
  case (Cons n ns)
  have keys: "map bu_name (b_users (reset_user n now s)) = map bu_name (b_users s)"
    by (simp add: reset_user_def Let_def map_tbl_upd)
  show ?case
  proof (cases "is_due now s n")
    case True
    from Cons.IH [of "reset_user n now s" "names @ [n]"] Cons.prems obtain s' where
      "fold (reset_if_due now) ns (reset_user n now s, names @ [n]) =
         (s', (names @ [n]) @ filter (is_due now (reset_user n now s)) ns)"
      "\<forall>k. is_due now s' k = (k \<notin> set ns \<and> is_due now (reset_user n now s) k)"
      "map bu_name (b_users s') = map bu_name (b_users (reset_user n now s))" by auto
    moreover have "filter (is_due now (reset_user n now s)) ns = filter (is_due now s) ns"
      using Cons.prems by (intro filter_cong) (auto simp: is_due_reset [OF assms(1)])
    ultimately show ?thesis using True keys by (auto simp: reset_if_due_step is_due_reset [OF assms(1)])
  next
    case False
    with Cons.IH [of s names] Cons.prems show ?thesis by (auto simp: reset_if_due_step)
  qed
qed simp

text \<open>
  The monthly reset settles. With distinct user names and a valid moment, the reset run names
  exactly the users a dry run names, and right after it no user is due, so running it again at the
  same moment resets nobody and changes nothing.
\<close>

theorem monthly_reset_settles:
  assumes "tbl_keyed bu_name (b_users s)" and "valid_date (day_of now)"
    and "reset_all_due now s = (s', names)"
  shows "names = due_users now s \<and> due_users now s' = [] \<and> reset_all_due now s' = (s', [])"
proof -
  let ?ns = "sort (map bu_name (b_users s))"
  have d: "distinct ?ns" using assms(1) by (simp add: tbl_keyed_def)
  from fold_reset_if_due [OF assms(2) d, of s "[]"] assms(3)
  have s': "names = filter (is_due now s) ?ns" "\<forall>n. is_due now s' n = (n \<notin> set ?ns \<and> is_due now s n)"
      "map bu_name (b_users s') = map bu_name (b_users s)"
    by (auto simp: reset_all_due_def)
  have eq: "due_users now t = filter (is_due now t) (sort (map bu_name (b_users t)))" for t
    unfolding due_users_def is_due_def ..
  have none: "due_users now s' = []" unfolding eq s'(3) using s'(2) by (auto simp: filter_empty_conv)
  have idle: "\<forall>n \<in> set ns. \<not> is_due now s' n \<Longrightarrow> fold (reset_if_due now) ns (s', []) = (s', [])" for ns
    by (induction ns) (auto simp: reset_if_due_step)
  have "reset_all_due now s' = (s', [])"
    unfolding reset_all_due_def s'(3) by (rule idle) (use s'(2) in auto)
  with s'(1) none eq show ?thesis by simp
qed

theorem monthly_reset_settles_witness:
  "due_users ((2025, 3, 1), 0) sample_billing = [''u''] \<and>
   due_users ((2025, 3, 1), 0) (fst (reset_all_due ((2025, 3, 1), 0) sample_billing)) = []"
proof -
  have "tbl_keyed bu_name (b_users sample_billing)" by (simp add: sample_billing_def tbl_keyed_def)
  moreover have "valid_date (day_of ((2025, 3, 1), 0))" by (simp add: valid_date_def month_len_def)
  moreover have "reset_all_due ((2025, 3, 1), 0) sample_billing =
      (fst (reset_all_due ((2025, 3, 1), 0) sample_billing), snd (reset_all_due ((2025, 3, 1), 0) sample_billing))"
    by simp
  moreover have "due_users ((2025, 3, 1), 0) sample_billing = [''u'']"
    by (simp add: due_users_def sample_billing_def sample_user_def sample_plan_def tbl_get_Cons due_def plan_of_def
        reset_due_def expired_def reset_boundaries_def monthly_reset_at_def month_len_def leap_year_def month_delta_def
        less_prod_def' less_eq_prod_def)
  ultimately show ?thesis using monthly_reset_settles by blast
qed

end
