(* ===== verification/Queue_Outcomes.thy ===== *)
theory Queue_Outcomes
  imports Fleet_Invariant
begin

text \<open>
  Where a command's success comes from: of all that touches the queue, only \<open>apply_result\<close> makes a
  row \<open>Succeeded\<close>, and no handler changes the identity, the request or the payload of a row.
\<close>

definition same_origin :: "command \<Rightarrow> command \<Rightarrow> bool" where
  "same_origin c c' \<longleftrightarrow> cm_id c' = cm_id c \<and> cm_server c' = cm_server c \<and> cm_request c' = cm_request c \<and>
     cm_payload c' = cm_payload c"

definition no_gain :: "command \<Rightarrow> command \<Rightarrow> bool" where
  "no_gain c c' \<longleftrightarrow> same_origin c c' \<and> (cm_status c' = Succeeded \<longrightarrow>
     cm_status c = Succeeded \<and> cm_result_status c' = cm_result_status c \<and> cm_result_body c' = cm_result_body c \<and>
     cm_attempts c' = cm_attempts c)"

text \<open>A request id is drawn with its row: \<open>(server, id)\<close> in the model.\<close>

definition named :: "command \<Rightarrow> bool" where
  "named c \<longleftrightarrow> cm_request c = (cm_server c, cm_id c)"

definition calm_rows :: "command list \<Rightarrow> command list \<Rightarrow> bool" where
  "calm_rows cs cs' \<longleftrightarrow>
     (\<forall>c' \<in> set cs'. (\<exists>c \<in> set cs. no_gain c c') \<or> (named c' \<and> cm_status c' \<noteq> Succeeded))"

abbreviation calm :: "fleet \<Rightarrow> fleet \<Rightarrow> bool" where
  "calm s s' \<equiv> calm_rows (cmds s) (cmds s')"

lemma no_gain_refl [simp]: "no_gain c c"
  by (simp add: no_gain_def same_origin_def)

lemma no_gain_trans: "no_gain a b \<Longrightarrow> no_gain b c \<Longrightarrow> no_gain a c"
  by (auto simp: no_gain_def same_origin_def)

lemma no_gain_named: "no_gain a b \<Longrightarrow> named a \<Longrightarrow> cm_status a \<noteq> Succeeded \<Longrightarrow> named b \<and> cm_status b \<noteq> Succeeded"
  by (auto simp: no_gain_def same_origin_def named_def)

lemma calm_refl [simp]: "calm_rows cs cs"
  unfolding calm_rows_def using no_gain_refl by blast

lemma calm_trans: "calm_rows a b \<Longrightarrow> calm_rows b c \<Longrightarrow> calm_rows a c"
  unfolding calm_rows_def by (meson no_gain_named no_gain_trans)

lemma calm_upd: "(\<And>c. P c \<Longrightarrow> no_gain c (f c)) \<Longrightarrow> calm_rows cs (tbl_upd P f cs)"
  unfolding calm_rows_def ball_tbl_upd by (metis no_gain_refl)

lemma calm_upd_cmd: "(\<And>c. no_gain c (f c)) \<Longrightarrow> calm s (upd_cmd i f s)"
  by (simp add: upd_cmd_def calm_upd)

lemma calm_append: "named c \<Longrightarrow> cm_status c \<noteq> Succeeded \<Longrightarrow> calm_rows cs (cs @ [c])"
  unfolding calm_rows_def by (auto intro: no_gain_refl)

text \<open>Every table operation of the coordinator leaves the commands alone.\<close>

lemma coordinator_cmds [simp]:
  "cmds (upd_change i g s) = cmds s" "cmds (set_status i st s) = cmds s" "cmds (touch i now s) = cmds s"
  "cmds (upd_step j h s) = cmds s" "cmds (release i s) = cmds s" "cmds (upd_server sid k s) = cmds s"
  "cmds (seen_alive sid now s) = cmds s"
  by (simp_all add: upd_change_def set_status_def touch_def upd_step_def release_def upd_server_def seen_alive_def)

lemma reserve_servers_cmds: "reserve_servers sids i s = Inr s' \<Longrightarrow> cmds s' = cmds s"
  by (induction sids i s rule: reserve_servers.induct) (auto split: if_splits option.splits)

lemma reserve_cmds: "reserve i sts s = Inr s' \<Longrightarrow> cmds s' = cmds s"
  by (auto simp: reserve_def split: if_splits intro: reserve_servers_cmds)

section \<open>Creation\<close>

lemma new_command_calm: "new_command sid p now d err s = (s', c) \<Longrightarrow> calm s s'"
  by (auto simp: new_command_def Let_def named_def intro!: calm_append split: if_splits)

lemma create_command_model_calm: "create_command_model sid p now d s = Inr (s', c) \<Longrightarrow> calm s s'"
  by (auto simp: create_command_model_def intro: new_command_calm split: option.splits)

lemma create_skipped_command_calm: "create_skipped_command sid p now err d s = Inr (s', c) \<Longrightarrow> calm s s'"
  by (auto simp: create_skipped_command_def intro: new_command_calm split: option.splits)

lemma create_sequence_calm: "create_sequence sid ps now d s = Inr (s', cs) \<Longrightarrow> calm s s'"
proof (induction sid ps now d s arbitrary: s' cs rule: create_sequence.induct)
  case (2 sid p ps now d s)
  then show ?case
    by (auto split: sum.splits) (blast intro: calm_trans create_command_model_calm)
qed simp

lemma create_command_calm: "create_command sid p now s = Inr (s', c) \<Longrightarrow> calm s s'"
  by (auto simp: create_command_def intro: create_command_model_calm split: option.splits)

lemma create_command_sequence_calm: "create_command_sequence sid ps now s = Inr (s', cs) \<Longrightarrow> calm s s'"
  by (auto simp: create_command_sequence_def intro: create_sequence_calm split: option.splits)

section \<open>Dependents and the coordinator\<close>

lemma advance_dependents_calm: "calm_rows cs (advance_dependents ps now cs)"
proof (induction ps now cs rule: advance_dependents.induct)
  case (2 p ps now cs)
  have "calm_rows cs (tbl_upd (waits_for p) (wake now) cs)"
    by (rule calm_upd) (simp add: no_gain_def same_origin_def wake_def)
  moreover have "calm_rows cs (tbl_upd (waits_for p) (drop_dependent p now) cs)"
    by (rule calm_upd) (simp add: no_gain_def same_origin_def drop_dependent_def)
  ultimately show ?case using 2 by (auto simp: advance_dependents.simps intro: calm_trans)
qed (simp add: advance_dependents.simps)

lemma dependents_calm: "calm s (advance_command_dependents i now s)"
  by (simp add: advance_command_dependents_def advance_dependents_calm)

lemma upd_and_advance_calm:
  "(\<And>c. no_gain c (f c)) \<Longrightarrow> calm s (advance_command_dependents i now (upd_cmd j f s))"
  by (rule calm_trans [OF calm_upd_cmd dependents_calm])

lemma stop_unsent_calm: "calm s (stop_unsent sts now s)"
proof (induction sts now s rule: stop_unsent.induct)
  case (2 st sts now s)
  have "calm s (advance_command_dependents (cm_id c) now (upd_cmd (cm_id c) (stop_row now) s))" for c
    by (rule upd_and_advance_calm) (simp add: no_gain_def same_origin_def stop_row_def)
  with 2 show ?case by (auto split: option.split intro: calm_trans)
qed simp

lemma skip_rollback_gain: "no_gain c (skip_rollback err now c)"
  by (simp add: no_gain_def same_origin_def skip_rollback_def)

lemma compensation_calm:
  assumes "compensation st p skip now d s = Inr (s', c)"
  shows "calm s s'"
proof (cases "rollback_of st s")
  case None
  with assms show ?thesis
    by (cases skip) (auto simp: compensation_def map_sum_eq_Inr
        intro: create_command_model_calm create_skipped_command_calm)
next
  case (Some r)
  with assms show ?thesis
    by (cases skip) (auto simp: compensation_def intro: calm_upd_cmd [OF skip_rollback_gain] split: if_splits)
qed

lemma queue_rollbacks_calm: "queue_rollbacks sts skip now d s = Inr (s', ids, m) \<Longrightarrow> calm s s'"
proof (induction sts arbitrary: d s s' ids m)
  case (Cons st sts)
  show ?case
  proof (cases "attempted (forward_of st s) \<and> st_rollback st \<noteq> None")
    case False
    then show ?thesis using Cons by (auto simp: map_sum_eq_Inr split: if_splits option.splits)
  next
    case True
    then obtain p where p: "st_rollback st = Some p" by auto
    have eq: "queue_rollbacks (st # sts) skip now d s =
        (case compensation st p skip now d s of Inl e \<Rightarrow> Inl e
         | Inr (s', c) \<Rightarrow> map_sum id (\<lambda>(s'', ids, missing). (s'', cm_id c # ids, missing))
             (queue_rollbacks sts skip now (Some c) s'))"
      using True p by (simp add: compensation_def)
    from Cons.prems obtain s1 c ids' where one: "compensation st p skip now d s = Inr (s1, c)"
        and rest: "queue_rollbacks sts skip now (Some c) s1 = Inr (s', ids', m)"
      unfolding eq by (auto simp: map_sum_eq_Inr split: sum.splits)
    from calm_trans [OF compensation_calm [OF one] Cons.IH [OF rest]] show ?thesis .
  qed
qed simp

lemma settle_rollback_cmds [simp]: "cmds (settle_rollback i rbs missing s) = cmds s"
  by (simp add: settle_rollback_def)

lemma advance_rollback_calm: "advance_rollback i now s = Inr s' \<Longrightarrow> calm s s'"
  using stop_unsent_calm [of s "change_steps i s" now] queue_rollbacks_calm
  by (fastforce simp: advance_rollback_def Let_def split: if_splits sum.splits intro: calm_trans)

lemma advance_forward_calm: "calm s (advance_forward ch now s)"
  using stop_unsent_calm [of s "change_steps (ch_id ch) s" now]
  by (simp add: advance_forward_def Let_def split: option.split)

lemma advance_calm: "advance i now s = Inr s' \<Longrightarrow> calm s s'"
  using advance_forward_calm [of s _ now] advance_rollback_calm [of i now]
  by (fastforce simp: advance_def Let_def map_sum_eq_Inr split: option.splits if_splits intro: calm_trans)

lemma advance_after_result_calm: "advance_after_result i now s = Inr s' \<Longrightarrow> calm s s'"
  by (auto simp: advance_after_result_def intro: advance_calm split: option.splits if_splits)

section \<open>Operators\<close>

lemma dispatch_steps_calm: "dispatch_steps sts now d s = Inr (s', cs) \<Longrightarrow> calm s s'"
proof (induction sts now d s arbitrary: s' cs rule: dispatch_steps.induct)
  case (2 st sts now d s)
  from "2.prems" obtain s1 c cs' where one: "create_command_model (st_server st) (st_forward st) now d s = Inr (s1, c)"
      and rest: "dispatch_steps sts now (Some c) (upd_step (st_id st) (\<lambda>x. x\<lparr>st_forward_id := Some (cm_id c)\<rparr>) s1) =
        Inr (s', cs')"
    by (auto simp: map_sum_eq_Inr split: sum.splits)
  from calm_trans [OF create_command_model_calm [OF one]] "2.IH" [OF one refl rest] show ?case by simp
qed simp

lemma dispatch_calm: "dispatch i now s = Inr (s', cs) \<Longrightarrow> calm s s'"
  by (auto simp: dispatch_def Let_def dest!: reserve_cmds dispatch_steps_calm split: option.splits if_splits sum.splits)

lemma start_rollback_calm: "start_rollback ch reason now s = Inr s' \<Longrightarrow> calm s s'"
  by (auto simp: start_rollback_def Let_def dest!: reserve_cmds advance_calm split: if_splits sum.splits)

lemma rollback_calm: "rollback i reason now s = Inr (s', ids) \<Longrightarrow> calm s s'"
  by (auto simp: rollback_def dest: start_rollback_calm split: option.splits if_splits sum.splits)

lemma accept_calm: "accept i reason now s = Inr (s', u) \<Longrightarrow> calm s s'"
  by (auto simp: accept_def split: option.splits if_splits)

lemma create_change_set_calm: "create_change_set p now s = Inr (s', i) \<Longrightarrow> calm s s'"
  by (auto simp: create_change_set_def split: list.splits)

lemma migrate_change_calm: "calm s (migrate_change now i s)"
proof -
  have "calm_rows (cmds s) (tbl_upd P (pause_row now) (cmds s))" for P
    by (rule calm_upd) (simp add: no_gain_def same_origin_def pause_row_def)
  then show ?thesis by (simp add: migrate_change_def split: option.split)
qed

lemma migrate_legacy_calm: "calm s (migrate_legacy now s)"
proof -
  have "calm t (foldl (\<lambda>s' i. if Q s' i then migrate_change now i s' else s') t is)" for Q t "is"
    by (induction "is" arbitrary: t) (auto intro: calm_trans migrate_change_calm)
  from this [of s "\<lambda>s' i. case get_change i s' of Some ch \<Rightarrow> ch_version ch = 0 | None \<Rightarrow> False"]
  show ?thesis by (simp add: migrate_legacy_def)
qed

section \<open>Leases and results\<close>

lemma terminalize_calm: "terminalize i now err st s = Inr s' \<Longrightarrow> calm s s'"
  unfolding terminalize_def
  by (rule calm_trans [OF upd_and_advance_calm advance_after_result_calm])
    (simp_all add: no_gain_def same_origin_def terminal_row_def)

lemma skip_command_calm: "skip_command i now err s = Inr s' \<Longrightarrow> calm s s'"
  unfolding skip_command_def
  by (rule calm_trans [OF upd_and_advance_calm advance_after_result_calm])
    (simp_all add: no_gain_def same_origin_def skip_row_def)

lemma lease_row_gain: "no_gain c (lease_row now c)"
  by (simp add: no_gain_def same_origin_def lease_row_def)

lemma claim_lease_calm: "claim_lease v now c s = Inr (s', ok) \<Longrightarrow> calm s s'"
  by (auto simp: claim_lease_def map_sum_eq_Inr intro: terminalize_calm skip_command_calm
      intro!: calm_upd lease_row_gain split: if_splits verdict.splits option.splits)

lemma lease_loop_calm: "lease_loop vs now limit is leased s = Inr (s', ids) \<Longrightarrow> calm s s'"
proof (induction vs now limit "is" leased s rule: lease_loop.induct)
  case (2 vs now limit i "is" leased s)
  show ?case
  proof (cases "int (length leased) \<ge> limit \<or> get_cmd i s = None")
    case True
    with 2 show ?thesis by (auto split: if_splits)
  next
    case False
    then obtain c where c: "get_cmd i s = Some c" and more: "\<not> limit \<le> int (length leased)" by auto
    then obtain s1 ok where one: "claim_lease (vs i) now c s = Inr (s1, ok)"
        and rest: "lease_loop vs now limit is (if ok then leased @ [i] else leased) s1 = Inr (s', ids)"
      using "2.prems" by (auto split: sum.splits)
    from calm_trans [OF claim_lease_calm [OF one] "2.IH"(2) [OF more c one refl rest]] show ?thesis .
  qed
qed simp

lemma lease_commands_calm: "lease_commands token limit now vs s = Inr (s', cs) \<Longrightarrow> calm s s'"
  by (auto simp: lease_commands_def Let_def dest: lease_loop_calm split: sum.splits)

lemma lease_for_push_calm: "lease_for_push i v now s = Inr (s', r) \<Longrightarrow> calm s s'"
  by (auto simp: lease_for_push_def map_sum_eq_Inr dest: claim_lease_calm split: option.splits)

lemma reconcile_calm: "reconcile_capability_loss i now s = Inr (s', c) \<Longrightarrow> calm s s'"
  by (auto simp: reconcile_capability_loss_def map_sum_eq_Inr dest: terminalize_calm split: option.splits if_splits)

lemma release_lease_calm: "release_lease i n now s = Inr (s', c) \<Longrightarrow> calm s s'"
  by (auto simp: release_lease_def Let_def no_gain_def same_origin_def intro!: calm_upd split: option.splits)

lemma append_frame_calm: "append_frame token rid data now s = Inr (s', f) \<Longrightarrow> calm s s'"
proof -
  have "calm_rows (cmds s) (tbl_upd P (\<lambda>r. r\<lparr>cm_updated := now\<rparr>) (cmds s))" for P
    by (rule calm_upd) (simp add: no_gain_def same_origin_def)
  then show "append_frame token rid data now s = Inr (s', f) \<Longrightarrow> calm s s'"
    by (auto simp: append_frame_def Let_def upd_cmd_def split: sum.splits option.splits if_splits)
qed

lemma queue_refresh_calm: "queue_refresh sid c r now s = Inr s' \<Longrightarrow> calm s s'"
  by (auto simp: queue_refresh_def map_sum_eq_Inr dest: create_command_model_calm split: if_splits)

lemma propagate_result_calm:
  assumes "propagate_result sid c row r now s = Inr s'"
  shows "calm s s'"
proof -
  let ?s3 = "advance_command_dependents (cm_id c) now (upd_server sid (heard_from c row (rp_body r) now) s)"
  have one: "calm s ?s3" using dependents_calm [of "upd_server sid (heard_from c row (rp_body r) now) s"] by simp
  obtain s4 where "calm ?s3 s4" and "advance_after_result (cm_id c) now s4 = Inr s'"
  proof (cases "cm_status row = Failed")
    case True
    with assms that [of ?s3] show thesis by (simp add: propagate_result_def)
  next
    case False
    with assms obtain s4 where "queue_refresh sid c r now ?s3 = Inr s4" "advance_after_result (cm_id c) now s4 = Inr s'"
      by (auto simp: propagate_result_def Let_def split: sum.splits)
    then show thesis using that queue_refresh_calm by blast
  qed
  with one show ?thesis by (blast intro: calm_trans advance_after_result_calm)
qed

text \<open>The one source of success: a report without error and below 400, on the row it is applied to.\<close>

definition granted :: "(json \<Rightarrow> string) \<Rightarrow> command \<Rightarrow> result_report \<Rightarrow> command \<Rightarrow> bool" where
  "granted digest c r c' \<longleftrightarrow> same_origin c c' \<and> rp_status r < 400 \<and> no_error (rp_error r) \<and>
     access_confirmation digest c' (as_dict (rp_body r)) = None \<and>
     cm_result_status c' = Some (rp_status r) \<and> cm_result_body c' = rp_body r"

definition gains :: "(json \<Rightarrow> string) \<Rightarrow> command \<Rightarrow> result_report \<Rightarrow> fleet \<Rightarrow> fleet \<Rightarrow> bool" where
  "gains digest c r s s' \<longleftrightarrow> (\<forall>c' \<in> set (cmds s'). (\<exists>c0 \<in> set (cmds s). no_gain c0 c') \<or>
     (named c' \<and> cm_status c' \<noteq> Succeeded) \<or> granted digest c r c')"

lemma confirmation_row:
  assumes "cm_payload c' = cm_payload c" and "cm_attempts c' = cm_attempts c"
  shows "access_confirmation digest c' body = access_confirmation digest c body"
  unfolding access_confirmation_def assms ..

lemma granted_no_gain:
  assumes "granted digest c r c1" and "no_gain c1 c2"
  shows "granted digest c r c2 \<or> no_gain c c2"
proof (cases "cm_status c2 = Succeeded")
  case True
  with assms(2) have "cm_payload c2 = cm_payload c1" "cm_attempts c2 = cm_attempts c1"
    by (auto simp: no_gain_def same_origin_def)
  from confirmation_row [OF this] True assms show ?thesis
    by (simp add: granted_def no_gain_def same_origin_def)
next
  case False
  with assms show ?thesis by (simp add: granted_def no_gain_def same_origin_def)
qed

lemma gains_calm:
  assumes "c \<in> set (cmds s)" and "gains digest c r s s1" and "calm s1 s2"
  shows "gains digest c r s s2"
  unfolding gains_def
proof
  fix c2 assume "c2 \<in> set (cmds s2)"
  with assms(3) consider c1 where "c1 \<in> set (cmds s1)" "no_gain c1 c2" | "named c2 \<and> cm_status c2 \<noteq> Succeeded"
    unfolding calm_rows_def by blast
  then show "(\<exists>c0 \<in> set (cmds s). no_gain c0 c2) \<or> (named c2 \<and> cm_status c2 \<noteq> Succeeded) \<or> granted digest c r c2"
  proof cases
    case 1
    with assms(2) consider c0 where "c0 \<in> set (cmds s)" "no_gain c0 c1"
      | "named c1" "cm_status c1 \<noteq> Succeeded" | "granted digest c r c1"
      unfolding gains_def by blast
    then show ?thesis
    proof cases
      case 1
      then show ?thesis using no_gain_trans \<open>no_gain c1 c2\<close> by blast
    next
      case 2
      then show ?thesis using no_gain_named \<open>no_gain c1 c2\<close> by blast
    next
      case 3
      then have "granted digest c r c2 \<or> no_gain c c2" using granted_no_gain \<open>no_gain c1 c2\<close> by blast
      then show ?thesis using assms(1) by blast
    qed
  qed blast
qed

lemma gains_of_calm: "calm s s' \<Longrightarrow> gains digest c r s s'"
  unfolding gains_def calm_rows_def by blast

lemma result_error_access:
  assumes "no_error (result_error digest c st body err)" and "st < 400"
  shows "access_confirmation digest c (as_dict body) = None"
proof -
  have "no_error (access_confirmation digest c (as_dict body))"
    using assms by (auto simp: result_error_def Let_def or_else_def split: option.splits if_splits)
  then show ?thesis
    by (auto simp: no_error_def access_confirmation_def Let_def split: if_splits option.splits)
qed

lemma result_error_none: "no_error (result_error digest c st body err) \<Longrightarrow> no_error err"
  by (auto simp: result_error_def Let_def or_else_def split: option.splits if_splits)

lemma apply_result_gains:
  assumes run: "apply_result digest sid c r now s = Inr s'" and c: "c \<in> set (cmds s)" and ok: "queue_ok s"
  shows "gains digest c r s s'"
proof (cases "terminal c \<or> cm_status c = Waiting \<or> validate_result s c \<noteq> Inr ()")
  case True
  then show ?thesis using run by (auto simp: apply_result_def intro: gains_of_calm split: if_splits sum.splits)
next
  case False
  define err where "err = result_error digest c (rp_status r) (rp_body r) (rp_error r)"
  define s1 where "s1 = s\<lparr>cmds := tbl_upd (same_version c) (result_row err r now) (cmds s)\<rparr>"
  have row: "x = c" if "x \<in> set (cmds s)" "same_version c x" for x
    using that c ok tbl_get_keyed [of cm_id "cmds s"] by (auto simp: rows_ok_def same_version_def) (metis option.inject)
  have "no_gain c (result_row err r now c) \<or> granted digest c r (result_row err r now c)"
    using result_error_none [of digest c "rp_status r" "rp_body r" "rp_error r"]
      result_error_access [of digest c "rp_status r" "rp_body r" "rp_error r"]
      confirmation_row [of "result_row err r now c" c digest]
    by (auto simp: no_gain_def granted_def same_origin_def result_row_def err_def [symmetric] split: if_splits)
  then have each: "(\<exists>c0 \<in> set (cmds s). no_gain c0 (if same_version c x then result_row err r now x else x)) \<or>
      granted digest c r (if same_version c x then result_row err r now x else x)" if "x \<in> set (cmds s)" for x
    using row [OF that] c that by (cases "same_version c x") (auto intro: bexI [of _ x])
  have one: "gains digest c r s s1"
    unfolding gains_def
  proof
    fix c' assume "c' \<in> set (cmds s1)"
    then obtain x where x: "x \<in> set (cmds s)" and c': "c' = (if same_version c x then result_row err r now x else x)"
      by (auto simp: s1_def tbl_upd_def)
    from each [OF x] show "(\<exists>c0 \<in> set (cmds s). no_gain c0 c') \<or> (named c' \<and> cm_status c' \<noteq> Succeeded) \<or>
        granted digest c r c'" unfolding c' by blast
  qed
  have "s' = s1 \<or> propagate_result sid c (result_row err r now c) r now s1 = Inr s'"
    using run False by (auto simp: apply_result_def err_def s1_def Let_def split: if_splits sum.splits)
  then show ?thesis
    using one gains_calm [OF c one propagate_result_calm] by blast
qed

end
