(* ===== verification/Agent_Journal.thy ===== *)
theory Agent_Journal
  imports Commands
begin

text \<open>
  The node agent's durable command journal: \<open>CommandJournal\<close> of
  \<open>agent/app/open_node_agent/journal.py\<close> and the helper's \<open>record_result\<close> of
  \<open>lifecycle_report.py\<close>, which writes the same database. The two tables \<open>commands\<close> and \<open>settings\<close>
  are keyed lists; SQLite in WAL mode with \<open>synchronous=FULL\<close> keeps what a statement committed.
  The SHA-256 of the canonical JSON text is the parameter \<open>digest\<close>. The journal is shown to
  implement a register per request that is written once.
\<close>

section \<open>Data\<close>

type_synonym request = "nat \<times> nat"

text \<open>The result object; an absent key is \<open>None\<close>.\<close>

record agent_result =
  rs_request :: request
  rs_command :: "nat option"
  rs_status :: int
  rs_body :: "json option"
  rs_error :: "string option"

record journal_row =
  jr_request :: request
  jr_print :: string
  jr_result :: "agent_result option"
  jr_acked :: bool
  jr_created :: time

record journal =
  j_rows :: "journal_row list"
  j_settings :: "(string \<times> string) list"

definition empty_journal :: journal where
  "empty_journal = \<lparr>j_rows = [], j_settings = []\<rparr>"

text \<open>What identifies the content of a command: five of its fields, keys sorted.\<close>

definition fingerprint :: "(json \<Rightarrow> string) \<Rightarrow> payload \<Rightarrow> string" where
  "fingerprint digest p = digest (JObj
     [(''body'', pl_body p), (''method'', JStr (method_str (pl_method p))), (''path'', JStr (pl_path p)),
      (''query'', JStr (pl_query p)), (''stream'', JBool (pl_stream p))])"

section \<open>Operations\<close>

definition reused :: "request \<Rightarrow> agent_result" where
  "reused rid = \<lparr>rs_request = rid, rs_command = None, rs_status = 409, rs_body = None,
     rs_error = Some ''Request ID reused with different content''\<rparr>"

definition interrupted :: "request \<Rightarrow> agent_result" where
  "interrupted rid = \<lparr>rs_request = rid, rs_command = None, rs_status = 409, rs_body = None,
     rs_error = Some (''Previous execution was interrupted; inspect runtime '' @
       ''before issuing a new command'')\<rparr>"

definition find_row :: "request \<Rightarrow> journal \<Rightarrow> journal_row option" where
  "find_row rid j = tbl_get jr_request rid (j_rows j)"

text \<open>\<open>begin\<close>: an answer is the end of the command, no answer is the permission to run it.\<close>

definition begin_command ::
  "request \<Rightarrow> string \<Rightarrow> bool \<Rightarrow> time \<Rightarrow> journal \<Rightarrow> journal \<times> agent_result option" where
  "begin_command rid print resume now j =
     (case find_row rid j of
        Some row \<Rightarrow>
          if jr_print row \<noteq> print then (j, Some (reused rid))
          else (case jr_result row of
                  Some r \<Rightarrow> (j, Some r)
                | None \<Rightarrow> (j, if resume then None else Some (interrupted rid)))
      | None \<Rightarrow>
          (j\<lparr>j_rows := j_rows j @ [\<lparr>jr_request = rid, jr_print = print, jr_result = None, jr_acked = False,
             jr_created = now\<rparr>]\<rparr>, None))"

definition finish_command :: "agent_result \<Rightarrow> journal \<Rightarrow> journal" where
  "finish_command r j =
     j\<lparr>j_rows := tbl_upd (\<lambda>w. jr_request w = rs_request r \<and> jr_result w = None)
         (\<lambda>w. w\<lparr>jr_result := Some r\<rparr>) (j_rows j)\<rparr>"

definition acknowledge :: "request \<Rightarrow> journal \<Rightarrow> journal" where
  "acknowledge rid j = j\<lparr>j_rows := tbl_upd (\<lambda>w. jr_request w = rid) (\<lambda>w. w\<lparr>jr_acked := True\<rparr>) (j_rows j)\<rparr>"

definition pending_results :: "journal \<Rightarrow> agent_result list" where
  "pending_results j =
     List.map_filter jr_result (sort_key jr_created (filter (\<lambda>w. \<not> jr_acked w) (j_rows j)))"

text \<open>The desired state of the managed services.\<close>

definition running_key :: "string \<Rightarrow> string" where
  "running_key service = (if service = ''xray'' then ''runtime_running'' else service @ ''_running'')"

definition desired_running :: "bool \<Rightarrow> string \<Rightarrow> journal \<Rightarrow> bool" where
  "desired_running auto service j =
     (case tbl_get fst (running_key service) (j_settings j) of
        Some row \<Rightarrow> snd row = ''true'' | None \<Rightarrow> auto)"

definition set_desired_running :: "bool \<Rightarrow> string \<Rightarrow> journal \<Rightarrow> journal" where
  "set_desired_running running service j =
     j\<lparr>j_settings := tbl_put fst (running_key service, if running then ''true'' else ''false'') (j_settings j)\<rparr>"

text \<open>\<open>record_result\<close> of the lifecycle report, for a finished host job.\<close>

definition record_result :: "request \<Rightarrow> string \<Rightarrow> agent_result \<Rightarrow> bool \<Rightarrow> journal \<Rightarrow> journal" where
  "record_result rid print r acked j =
     (let j1 = j\<lparr>j_rows := tbl_upd (\<lambda>w. jr_request w = rid \<and> jr_print w = print \<and> jr_result w = None)
                  (\<lambda>w. w\<lparr>jr_result := Some r\<rparr>) (j_rows j)\<rparr>
      in if acked
         then j1\<lparr>j_rows := tbl_upd (\<lambda>w. jr_request w = rid \<and> jr_print w = print)
                (\<lambda>w. w\<lparr>jr_acked := True\<rparr>) (j_rows j1)\<rparr>
         else j1)"

section \<open>The register it implements\<close>

text \<open>
  Per request: nothing yet, running under a fingerprint, or settled with a result. A register is
  opened once and settled once; both are refused ever after.
\<close>

datatype phase = Fresh | Running string | Settled string agent_result

definition open_register ::
  "request \<Rightarrow> string \<Rightarrow> bool \<Rightarrow> (request \<Rightarrow> phase) \<Rightarrow> (request \<Rightarrow> phase) \<times> agent_result option" where
  "open_register rid print resume ph =
     (case ph rid of
        Fresh \<Rightarrow> (ph(rid := Running print), None)
      | Running p \<Rightarrow>
          (ph, if p \<noteq> print then Some (reused rid) else if resume then None else Some (interrupted rid))
      | Settled p r \<Rightarrow> (ph, Some (if p \<noteq> print then reused rid else r)))"

definition settle_register :: "agent_result \<Rightarrow> (request \<Rightarrow> phase) \<Rightarrow> request \<Rightarrow> phase" where
  "settle_register r ph =
     (case ph (rs_request r) of Running p \<Rightarrow> ph(rs_request r := Settled p r) | _ \<Rightarrow> ph)"

fun row_phase :: "journal_row option \<Rightarrow> phase" where
  "row_phase None = Fresh"
| "row_phase (Some w) =
     (case jr_result w of None \<Rightarrow> Running (jr_print w) | Some r \<Rightarrow> Settled (jr_print w) r)"

definition phases :: "journal \<Rightarrow> request \<Rightarrow> phase" where
  "phases j rid = row_phase (find_row rid j)"

lemma begin_phases:
  "phases (fst (begin_command rid print resume now j)) = fst (open_register rid print resume (phases j)) \<and>
   snd (begin_command rid print resume now j) = snd (open_register rid print resume (phases j))"
proof (cases "find_row rid j")
  case None
  then have "find_row k (fst (begin_command rid print resume now j)) =
      (if k = rid then Some \<lparr>jr_request = rid, jr_print = print, jr_result = None, jr_acked = False,
         jr_created = now\<rparr> else find_row k j)" for k
    by (simp add: begin_command_def find_row_def tbl_get_append tbl_get_Cons split: option.split)
  then show ?thesis using None
    by (auto simp: begin_command_def phases_def open_register_def fun_eq_iff)
next
  case (Some w)
  then show ?thesis
    by (auto simp: begin_command_def phases_def open_register_def split: option.split)
qed

lemma find_row_upd:
  "(\<And>w. jr_request (f w) = jr_request w) \<Longrightarrow>
   find_row k (j\<lparr>j_rows := tbl_upd P f (j_rows j)\<rparr>) = map_option (\<lambda>w. if P w then f w else w) (find_row k j)"
  by (simp add: find_row_def tbl_get_upd)

lemma find_row_request: "find_row k j = Some w \<Longrightarrow> jr_request w = k"
  by (auto simp: find_row_def dest: tbl_get_SomeD)

text \<open>The phase of a request after an update of rows that keeps their request.\<close>

lemma phases_upd:
  assumes "\<And>w. jr_request (f w) = jr_request w"
  shows "phases (j\<lparr>j_rows := tbl_upd P f (j_rows j)\<rparr>) k =
    (case find_row k j of None \<Rightarrow> Fresh | Some w \<Rightarrow> row_phase (Some (if P w then f w else w)))"
  using find_row_upd [OF assms] by (simp add: phases_def split: option.split)

lemma finish_phases: "phases (finish_command r j) = settle_register r (phases j)"
proof
  fix k
  show "phases (finish_command r j) k = settle_register r (phases j) k"
  proof (cases "k = rs_request r")
    case True
    then show ?thesis unfolding finish_command_def
      by (subst phases_upd)
        (auto simp: settle_register_def phases_def dest: find_row_request split: option.splits phase.splits)
  next
    case False
    then have "settle_register r (phases j) k = phases j k"
      by (simp add: settle_register_def split: phase.split)
    with False show ?thesis unfolding finish_command_def
      by (subst phases_upd) (auto simp: phases_def dest: find_row_request split: option.splits)
  qed
qed

lemma acknowledge_phases: "phases (acknowledge rid j) = phases j"
proof
  fix k
  show "phases (acknowledge rid j) k = phases j k" unfolding acknowledge_def
    by (subst phases_upd) (auto simp: phases_def split: option.split)
qed

lemma set_running_phases: "phases (set_desired_running b service j) = phases j"
  by (simp add: phases_def find_row_def set_desired_running_def fun_eq_iff)

text \<open>The helper settles a register only under the fingerprint of its own job.\<close>

lemma record_phases:
  "phases (record_result rid print r acked j) =
     (if phases j rid = Running print then (phases j)(rid := Settled print r) else phases j)"
proof -
  define j1 where "j1 = j\<lparr>j_rows := tbl_upd (\<lambda>w. jr_request w = rid \<and> jr_print w = print \<and> jr_result w = None)
    (\<lambda>w. w\<lparr>jr_result := Some r\<rparr>) (j_rows j)\<rparr>"
  have settled: "phases j1 k =
      (if phases j rid = Running print then (phases j)(rid := Settled print r) else phases j) k" for k
  proof (cases "k = rid")
    case True
    then show ?thesis unfolding j1_def
      by (subst phases_upd) (auto simp: phases_def dest: find_row_request split: option.splits)
  next
    case False
    then show ?thesis unfolding j1_def
      by (subst phases_upd) (auto simp: phases_def dest: find_row_request split: option.splits)
  qed
  have "phases (j1\<lparr>j_rows := tbl_upd P (\<lambda>w. w\<lparr>jr_acked := True\<rparr>) (j_rows j1)\<rparr>) k = phases j1 k" for P k
    by (subst phases_upd) (auto simp: phases_def split: option.split)
  then have "phases (record_result rid print r acked j) = phases j1"
    unfolding record_result_def Let_def j1_def [symmetric] by (auto simp: fun_eq_iff)
  with settled show ?thesis by (simp add: fun_eq_iff)
qed

lemma desired_after_set:
  "desired_running d service (set_desired_running b other j) =
     (if running_key other = running_key service then b else desired_running d service j)"
  by (simp add: desired_running_def set_desired_running_def table_simps)

section \<open>What is waiting to be delivered\<close>

lemma pending_iff:
  "r \<in> set (pending_results j) \<longleftrightarrow> (\<exists>w \<in> set (j_rows j). \<not> jr_acked w \<and> jr_result w = Some r)"
  by (force simp: pending_results_def map_filter_def)

text \<open>Rows stay keyed by their request, and a result names the request it settles.\<close>

definition journal_ok :: "journal \<Rightarrow> bool" where
  "journal_ok j \<longleftrightarrow> tbl_keyed jr_request (j_rows j) \<and>
     (\<forall>w \<in> set (j_rows j). \<forall>r. jr_result w = Some r \<longrightarrow> rs_request r = jr_request w)"

lemma empty_journal_ok: "journal_ok empty_journal"
  by (simp add: journal_ok_def empty_journal_def tbl_keyed_def)

lemma begin_ok: "journal_ok j \<Longrightarrow> journal_ok (fst (begin_command rid print resume now j))"
  by (auto simp: journal_ok_def begin_command_def find_row_def intro!: tbl_keyed_append split: option.splits)

lemma journal_ok_upd:
  assumes "journal_ok j" and "\<And>w. jr_request (f w) = jr_request w"
    and "\<And>w r. P w \<Longrightarrow> jr_result (f w) = Some r \<Longrightarrow> jr_result w = Some r \<or> rs_request r = jr_request w"
  shows "journal_ok (j\<lparr>j_rows := tbl_upd P f (j_rows j)\<rparr>)"
proof -
  have "\<forall>r. jr_result (if P w then f w else w) = Some r \<longrightarrow> rs_request r = jr_request (if P w then f w else w)"
    if "w \<in> set (j_rows j)" for w
  proof (intro allI impI)
    fix r assume r: "jr_result (if P w then f w else w) = Some r"
    have "jr_result w = Some r \<Longrightarrow> rs_request r = jr_request w"
      using assms(1) that by (auto simp: journal_ok_def)
    with r assms(3) [of w r] assms(2) [of w]
    show "rs_request r = jr_request (if P w then f w else w)" by (cases "P w") auto
  qed
  with assms(1,2) show ?thesis unfolding journal_ok_def by (simp add: tbl_keyed_upd ball_tbl_upd)
qed

lemma finish_ok: "journal_ok j \<Longrightarrow> journal_ok (finish_command r j)"
  unfolding finish_command_def by (rule journal_ok_upd) auto

lemma acknowledge_ok: "journal_ok j \<Longrightarrow> journal_ok (acknowledge rid j)"
  unfolding acknowledge_def by (rule journal_ok_upd) auto

lemma set_running_ok: "journal_ok j \<Longrightarrow> journal_ok (set_desired_running b service j)"
  by (simp add: journal_ok_def set_desired_running_def)

lemma record_ok:
  assumes "journal_ok j" and "rs_request r = rid"
  shows "journal_ok (record_result rid print r acked j)"
proof -
  define j1 where "j1 = j\<lparr>j_rows := tbl_upd (\<lambda>w. jr_request w = rid \<and> jr_print w = print \<and> jr_result w = None)
    (\<lambda>w. w\<lparr>jr_result := Some r\<rparr>) (j_rows j)\<rparr>"
  have "journal_ok j1" unfolding j1_def by (rule journal_ok_upd) (use assms in auto)
  moreover from this have "journal_ok (j1\<lparr>j_rows := tbl_upd P (\<lambda>w. w\<lparr>jr_acked := True\<rparr>) (j_rows j1)\<rparr>)" for P
    by (rule journal_ok_upd) auto
  ultimately show ?thesis unfolding record_result_def Let_def j1_def [symmetric] by simp
qed

lemma pending_settled:
  "journal_ok j \<Longrightarrow> r \<in> set (pending_results j) \<Longrightarrow> \<exists>p. phases j (rs_request r) = Settled p r"
  by (auto simp: pending_iff journal_ok_def phases_def find_row_def dest: tbl_get_keyed)

lemma settled_request: "journal_ok j \<Longrightarrow> phases j k = Settled p r \<Longrightarrow> rs_request r = k"
  by (auto simp: journal_ok_def phases_def find_row_def dest!: tbl_get_SomeD elim!: row_phase.elims
      split: option.splits)

end
