(* ===== verification/Agent_Client.thy ===== *)
theory Agent_Client
  imports Agent_Journal
begin

text \<open>
  The node agent's command loop: \<open>Agent\<close> of \<open>agent/app/open_node_agent/client.py\<close>. Commands arrive
  over a WebSocket into a queue served by one worker, or over HTTP leases; one execution lock
  serialises them, the journal decides whether a command runs, and results are sent again until
  they are acknowledged. What \<open>Operations.handle\<close> does with a command is an input of the step
  that ends it (\<open>outcome\<close>); so is whether a request reached the control plane. The process may
  stop between any two steps, which loses everything but the journal. \<open>na_started\<close> and \<open>na_sent\<close>
  record what is observable from outside: handlers started and messages handed to the transport.
\<close>

section \<open>Data\<close>

text \<open>\<open>RPCCommand\<close>: the envelope of a command; the id is present in a lease, not in a push.\<close>

record wire =
  wr_id :: "nat option"
  wr_request :: request
  wr_payload :: payload

definition wire_valid :: "wire \<Rightarrow> bool" where
  "wire_valid c = (let p = wr_payload c in
     take 11 (pl_path p) = ''/api/child/'' \<and> length (pl_path p) \<le> 255 \<and> length (pl_query p) \<le> 2048 \<and>
     (pl_body p = JNull \<or> is_dict (pl_body p)) \<and> 1000 \<le> pl_timeout p \<and> pl_timeout p \<le> 300000)"

datatype transport = WebSocket | Http

text \<open>A reply goes to the row it names (\<open>/commands/{id}/result\<close>), or to the request (\<open>None\<close>).\<close>

datatype message = Reply "nat option" agent_result | StreamEnd request int

record node_agent =
  na_journal :: journal
  na_inbox :: "wire list"
  na_current :: "(wire \<times> transport) option"
  na_online :: bool
  na_reconnect :: "request list"
  na_started :: "(request \<times> string) list"
  na_sent :: "message list"

definition fresh_agent :: node_agent where
  "fresh_agent = \<lparr>na_journal = empty_journal, na_inbox = [], na_current = None, na_online = False,
     na_reconnect = [], na_started = [], na_sent = []\<rparr>"

text \<open>\<open>is_lifecycle_command\<close> and the condition under which an unfinished command may run again.\<close>

definition lifecycle_paths :: "string list" where
  "lifecycle_paths =
     [''/api/child/agent/upgrade'', ''/api/child/agent/upgrade-stream'',
      ''/api/child/agent/uninstall'', ''/api/child/agent/uninstall-stream'', ''/api/child/agent/rollback'']"

definition is_lifecycle :: "payload \<Rightarrow> bool" where
  "is_lifecycle p = (pl_method p = POST \<and> pl_path p \<in> set lifecycle_paths)"

definition resumable :: "bool \<Rightarrow> payload \<Rightarrow> bool" where
  "resumable helper p = ((is_lifecycle p \<and> helper) \<or>
     pl_path p = ''/api/child/cert/http01'' \<or> pl_path p = cleanup_path)"

text \<open>How the body of \<open>execute\<close> ends.\<close>

datatype outcome =
    Returned json
  | Job agent_result
  | Deferred
  | TimedOut
  | Unsupported string
  | Rejected string
  | HostFailure string
  | Unexpected

definition failed_result :: "wire \<Rightarrow> int \<Rightarrow> string \<Rightarrow> agent_result option" where
  "failed_result c status err = Some \<lparr>rs_request = wr_request c, rs_command = wr_id c, rs_status = status,
     rs_body = None, rs_error = Some (take 2048 err)\<rparr>"

text \<open>
  \<open>None\<close> is \<open>DeferredCommand\<close>: the host helper owns the completion. \<open>HostLifecycle.submit\<close> defers
  as well when the helper's result does not name the request or has no status code.
\<close>

definition outcome_result :: "wire \<Rightarrow> outcome \<Rightarrow> agent_result option" where
  "outcome_result c out =
     (case out of
        Returned body \<Rightarrow> Some \<lparr>rs_request = wr_request c, rs_command = wr_id c, rs_status = 200,
                                rs_body = Some body, rs_error = None\<rparr>
      | Job r \<Rightarrow>
          if rs_request r \<noteq> wr_request c \<or> rs_status r < 100 \<or> 599 < rs_status r then None
          else Some (r\<lparr>rs_command := wr_id c,
                       rs_error := map_option (take 2048) (rs_error r)\<rparr>)
      | Deferred \<Rightarrow> None
      | TimedOut \<Rightarrow> failed_result c 504 ''Agent command timed out''
      | Unsupported err \<Rightarrow> failed_result c 501 err
      | Rejected err \<Rightarrow> failed_result c 400 err
      | HostFailure err \<Rightarrow> failed_result c 500 (''Host operation failed: '' @ err)
      | Unexpected \<Rightarrow> failed_result c 500 ''Unexpected agent operation failure'')"

section \<open>Operations\<close>

definition send :: "message \<Rightarrow> node_agent \<Rightarrow> node_agent" where
  "send m s = (if na_online s then s\<lparr>na_sent := na_sent s @ [m]\<rparr> else s)"

definition ack :: "request \<Rightarrow> node_agent \<Rightarrow> node_agent" where
  "ack rid s = s\<lparr>na_journal := acknowledge rid (na_journal s)\<rparr>"

text \<open>\<open>_reconnect_if_requested\<close>: the connection is closed after the reply to a change of the master URL.\<close>

definition reconnect_if_requested :: "request \<Rightarrow> node_agent \<Rightarrow> node_agent" where
  "reconnect_if_requested rid s =
     (if rid \<in> set (na_reconnect s)
      then s\<lparr>na_reconnect := removeAll rid (na_reconnect s), na_online := False\<rparr> else s)"

text \<open>The reply of the worker, and of the HTTP session, where \<open>posted\<close> tells whether the request succeeded.\<close>

definition answer :: "transport \<Rightarrow> wire \<Rightarrow> bool \<Rightarrow> agent_result \<Rightarrow> node_agent \<Rightarrow> node_agent" where
  "answer tr c posted r s =
     (case tr of
        WebSocket \<Rightarrow>
          (let s1 = (if pl_stream (wr_payload c) then send (StreamEnd (wr_request c) (rs_status r)) s else s)
           in reconnect_if_requested (wr_request c) (send (Reply None r) s1))
      | Http \<Rightarrow>
          (let s1 = s\<lparr>na_sent := na_sent s @ [Reply (wr_id c) r]\<rparr>
           in if posted
              then (ack (rs_request r) s1)\<lparr>na_reconnect := removeAll (rs_request r) (na_reconnect s1)\<rparr>
              else s1))"

text \<open>\<open>execute\<close> up to the handler, under the execution lock.\<close>

definition start ::
  "(json \<Rightarrow> string) \<Rightarrow> bool \<Rightarrow> transport \<Rightarrow> wire \<Rightarrow> bool \<Rightarrow> time \<Rightarrow> node_agent \<Rightarrow> node_agent" where
  "start digest helper tr c posted now s =
     (let print = fingerprint digest (wr_payload c)
      in case begin_command (wr_request c) print (resumable helper (wr_payload c)) now (na_journal s) of
           (j, Some r) \<Rightarrow> answer tr c posted r (s\<lparr>na_journal := j\<rparr>)
         | (j, None) \<Rightarrow> s\<lparr>na_journal := j, na_current := Some (c, tr),
                          na_started := na_started s @ [(wr_request c, print)]\<rparr>)"

text \<open>The end of \<open>execute\<close>: the result is journaled before it is sent.\<close>

definition finish :: "outcome \<Rightarrow> bool \<Rightarrow> bool \<Rightarrow> node_agent \<Rightarrow> node_agent" where
  "finish out switched posted s =
     (case na_current s of
        None \<Rightarrow> s
      | Some (c, tr) \<Rightarrow>
        (let s1 = s\<lparr>na_current := None\<rparr>
         in case outcome_result c out of
              None \<Rightarrow> s1
            | Some r \<Rightarrow>
                answer tr c posted r
                  (s1\<lparr>na_journal := finish_command r (na_journal s),
                      na_reconnect := (if switched then wr_request c # na_reconnect s else na_reconnect s)\<rparr>)))"

definition work :: "(json \<Rightarrow> string) \<Rightarrow> bool \<Rightarrow> time \<Rightarrow> node_agent \<Rightarrow> node_agent" where
  "work digest helper now s =
     (case (na_current s, na_inbox s) of
        (None, c # cs) \<Rightarrow> start digest helper WebSocket c True now (s\<lparr>na_inbox := cs\<rparr>)
      | _ \<Rightarrow> s)"

text \<open>A leased command of the HTTP session; a malformed one ends the session.\<close>

definition http_execute ::
  "(json \<Rightarrow> string) \<Rightarrow> bool \<Rightarrow> wire \<Rightarrow> bool \<Rightarrow> time \<Rightarrow> node_agent \<Rightarrow> node_agent" where
  "http_execute digest helper c posted now s =
     (if na_current s \<noteq> None \<or> \<not> wire_valid c then s else start digest helper Http c posted now s)"

text \<open>
  \<open>websocket_receive\<close>: a malformed command is dropped; a full queue (32) makes the receiver wait,
  so the message is not taken yet.
\<close>

definition receive :: "wire \<Rightarrow> node_agent \<Rightarrow> node_agent" where
  "receive c s =
     (if \<not> na_online s \<or> \<not> wire_valid c \<or> length (na_inbox s) \<ge> 32 then s
      else s\<lparr>na_inbox := na_inbox s @ [c]\<rparr>)"

definition resend :: "node_agent \<Rightarrow> node_agent" where
  "resend s = fold (\<lambda>r. send (Reply None r)) (pending_results (na_journal s)) s"

text \<open>
  The loop over the pending results in the HTTP session: each post is answered (and then
  acknowledged) or fails and ends the session.
\<close>

fun post_all :: "bool list \<Rightarrow> agent_result list \<Rightarrow> node_agent \<Rightarrow> node_agent" where
  "post_all (ok # oks) (r # rs) s =
     (let s1 = s\<lparr>na_sent := na_sent s @ [Reply (rs_command r) r]\<rparr>
      in if ok then post_all oks rs (ack (rs_request r) s1) else s1)"
| "post_all _ _ s = s"

definition post_pending :: "bool list \<Rightarrow> node_agent \<Rightarrow> node_agent" where
  "post_pending oks s = post_all oks (pending_results (na_journal s)) s"

text \<open>
  The host helper reports a finished lifecycle job into the same journal; its results carry no
  row id.
\<close>

definition helper_record ::
  "(json \<Rightarrow> string) \<Rightarrow> bool \<Rightarrow> payload \<Rightarrow> agent_result \<Rightarrow> bool \<Rightarrow> node_agent \<Rightarrow> node_agent" where
  "helper_record digest helper p r acked s =
     (if helper \<and> is_lifecycle p
      then s\<lparr>na_journal := record_result (rs_request r) (fingerprint digest p) (r\<lparr>rs_command := None\<rparr>) acked (na_journal s)\<rparr>
      else s)"

text \<open>The process stops: the database stays.\<close>

definition stopped :: "node_agent \<Rightarrow> node_agent" where
  "stopped s = s\<lparr>na_inbox := [], na_current := None, na_online := False, na_reconnect := []\<rparr>"

datatype agent_call =
    Connect
  | Disconnect
  | Receive wire
  | Acked request
  | Work time
  | HttpExecute wire bool time
  | Finish outcome bool bool
  | Resend
  | PostPending "bool list"
  | HelperRecord payload agent_result bool
  | SetRunning bool string
  | Stop

definition agent_step :: "(json \<Rightarrow> string) \<Rightarrow> bool \<Rightarrow> node_agent \<Rightarrow> agent_call \<Rightarrow> node_agent" where
  "agent_step digest helper s call =
     (case call of
        Connect \<Rightarrow> resend (s\<lparr>na_online := True\<rparr>)
      | Disconnect \<Rightarrow> s\<lparr>na_online := False\<rparr>
      | Receive c \<Rightarrow> receive c s
      | Acked rid \<Rightarrow> ack rid s
      | Work now \<Rightarrow> work digest helper now s
      | HttpExecute c posted now \<Rightarrow> http_execute digest helper c posted now s
      | Finish out switched posted \<Rightarrow> finish out switched posted s
      | Resend \<Rightarrow> resend s
      | PostPending oks \<Rightarrow> post_pending oks s
      | HelperRecord p r acked \<Rightarrow> helper_record digest helper p r acked s
      | SetRunning b service \<Rightarrow> s\<lparr>na_journal := set_desired_running b service (na_journal s)\<rparr>
      | Stop \<Rightarrow> stopped s)"

end
