(* ===== verification/Agent_Safety.thy ===== *)
theory Agent_Safety
  imports Agent_Client
begin

text \<open>
  The agent refines an executor that knows nothing of transports, queues or restarts: per request a
  register that is opened when its handler starts and settled once with its result, and answers that
  are either the settled result or a refusal. From it: a command runs at most once, and what the
  agent reports of a command is what its journal recorded.
\<close>

declare split_paired_All [simp del] split_paired_Ex [simp del]

section \<open>The executor\<close>

record executor =
  ex_phase :: "request \<Rightarrow> phase"
  ex_started :: "(request \<times> string) list"
  ex_replies :: "agent_result list"

definition refusal :: "agent_result \<Rightarrow> bool" where
  "refusal r \<longleftrightarrow> r = reused (rs_request r) \<or> r = interrupted (rs_request r)"

text \<open>A request whose register was opened under one of the fingerprints \<open>L\<close>.\<close>

definition under :: "string set \<Rightarrow> (request \<Rightarrow> phase) \<Rightarrow> request \<Rightarrow> bool" where
  "under L ph rid \<longleftrightarrow> (\<exists>p \<in> L. ph rid = Running p \<or> (\<exists>r. ph rid = Settled p r))"

text \<open>
  \<open>R\<close>: fingerprints of commands that may run again after an interruption; \<open>L\<close>: those of lifecycle
  commands, which the host helper settles as well, so that the agent's own answer may differ.
\<close>

inductive exec_step :: "string set \<Rightarrow> string set \<Rightarrow> executor \<Rightarrow> executor \<Rightarrow> bool" for R L where
  open_it: "ex_phase e rid = Fresh \<Longrightarrow>
    exec_step R L e (e\<lparr>ex_phase := (ex_phase e)(rid := Running p), ex_started := ex_started e @ [(rid, p)]\<rparr>)"
| again: "ex_phase e rid = Running p \<Longrightarrow> p \<in> R \<Longrightarrow>
    exec_step R L e (e\<lparr>ex_started := ex_started e @ [(rid, p)]\<rparr>)"
| settle: "ex_phase e (rs_request r) = Running p \<Longrightarrow>
    exec_step R L e (e\<lparr>ex_phase := (ex_phase e)(rs_request r := Settled p r)\<rparr>)"
| reply: "refusal r \<or> (\<exists>p. ex_phase e (rs_request r) = Settled p r) \<or> under L (ex_phase e) (rs_request r) \<Longrightarrow>
    exec_step R L e (e\<lparr>ex_replies := ex_replies e @ [r]\<rparr>)"

abbreviation exec_steps :: "string set \<Rightarrow> string set \<Rightarrow> executor \<Rightarrow> executor \<Rightarrow> bool" where
  "exec_steps R L \<equiv> (exec_step R L)\<^sup>*\<^sup>*"

fun reply_of :: "message \<Rightarrow> agent_result option" where
  "reply_of (Reply tgt r) = Some r"
| "reply_of (StreamEnd rid st) = None"

definition executor_of :: "node_agent \<Rightarrow> executor" where
  "executor_of s = \<lparr>ex_phase = phases (na_journal s), ex_started = na_started s,
     ex_replies = List.map_filter reply_of (na_sent s)\<rparr>"

definition again_prints :: "(json \<Rightarrow> string) \<Rightarrow> bool \<Rightarrow> string set" where
  "again_prints digest helper = fingerprint digest ` {p. resumable helper p}"

definition life_prints :: "(json \<Rightarrow> string) \<Rightarrow> string set" where
  "life_prints digest = fingerprint digest ` {p. is_lifecycle p}"

section \<open>The simulation\<close>

text \<open>
  What a reachable agent keeps: its journal is sound, and the register of the command it is running
  is open under that command's fingerprint (a lifecycle command may have been settled meanwhile).
\<close>

definition running_ok :: "string set \<Rightarrow> (json \<Rightarrow> string) \<Rightarrow> node_agent \<Rightarrow> bool" where
  "running_ok L digest s \<longleftrightarrow>
     (\<forall>c tr. na_current s = Some (c, tr) \<longrightarrow>
        (let ph = phases (na_journal s) (wr_request c); p = fingerprint digest (wr_payload c)
         in ph = Running p \<or> (p \<in> L \<and> (\<exists>r. ph = Settled p r))))"

definition agent_ok :: "string set \<Rightarrow> (json \<Rightarrow> string) \<Rightarrow> node_agent \<Rightarrow> bool" where
  "agent_ok L digest s \<longleftrightarrow> journal_ok (na_journal s) \<and> running_ok L digest s"

definition simulates ::
  "string set \<Rightarrow> string set \<Rightarrow> (json \<Rightarrow> string) \<Rightarrow> node_agent \<Rightarrow> node_agent \<Rightarrow> bool" where
  "simulates R L digest s s' \<longleftrightarrow>
     agent_ok L digest s' \<and> exec_steps R L (executor_of s) (executor_of s')"

lemma simulates_trans:
  "simulates R L digest a b \<Longrightarrow> simulates R L digest b c \<Longrightarrow> simulates R L digest a c"
  by (auto simp: simulates_def)

lemma simulates_stutter:
  "executor_of s' = executor_of s \<Longrightarrow> agent_ok L digest s' \<Longrightarrow> simulates R L digest s s'"
  by (simp add: simulates_def)

lemma map_filter_snoc:
  "List.map_filter f (xs @ [x]) = List.map_filter f xs @ (case f x of None \<Rightarrow> [] | Some y \<Rightarrow> [y])"
  by (simp add: map_filter_def split: option.split)

text \<open>A change that leaves the journal's registers, the running command and the observations alone.\<close>

lemma simulates_quiet:
  assumes "agent_ok L digest s" and "phases (na_journal s') = phases (na_journal s)"
    and "journal_ok (na_journal s')" and "na_current s' = na_current s \<or> na_current s' = None"
    and "na_started s' = na_started s" and "na_sent s' = na_sent s"
  shows "simulates R L digest s s'"
  using assms by (intro simulates_stutter) (auto simp: executor_of_def agent_ok_def running_ok_def)

lemma simulates_ack: "agent_ok L digest s \<Longrightarrow> simulates R L digest s (ack rid s)"
  by (rule simulates_quiet) (auto simp: ack_def acknowledge_phases agent_ok_def intro: acknowledge_ok)

text \<open>An answer may be sent when the executor may give it.\<close>

definition answerable :: "string set \<Rightarrow> agent_result \<Rightarrow> node_agent \<Rightarrow> bool" where
  "answerable L r s \<longleftrightarrow> refusal r \<or> (\<exists>p. phases (na_journal s) (rs_request r) = Settled p r) \<or>
     under L (phases (na_journal s)) (rs_request r)"

lemma simulates_said:
  assumes "agent_ok L digest s" and "answerable L r s"
  shows "simulates R L digest s (s\<lparr>na_sent := na_sent s @ [Reply tgt r]\<rparr>)"
proof -
  have "executor_of (s\<lparr>na_sent := na_sent s @ [Reply tgt r]\<rparr>) =
      (executor_of s)\<lparr>ex_replies := ex_replies (executor_of s) @ [r]\<rparr>"
    by (simp add: executor_of_def map_filter_snoc)
  moreover have "exec_step R L (executor_of s) ((executor_of s)\<lparr>ex_replies := ex_replies (executor_of s) @ [r]\<rparr>)"
    using assms(2) by (intro exec_step.reply) (simp add: answerable_def executor_of_def)
  ultimately show ?thesis using assms(1)
    by (auto simp: simulates_def agent_ok_def running_ok_def)
qed

lemma simulates_send:
  "agent_ok L digest s \<Longrightarrow> answerable L r s \<Longrightarrow> simulates R L digest s (send (Reply tgt r) s)"
  using simulates_said by (simp add: send_def simulates_stutter)

lemma simulates_stream_end: "agent_ok L digest s \<Longrightarrow> simulates R L digest s (send (StreamEnd rid st) s)"
  by (rule simulates_stutter)
    (auto simp: send_def executor_of_def map_filter_snoc agent_ok_def running_ok_def)

lemma simulates_reconnect:
  "agent_ok L digest s \<Longrightarrow> simulates R L digest s (reconnect_if_requested rid s)"
  by (rule simulates_quiet) (auto simp: reconnect_if_requested_def agent_ok_def)

lemma send_journal [simp]: "na_journal (send m s) = na_journal s"
  by (simp add: send_def)

lemma simulates_ok: "simulates R L digest s s' \<Longrightarrow> agent_ok L digest s'"
  by (simp add: simulates_def)

lemma simulates_answer:
  assumes "agent_ok L digest s" and "answerable L r s"
  shows "simulates R L digest s (answer tr c posted r s)"
proof (cases tr)
  case WebSocket
  define s1 where "s1 = (if pl_stream (wr_payload c) then send (StreamEnd (wr_request c) (rs_status r)) s else s)"
  have one: "simulates R L digest s s1"
    using assms(1) by (simp add: s1_def simulates_stream_end simulates_stutter)
  have "answerable L r s1" using assms(2) by (simp add: s1_def answerable_def)
  then have two: "simulates R L digest s1 (send (Reply None r) s1)"
    by (rule simulates_send [OF simulates_ok [OF one]])
  show ?thesis
    using simulates_trans [OF simulates_trans [OF one two]
        simulates_reconnect [OF simulates_ok [OF two], where rid = "wr_request c"]]
    by (simp add: WebSocket answer_def s1_def [symmetric])
next
  case Http
  have one: "simulates R L digest s (s\<lparr>na_sent := na_sent s @ [Reply (wr_id c) r]\<rparr>)"
    using assms by (rule simulates_said)
  let ?s = "ack (rs_request r) (s\<lparr>na_sent := na_sent s @ [Reply (wr_id c) r]\<rparr>)"
  have two: "simulates R L digest (s\<lparr>na_sent := na_sent s @ [Reply (wr_id c) r]\<rparr>) ?s"
    by (rule simulates_ack [OF simulates_ok [OF one]])
  have three: "simulates R L digest ?s (?s\<lparr>na_reconnect := x\<rparr>)" for x
    using simulates_ok [OF two] by (intro simulates_quiet) (auto simp: agent_ok_def)
  show ?thesis
    using one simulates_trans [OF simulates_trans [OF one two] three]
    by (simp add: Http answer_def Let_def)
qed

text \<open>Beginning a command: an answer, or a register opened (or reopened) for its handler.\<close>

lemma simulates_start:
  assumes ok: "agent_ok (life_prints digest) digest s" and idle: "na_current s = None"
  shows "simulates (again_prints digest helper) (life_prints digest) digest s
    (start digest helper tr c posted now s)"
proof -
  let ?p = "fingerprint digest (wr_payload c)"
  obtain j out where bg: "begin_command (wr_request c) ?p (resumable helper (wr_payload c)) now (na_journal s) = (j, out)"
    by fastforce
  have reg: "phases j = fst (open_register (wr_request c) ?p (resumable helper (wr_payload c)) (phases (na_journal s)))"
      "out = snd (open_register (wr_request c) ?p (resumable helper (wr_payload c)) (phases (na_journal s)))"
    using begin_phases [of "wr_request c" ?p "resumable helper (wr_payload c)" now "na_journal s"] bg by simp_all
  have jok: "journal_ok j" using ok begin_ok bg by (metis agent_ok_def fst_conv)
  show ?thesis
  proof (cases out)
    case (Some r)
    have same: "phases j = phases (na_journal s)" and ans: "refusal r \<or> (\<exists>p. phases (na_journal s) (wr_request c) = Settled p r)"
      using reg Some by (auto simp: open_register_def refusal_def reused_def interrupted_def split: phase.splits if_splits)
    have req: "refusal r \<or> rs_request r = wr_request c"
      using ans ok settled_request [of "na_journal s" "wr_request c"] unfolding agent_ok_def by blast
    have quiet: "simulates (again_prints digest helper) (life_prints digest) digest s (s\<lparr>na_journal := j\<rparr>)"
      using ok jok same by (intro simulates_quiet) auto
    moreover have "answerable (life_prints digest) r (s\<lparr>na_journal := j\<rparr>)"
      using ans req same by (auto simp: answerable_def)
    ultimately show ?thesis
      using simulates_trans [OF quiet simulates_answer [OF simulates_ok [OF quiet]]]
      by (simp add: start_def bg Some)
  next
    case None
    let ?s = "s\<lparr>na_journal := j, na_current := Some (c, tr), na_started := na_started s @ [(wr_request c, ?p)]\<rparr>"
    from reg None have "phases (na_journal s) (wr_request c) = Fresh \<and>
          phases j = (phases (na_journal s))(wr_request c := Running ?p) \<or>
        phases (na_journal s) (wr_request c) = Running ?p \<and> phases j = phases (na_journal s) \<and>
          resumable helper (wr_payload c)"
      by (auto simp: open_register_def split: phase.splits if_splits)
    then have "exec_step (again_prints digest helper) (life_prints digest) (executor_of s) (executor_of ?s)"
    proof
      assume a: "phases (na_journal s) (wr_request c) = Fresh \<and>
          phases j = (phases (na_journal s))(wr_request c := Running ?p)"
      then show ?thesis
        using exec_step.open_it [of "executor_of s" "wr_request c"] by (simp add: executor_of_def)
    next
      assume a: "phases (na_journal s) (wr_request c) = Running ?p \<and> phases j = phases (na_journal s) \<and>
          resumable helper (wr_payload c)"
      then show ?thesis
        using exec_step.again [of "executor_of s" "wr_request c" ?p] by (auto simp: executor_of_def again_prints_def)
    qed
    moreover have "phases j (wr_request c) = Running ?p"
      using reg None by (auto simp: open_register_def split: phase.splits if_splits)
    ultimately show ?thesis
      using jok by (auto simp: start_def bg None simulates_def agent_ok_def running_ok_def Let_def)
  qed
qed

text \<open>The end of a command: its result settles the register, then it is sent.\<close>

lemma outcome_request: "outcome_result c out = Some r \<Longrightarrow> rs_request r = wr_request c"
  by (auto simp: outcome_result_def failed_result_def split: outcome.splits if_splits)

lemma simulates_finish:
  assumes ok: "agent_ok L digest s"
  shows "simulates R L digest s (finish out switched posted s)"
proof (cases "na_current s")
  case None
  then show ?thesis using ok by (simp add: finish_def simulates_stutter)
next
  case (Some ctr)
  obtain c tr where cur: "na_current s = Some (c, tr)" using Some by (cases ctr) auto
  let ?p = "fingerprint digest (wr_payload c)"
  show ?thesis
  proof (cases "outcome_result c out")
    case None
    then show ?thesis
      using ok by (auto simp: finish_def cur Let_def agent_ok_def intro!: simulates_quiet)
  next
    case (Some r)
    then have req: "rs_request r = wr_request c" by (rule outcome_request)
    let ?s = "s\<lparr>na_current := None, na_journal := finish_command r (na_journal s),
      na_reconnect := (if switched then wr_request c # na_reconnect s else na_reconnect s)\<rparr>"
    have jok: "journal_ok (finish_command r (na_journal s))" using ok by (auto simp: agent_ok_def intro: finish_ok)
    have ph: "phases (na_journal s) (wr_request c) = Running ?p \<or>
        (?p \<in> L \<and> (\<exists>r'. phases (na_journal s) (wr_request c) = Settled ?p r'))"
      using ok cur by (auto simp: agent_ok_def running_ok_def Let_def)
    have new: "phases (finish_command r (na_journal s)) =
        (if phases (na_journal s) (wr_request c) = Running ?p
         then (phases (na_journal s))(wr_request c := Settled ?p r) else phases (na_journal s))"
      using ph by (auto simp: finish_phases settle_register_def req)
    have "exec_steps R L (executor_of s) (executor_of ?s)"
    proof (cases "phases (na_journal s) (wr_request c) = Running ?p")
      case True
      then have "exec_step R L (executor_of s) (executor_of ?s)"
        using exec_step.settle [of "executor_of s" r ?p R L] new by (simp add: executor_of_def req)
      then show ?thesis by simp
    next
      case False
      then have "executor_of ?s = executor_of s" using new by (simp add: executor_of_def)
      then show ?thesis by simp
    qed
    then have one: "simulates R L digest s ?s" using jok by (simp add: simulates_def agent_ok_def running_ok_def)
    have "answerable L r ?s" using ph by (auto simp: answerable_def new req under_def)
    from simulates_trans [OF one simulates_answer [OF simulates_ok [OF one] this]]
    show ?thesis by (simp add: finish_def cur Some)
  qed
qed

lemma simulates_fold:
  "agent_ok L digest s \<Longrightarrow> (\<And>r. r \<in> set rs \<Longrightarrow> \<exists>p. phases (na_journal s) (rs_request r) = Settled p r) \<Longrightarrow>
   simulates R L digest s (fold (\<lambda>r. send (Reply None r)) rs s)"
proof (induction rs arbitrary: s)
  case Nil
  then show ?case by (simp add: simulates_stutter)
next
  case (Cons r rs)
  have one: "simulates R L digest s (send (Reply None r) s)"
    using Cons.prems by (intro simulates_send) (auto simp: answerable_def)
  have "simulates R L digest (send (Reply None r) s) (fold (\<lambda>r. send (Reply None r)) rs (send (Reply None r) s))"
    by (rule Cons.IH [OF simulates_ok [OF one]]) (use Cons.prems in simp)
  with one show ?case by (auto intro: simulates_trans)
qed

lemma simulates_resend: "agent_ok L digest s \<Longrightarrow> simulates R L digest s (resend s)"
  unfolding resend_def by (rule simulates_fold) (auto simp: agent_ok_def intro: pending_settled)

lemma simulates_post_all:
  "agent_ok L digest s \<Longrightarrow> (\<And>r. r \<in> set rs \<Longrightarrow> \<exists>p. phases (na_journal s) (rs_request r) = Settled p r) \<Longrightarrow>
   simulates R L digest s (post_all oks rs s)"
proof (induction oks rs s rule: post_all.induct)
  case (1 ok oks r rs s)
  let ?s = "s\<lparr>na_sent := na_sent s @ [Reply (rs_command r) r]\<rparr>"
  have one: "simulates R L digest s ?s"
    using "1.prems" by (intro simulates_said) (auto simp: answerable_def)
  have two: "simulates R L digest ?s (ack (rs_request r) ?s)"
    by (rule simulates_ack [OF simulates_ok [OF one]])
  have three: "simulates R L digest (ack (rs_request r) ?s) (post_all oks rs (ack (rs_request r) ?s))" if ok
    by (rule "1.IH" [OF refl that simulates_ok [OF two]])
      (use "1.prems"(2) in \<open>auto simp: ack_def acknowledge_phases\<close>)
  show ?case
    using one simulates_trans [OF simulates_trans [OF one two] three] by (auto simp: Let_def)
qed (simp_all add: simulates_stutter)

lemma simulates_post: "agent_ok L digest s \<Longrightarrow> simulates R L digest s (post_pending oks s)"
  unfolding post_pending_def by (rule simulates_post_all) (auto simp: agent_ok_def intro: pending_settled)

lemma simulates_helper:
  assumes ok: "agent_ok (life_prints digest) digest s"
  shows "simulates R (life_prints digest) digest s (helper_record digest helper p r acked s)"
proof (cases "helper \<and> is_lifecycle p")
  case True
  let ?L = "life_prints digest" and ?p = "fingerprint digest p"
  let ?r = "r\<lparr>rs_command := None\<rparr>"
  let ?j = "record_result (rs_request r) ?p ?r acked (na_journal s)"
  have life: "?p \<in> ?L" using True by (auto simp: life_prints_def)
  have jok: "journal_ok ?j" using ok by (auto simp: agent_ok_def intro: record_ok)
  show ?thesis
  proof (cases "phases (na_journal s) (rs_request r) = Running ?p")
    case run: True
    have "exec_step R ?L (executor_of s) (executor_of (s\<lparr>na_journal := ?j\<rparr>))"
      using exec_step.settle [of "executor_of s" ?r ?p R ?L] run by (simp add: executor_of_def record_phases)
    moreover have "running_ok ?L digest (s\<lparr>na_journal := ?j\<rparr>)"
      using ok run life unfolding running_ok_def agent_ok_def Let_def
      by (auto simp: record_phases)
    ultimately show ?thesis using jok True by (auto simp: helper_record_def simulates_def agent_ok_def)
  next
    case False
    then show ?thesis using True jok ok
      by (auto simp: helper_record_def record_phases intro!: simulates_quiet)
  qed
qed (use ok in \<open>auto simp: helper_record_def simulates_stutter\<close>)

lemma agent_step_simulates:
  assumes ok: "agent_ok (life_prints digest) digest s"
  shows "simulates (again_prints digest helper) (life_prints digest) digest s (agent_step digest helper s call)"
proof (cases call)
  case Connect
  have one: "simulates (again_prints digest helper) (life_prints digest) digest s (s\<lparr>na_online := True\<rparr>)"
    using ok by (intro simulates_quiet) (auto simp: agent_ok_def)
  from simulates_trans [OF one simulates_resend [OF simulates_ok [OF one]]] show ?thesis
    by (simp add: Connect agent_step_def)
next
  case Disconnect
  then show ?thesis using ok by (auto simp: agent_step_def agent_ok_def intro!: simulates_quiet)
next
  case (Receive c)
  then show ?thesis using ok by (auto simp: agent_step_def receive_def agent_ok_def intro!: simulates_quiet)
next
  case (Work now)
  show ?thesis
  proof (cases "na_current s = None \<and> na_inbox s \<noteq> []")
    case True
    then obtain c cs where box: "na_inbox s = c # cs" by (cases "na_inbox s") auto
    have one: "simulates (again_prints digest helper) (life_prints digest) digest s (s\<lparr>na_inbox := cs\<rparr>)"
      using ok by (intro simulates_quiet) (auto simp: agent_ok_def)
    show ?thesis using True
      simulates_trans [OF one simulates_start [OF simulates_ok [OF one], where helper = helper and c = c]]
      by (simp add: Work agent_step_def work_def box)
  next
    case False
    then show ?thesis using ok
      by (auto simp: Work agent_step_def work_def intro: simulates_stutter split: option.split list.split)
  qed
next
  case (HttpExecute c posted now)
  then show ?thesis using ok simulates_start [OF ok]
    by (cases "na_current s") (simp_all add: agent_step_def http_execute_def simulates_stutter)
next
  case (SetRunning b service)
  then show ?thesis using ok
    by (auto simp: agent_step_def agent_ok_def set_running_phases set_running_ok intro!: simulates_quiet)
next
  case Stop
  then show ?thesis using ok by (auto simp: agent_step_def stopped_def agent_ok_def intro!: simulates_quiet)
qed (use ok in \<open>auto simp: agent_step_def simulates_ack simulates_finish simulates_resend simulates_post
    simulates_helper\<close>)

interpretation agent_machine: step_invariant "agent_step digest helper"
    "simulates (again_prints digest helper) (life_prints digest) digest s0" for digest helper s0
  by unfold_locales (rule simulates_trans [OF _ agent_step_simulates [OF simulates_ok]])

lemma run_simulates:
  "agent_ok (life_prints digest) digest s \<Longrightarrow>
   simulates (again_prints digest helper) (life_prints digest) digest s (run (agent_step digest helper) s calls)"
  by (rule agent_machine.run_inv) (simp add: simulates_stutter)

lemma fresh_agent_ok: "agent_ok L digest fresh_agent"
  by (simp add: agent_ok_def running_ok_def fresh_agent_def empty_journal_ok)

section \<open>What the executor keeps\<close>

definition starts :: "request \<Rightarrow> executor \<Rightarrow> (request \<times> string) list" where
  "starts rid e = filter (\<lambda>x. fst x = rid) (ex_started e)"

text \<open>A register's starts carry its fingerprint, and there is one unless the command may run again.\<close>

definition opened_once :: "string set \<Rightarrow> string \<Rightarrow> (request \<times> string) list \<Rightarrow> bool" where
  "opened_once R p xs \<longleftrightarrow> xs \<noteq> [] \<and> (\<forall>x \<in> set xs. snd x = p) \<and> (p \<notin> R \<longrightarrow> length xs = 1)"

lemma opened_started:
  assumes "opened_once R p (starts rid e)"
  shows "(rid, p) \<in> set (ex_started e)"
proof -
  have "starts rid e \<noteq> []" using assms by (simp add: opened_once_def)
  then obtain x where x: "x \<in> set (starts rid e)" by (meson last_in_set)
  then have "snd x = p" using assms by (simp add: opened_once_def)
  moreover have "x \<in> set (ex_started e)" "fst x = rid" using x by (simp_all add: starts_def)
  ultimately show ?thesis by (metis prod.collapse)
qed

fun start_ok :: "string set \<Rightarrow> phase \<Rightarrow> (request \<times> string) list \<Rightarrow> bool" where
  "start_ok R Fresh xs = (xs = [])"
| "start_ok R (Running p) xs = opened_once R p xs"
| "start_ok R (Settled p r) xs = opened_once R p xs"

definition starts_ok :: "string set \<Rightarrow> executor \<Rightarrow> bool" where
  "starts_ok R e \<longleftrightarrow> (\<forall>rid. start_ok R (ex_phase e rid) (starts rid e))"

definition replies_ok :: "string set \<Rightarrow> executor \<Rightarrow> bool" where
  "replies_ok L e \<longleftrightarrow> (\<forall>r \<in> set (ex_replies e).
     refusal r \<or> (\<exists>p. ex_phase e (rs_request r) = Settled p r) \<or> under L (ex_phase e) (rs_request r))"

lemma starts_okD: "starts_ok R e \<Longrightarrow> start_ok R (ex_phase e rid) (starts rid e)"
  by (simp add: starts_ok_def)

lemma exec_step_starts:
  assumes "exec_step R L e e'" and "starts_ok R e"
  shows "starts_ok R e'"
  unfolding starts_ok_def
proof
  fix k
  note k = starts_okD [OF assms(2), of k]
  show "start_ok R (ex_phase e' k) (starts k e')"
    using assms(1)
  proof cases
    case (open_it rid p)
    with k show ?thesis by (cases "k = rid") (simp_all add: starts_def opened_once_def)
  next
    case (again rid p)
    with k show ?thesis by (cases "k = rid") (auto simp: starts_def opened_once_def)
  next
    case (settle r p)
    with k show ?thesis by (cases "k = rs_request r") (simp_all add: starts_def)
  next
    case (reply r)
    with k show ?thesis by (simp add: starts_def)
  qed
qed

lemma exec_step_replies: "exec_step R L e e' \<Longrightarrow> replies_ok L e \<Longrightarrow> replies_ok L e'"
proof (induction rule: exec_step.induct)
  case (open_it e rid p)
  have "under L ((ex_phase e)(rid := Running p)) k" if "under L (ex_phase e) k" for k
    using that open_it by (auto simp: under_def)
  with open_it show ?case by (fastforce simp: replies_ok_def)
next
  case (settle e r p)
  have "under L ((ex_phase e)(rs_request r := Settled p r)) k" if "under L (ex_phase e) k" for k
    using that settle by (auto simp: under_def)
  with settle show ?case by (fastforce simp: replies_ok_def)
qed (auto simp: replies_ok_def)

lemma exec_steps_ok:
  "exec_steps R L e e' \<Longrightarrow> starts_ok R e \<and> replies_ok L e \<Longrightarrow> starts_ok R e' \<and> replies_ok L e'"
  by (induction rule: rtranclp_induct) (auto intro: exec_step_starts exec_step_replies)

lemma fresh_executor_ok: "starts_ok R (executor_of fresh_agent) \<and> replies_ok L (executor_of fresh_agent)"
  by (simp add: starts_ok_def replies_ok_def executor_of_def fresh_agent_def phases_def find_row_def
      empty_journal_def starts_def map_filter_def)

text \<open>Every state the agent reaches from an empty journal.\<close>

definition agent_after :: "(json \<Rightarrow> string) \<Rightarrow> bool \<Rightarrow> agent_call list \<Rightarrow> node_agent" where
  "agent_after digest helper calls = run (agent_step digest helper) fresh_agent calls"

lemma agent_after_simulates:
  "simulates (again_prints digest helper) (life_prints digest) digest fresh_agent (agent_after digest helper calls)"
  unfolding agent_after_def by (rule run_simulates [OF fresh_agent_ok])

lemma agent_after_ok:
  "starts_ok (again_prints digest helper) (executor_of (agent_after digest helper calls)) \<and>
   replies_ok (life_prints digest) (executor_of (agent_after digest helper calls))"
  using agent_after_simulates [of digest helper calls] exec_steps_ok [OF _ fresh_executor_ok]
  unfolding simulates_def by blast

end
