(* ===== verification/Agent_Properties.thy ===== *)
theory Agent_Properties
  imports Agent_Safety
begin

text \<open>
  What the agent guarantees whatever its transports, restarts and deliveries do: it refines the
  executor, and it runs a command once. The last section says where the commands and row ids an
  agent handles come from, for the composition with the control plane's queue.
\<close>


text \<open>
  C30: The handler of a command starts at most once, however often the command is delivered and the
  agent restarted, unless the command is of a kind that is resumed on purpose (a lifecycle command
  of the host helper, the ACME challenge and the node cleanup).
\<close>

theorem command_runs_once:
  assumes "(rid, print) \<in> set (na_started (agent_after digest helper calls))"
    and "print \<notin> again_prints digest helper"
  shows "filter (\<lambda>x. fst x = rid) (na_started (agent_after digest helper calls)) = [(rid, print)]"
proof -
  let ?e = "executor_of (agent_after digest helper calls)"
  have mem: "(rid, print) \<in> set (starts rid ?e)" using assms(1) by (simp add: starts_def executor_of_def)
  have "start_ok (again_prints digest helper) (ex_phase ?e rid) (starts rid ?e)"
    using agent_after_ok by (blast dest: starts_okD)
  with mem have "opened_once (again_prints digest helper) print (starts rid ?e)"
    by (cases "ex_phase ?e rid") (auto simp: opened_once_def)
  with mem assms(2) have "starts rid ?e = [(rid, print)]"
    by (auto simp: opened_once_def length_Suc_conv)
  then show ?thesis by (simp add: starts_def executor_of_def)
qed

text \<open>
  A command delivered again after a crash in the middle of its execution, then once more over HTTP.
\<close>

definition path_digest :: "json \<Rightarrow> string" where
  "path_digest j = (case jfield ''path'' j of JStr s \<Rightarrow> s | _ \<Rightarrow> [])"

definition sample_wire :: wire where
  "sample_wire = \<lparr>wr_id = Some 4, wr_request = (1, 4), wr_payload = \<lparr>pl_method = POST,
     pl_path = ''/api/child/inbounds'', pl_query = [], pl_body = JNull, pl_timeout = 30000,
     pl_stream = False\<rparr>\<rparr>"

definition sample_deliveries :: "agent_call list" where
  "sample_deliveries = [Connect, Receive sample_wire, Work 1, Stop, Connect, Receive sample_wire, Work 2,
     Disconnect, HttpExecute sample_wire True 3]"

lemma path_fingerprint: "fingerprint path_digest p = pl_path p"
  by (simp add: fingerprint_def path_digest_def jfield_def jget_or_def)

lemma path_again: "again_prints path_digest False \<subseteq> {''/api/child/cert/http01'', cleanup_path}"
  by (auto simp: again_prints_def path_fingerprint resumable_def)

theorem command_runs_once_witness:
  "filter (\<lambda>x. fst x = (1, 4)) (na_started (agent_after path_digest False sample_deliveries)) =
     [((1, 4), ''/api/child/inbounds'')]"
proof (rule command_runs_once)
  show "((1, 4), ''/api/child/inbounds'') \<in> set (na_started (agent_after path_digest False sample_deliveries))"
    unfolding agent_after_def sample_deliveries_def by code_simp
  show "''/api/child/inbounds'' \<notin> again_prints path_digest False"
    using path_again by (auto simp: cleanup_path_def)
qed

section \<open>Where an agent's commands come from\<close>

text \<open>Wires of \<open>K\<close> name row \<open>i\<close> for the request; a register is opened by a wire of \<open>K\<close>.\<close>

definition names :: "wire set \<Rightarrow> nat option \<Rightarrow> request \<Rightarrow> bool" where
  "names K tgt rid \<longleftrightarrow> tgt = None \<or> (\<exists>c \<in> K. wr_id c = tgt \<and> wr_request c = rid)"

definition opened_by :: "wire set \<Rightarrow> (json \<Rightarrow> string) \<Rightarrow> request \<Rightarrow> phase \<Rightarrow> bool" where
  "opened_by K digest rid ph \<longleftrightarrow>
     (\<forall>p. ph = Running p \<or> (\<exists>r. ph = Settled p r) \<longrightarrow>
        (\<exists>c \<in> K. wr_request c = rid \<and> fingerprint digest (wr_payload c) = p))"

definition journal_from :: "wire set \<Rightarrow> (json \<Rightarrow> string) \<Rightarrow> journal \<Rightarrow> bool" where
  "journal_from K digest j \<longleftrightarrow> (\<forall>rid. opened_by K digest rid (phases j rid)) \<and>
     (\<forall>w \<in> set (j_rows j). \<forall>r. jr_result w = Some r \<longrightarrow> names K (rs_command r) (rs_request r))"

fun message_from :: "wire set \<Rightarrow> message \<Rightarrow> bool" where
  "message_from K (Reply tgt r) = names K tgt (rs_request r)"
| "message_from K (StreamEnd rid st) = True"

definition agent_from :: "wire set \<Rightarrow> (json \<Rightarrow> string) \<Rightarrow> node_agent \<Rightarrow> bool" where
  "agent_from K digest s \<longleftrightarrow> set (na_inbox s) \<subseteq> K \<and> (\<forall>c tr. na_current s = Some (c, tr) \<longrightarrow> c \<in> K) \<and>
     journal_from K digest (na_journal s) \<and> (\<forall>m \<in> set (na_sent s). message_from K m)"

definition call_from :: "wire set \<Rightarrow> agent_call \<Rightarrow> bool" where
  "call_from K call =
     (case call of Receive c \<Rightarrow> c \<in> K | HttpExecute c _ _ \<Rightarrow> c \<in> K | _ \<Rightarrow> True)"

lemma opened_by_mono: "opened_by K digest rid ph \<Longrightarrow> K \<subseteq> K' \<Longrightarrow> opened_by K' digest rid ph"
  unfolding opened_by_def by blast

lemma names_mono: "names K tgt rid \<Longrightarrow> K \<subseteq> K' \<Longrightarrow> names K' tgt rid"
  unfolding names_def by blast

lemma message_from_mono: "message_from K m \<Longrightarrow> K \<subseteq> K' \<Longrightarrow> message_from K' m"
  by (cases m) (auto intro: names_mono)

lemma agent_from_mono: "agent_from K digest s \<Longrightarrow> K \<subseteq> K' \<Longrightarrow> agent_from K' digest s"
  unfolding agent_from_def journal_from_def
  by (blast intro: opened_by_mono names_mono message_from_mono)

lemma fresh_agent_from: "agent_from K digest fresh_agent"
  by (simp add: agent_from_def fresh_agent_def empty_journal_def journal_from_def phases_def find_row_def
      opened_by_def)

lemma journal_from_upd:
  assumes "journal_from K digest j" and "\<And>w. jr_request (f w) = jr_request w"
    and "\<And>w. jr_print (f w) = jr_print w"
    and "\<And>w. w \<in> set (j_rows j) \<Longrightarrow> P w \<Longrightarrow> jr_result (f w) = jr_result w \<or>
      (\<exists>r. jr_result (f w) = Some r \<and> names K (rs_command r) (rs_request r))"
  shows "journal_from K digest (j\<lparr>j_rows := tbl_upd P f (j_rows j)\<rparr>)"
proof -
  have "opened_by K digest rid (phases (j\<lparr>j_rows := tbl_upd P f (j_rows j)\<rparr>) rid)" for rid
  proof (cases "find_row rid j")
    case None
    then show ?thesis by (subst phases_upd [OF assms(2)]) (simp add: opened_by_def)
  next
    case (Some w)
    have "opened_by K digest rid (phases j rid)" using assms(1) by (simp add: journal_from_def)
    then have "\<exists>c \<in> K. wr_request c = rid \<and> fingerprint digest (wr_payload c) = jr_print w"
      by (cases "jr_result w") (simp_all add: opened_by_def phases_def Some)
    then show ?thesis using Some assms(3)
      by (subst phases_upd [OF assms(2)]) (auto simp: opened_by_def split: option.splits)
  qed
  moreover have "\<forall>r. jr_result (if P w then f w else w) = Some r \<longrightarrow> names K (rs_command r) (rs_request r)"
    if w: "w \<in> set (j_rows j)" for w
  proof -
    have "\<forall>r. jr_result w = Some r \<longrightarrow> names K (rs_command r) (rs_request r)"
      using assms(1) w by (simp add: journal_from_def)
    then show ?thesis using assms(4) [OF w] by (cases "P w") auto
  qed
  ultimately show ?thesis unfolding journal_from_def by (simp add: ball_tbl_upd)
qed

lemma journal_from_ack: "journal_from K digest j \<Longrightarrow> journal_from K digest (acknowledge rid j)"
  unfolding acknowledge_def by (rule journal_from_upd) auto

lemma journal_from_finish:
  "journal_from K digest j \<Longrightarrow> names K (rs_command r) (rs_request r) \<Longrightarrow> journal_from K digest (finish_command r j)"
  unfolding finish_command_def by (rule journal_from_upd) auto

lemma journal_from_record:
  assumes "journal_from K digest j" and "rs_command r = None"
  shows "journal_from K digest (record_result rid print r acked j)"
proof -
  define j1 where "j1 = j\<lparr>j_rows := tbl_upd (\<lambda>w. jr_request w = rid \<and> jr_print w = print \<and> jr_result w = None)
    (\<lambda>w. w\<lparr>jr_result := Some r\<rparr>) (j_rows j)\<rparr>"
  have one: "journal_from K digest j1"
    unfolding j1_def by (rule journal_from_upd) (use assms in \<open>auto simp: names_def\<close>)
  then have "journal_from K digest (j1\<lparr>j_rows := tbl_upd P (\<lambda>w. w\<lparr>jr_acked := True\<rparr>) (j_rows j1)\<rparr>)" for P
    by (rule journal_from_upd) auto
  with one show ?thesis unfolding record_result_def Let_def j1_def [symmetric] by simp
qed

lemma pending_from:
  "journal_from K digest j \<Longrightarrow> r \<in> set (pending_results j) \<Longrightarrow> names K (rs_command r) (rs_request r)"
  by (auto simp: pending_iff journal_from_def)

text \<open>The steps of the agent keep the origin of what it handles.\<close>

lemma agent_from_same:
  "agent_from K digest s \<Longrightarrow> set (na_inbox s') \<subseteq> K \<Longrightarrow> na_current s' = na_current s \<or> na_current s' = None \<Longrightarrow>
   journal_from K digest (na_journal s') \<Longrightarrow> na_sent s' = na_sent s \<Longrightarrow> agent_from K digest s'"
  by (auto simp: agent_from_def)

lemma send_from: "agent_from K digest s \<Longrightarrow> message_from K m \<Longrightarrow> agent_from K digest (send m s)"
  by (auto simp: agent_from_def send_def)

lemma ack_from: "agent_from K digest s \<Longrightarrow> agent_from K digest (ack rid s)"
  by (auto simp: agent_from_def ack_def intro: journal_from_ack)

lemma reconnect_from: "agent_from K digest s \<Longrightarrow> agent_from K digest (reconnect_if_requested rid s)"
  by (auto simp: agent_from_def reconnect_if_requested_def)

lemma said_from:
  "agent_from K digest s \<Longrightarrow> message_from K m \<Longrightarrow> agent_from K digest (s\<lparr>na_sent := na_sent s @ [m]\<rparr>)"
  by (auto simp: agent_from_def)

lemma answer_from:
  assumes "agent_from K digest s" and "c \<in> K" and "rs_request r = wr_request c"
  shows "agent_from K digest (answer tr c posted r s)"
proof (cases tr)
  case WebSocket
  have "agent_from K digest (if pl_stream (wr_payload c)
      then send (StreamEnd (wr_request c) (rs_status r)) s else s)"
    using assms(1) by (auto intro: send_from)
  then show ?thesis by (simp add: WebSocket answer_def Let_def names_def reconnect_from send_from)
next
  case Http
  have said: "agent_from K digest (s\<lparr>na_sent := na_sent s @ [Reply (wr_id c) r]\<rparr>)"
    using assms by (intro said_from) (auto simp: names_def)
  have "agent_from K digest (ack (rs_request r) (s\<lparr>na_sent := na_sent s @ [Reply (wr_id c) r]\<rparr>)\<lparr>na_reconnect := x\<rparr>)" for x
    using ack_from [OF said, of "rs_request r"] by (simp add: agent_from_def)
  with said show ?thesis by (simp add: Http answer_def Let_def)
qed

lemma begin_result_request:
  assumes "journal_ok j" and "begin_command rid print resume now j = (j', Some r)"
  shows "rs_request r = rid"
proof -
  have "Some r = snd (open_register rid print resume (phases j))"
    using begin_phases [of rid print resume now j] assms(2) by simp
  then show ?thesis using settled_request [OF assms(1), of rid]
    by (auto simp: open_register_def reused_def interrupted_def split: phase.splits if_splits)
qed

lemma begin_from:
  assumes "journal_from K digest j" and "c \<in> K"
    and "begin_command (wr_request c) (fingerprint digest (wr_payload c)) resume now j = (j', out)"
  shows "journal_from K digest j'"
proof -
  let ?p = "fingerprint digest (wr_payload c)"
  have ph: "phases j' = fst (open_register (wr_request c) ?p resume (phases j))"
    using begin_phases [of "wr_request c" ?p resume now j] assms(3) by simp
  have "opened_by K digest rid (phases j' rid)" for rid
  proof (cases "phases j' rid = phases j rid")
    case True
    then show ?thesis using assms(1) by (simp add: journal_from_def)
  next
    case False
    then have "rid = wr_request c \<and> phases j' rid = Running ?p"
      unfolding ph by (auto simp: open_register_def split: phase.splits if_splits)
    then show ?thesis using assms(2) by (auto simp: opened_by_def)
  qed
  moreover have "\<forall>w \<in> set (j_rows j'). \<forall>r. jr_result w = Some r \<longrightarrow> names K (rs_command r) (rs_request r)"
    using assms(1,3) by (auto simp: begin_command_def journal_from_def split: option.splits if_splits)
  ultimately show ?thesis by (simp add: journal_from_def)
qed

lemma start_from:
  assumes "agent_from K digest s" and "c \<in> K" and "journal_ok (na_journal s)"
  shows "agent_from K digest (start digest helper tr c posted now s)"
proof -
  obtain j out where bg: "begin_command (wr_request c) (fingerprint digest (wr_payload c))
      (resumable helper (wr_payload c)) now (na_journal s) = (j, out)" by fastforce
  have j: "journal_from K digest j"
    using begin_from [OF _ assms(2) bg] assms(1) by (simp add: agent_from_def)
  then have "agent_from K digest (s\<lparr>na_journal := j\<rparr>)" using assms(1) by (simp add: agent_from_def)
  then have "out = Some r \<Longrightarrow> agent_from K digest (answer tr c posted r (s\<lparr>na_journal := j\<rparr>))" for r
    using begin_result_request [OF assms(3)] bg by (intro answer_from assms(2)) auto
  moreover have "agent_from K digest (s\<lparr>na_journal := j, na_current := Some (c, tr),
      na_started := na_started s @ [(wr_request c, fingerprint digest (wr_payload c))]\<rparr>)"
    using j assms(1,2) by (simp add: agent_from_def)
  ultimately show ?thesis unfolding start_def Let_def bg by (auto split: option.split)
qed

lemma outcome_command: "outcome_result c out = Some r \<Longrightarrow> rs_command r = wr_id c"
  by (auto simp: outcome_result_def failed_result_def split: outcome.splits if_splits)

lemma finish_from:
  assumes "agent_from K digest s"
  shows "agent_from K digest (finish out switched posted s)"
proof (cases "na_current s")
  case None
  then show ?thesis using assms by (simp add: finish_def)
next
  case (Some ctr)
  obtain c tr where cur: "na_current s = Some (c, tr)" using Some by (cases ctr) auto
  then have c: "c \<in> K" using assms by (auto simp: agent_from_def)
  show ?thesis
  proof (cases "outcome_result c out")
    case None
    then show ?thesis using assms by (auto simp: finish_def cur agent_from_def)
  next
    case (Some r)
    have "names K (rs_command r) (rs_request r)"
      using c outcome_command [OF Some] outcome_request [OF Some] by (auto simp: names_def)
    then have "journal_from K digest (finish_command r (na_journal s))"
      using assms by (intro journal_from_finish) (auto simp: agent_from_def)
    then have "agent_from K digest (s\<lparr>na_current := None, na_journal := finish_command r (na_journal s),
        na_reconnect := x\<rparr>)" for x
      using assms by (simp add: agent_from_def)
    then show ?thesis
      unfolding finish_def cur Let_def
      by (simp add: Some answer_from [OF _ c outcome_request [OF Some]])
  qed
qed

lemma resend_from:
  assumes "agent_from K digest s"
  shows "agent_from K digest (resend s)"
proof -
  have told: "agent_from K digest t \<Longrightarrow> agent_from K digest (send (Reply None r) t)" for r t
    by (rule send_from) (simp_all add: names_def)
  have "agent_from K digest t \<Longrightarrow> agent_from K digest (fold (\<lambda>r. send (Reply None r)) rs t)" for rs t
    by (induction rs arbitrary: t) (simp_all add: told)
  with assms show ?thesis by (simp add: resend_def)
qed

lemma post_from:
  assumes "agent_from K digest s"
  shows "agent_from K digest (post_pending oks s)"
proof -
  have "agent_from K digest t \<Longrightarrow> (\<And>r. r \<in> set rs \<Longrightarrow> names K (rs_command r) (rs_request r)) \<Longrightarrow>
      agent_from K digest (post_all oks rs t)" for rs t
  proof (induction oks rs t rule: post_all.induct)
    case (1 ok oks r rs t)
    have said: "agent_from K digest (t\<lparr>na_sent := na_sent t @ [Reply (rs_command r) r]\<rparr>)"
      using "1.prems" by (intro said_from) simp_all
    have "agent_from K digest (post_all oks rs (ack (rs_request r)
        (t\<lparr>na_sent := na_sent t @ [Reply (rs_command r) r]\<rparr>)))" if ok
      by (rule "1.IH" [OF refl that ack_from [OF said]]) (use "1.prems"(2) in simp)
    with said show ?case by (simp add: Let_def)
  qed simp_all
  moreover have "journal_from K digest (na_journal s)" using assms by (simp add: agent_from_def)
  ultimately show ?thesis unfolding post_pending_def using assms pending_from by blast
qed

lemma agent_step_from:
  assumes ok: "agent_from K digest s" and "journal_ok (na_journal s)" and "call_from K call"
  shows "agent_from K digest (agent_step digest helper s call)"
proof (cases call)
  case (Work now)
  have box: "agent_from K digest (s\<lparr>na_inbox := cs\<rparr>) \<and> c \<in> K" if "na_inbox s = c # cs" for c cs
    using ok that by (auto simp: agent_from_def)
  then have "agent_from K digest (start digest helper WebSocket c True now (s\<lparr>na_inbox := cs\<rparr>))"
    if "na_inbox s = c # cs" for c cs using that assms(2) by (intro start_from) auto
  then show ?thesis
    using ok by (auto simp: Work agent_step_def work_def split: option.split list.split)
next
  case (HttpExecute c posted now)
  then show ?thesis using assms by (auto simp: agent_step_def http_execute_def call_from_def intro: start_from)
next
  case (HelperRecord p r acked)
  then show ?thesis using ok
    by (auto simp: agent_step_def helper_record_def agent_from_def intro: journal_from_record)
next
  case Connect
  have "agent_from K digest (s\<lparr>na_online := True\<rparr>)" using ok by (simp add: agent_from_def)
  then show ?thesis by (simp add: Connect agent_step_def resend_from)
next
  case (SetRunning b service)
  have "phases (set_desired_running b service j) = phases j \<and> j_rows (set_desired_running b service j) = j_rows j" for j
    by (simp add: set_running_phases) (simp add: set_desired_running_def)
  then show ?thesis using ok by (auto simp: SetRunning agent_step_def agent_from_def journal_from_def)
next
  case (Receive c)
  then show ?thesis using assms by (auto simp: agent_step_def receive_def call_from_def agent_from_def)
next
  case Stop
  then show ?thesis using ok by (auto simp: agent_step_def stopped_def agent_from_def)
next
  case Disconnect
  then show ?thesis using ok by (auto simp: agent_step_def agent_from_def)
qed (use ok in \<open>simp_all add: agent_step_def ack_from finish_from resend_from post_from\<close>)

end
