(* ===== verification/Delivery.thy ===== *)
theory Delivery
  imports Queue_Outcomes Agent_Properties
begin

text \<open>
  The control plane's queue and one node's agent together, over a network that may lose, delay,
  repeat and reorder everything: any command ever dispatched may reach the agent at any time (again),
  any reply ever sent may reach the control plane at any time (again), both sides restart as they
  like, and the rest of the control plane, other agents included, does whatever \<open>fleet_step\<close> allows.
  The one assumption is that nobody but the node's agent and its lifecycle helper reports with the
  node's token.
\<close>

declare split_paired_All [simp del] split_paired_Ex [simp del]

record link =
  lk_fleet :: fleet
  lk_agent :: node_agent

definition empty_link :: link where
  "empty_link = \<lparr>lk_fleet = empty_fleet, lk_agent = fresh_agent\<rparr>"

text \<open>\<open>AgentCommandResultRequest\<close> of a result: an absent body is \<open>None\<close>.\<close>

definition report_of :: "agent_result \<Rightarrow> result_report" where
  "report_of r = \<lparr>rp_status = rs_status r,
     rp_body = (case rs_body r of None \<Rightarrow> JNull | Some b \<Rightarrow> b), rp_error = rs_error r\<rparr>"

text \<open>A row's command on the wire, with its id in a lease and without in a push.\<close>

definition carries :: "nat \<Rightarrow> wire \<Rightarrow> command \<Rightarrow> bool" where
  "carries sid w c \<longleftrightarrow> cm_server c = sid \<and> wr_request w = cm_request c \<and> wr_payload w = cm_payload c \<and>
     (wr_id w = None \<or> wr_id w = Some (cm_id c))"

definition dispatched :: "nat \<Rightarrow> wire \<Rightarrow> fleet \<Rightarrow> bool" where
  "dispatched sid w s = list_ex (\<lambda>c. carries sid w c \<and> cm_attempts c > 0) (cmds s)"

definition may_reach :: "nat \<Rightarrow> fleet \<Rightarrow> agent_call \<Rightarrow> bool" where
  "may_reach sid s call =
     (case call of Receive w \<Rightarrow> dispatched sid w s | HttpExecute w _ _ \<Rightarrow> dispatched sid w s | _ \<Rightarrow> True)"

text \<open>Who reports for a node: the holder of its token.\<close>

definition speaks_for :: "nat \<Rightarrow> string \<Rightarrow> fleet \<Rightarrow> bool" where
  "speaks_for sid token s = (case server_by_token token s of Inl e \<Rightarrow> False | Inr v \<Rightarrow> sv_id v = sid)"

definition impersonates :: "nat \<Rightarrow> fcall \<Rightarrow> fleet \<Rightarrow> bool" where
  "impersonates sid call s =
     (case call of
        Complete token i r now \<Rightarrow> speaks_for sid token s
      | CompleteByRequest token rid r now \<Rightarrow> speaks_for sid token s
      | _ \<Rightarrow> False)"

text \<open>The frame that ends a stream.\<close>

definition stream_end :: "int \<Rightarrow> string" where
  "stream_end st = ''{'' @ [CHR 0x22] @ ''status'' @ [CHR 0x22] @ '': '' @ int_str st @ '', '' @ [CHR 0x22] @
     ''complete'' @ [CHR 0x22] @ '': true}''"

definition deliver :: "string \<Rightarrow> message \<Rightarrow> time \<Rightarrow> fcall" where
  "deliver token m now =
     (case m of
        Reply (Some i) r \<Rightarrow> Complete token i (report_of r) now
      | Reply None r \<Rightarrow> CompleteByRequest token (rs_request r) (report_of r) now
      | StreamEnd rid st \<Rightarrow> Frame token rid (stream_end st) now)"

datatype link_call =
    Control fcall
  | Node agent_call
  | Deliver nat time
  | HelperPost request result_report time

definition link_step ::
  "(json \<Rightarrow> string) \<Rightarrow> (json \<Rightarrow> string) \<Rightarrow> bool \<Rightarrow> nat \<Rightarrow> string \<Rightarrow> link \<Rightarrow> link_call \<Rightarrow> link" where
  "link_step fd ad helper sid token s call =
     (case call of
        Control c \<Rightarrow>
          if impersonates sid c (lk_fleet s) then s else s\<lparr>lk_fleet := fleet_step fd (lk_fleet s) c\<rparr>
      | Node c \<Rightarrow>
          if may_reach sid (lk_fleet s) c then s\<lparr>lk_agent := agent_step ad helper (lk_agent s) c\<rparr> else s
      | Deliver k now \<Rightarrow>
          if k < length (na_sent (lk_agent s))
          then s\<lparr>lk_fleet := fleet_step fd (lk_fleet s) (deliver token (na_sent (lk_agent s) ! k) now)\<rparr>
          else s
      | HelperPost rid r now \<Rightarrow>
          if helper \<and> list_ex (\<lambda>c. cm_request c = rid \<and> is_lifecycle (cm_payload c)) (cmds (lk_fleet s))
          then s\<lparr>lk_fleet := fleet_step fd (lk_fleet s) (CompleteByRequest token rid r now)\<rparr>
          else s)"

section \<open>The invariant\<close>

definition wires_of :: "nat \<Rightarrow> fleet \<Rightarrow> wire set" where
  "wires_of sid s = {w. \<exists>c \<in> set (cmds s). carries sid w c}"

text \<open>A success of the node's queue is the journaled result of that very command.\<close>

definition recorded :: "(json \<Rightarrow> string) \<Rightarrow> node_agent \<Rightarrow> command \<Rightarrow> bool" where
  "recorded ad a c \<longleftrightarrow> (\<exists>r. phases (na_journal a) (cm_request c) = Settled (fingerprint ad (cm_payload c)) r \<and>
     cm_result_status c = Some (rp_status (report_of r)) \<and> cm_result_body c = rp_body (report_of r))"

definition successes_recorded :: "(json \<Rightarrow> string) \<Rightarrow> nat \<Rightarrow> link \<Rightarrow> bool" where
  "successes_recorded ad sid s \<longleftrightarrow> (\<forall>c \<in> set (cmds (lk_fleet s)). cm_server c = sid \<longrightarrow> cm_status c = Succeeded \<longrightarrow>
     fingerprint ad (cm_payload c) \<notin> life_prints ad \<longrightarrow> recorded ad (lk_agent s) c)"

definition fleet_side :: "fleet \<Rightarrow> bool" where
  "fleet_side s \<longleftrightarrow> fleet_ok s \<and> (\<forall>c \<in> set (cmds s). named c)"

definition agent_side :: "(json \<Rightarrow> string) \<Rightarrow> bool \<Rightarrow> nat \<Rightarrow> link \<Rightarrow> bool" where
  "agent_side ad helper sid s \<longleftrightarrow> agent_ok (life_prints ad) ad (lk_agent s) \<and>
     starts_ok (again_prints ad helper) (executor_of (lk_agent s)) \<and>
     replies_ok (life_prints ad) (executor_of (lk_agent s)) \<and>
     agent_from (wires_of sid (lk_fleet s)) ad (lk_agent s)"

definition delivery_ok :: "(json \<Rightarrow> string) \<Rightarrow> bool \<Rightarrow> nat \<Rightarrow> link \<Rightarrow> bool" where
  "delivery_ok ad helper sid s \<longleftrightarrow>
     fleet_side (lk_fleet s) \<and> agent_side ad helper sid s \<and> successes_recorded ad sid s"

lemma exec_steps_settled:
  "exec_steps R L e e' \<Longrightarrow> ex_phase e rid = Settled p r \<Longrightarrow> ex_phase e' rid = Settled p r"
proof (induction rule: rtranclp_induct)
  case (step e1 e2)
  from step(2) step(3) [OF step(4)] show ?case by cases auto
qed

lemma unique_row:
  assumes "fleet_side s" and "c \<in> set (cmds s)" and "d \<in> set (cmds s)" and "cm_id c = cm_id d"
  shows "c = d"
  using assms tbl_get_keyed [of cm_id "cmds s"]
  by (auto simp: fleet_side_def fleet_ok_def tables_ok_def rows_ok_def) (metis option.inject)

lemma unique_request:
  assumes "fleet_side s" and "c \<in> set (cmds s)" and "d \<in> set (cmds s)" and "cm_request c = cm_request d"
  shows "c = d"
proof -
  have "cm_id c = cm_id d" using assms by (auto simp: fleet_side_def named_def)
  with assms show ?thesis by (intro unique_row)
qed

text \<open>The wire set only grows.\<close>

lemma wires_of_mono: "rows_le (cmds s) (cmds s') \<Longrightarrow> fleet_side s \<Longrightarrow> wires_of sid s \<subseteq> wires_of sid s'"
proof
  fix w assume le: "rows_le (cmds s) (cmds s')" and ok: "fleet_side s" and "w \<in> wires_of sid s"
  then obtain c where c: "c \<in> set (cmds s)" "carries sid w c" by (auto simp: wires_of_def)
  have "tbl_get cm_id (cm_id c) (cmds s) = Some c"
    using ok c(1) by (intro tbl_get_keyed) (auto simp: fleet_side_def fleet_ok_def tables_ok_def rows_ok_def)
  with le obtain c' where "tbl_get cm_id (cm_id c) (cmds s') = Some c'" "evolve c c'"
    unfolding rows_le_def by blast
  with c(2) show "w \<in> wires_of sid s'"
    by (auto simp: wires_of_def carries_def evolve_def dest: tbl_get_SomeD)
qed

text \<open>What a fleet step must show: rows evolve, keep their names, and gain successes only from the agent.\<close>

definition tame :: "(json \<Rightarrow> string) \<Rightarrow> nat \<Rightarrow> link \<Rightarrow> fleet \<Rightarrow> bool" where
  "tame ad sid s f' \<longleftrightarrow> (\<forall>c' \<in> set (cmds f'). (\<exists>c \<in> set (cmds (lk_fleet s)). no_gain c c') \<or>
     (named c' \<and> cm_status c' \<noteq> Succeeded) \<or>
     (\<exists>c \<in> set (cmds (lk_fleet s)). same_origin c c' \<and> (cm_server c' = sid \<longrightarrow>
        fingerprint ad (cm_payload c') \<notin> life_prints ad \<longrightarrow> recorded ad (lk_agent s) c')))"

lemma fleet_step_keeps:
  assumes ok: "delivery_ok ad helper sid s" and nx: "next_ok (lk_fleet s) f'" and tame: "tame ad sid s f'"
  shows "delivery_ok ad helper sid (s\<lparr>lk_fleet := f'\<rparr>)"
proof -
  have f: "fleet_side (lk_fleet s)" using ok by (simp add: delivery_ok_def)
  then have f': "fleet_ok f'" "rows_le (cmds (lk_fleet s)) (cmds f')"
    using nx by (auto simp: next_ok_def fleet_side_def)
  have named: "named c'" if "c' \<in> set (cmds f')" for c'
    using tame that f unfolding tame_def fleet_side_def
    by (auto simp: no_gain_def same_origin_def named_def)
  have rec: "recorded ad (lk_agent s) c'"
    if c': "c' \<in> set (cmds f')" "cm_server c' = sid" "cm_status c' = Succeeded"
      "fingerprint ad (cm_payload c') \<notin> life_prints ad" for c'
  proof -
    from tame c' consider c where "c \<in> set (cmds (lk_fleet s))" "no_gain c c'" | "recorded ad (lk_agent s) c'"
      unfolding tame_def by blast
    then show ?thesis
    proof cases
      case 1
      then have "cm_server c = sid" "cm_status c = Succeeded" "fingerprint ad (cm_payload c) \<notin> life_prints ad"
        using c' by (auto simp: no_gain_def same_origin_def)
      then have "recorded ad (lk_agent s) c"
        using ok 1(1) by (auto simp: delivery_ok_def successes_recorded_def)
      then show ?thesis using 1(2) c'(3) by (simp add: recorded_def no_gain_def same_origin_def)
    qed
  qed
  have "agent_from (wires_of sid f') ad (lk_agent s)"
    using ok wires_of_mono [OF f'(2) f, of sid] by (auto simp: delivery_ok_def agent_side_def intro: agent_from_mono)
  then show ?thesis
    using ok f'(1) named rec by (simp add: delivery_ok_def fleet_side_def agent_side_def successes_recorded_def)
qed

section \<open>Its steps\<close>

lemma tame_of_calm: "calm (lk_fleet s) f' \<Longrightarrow> tame ad sid s f'"
  unfolding calm_rows_def tame_def by blast

text \<open>The calls that report nothing gain nothing.\<close>

definition reports :: "fcall \<Rightarrow> bool" where
  "reports call = (case call of Complete _ _ _ _ \<Rightarrow> True | CompleteByRequest _ _ _ _ \<Rightarrow> True | _ \<Rightarrow> False)"

lemma commit_calm: "(\<And>s' r. h = Inr (s', r) \<Longrightarrow> calm s s') \<Longrightarrow> calm s (commit s h)"
  by (cases h) auto

lemma quiet_call_calm: "\<not> reports call \<Longrightarrow> calm s (fleet_step fd s call)"
  by (cases call) (auto simp: reports_def fleet_step_def migrate_legacy_calm intro!: commit_calm
    intro: create_command_calm create_command_sequence_calm lease_commands_calm lease_for_push_calm
      append_frame_calm reconcile_calm release_lease_calm create_change_set_calm dispatch_calm
      rollback_calm accept_calm)

text \<open>A report is applied to one row of the server its token speaks for.\<close>

definition target_row :: "fcall \<Rightarrow> fleet \<Rightarrow> (command \<times> result_report) option" where
  "target_row call s =
     (case call of
        Complete token i r now \<Rightarrow>
          (case server_by_token token s of
             Inl e \<Rightarrow> None
           | Inr v \<Rightarrow>
             (case get_cmd i s of
                None \<Rightarrow> None | Some c \<Rightarrow> if cm_server c = sv_id v then Some (c, r) else None))
      | CompleteByRequest token rid r now \<Rightarrow>
          (case server_by_token token s of
             Inl e \<Rightarrow> None | Inr v \<Rightarrow> map_option (\<lambda>c. (c, r)) (by_request rid (sv_id v) s))
      | _ \<Rightarrow> None)"

lemma by_request_mem:
  "by_request rid sid s = Some c \<Longrightarrow> c \<in> set (cmds s) \<and> cm_request c = rid \<and> cm_server c = sid"
  by (auto simp: by_request_def dest: find_SomeD)

lemma get_cmd_mem: "get_cmd i s = Some c \<Longrightarrow> c \<in> set (cmds s) \<and> cm_id c = i"
  by (auto simp: get_cmd_def dest: tbl_get_SomeD)

lemma commit_gains:
  "c \<in> set (cmds s) \<Longrightarrow> queue_ok s \<Longrightarrow>
   gains fd c r s (commit s (map_sum id (\<lambda>s'. (s', g s')) (apply_result fd sid c r now s)))"
  by (cases "apply_result fd sid c r now s") (auto intro: apply_result_gains gains_of_calm)

lemma report_gains:
  assumes "reports call" and "queue_ok s"
  shows "calm s (fleet_step fd s call) \<or>
    (\<exists>c r. target_row call s = Some (c, r) \<and> c \<in> set (cmds s) \<and> gains fd c r s (fleet_step fd s call))"
  using assms
  by (cases call)
    (auto simp: reports_def fleet_step_def target_row_def complete_command_def complete_by_request_def
      intro!: commit_gains dest: by_request_mem get_cmd_mem split: sum.splits option.splits)

text \<open>So a report is harmless unless it grants an unrecorded success to the node.\<close>

lemma report_tame:
  assumes "fleet_side (lk_fleet s)"
    and granted: "\<And>c r c'. target_row call (lk_fleet s) = Some (c, r) \<Longrightarrow> c \<in> set (cmds (lk_fleet s)) \<Longrightarrow>
      granted fd c r c' \<Longrightarrow> cm_server c = sid \<Longrightarrow> fingerprint ad (cm_payload c) \<notin> life_prints ad \<Longrightarrow>
      recorded ad (lk_agent s) c'"
  shows "tame ad sid s (fleet_step fd (lk_fleet s) call)"
proof (cases "calm (lk_fleet s) (fleet_step fd (lk_fleet s) call)")
  case True
  then show ?thesis by (rule tame_of_calm)
next
  case False
  then have "reports call" using quiet_call_calm by blast
  moreover have "queue_ok (lk_fleet s)" using assms(1) by (simp add: fleet_side_def fleet_ok_def tables_ok_def)
  ultimately obtain c r where t: "target_row call (lk_fleet s) = Some (c, r)" "c \<in> set (cmds (lk_fleet s))"
      and g: "gains fd c r (lk_fleet s) (fleet_step fd (lk_fleet s) call)"
    using report_gains False by blast
  have "same_origin c c' \<and> (cm_server c' = sid \<longrightarrow> fingerprint ad (cm_payload c') \<notin> life_prints ad \<longrightarrow>
      recorded ad (lk_agent s) c')" if "granted fd c r c'" for c'
    using granted [OF t that] that by (auto simp: granted_def same_origin_def)
  with g t(2) show ?thesis unfolding tame_def gains_def by blast
qed

text \<open>A control call for another server's token, or none, cannot touch the node's successes.\<close>

lemma control_tame:
  assumes "delivery_ok ad helper sid s" and "\<not> impersonates sid call (lk_fleet s)"
  shows "tame ad sid s (fleet_step fd (lk_fleet s) call)"
proof (rule report_tame)
  show "fleet_side (lk_fleet s)" using assms(1) by (simp add: delivery_ok_def)
next
  fix c r c' assume "target_row call (lk_fleet s) = Some (c, r)" and "cm_server c = sid"
  with assms(2) have False
    by (auto simp: target_row_def impersonates_def speaks_for_def dest: by_request_mem
        split: fcall.splits sum.splits option.splits if_splits)
  then show "recorded ad (lk_agent s) c'" ..
qed

text \<open>The agent's own replies carry what its journal holds.\<close>

lemma refusal_status: "refusal r \<Longrightarrow> rs_status r = 409"
  unfolding refusal_def by (erule disjE; drule arg_cong [where f = rs_status]) (simp_all add: reused_def interrupted_def)

lemma reply_recorded:
  assumes ok: "delivery_ok ad helper sid s" and sent: "Reply tgt r \<in> set (na_sent (lk_agent s))"
    and c: "c \<in> set (cmds (lk_fleet s))" "rs_request r = cm_request c"
    and life: "fingerprint ad (cm_payload c) \<notin> life_prints ad" and g: "granted fd c (report_of r) c'"
  shows "recorded ad (lk_agent s) c'"
proof -
  let ?ph = "phases (na_journal (lk_agent s))"
  have f: "fleet_side (lk_fleet s)" using ok by (simp add: delivery_ok_def)
  have "r \<in> set (ex_replies (executor_of (lk_agent s)))"
    using sent by (force simp: executor_of_def map_filter_def)
  then have reply: "refusal r \<or> (\<exists>p. ?ph (rs_request r) = Settled p r) \<or> under (life_prints ad) ?ph (rs_request r)"
    using ok by (auto simp: delivery_ok_def agent_side_def replies_ok_def executor_of_def)
  have no_refusal: "\<not> refusal r"
    using g refusal_status [of r] by (auto simp: granted_def report_of_def)
  have opened: "p = fingerprint ad (cm_payload c)" if "?ph (cm_request c) = Running p \<or> (\<exists>q. ?ph (cm_request c) = Settled p q)" for p
  proof -
    have "opened_by (wires_of sid (lk_fleet s)) ad (cm_request c) (?ph (cm_request c))"
      using ok by (simp add: delivery_ok_def agent_side_def agent_from_def journal_from_def)
    with that obtain w d where "d \<in> set (cmds (lk_fleet s))" "carries sid w d" "wr_request w = cm_request c"
        "fingerprint ad (wr_payload w) = p"
      by (auto simp: opened_by_def wires_of_def)
    moreover from this have "d = c" by (intro unique_request [OF f _ c(1)]) (auto simp: carries_def)
    ultimately show ?thesis by (simp add: carries_def)
  qed
  from reply no_refusal obtain p where p: "?ph (cm_request c) = Settled p r"
    using opened life c(2) by (auto simp: under_def)
  then have "p = fingerprint ad (cm_payload c)" using opened by blast
  with p g show ?thesis by (auto simp: recorded_def granted_def same_origin_def report_of_def)
qed

lemma deliver_tame:
  assumes ok: "delivery_ok ad helper sid s" and m: "m \<in> set (na_sent (lk_agent s))"
  shows "tame ad sid s (fleet_step fd (lk_fleet s) (deliver token m now))"
proof (rule report_tame)
  show f: "fleet_side (lk_fleet s)" using ok by (simp add: delivery_ok_def)
  fix c r c' assume t: "target_row (deliver token m now) (lk_fleet s) = Some (c, r)" and g: "granted fd c r c'"
    and c: "c \<in> set (cmds (lk_fleet s))" and life: "fingerprint ad (cm_payload c) \<notin> life_prints ad"
  from t obtain tgt a where a: "m = Reply tgt a" "r = report_of a"
    by (cases m) (auto simp: target_row_def deliver_def split: option.splits sum.splits if_splits)
  have "rs_request a = cm_request c"
  proof (cases tgt)
    case None
    then show ?thesis using t a by (auto simp: target_row_def deliver_def dest: by_request_mem split: sum.splits)
  next
    case (Some i)
    then have id: "cm_id c = i" using t a
      by (auto simp: target_row_def deliver_def dest: get_cmd_mem split: sum.splits option.splits if_splits)
    have "message_from (wires_of sid (lk_fleet s)) m"
      using ok m by (auto simp: delivery_ok_def agent_side_def agent_from_def)
    with a Some obtain w d where "d \<in> set (cmds (lk_fleet s))" "carries sid w d" "wr_id w = Some i"
        "wr_request w = rs_request a"
      by (auto simp: names_def wires_of_def)
    moreover from this have "d = c" using id by (intro unique_row [OF f _ c]) (auto simp: carries_def)
    ultimately show ?thesis by (simp add: carries_def)
  qed
  with reply_recorded [OF ok _ c _ life] m a g show "recorded ad (lk_agent s) c'" by blast
qed

lemma helper_tame:
  assumes ok: "delivery_ok ad helper sid s"
    and life: "list_ex (\<lambda>c. cm_request c = rid \<and> is_lifecycle (cm_payload c)) (cmds (lk_fleet s))"
  shows "tame ad sid s (fleet_step fd (lk_fleet s) (CompleteByRequest token rid r now))"
proof (rule report_tame)
  show f: "fleet_side (lk_fleet s)" using ok by (simp add: delivery_ok_def)
  fix c q c' assume "target_row (CompleteByRequest token rid r now) (lk_fleet s) = Some (c, q)"
    and c: "c \<in> set (cmds (lk_fleet s))" and print: "fingerprint ad (cm_payload c) \<notin> life_prints ad"
  then have "cm_request c = rid" by (auto simp: target_row_def dest: by_request_mem split: sum.splits)
  moreover obtain d where "d \<in> set (cmds (lk_fleet s))" "cm_request d = rid" "is_lifecycle (cm_payload d)"
    using life by (auto simp: list_ex_iff)
  ultimately have "is_lifecycle (cm_payload c)" using unique_request [OF f c] by auto
  with print show "recorded ad (lk_agent s) c'" by (auto simp: life_prints_def)
qed

lemma dispatched_wire: "dispatched sid w s \<Longrightarrow> w \<in> wires_of sid s"
  by (auto simp: dispatched_def wires_of_def list_ex_iff)

lemma node_step_keeps:
  assumes ok: "delivery_ok ad helper sid s" and may: "may_reach sid (lk_fleet s) call"
  shows "delivery_ok ad helper sid (s\<lparr>lk_agent := agent_step ad helper (lk_agent s) call\<rparr>)"
proof -
  let ?a = "agent_step ad helper (lk_agent s) call"
  have aok: "agent_ok (life_prints ad) ad (lk_agent s)" using ok by (simp add: delivery_ok_def agent_side_def)
  have sim: "simulates (again_prints ad helper) (life_prints ad) ad (lk_agent s) ?a"
    by (rule agent_step_simulates [OF aok])
  then have steps: "exec_steps (again_prints ad helper) (life_prints ad) (executor_of (lk_agent s)) (executor_of ?a)"
    by (simp add: simulates_def)
  have spec: "starts_ok (again_prints ad helper) (executor_of ?a) \<and> replies_ok (life_prints ad) (executor_of ?a)"
    using ok by (intro exec_steps_ok [OF steps]) (simp add: delivery_ok_def agent_side_def)
  have "call_from (wires_of sid (lk_fleet s)) call"
    using may dispatched_wire by (auto simp: may_reach_def call_from_def split: agent_call.splits)
  then have "agent_from (wires_of sid (lk_fleet s)) ad ?a"
    using ok aok by (intro agent_step_from) (auto simp: delivery_ok_def agent_side_def agent_ok_def)
  moreover have "recorded ad ?a c" if "recorded ad (lk_agent s) c" for c
  proof -
    from that obtain r where r: "phases (na_journal (lk_agent s)) (cm_request c) = Settled (fingerprint ad (cm_payload c)) r"
        "cm_result_status c = Some (rp_status (report_of r))" "cm_result_body c = rp_body (report_of r)"
      unfolding recorded_def by blast
    then have "phases (na_journal ?a) (cm_request c) = Settled (fingerprint ad (cm_payload c)) r"
      using exec_steps_settled [OF steps, of "cm_request c"] by (simp add: executor_of_def)
    with r(2,3) show ?thesis unfolding recorded_def by blast
  qed
  ultimately show ?thesis
    using ok sim spec by (auto simp: delivery_ok_def agent_side_def successes_recorded_def simulates_def)
qed

lemma link_step_keeps:
  assumes ok: "delivery_ok ad helper sid s"
  shows "delivery_ok ad helper sid (link_step fd ad helper sid token s call)"
proof -
  have step: "delivery_ok ad helper sid (s\<lparr>lk_fleet := fleet_step fd (lk_fleet s) c\<rparr>)"
    if "tame ad sid s (fleet_step fd (lk_fleet s) c)" for c
    by (rule fleet_step_keeps [OF ok fleet_step_next that])
  show ?thesis
  proof (cases call)
    case (Control c)
    then show ?thesis using ok step control_tame [OF ok] by (simp add: link_step_def)
  next
    case (Node c)
    then show ?thesis using ok node_step_keeps [OF ok] by (simp add: link_step_def)
  next
    case (Deliver k now)
    then show ?thesis using ok step [OF deliver_tame [OF ok]] by (simp add: link_step_def)
  next
    case (HelperPost rid r now)
    then show ?thesis using ok step [OF helper_tame [OF ok]] by (cases helper) (simp_all add: link_step_def)
  qed
qed

interpretation link_machine: step_invariant "link_step fd ad helper sid token" "delivery_ok ad helper sid"
    for fd ad helper sid token
  by unfold_locales (rule link_step_keeps)

lemma empty_link_ok: "delivery_ok ad helper sid empty_link"
  using fresh_executor_ok fresh_agent_ok fresh_agent_from
  by (auto simp: delivery_ok_def fleet_side_def agent_side_def successes_recorded_def empty_link_def
      fleet_ok_def tables_ok_def rows_ok_def empty_fleet_def tbl_keyed_def)

section \<open>End to end\<close>

definition link_after ::
  "(json \<Rightarrow> string) \<Rightarrow> (json \<Rightarrow> string) \<Rightarrow> bool \<Rightarrow> nat \<Rightarrow> string \<Rightarrow> link_call list \<Rightarrow> link" where
  "link_after fd ad helper sid token calls = run (link_step fd ad helper sid token) empty_link calls"


text \<open>
  A command created, leased, pushed, executed and reported: the agent loses its connection right after
  the reply, which then arrives twice.
\<close>

definition pushed_wire :: wire where
  "pushed_wire = \<lparr>wr_id = None, wr_request = (1, 0), wr_payload = wr_payload sample_wire\<rparr>"

definition sample_traffic :: "link_call list" where
  "sample_traffic =
     [Control (AddServer \<lparr>sv_id = 1, sv_token = ''t'', sv_status = ServerPending, sv_heartbeat = None,
        sv_updated = 0\<rparr>),
      Control (Create 1 (wr_payload sample_wire) 5), Control (Lease ''t'' 1 6 (\<lambda>_. Allow)),
      Node Connect, Node (Receive pushed_wire), Node (Work 7), Node (Finish (Returned (JBool True)) False True),
      Node Disconnect, Deliver 0 8, Deliver 0 9]"

definition delivered_row :: command where
  "delivered_row = \<lparr>cm_id = 0, cm_server = 1, cm_request = (1, 0), cm_payload = wr_payload sample_wire,
     cm_status = Succeeded, cm_depends = None, cm_attempts = 1, cm_result_status = Some 200,
     cm_result_body = JBool True, cm_error = None, cm_created = 5, cm_leased = Some 6,
     cm_completed = Some 8, cm_updated = 8\<rparr>"

lemma path_life: "life_prints path_digest \<subseteq> set lifecycle_paths"
  by (auto simp: life_prints_def path_fingerprint is_lifecycle_def)


end
