(* ===== verification/Subscription_Access.thy ===== *)
theory Subscription_Access
  imports Billing Command_Queue
begin

text \<open>
  Who may use a node: \<open>SubscriptionAccessCoordinator\<close> of
  \<open>backend/app/open_node/services/subscription_access.py\<close>. A row per subscriber and server keeps the
  client bindings provisioned there; \<open>desired\<close> computes what the server should enforce from quotas,
  plans, nodes and limits; \<open>reconcile\<close> queues a command when that differs from what was confirmed;
  \<open>can_lease\<close> refuses to send a command that is no longer desired. The state joins the command
  queue with the billing state. Times of the queue are milliseconds and of the billing calendar
  instants: a call carries both readings of the clock. The gates of \<open>node_management\<close> and
  \<open>user_management\<close> before a lease are inputs.
\<close>

section \<open>Data\<close>

record binding =
  bd_tag :: string
  bd_protocol :: string
  bd_client :: json
  bd_nodes :: "string list"

record access_row =
  ax_user :: string
  ax_server :: nat
  ax_bindings :: "binding list"
  ax_applied :: "string option"
  ax_command :: "nat option"
  ax_error :: "string option"
  ax_retry :: "time option"
  ax_updated :: time

text \<open>The columns of \<open>managed_nodes\<close> read here, over those the limits read.\<close>

record access_node = limit_node +
  an_server :: "nat option"
  an_protocol :: string
  an_tag :: "string option"
  an_marktag :: "string option"
  an_outbound :: "string option"

record access_credential =
  cr_user :: string
  cr_node :: string
  cr_server :: nat
  cr_tag :: "string option"
  cr_protocol :: string
  cr_email :: string
  cr_fields :: "(string \<times> json) list"

text \<open>\<open>sa_private\<close>: routed nodes owned by a user, and whether they are active; \<open>sa_rules\<close>: the automatic speed rules of a plan.\<close>

record subs =
  sa_fleet :: fleet
  sa_billing :: billing
  sa_rows :: "access_row list"
  sa_nodes :: "access_node list"
  sa_private :: "(string \<times> string \<times> bool) list"
  sa_rules :: "(string \<times> json) list"
  sa_credentials :: "access_credential list"

datatype access_error =
    QueueError fleet_error
  | UnknownUser string
  | AccessConflict string

definition protocol_name :: "string \<Rightarrow> string" where
  "protocol_name p =
     (if p = ''ss'' then ''shadowsocks'' else if p = ''hy2'' \<or> p = ''hysteria2'' then ''hysteria'' else p)"

fun str_of :: "json \<Rightarrow> string" where
  "str_of (JStr s) = s"
| "str_of _ = []"

fun is_str :: "json \<Rightarrow> bool" where
  "is_str (JStr _) = True"
| "is_str _ = False"

definition client_email :: "json \<Rightarrow> string" where
  "client_email c = str_of (jfield ''email'' c)"

definition binding_key :: "binding \<Rightarrow> string \<times> string" where
  "binding_key b = (bd_tag b, client_email (bd_client b))"

abbreviation access_key :: "access_row \<Rightarrow> string \<times> nat" where
  "access_key x \<equiv> (ax_user x, ax_server x)"

definition find_access :: "string \<Rightarrow> nat \<Rightarrow> subs \<Rightarrow> access_row option" where
  "find_access user sid s = tbl_get access_key (user, sid) (sa_rows s)"

definition upd_access :: "(access_row \<Rightarrow> bool) \<Rightarrow> (access_row \<Rightarrow> access_row) \<Rightarrow> subs \<Rightarrow> subs" where
  "upd_access P f s = s\<lparr>sa_rows := tbl_upd P f (sa_rows s)\<rparr>"

text \<open>\<open>command_clients\<close>: the clients a legacy batch provisions.\<close>

definition batch_client :: "json \<Rightarrow> bool" where
  "batch_client item = (is_dict item \<and> is_str (jfield ''tag'' item) \<and> is_dict (jfield ''client'' item) \<and>
     is_str (jfield ''email'' (jfield ''client'' item)))"

definition command_clients :: "payload \<Rightarrow> json list" where
  "command_clients p =
     (if pl_path p \<noteq> batch_path \<or> \<not> is_dict (pl_body p) then []
      else filter batch_client (elements (jget_or (JArr []) ''inbound_clients'' (pl_body p))))"

section \<open>The desired state\<close>

datatype access_reason = Removing | Disabled | NoPlan | PlanExpired | QuotaExceeded | Available | NodeNotInPlan

definition access_reason_of :: "bill_user \<Rightarrow> bill_plan option \<Rightarrow> quota \<Rightarrow> access_reason" where
  "access_reason_of u p q =
     (if bu_removal u then Removing else if \<not> bu_active u then Disabled else if p = None then NoPlan
      else if qu_expired q then PlanExpired else if qu_over q then QuotaExceeded else Available)"

text \<open>\<open>_subscription_node_allowed\<close>.\<close>

definition node_allowed :: "string \<Rightarrow> bill_plan \<Rightarrow> string \<Rightarrow> subs \<Rightarrow> bool" where
  "node_allowed user p n s =
     (case map_of (sa_private s) n of
        Some (who, active) \<Rightarrow> who = user \<and> active
      | None \<Rightarrow> n \<in> set (lp_nodes (bp_limits p)))"

definition usable_node :: "bill_user \<Rightarrow> bill_plan \<Rightarrow> nat \<Rightarrow> binding \<Rightarrow> subs \<Rightarrow> access_node \<Rightarrow> bool" where
  "usable_node u p sid b s n =
     (ln_enabled n \<and> ln_removal n = None \<and> node_allowed (bu_name u) p (ln_id n) s \<and>
      an_server n = Some sid \<and> an_tag n = Some (bd_tag b) \<and> protocol_name (an_protocol n) = bd_protocol b)"

definition binding_nodes :: "bill_user \<Rightarrow> bill_plan option \<Rightarrow> quota \<Rightarrow> nat \<Rightarrow> binding \<Rightarrow> subs \<Rightarrow> access_node list" where
  "binding_nodes u p q sid b s =
     (case p of
        Some pl \<Rightarrow> if qu_available q
          then filter (usable_node u pl sid b s) (List.map_filter (\<lambda>i. tbl_get ln_id i (sa_nodes s)) (bd_nodes b))
          else []
      | None \<Rightarrow> [])"

definition plan_rules :: "bill_plan \<Rightarrow> subs \<Rightarrow> json" where
  "plan_rules p s = (case map_of (sa_rules s) (bp_id p) of Some r \<Rightarrow> r | None \<Rightarrow> JArr [])"

definition min_positive :: "int list \<Rightarrow> int" where
  "min_positive xs = (if xs = [] then 0 else Min (set xs))"

definition node_speeds :: "effective list \<Rightarrow> int list" where
  "node_speeds es = map (\<lambda>e. py_int (ef_speed e * 125000)) (filter (\<lambda>e. ef_speed e \<noteq> 0) es)"

definition node_devices :: "effective list \<Rightarrow> int list" where
  "node_devices es = map ef_devices (filter (\<lambda>e. ef_devices e \<noteq> 0) es)"

text \<open>The limiter entry of a binding; the connection group is shared by the user's inbound on the server.\<close>

definition conn_group :: "(json \<Rightarrow> string) \<Rightarrow> string \<Rightarrow> nat \<Rightarrow> string \<Rightarrow> string" where
  "conn_group digest user sid tag =
     ''account-'' @ digest (JArr [JStr user, JStr (nat_str sid), JStr tag])"

definition limiter_entry ::
  "(json \<Rightarrow> string) \<Rightarrow> string \<Rightarrow> nat \<Rightarrow> binding \<Rightarrow> int \<Rightarrow> int \<Rightarrow> json \<Rightarrow> json" where
  "limiter_entry digest user sid b speed devices rules =
     JObj [(''inbound_tag'', JStr (bd_tag b)), (''user'', JObj
       ([(''uid'', JInt 0), (''email'', JStr (client_email (bd_client b))), (''speed_limit'', JInt speed),
         (''device_limit'', JInt devices), (''conn_group'', JStr (conn_group digest user sid (bd_tag b)))] @
        (if truthy rules then [(''auto_speed_rules'', rules)] else [])))]"

definition set_text :: "string option \<Rightarrow> bool" where
  "set_text t = (case t of Some s \<Rightarrow> s \<noteq> [] | None \<Rightarrow> False)"

definition route_of :: "binding \<Rightarrow> access_node \<Rightarrow> json list" where
  "route_of b n =
     (let extra = (if set_text (an_marktag n) then [(''marktag'', JStr (the (an_marktag n)))] else []) @
                  (if set_text (an_outbound n) then [(''outbound_tag'', JStr (the (an_outbound n)))] else [])
      in if extra = [] then [] else [JObj ((''user_email'', JStr (client_email (bd_client b))) # extra)])"

definition routes :: "binding \<Rightarrow> access_node list \<Rightarrow> json list" where
  "routes b ns = foldl (\<lambda>rs r. if r \<in> set rs then rs else rs @ [r]) [] (concat (map (route_of b) ns))"

definition entry_of ::
  "(json \<Rightarrow> string) \<Rightarrow> bill_user \<Rightarrow> bill_plan option \<Rightarrow> quota \<Rightarrow> nat \<Rightarrow> subs \<Rightarrow> binding \<Rightarrow> json" where
  "entry_of digest u p q sid s b =
     (let nodes = binding_nodes u p q sid b s;
          limits = map (\<lambda>n. effective_limits (bu_limits u) (map_option bp_limits p) (Some (limit_node.truncate n))) nodes;
          speed = min_positive (node_speeds limits);
          devices = min_positive (node_devices limits);
          rules = (case p of Some pl \<Rightarrow> plan_rules pl s | None \<Rightarrow> JArr []);
          native = agent_can sid ''native_limiter'' (sa_fleet s);
          limiter = (if nodes \<noteq> [] \<and> (speed \<noteq> 0 \<or> devices \<noteq> 0 \<or> native \<or> truthy rules)
                     then limiter_entry digest (bu_name u) sid b speed devices rules else JNull)
      in JObj [(''tag'', JStr (bd_tag b)), (''protocol'', JStr (bd_protocol b)), (''client'', bd_client b),
               (''enabled'', JBool (nodes \<noteq> [])), (''routing_user_additions'', JArr (routes b nodes)),
               (''limiter'', limiter)])"

definition access_body :: "(json \<Rightarrow> string) \<Rightarrow> json list \<Rightarrow> json" where
  "access_body digest es = JObj [(''revision'', JStr (digest (JArr es))), (''entries'', JArr es)]"

definition desired_entries ::
  "(json \<Rightarrow> string) \<Rightarrow> instant \<Rightarrow> subs \<Rightarrow> bill_user \<Rightarrow> access_row \<Rightarrow> json list" where
  "desired_entries digest at' s u x =
     (let p = plan_of u (sa_billing s)
      in map (entry_of digest u p (quota_status u p at' (sa_billing s)) (ax_server x) s) (ax_bindings x))"

text \<open>\<open>desired\<close>: the body of the command and the reason of each entry; the row's user exists by its foreign key.\<close>

definition desired ::
  "(json \<Rightarrow> string) \<Rightarrow> instant \<Rightarrow> subs \<Rightarrow> access_row \<Rightarrow> access_error + (json \<times> access_reason list)" where
  "desired digest at' s x =
     (case tbl_get bu_name (ax_user x) (b_users (sa_billing s)) of
        None \<Rightarrow> Inl (UnknownUser (ax_user x))
      | Some u \<Rightarrow>
        (let p = plan_of u (sa_billing s); q = quota_status u p at' (sa_billing s);
             reason = access_reason_of u p q
         in Inr (access_body digest (desired_entries digest at' s u x),
              map (\<lambda>b. if reason \<noteq> Available \<or> binding_nodes u p q (ax_server x) b s \<noteq> [] then reason
                        else NodeNotInPlan) (ax_bindings x))))"

section \<open>Adopting the clients of a batch\<close>

text \<open>
  \<open>adopt_command\<close>: a batch that carries a stored credential puts its client under management; the
  row is created when missing.
\<close>

fun upd_first :: "('a \<Rightarrow> bool) \<Rightarrow> ('a \<Rightarrow> 'a) \<Rightarrow> 'a list \<Rightarrow> 'a list" where
  "upd_first P f [] = []"
| "upd_first P f (x # xs) = (if P x then f x # xs else x # upd_first P f xs)"

definition same_client :: "string \<Rightarrow> string \<Rightarrow> binding \<Rightarrow> bool" where
  "same_client tag email b = (bd_tag b = tag \<and> client_email (bd_client b) = email)"

definition adopt_binding :: "json \<Rightarrow> access_credential \<Rightarrow> binding list \<Rightarrow> binding list" where
  "adopt_binding item cr bs =
     (let tag = str_of (jfield ''tag'' item); client = jfield ''client'' item
      in case List.find (same_client tag (cr_email cr)) bs of
           Some b \<Rightarrow>
             if cr_node cr \<notin> set (bd_nodes b) \<and> json_eq (bd_client b) client
             then upd_first (same_client tag (cr_email cr)) (\<lambda>b. b\<lparr>bd_nodes := bd_nodes b @ [cr_node cr]\<rparr>) bs
             else bs
         | None \<Rightarrow> bs @ [\<lparr>bd_tag = tag, bd_protocol = protocol_name (cr_protocol cr), bd_client = client,
                        bd_nodes = [cr_node cr]\<rparr>])"

definition new_access :: "string \<Rightarrow> nat \<Rightarrow> time \<Rightarrow> access_row" where
  "new_access user sid now = \<lparr>ax_user = user, ax_server = sid, ax_bindings = [], ax_applied = None,
     ax_command = None, ax_error = None, ax_retry = None, ax_updated = now\<rparr>"

definition ensure_access :: "string \<Rightarrow> nat \<Rightarrow> time \<Rightarrow> subs \<Rightarrow> subs" where
  "ensure_access user sid now s =
     (if find_access user sid s = None then s\<lparr>sa_rows := sa_rows s @ [new_access user sid now]\<rparr> else s)"

definition holds_fields :: "(string \<times> json) list \<Rightarrow> json \<Rightarrow> bool" where
  "holds_fields kvs client = list_all (\<lambda>(k, v). json_eq (jfield k client) v) kvs"

definition adopt_one :: "command \<Rightarrow> time \<Rightarrow> json \<Rightarrow> subs \<Rightarrow> access_credential \<Rightarrow> subs" where
  "adopt_one c now item s cr =
     (if \<not> holds_fields (cr_fields cr) (jfield ''client'' item) then s
      else upd_access (\<lambda>x. access_key x = (cr_user cr, cm_server c))
             (\<lambda>x. x\<lparr>ax_bindings := sort_key binding_key (adopt_binding item cr (ax_bindings x)),
                     ax_applied := (if terminal c then ax_applied x else None)\<rparr>)
             (ensure_access (cr_user cr) (cm_server c) now s))"

definition adopt_command :: "command \<Rightarrow> time \<Rightarrow> subs \<Rightarrow> subs" where
  "adopt_command c now s =
     foldl (\<lambda>s item. foldl (adopt_one c now item) s
              (filter (\<lambda>cr. cr_server cr = cm_server c \<and> cr_tag cr = Some (str_of (jfield ''tag'' item)) \<and>
                            cr_email cr = client_email (jfield ''client'' item)) (sa_credentials s)))
       s (command_clients (cm_payload c))"

definition backfill :: "time \<Rightarrow> subs \<Rightarrow> subs" where
  "backfill now s =
     foldl (\<lambda>s c. adopt_command c now s) s
       (sort_key cm_created (filter (\<lambda>c. pl_path (cm_payload c) = batch_path \<and> pl_method (cm_payload c) = POST)
          (cmds (sa_fleet s))))"

section \<open>Authorizing a provisioning\<close>

text \<open>
  \<open>authorize\<close>: what the provisioning of a user rendered for the nodes it reaches (\<open>pv_client\<close>) and
  the batch bodies it built per server become bindings under management.
\<close>

record provision =
  pv_node :: access_node
  pv_client :: json

definition batch_has :: "json \<Rightarrow> string \<Rightarrow> json \<Rightarrow> bool" where
  "batch_has body tag client =
     list_ex (\<lambda>item. json_eq (jfield ''tag'' item) (JStr tag) \<and> json_eq (jfield ''client'' item) client)
       (elements (jget_or (JArr []) ''inbound_clients'' body))"

definition body_for :: "nat \<Rightarrow> (nat \<times> json) list \<Rightarrow> json" where
  "body_for sid batches = (case last_of fst sid batches of Some e \<Rightarrow> snd e | None \<Rightarrow> JObj [])"

fun add_entry :: "binding \<Rightarrow> string \<Rightarrow> binding list \<Rightarrow> access_error + binding list" where
  "add_entry e n [] = Inr [e\<lparr>bd_nodes := [n]\<rparr>]"
| "add_entry e n (b # bs) =
     (if binding_key b \<noteq> binding_key e then map_sum id (\<lambda>r. b # r) (add_entry e n bs)
      else if \<not> json_eq (bd_client b) (bd_client e) \<or> bd_protocol b \<noteq> bd_protocol e
      then Inl (AccessConflict ''Managed credentials sharing an email disagree'')
      else Inr (b\<lparr>bd_nodes := bd_nodes b @ [n]\<rparr> # bs))"

fun additions ::
  "(nat \<times> json) list \<Rightarrow> provision list \<Rightarrow> (nat \<times> binding list) list \<Rightarrow>
   access_error + (nat \<times> binding list) list" where
  "additions batches [] acc = Inr acc"
| "additions batches (pv # pvs) acc =
     (let n = pv_node pv in
      if \<not> ln_enabled n \<or> ln_removal n \<noteq> None then additions batches pvs acc
      else if \<not> set_text (an_tag n) then
        Inl (AccessConflict ''Managed access requires an authenticated inbound tag'')
      else
        (case an_server n of
           None \<Rightarrow> additions batches pvs acc
         | Some sid \<Rightarrow>
             if \<not> batch_has (body_for sid batches) (the (an_tag n)) (pv_client pv) then
               Inl (AccessConflict ''Provisioning batch does not match the managed credential'')
             else
               (let e = \<lparr>bd_tag = the (an_tag n), bd_protocol = protocol_name (an_protocol n),
                         bd_client = pv_client pv, bd_nodes = []\<rparr>;
                    old = (case map_of acc sid of Some bs \<Rightarrow> bs | None \<Rightarrow> [])
                in case add_entry e (ln_id n) old of
                     Inl err \<Rightarrow> Inl err
                   | Inr bs \<Rightarrow> additions batches pvs (tbl_put fst (sid, bs) acc))))"

text \<open>Merging into a row: a tracked client or protocol may not change.\<close>

fun merge_bindings :: "binding list \<Rightarrow> binding list \<Rightarrow> access_error + binding list" where
  "merge_bindings [] bs = Inr bs"
| "merge_bindings (e # es) bs =
     (case tbl_get binding_key (binding_key e) bs of
        Some b \<Rightarrow>
          if \<not> json_eq (bd_client b) (bd_client e) \<or> bd_protocol b \<noteq> bd_protocol e
          then Inl (AccessConflict ''A tracked credential changed; review its runtime identity first'')
          else merge_bindings es
                 (tbl_put binding_key (e\<lparr>bd_nodes := sort (remdups (bd_nodes b @ bd_nodes e))\<rparr>) bs)
      | None \<Rightarrow> merge_bindings es (tbl_put binding_key e bs))"

fun authorize_rows ::
  "string \<Rightarrow> time \<Rightarrow> (nat \<times> binding list) list \<Rightarrow> subs \<Rightarrow> access_error + subs" where
  "authorize_rows user now [] s = Inr s"
| "authorize_rows user now ((sid, es) # rest) s =
     (let s1 = ensure_access user sid now s;
          bs = (case find_access user sid s1 of Some x \<Rightarrow> ax_bindings x | None \<Rightarrow> [])
      in case merge_bindings es bs of
           Inl e \<Rightarrow> Inl e
         | Inr merged \<Rightarrow>
             authorize_rows user now rest
               (upd_access (\<lambda>x. access_key x = (user, sid))
                  (\<lambda>x. x\<lparr>ax_bindings := sort_key binding_key merged, ax_retry := None, ax_updated := now\<rparr>) s1))"

definition authorize ::
  "string \<Rightarrow> provision list \<Rightarrow> (nat \<times> json) list \<Rightarrow> time \<Rightarrow> subs \<Rightarrow> access_error + subs" where
  "authorize user pvs batches now s =
     (case additions batches pvs [] of Inl e \<Rightarrow> Inl e | Inr acc \<Rightarrow> authorize_rows user now acc s)"

section \<open>Reconciliation\<close>

definition legacy_in_flight :: "nat \<Rightarrow> fleet \<Rightarrow> bool" where
  "legacy_in_flight sid f =
     list_ex (\<lambda>c. cm_server c = sid \<and> pl_path (cm_payload c) = batch_path \<and> cm_attempts c > 0 \<and>
       \<not> terminal c \<and> command_clients (cm_payload c) \<noteq> []) (cmds f)"

definition access_payload :: "json \<Rightarrow> int \<Rightarrow> payload" where
  "access_payload body timeout = \<lparr>pl_method = POST, pl_path = access_path, pl_query = [], pl_body = body,
     pl_timeout = timeout, pl_stream = False\<rparr>"

definition superseded :: string where
  "superseded = ''Superseded by current subscription access state''"

definition linked_row :: "bool \<Rightarrow> nat \<Rightarrow> time \<Rightarrow> access_row \<Rightarrow> access_row" where
  "linked_row force i now x = x\<lparr>ax_command := Some i, ax_updated := now,
     ax_applied := (if force then None else ax_applied x), ax_error := None, ax_retry := None\<rparr>"

text \<open>The end of a turn: confirmed already, waiting to retry, or a new command.\<close>

definition request_row ::
  "bool \<Rightarrow> int \<Rightarrow> time \<Rightarrow> access_row \<Rightarrow> json \<Rightarrow> command option \<Rightarrow> subs \<Rightarrow>
   access_error + (subs \<times> nat list)" where
  "request_row force timeout now x body previous s =
     (if ax_applied x = Some (str_of (jfield ''revision'' body)) \<and> \<not> force then Inr (s, [])
      else if (case ax_retry x of Some t \<Rightarrow> now < t | None \<Rightarrow> False) \<and> \<not> force \<and>
              (case previous of Some c \<Rightarrow> json_eq (pl_body (cm_payload c)) body | None \<Rightarrow> False)
      then Inr (s, [])
      else
        (case create_command_model (ax_server x) (access_payload body timeout) now None (sa_fleet s) of
           Inl e \<Rightarrow> Inl (QueueError e)
         | Inr (f, c) \<Rightarrow>
             Inr (upd_access (\<lambda>r. access_key r = access_key x) (linked_row force (cm_id c) now)
                    (s\<lparr>sa_fleet := f\<rparr>), [cm_id c])))"

definition reconcile_row ::
  "(json \<Rightarrow> string) \<Rightarrow> time \<Rightarrow> instant \<Rightarrow> bool \<Rightarrow> int \<Rightarrow> string \<times> nat \<Rightarrow> subs \<Rightarrow>
   access_error + (subs \<times> nat list)" where
  "reconcile_row digest now at' force timeout key s =
     (case tbl_get access_key key (sa_rows s) of
        None \<Rightarrow> Inr (s, [])
      | Some x \<Rightarrow>
        (case desired digest at' s x of
           Inl e \<Rightarrow> Inl e
         | Inr (body, _) \<Rightarrow>
             if legacy_in_flight (ax_server x) (sa_fleet s) then Inr (s, [])
             else
               (let previous = opt_cmd (ax_command x) (sa_fleet s)
                in case previous of
                     None \<Rightarrow> request_row force timeout now x body None s
                   | Some c \<Rightarrow>
                       if terminal c then request_row force timeout now x body previous s
                       else if cm_attempts c > 0 \<or> json_eq (pl_body (cm_payload c)) body
                       then Inr (s, [cm_id c])
                       else
                         (case skip_command (cm_id c) now superseded (sa_fleet s) of
                            Inl e \<Rightarrow> Inl (QueueError e)
                          | Inr f \<Rightarrow> request_row force timeout now x body previous (s\<lparr>sa_fleet := f\<rparr>)))))"

fun reconcile_rows ::
  "(json \<Rightarrow> string) \<Rightarrow> time \<Rightarrow> instant \<Rightarrow> bool \<Rightarrow> int \<Rightarrow> (string \<times> nat) list \<Rightarrow> subs \<Rightarrow>
   access_error + (subs \<times> nat list)" where
  "reconcile_rows digest now at' force timeout [] s = Inr (s, [])"
| "reconcile_rows digest now at' force timeout (k # ks) s =
     (case reconcile_row digest now at' force timeout k s of
        Inl e \<Rightarrow> Inl e
      | Inr (s1, ids) \<Rightarrow>
          map_sum id (\<lambda>(s2, more). (s2, ids @ more)) (reconcile_rows digest now at' force timeout ks s1))"

text \<open>The rows of one user, or of all, in order.\<close>

definition access_keys :: "string option \<Rightarrow> subs \<Rightarrow> (string \<times> nat) list" where
  "access_keys user s =
     sort (map access_key (filter (\<lambda>x. user = None \<or> user = Some (ax_user x)) (sa_rows s)))"

definition reconcile ::
  "(json \<Rightarrow> string) \<Rightarrow> time \<Rightarrow> instant \<Rightarrow> string option \<Rightarrow> bool \<Rightarrow> int \<Rightarrow> subs \<Rightarrow>
   access_error + (subs \<times> nat list)" where
  "reconcile digest now at' user force timeout s =
     reconcile_rows digest now at' force timeout (access_keys user s) s"

definition run_once ::
  "(json \<Rightarrow> string) \<Rightarrow> time \<Rightarrow> instant \<Rightarrow> string option \<Rightarrow> bool \<Rightarrow> subs \<Rightarrow>
   access_error + (subs \<times> nat list)" where
  "run_once digest now at' user force s =
     (case user of
        Some name \<Rightarrow>
          if tbl_get bu_name name (b_users (sa_billing s)) = None then Inl (UnknownUser name)
          else reconcile digest now at' user force 60000 s
      | None \<Rightarrow> reconcile digest now at' user force 60000 s)"

section \<open>The gate before a lease\<close>

datatype access_gate = Pass | Hold | Drop string bool

definition entry_key :: "json \<Rightarrow> string \<times> string" where
  "entry_key e = (str_of (jfield ''tag'' e), client_email (jfield ''client'' e))"

text \<open>The desired entries of every row of a server, in the order of the rows.\<close>

fun server_entries ::
  "(json \<Rightarrow> string) \<Rightarrow> instant \<Rightarrow> subs \<Rightarrow> access_row list \<Rightarrow> access_error + json list" where
  "server_entries digest at' s [] = Inr []"
| "server_entries digest at' s (x # xs) =
     (case desired digest at' s x of
        Inl e \<Rightarrow> Inl e
      | Inr (body, _) \<Rightarrow>
          map_sum id (\<lambda>es. elements (jfield ''entries'' body) @ es) (server_entries digest at' s xs))"

text \<open>\<open>(entry.get("limiter") or {}).get("user", {})\<close>, and the limits a batch asks for a client.\<close>

definition entry_limits :: "json \<Rightarrow> json" where
  "entry_limits e = (let l = jfield ''limiter'' e in if truthy l then jget_or (JObj []) ''user'' l else JObj [])"

definition requested_limits :: "payload \<Rightarrow> string \<times> string \<Rightarrow> json" where
  "requested_limits p key =
     (let items = filter (\<lambda>i. is_dict i \<and> is_dict (jfield ''user'' i))
            (elements (jget_or (JArr []) ''limiter_users'' (pl_body p)));
          key_of = (\<lambda>i. (jfield ''inbound_tag'' i, jfield ''email'' (jfield ''user'' i)))
      in case last_of key_of (JStr (fst key), JStr (snd key)) items of
           Some i \<Rightarrow> jfield ''user'' i | None \<Rightarrow> JObj [])"

definition outdated :: "json \<Rightarrow> json \<Rightarrow> bool" where
  "outdated expected actual =
     (list_ex (\<lambda>f. \<not> json_eq (jget_or (JInt 0) f actual) (jget_or (JInt 0) f expected))
        [''speed_limit'', ''device_limit''] \<or>
      \<not> json_eq (jget_or (JArr []) ''auto_speed_rules'' actual) (jget_or (JArr []) ''auto_speed_rules'' expected) \<or>
      (truthy (jfield ''device_limit'' expected) \<and>
       \<not> json_eq (jfield ''conn_group'' actual) (jfield ''conn_group'' expected)))"

text \<open>A batch of the old scheme may neither restore an unavailable client nor carry outdated limits.\<close>

definition batch_key :: "json \<Rightarrow> string \<times> string" where
  "batch_key item = (str_of (jfield ''tag'' item), client_email (jfield ''client'' item))"

definition legacy_gate :: "json list \<Rightarrow> command \<Rightarrow> access_gate" where
  "legacy_gate entries c =
     (let items = command_clients (cm_payload c) in
      if list_ex (\<lambda>i. list_ex (\<lambda>e. entry_key e = batch_key i \<and> \<not> truthy (jfield ''enabled'' e)) entries) items
      then Drop ''Not sent: legacy batch would restore unavailable subscription access'' False
      else if list_ex (\<lambda>i. case last_of entry_key (batch_key i) entries of
             None \<Rightarrow> False
           | Some e \<Rightarrow> outdated (entry_limits e) (requested_limits (cm_payload c) (batch_key i))) items
      then Drop ''Not sent: legacy batch has outdated subscriber limits'' False
      else Pass)"

text \<open>The checks of a subscription-access command against its Agent and its row.\<close>

definition endpoint_error :: "(json \<Rightarrow> string) \<Rightarrow> command \<Rightarrow> fleet \<Rightarrow> string option" where
  "endpoint_error digest c f =
     (case access_entries digest (pl_body (cm_payload c)) of
        None \<Rightarrow> Some ''Not sent: invalid subscription access payload''
      | Some es \<Rightarrow>
          if \<not> agent_can (cm_server c) ''subscription_access'' f
          then Some ''Not sent: upgrade the Agent for managed subscription access''
          else if list_ex (\<lambda>e. truthy (jfield ''limiter'' e)) es \<and> \<not> agent_can (cm_server c) ''native_limiter'' f
          then Some ''Not sent: managed plan limits require native limiter support''
          else if list_ex (\<lambda>e. truthy (jfield ''auto_speed_rules'' (entry_limits e))) es \<and>
               \<not> agent_can (cm_server c) ''user_auto_speed_rules'' f
          then Some ''Not sent: upgrade the Agent for per-user automatic speed rules''
          else None)"

definition row_of_command :: "nat \<Rightarrow> subs \<Rightarrow> access_row option" where
  "row_of_command i s = List.find (\<lambda>x. ax_command x = Some i) (sa_rows s)"

definition outdated_body :: "(json \<Rightarrow> string) \<Rightarrow> instant \<Rightarrow> command \<Rightarrow> subs \<Rightarrow> access_error + bool" where
  "outdated_body digest at' c s =
     (case row_of_command (cm_id c) s of
        None \<Rightarrow> Inr False
      | Some x \<Rightarrow>
          if cm_attempts c > 0 then Inr False
          else map_sum id (\<lambda>(body, _). \<not> json_eq body (pl_body (cm_payload c))) (desired digest at' s x))"

definition endpoint_gate ::
  "(json \<Rightarrow> string) \<Rightarrow> instant \<Rightarrow> command \<Rightarrow> subs \<Rightarrow> access_error + access_gate" where
  "endpoint_gate digest at' c s =
     (if cm_server c \<in> set (shared_servers (sa_fleet s)) then
        Inr (if access_entries digest (pl_body (cm_payload c)) = None
             then Drop ''Not sent: invalid subscription access payload'' True else Pass)
      else
        (case outdated_body digest at' c s of
           Inl e \<Rightarrow> Inl e
         | Inr changed \<Rightarrow>
           (case (if changed then Some ''Not sent: subscription access changed before dispatch''
                  else endpoint_error digest c (sa_fleet s)) of
              None \<Rightarrow> Inr Pass
            | Some err \<Rightarrow> Inr (if cm_attempts c = 0 then Drop err True else Hold))))"

text \<open>
  \<open>can_lease\<close>: \<open>node_ok\<close> is the answer of the node removals, \<open>retired\<close> that of the user removals. A
  first lease of a batch adopts its clients, whatever the answer then is.
\<close>

definition access_gate_of ::
  "(json \<Rightarrow> string) \<Rightarrow> time \<Rightarrow> instant \<Rightarrow> bool \<Rightarrow> bool \<Rightarrow> command \<Rightarrow> subs \<Rightarrow>
   access_error + (subs \<times> access_gate)" where
  "access_gate_of digest now at' node_ok retired c s =
     (if \<not> node_ok then Inr (s, Hold)
      else if cm_attempts c = 0 \<and> retired
      then Inr (s, Drop ''Not sent: user removal retired these credentials'' True)
      else if command_clients (cm_payload c) \<noteq> [] \<and> cm_attempts c = 0 then
        (let s1 = adopt_command c now s in
         case server_entries digest at' s1 (filter (\<lambda>x. ax_server x = cm_server c) (sa_rows s1)) of
           Inl e \<Rightarrow> Inl e
         | Inr entries \<Rightarrow> Inr (s1, legacy_gate entries c))
      else if pl_path (cm_payload c) \<noteq> access_path then Inr (s, Pass)
      else map_sum id (\<lambda>g. (s, g)) (endpoint_gate digest at' c s))"

section \<open>After a result\<close>

definition client_keys :: "access_row \<Rightarrow> (string \<times> string) list" where
  "client_keys x = map binding_key (ax_bindings x)"

definition affects_credentials :: "access_row \<Rightarrow> payload \<Rightarrow> bool" where
  "affects_credentials x p =
     (let path = pl_path p; body = pl_body p; action = jfield ''action'' body in
      if path = cleanup_path then
        action = JStr ''apply'' \<and> (truthy (jfield ''outbound_tags'' body) \<or>
          list_ex (\<lambda>(tag, _). json_in tag (jget_or (JArr []) ''inbound_tags'' body)) (client_keys x))
      else if path = batch_path then
        list_ex (\<lambda>item. batch_key item \<in> set (client_keys x)) (command_clients p)
      else if path = ''/api/child/routing'' \<or> path = ''/api/child/outbounds'' then False
      else if path = inbounds_path \<and> is_dict body then
        (if action = JStr ''add-client'' \<or> action = JStr ''remove-client'' then
           is_dict (jfield ''client'' body) \<and> is_str (jfield ''email'' (jfield ''client'' body)) \<and>
           is_str (jfield ''tag'' body) \<and> batch_key body \<in> set (client_keys x)
         else if action = JStr ''reorder'' \<or> action = JStr ''add-sniffing-exclude'' then False
         else
           (let tag = (if truthy (jfield ''tag'' body) then jfield ''tag'' body
                       else jfield ''tag'' (as_dict (jfield ''inbound'' body)))
            in list_ex (\<lambda>(t, _). JStr t = tag) (client_keys x)))
      else True)"

definition settled_access :: "command \<Rightarrow> time \<Rightarrow> access_row \<Rightarrow> access_row" where
  "settled_access c now x =
     x\<lparr>ax_applied := (if cm_status c = Succeeded
         then Some (str_of (jfield ''revision'' (pl_body (cm_payload c)))) else None),
       ax_error := cm_error c,
       ax_retry := (if cm_status c = Succeeded then None else Some (now + 60000)), ax_updated := now\<rparr>"

definition after_result :: "command \<Rightarrow> time \<Rightarrow> subs \<Rightarrow> subs" where
  "after_result c now s =
     (let s1 = (if cm_attempts c > 0 then adopt_command c now s else s)
      in if pl_path (cm_payload c) = access_path then
           upd_access (\<lambda>x. ax_command x = Some (cm_id c)) (settled_access c now) s1
         else if cm_attempts c > 0 \<and> should_refresh (cm_payload c) then
           upd_access (\<lambda>x. ax_server x = cm_server c \<and> affects_credentials x (cm_payload c))
             (\<lambda>x. x\<lparr>ax_applied := None, ax_retry := None\<rparr>) s1
         else s1)"

section \<open>Composition with the queue\<close>

text \<open>After a queue operation on a command: the rows hear of it once, when it has just ended.\<close>

definition notify :: "nat \<Rightarrow> time \<Rightarrow> subs \<Rightarrow> fleet \<Rightarrow> subs" where
  "notify i now s f =
     (let s1 = s\<lparr>sa_fleet := f\<rparr> in
      case (get_cmd i (sa_fleet s), get_cmd i f) of
        (Some c, Some c') \<Rightarrow> if \<not> terminal c \<and> terminal c' then after_result c' now s1 else s1
      | _ \<Rightarrow> s1)"

fun verdict_of :: "access_gate \<Rightarrow> verdict" where
  "verdict_of Pass = Allow"
| "verdict_of Hold = Withhold"
| "verdict_of (Drop err told) = Retire err"

definition claim_access ::
  "(json \<Rightarrow> string) \<Rightarrow> time \<Rightarrow> instant \<Rightarrow> bool \<Rightarrow> bool \<Rightarrow> nat \<Rightarrow> subs \<Rightarrow> access_error + (subs \<times> bool)" where
  "claim_access digest now at' node_ok retired i s =
     (case get_cmd i (sa_fleet s) of
        None \<Rightarrow> Inl (QueueError CommandNotFound)
      | Some c \<Rightarrow>
          if \<not> lease_candidate c now \<or> \<not> can_lease (sa_fleet s) c then Inr (s, False)
          else
            (case access_gate_of digest now at' node_ok retired c s of
               Inl e \<Rightarrow> Inl e
             | Inr (s1, g) \<Rightarrow>
               (case claim_lease (verdict_of g) now c (sa_fleet s1) of
                  Inl e \<Rightarrow> Inl (QueueError e)
                | Inr (f, ok) \<Rightarrow>
                    Inr (case g of Drop err False \<Rightarrow> s1\<lparr>sa_fleet := f\<rparr> | _ \<Rightarrow> notify i now s1 f, ok))))"

definition report_access ::
  "(json \<Rightarrow> string) \<Rightarrow> string \<Rightarrow> nat \<Rightarrow> result_report \<Rightarrow> time \<Rightarrow> subs \<Rightarrow> access_error + subs" where
  "report_access digest token i r now s =
     (case complete_command digest token i r now (sa_fleet s) of
        Inl e \<Rightarrow> Inl (QueueError e)
      | Inr (f, _) \<Rightarrow> Inr (notify i now s f))"

text \<open>\<open>read_in_session\<close>: the status of a row.\<close>

datatype access_status = Applied | AccessFailed | AccessPending

definition access_status_of ::
  "(json \<Rightarrow> string) \<Rightarrow> instant \<Rightarrow> subs \<Rightarrow> access_row \<Rightarrow> access_error + access_status" where
  "access_status_of digest at' s x =
     (case desired digest at' s x of
        Inl e \<Rightarrow> Inl e
      | Inr (body, _) \<Rightarrow>
          Inr (if ax_applied x = Some (str_of (jfield ''revision'' body)) then Applied
               else (case opt_cmd (ax_command x) (sa_fleet s) of
                       Some c \<Rightarrow> if cm_status c = Failed \<or> cm_status c = Skipped then AccessFailed else AccessPending
                     | None \<Rightarrow> AccessPending)))"

end
