(* ===== verification/Access_Properties.thy ===== *)
theory Access_Properties
  imports Subscription_Access Queue_Outcomes Billing_Properties
begin

text \<open>
  What subscription access guarantees: a reconciliation leaves every row it visits confirmed, in
  flight or waiting to retry; a command goes out for the first time only while it is what the server
  should enforce; a revision recorded as applied was confirmed by the Agent.
\<close>

section \<open>What a reconciliation does to the queue\<close>

text \<open>Rows that are not waiting are left alone by the release of dependents.\<close>

lemma advance_dependents_get:
  "tbl_get cm_id j cs = Some c \<Longrightarrow> cm_status c \<noteq> Waiting \<Longrightarrow>
   tbl_get cm_id j (advance_dependents ps now cs) = Some c"
proof (induction ps now cs rule: advance_dependents.induct)
  case (2 p ps now cs)
  have "tbl_get cm_id j (tbl_upd (waits_for p) (wake now) cs) = Some c"
    "tbl_get cm_id j (tbl_upd (waits_for p) (drop_dependent p now) cs) = Some c"
    using "2.prems" by (simp_all add: tbl_get_upd wake_def drop_dependent_def waits_for_def)
  then show ?case using 2 by (simp add: advance_dependents.simps)
qed (simp add: advance_dependents.simps)

lemma owner_cmds [simp]: "owner i (s\<lparr>cmds := cs\<rparr>) = owner i s"
  by (simp add: owner_def get_change_def split: option.split)

lemma skip_alone:
  assumes "owner i f = None" and "skip_command i now err f = Inr f'"
  shows "f' = advance_command_dependents i now (upd_cmd i (skip_row err now) f)"
  using assms
  by (simp add: skip_command_def advance_after_result_def advance_command_dependents_def upd_cmd_def)

text \<open>What stays of a batch in flight: a step may end it, never start one.\<close>

definition ebbs :: "command list \<Rightarrow> command list \<Rightarrow> bool" where
  "ebbs cs cs' \<longleftrightarrow> (\<forall>c' \<in> set cs'. pl_path (cm_payload c') = batch_path \<longrightarrow>
     (\<exists>c \<in> set cs. cm_server c = cm_server c' \<and> cm_payload c = cm_payload c' \<and> cm_attempts c = cm_attempts c' \<and>
        (terminal c \<longrightarrow> terminal c')))"

lemma ebbs_refl [simp]: "ebbs cs cs"
  by (auto simp: ebbs_def)

lemma ebbs_trans: "ebbs a b \<Longrightarrow> ebbs b c \<Longrightarrow> ebbs a c"
  unfolding ebbs_def by (metis (no_types, lifting))

lemma ebbs_upd:
  "(\<And>c. P c \<Longrightarrow> cm_server (f c) = cm_server c \<and> cm_payload (f c) = cm_payload c \<and>
      cm_attempts (f c) = cm_attempts c \<and> (terminal c \<longrightarrow> terminal (f c))) \<Longrightarrow> ebbs cs (tbl_upd P f cs)"
  unfolding ebbs_def ball_tbl_upd by (metis (mono_tags, lifting))

lemma advance_dependents_ebbs: "ebbs cs (advance_dependents ps now cs)"
proof (induction ps now cs rule: advance_dependents.induct)
  case (2 p ps now cs)
  have "ebbs cs (tbl_upd (waits_for p) (wake now) cs)" "ebbs cs (tbl_upd (waits_for p) (drop_dependent p now) cs)"
    by (rule ebbs_upd; simp add: wake_def drop_dependent_def waits_for_def terminal_def)+
  then show ?case using 2 by (auto simp: advance_dependents.simps intro: ebbs_trans)
qed (simp add: advance_dependents.simps)

lemma ebbs_legacy: "ebbs (cmds f) (cmds f') \<Longrightarrow> legacy_in_flight sid f' \<Longrightarrow> legacy_in_flight sid f"
  unfolding ebbs_def legacy_in_flight_def list_ex_iff by (metis (no_types, lifting))

text \<open>Queue steps of a reconciliation: other settled commands, agents, steps and locks stay.\<close>

definition spares :: "nat option \<Rightarrow> fleet \<Rightarrow> fleet \<Rightarrow> bool" where
  "spares i f f' \<longleftrightarrow> same_sets f f' \<and> ebbs (cmds f) (cmds f') \<and> fresh f \<le> fresh f' \<and>
     (\<forall>j c. get_cmd j f = Some c \<longrightarrow> cm_status c \<noteq> Waiting \<longrightarrow> i \<noteq> Some j \<longrightarrow> get_cmd j f' = Some c)"

lemma spares_refl [simp]: "spares i f f"
  by (simp add: spares_def)

lemma spares_trans: "spares i a b \<Longrightarrow> spares i b c \<Longrightarrow> spares i a c"
  unfolding spares_def using same_sets_trans ebbs_trans by fastforce

lemma skip_spares:
  assumes "owner i f = None" and "skip_command i now err f = Inr f'"
  shows "spares (Some i) f f'"
proof -
  let ?g = "upd_cmd i (skip_row err now) f"
  have f': "f' = advance_command_dependents i now ?g" using assms by (rule skip_alone)
  have "ebbs (cmds f) (cmds ?g)"
    unfolding upd_cmd_def by (simp, rule ebbs_upd) (simp add: skip_row_def terminal_def)
  then have "ebbs (cmds f) (cmds f')"
    unfolding f' advance_command_dependents_def by (auto intro: ebbs_trans advance_dependents_ebbs)
  moreover have "get_cmd j f' = Some c" if "get_cmd j f = Some c" "cm_status c \<noteq> Waiting" "j \<noteq> i" for j c
  proof -
    have "get_cmd j ?g = Some c"
      using that get_cmd_id [OF that(1)] by (simp add: get_cmd_def upd_cmd_def tbl_get_upd skip_row_def)
    then show ?thesis using that(2)
      by (simp add: f' advance_command_dependents_def get_cmd_def advance_dependents_get)
  qed
  ultimately show ?thesis
    by (auto simp: spares_def f' same_sets_def advance_command_dependents_def upd_cmd_def)
qed

lemma create_spares:
  assumes "create_command_model sid p now None f = Inr (f', c)" and "queue_ok f" and "pl_path p \<noteq> batch_path"
  shows "spares i f f' \<and> queue_ok f' \<and> get_cmd (cm_id c) f' = Some c \<and> cm_id c = fresh f \<and> fresh f' = Suc (fresh f) \<and>
    cm_status c = Pending \<and> cm_payload c = p \<and> cm_server c = sid \<and> cm_attempts c = 0"
proof -
  have new: "new_command sid p now None None f = (f', c)"
    using assms(1) by (simp add: create_command_model_def split: option.splits)
  have cr: "created sid f f' c"
    by (rule create_command_model_next [OF assms(1,2)]) (simp add: prior_def)
  have c: "cm_status c = Pending" "cm_payload c = p" "cm_attempts c = 0" and f': "f' = f\<lparr>cmds := cmds f @ [c], fresh := Suc (fresh f)\<rparr>"
    using new by (auto simp: new_command_def Let_def)
  have "ebbs (cmds f) (cmds f')" using assms(3) c(2) by (auto simp: ebbs_def f')
  moreover have "get_cmd j f' = Some d" if "get_cmd j f = Some d" for j d
    using that by (simp add: f' get_cmd_def tbl_get_append)
  ultimately show ?thesis using cr c by (auto simp: spares_def created_def)
qed

section \<open>Rows and their commands\<close>

text \<open>
  What the rows keep: one per user and server, each linked to a command of its own that belongs to no
  change set and waits for nothing.
\<close>

definition access_ok :: "subs \<Rightarrow> bool" where
  "access_ok s \<longleftrightarrow> queue_ok (sa_fleet s) \<and> tbl_keyed access_key (sa_rows s) \<and>
     (\<forall>st \<in> set (steps (sa_fleet s)). \<forall>i. links st i \<longrightarrow> i < fresh (sa_fleet s)) \<and>
     (\<forall>x \<in> set (sa_rows s). \<forall>i. ax_command x = Some i \<longrightarrow> owner i (sa_fleet s) = None \<and>
        (\<exists>c. get_cmd i (sa_fleet s) = Some c \<and> cm_status c \<noteq> Waiting)) \<and>
     (\<forall>x \<in> set (sa_rows s). \<forall>y \<in> set (sa_rows s). ax_command x = ax_command y \<longrightarrow> ax_command x \<noteq> None \<longrightarrow> x = y)"

definition revision_of :: "json \<Rightarrow> string" where
  "revision_of body = str_of (jfield ''revision'' body)"

text \<open>Confirmed, in flight with the right body (or sent already), or failed with the right body and waiting.\<close>

definition row_done :: "(json \<Rightarrow> string) \<Rightarrow> time \<Rightarrow> instant \<Rightarrow> subs \<Rightarrow> access_row \<Rightarrow> bool" where
  "row_done digest now at' s x \<longleftrightarrow>
     (case desired digest at' s x of
        Inl e \<Rightarrow> False
      | Inr (body, _) \<Rightarrow>
          ax_applied x = Some (revision_of body) \<or>
          (case opt_cmd (ax_command x) (sa_fleet s) of
             None \<Rightarrow> False
           | Some c \<Rightarrow>
               if terminal c
               then json_eq (pl_body (cm_payload c)) body \<and> (\<exists>t. ax_retry x = Some t \<and> now < t)
               else cm_attempts c > 0 \<or> json_eq (pl_body (cm_payload c)) body))"

text \<open>What \<open>desired\<close> reads besides the row.\<close>

definition same_world :: "subs \<Rightarrow> subs \<Rightarrow> bool" where
  "same_world s s' \<longleftrightarrow> sa_billing s' = sa_billing s \<and> sa_nodes s' = sa_nodes s \<and> sa_private s' = sa_private s \<and>
     sa_rules s' = sa_rules s \<and> agents (sa_fleet s') = agents (sa_fleet s)"

lemma same_world_refl [simp]: "same_world s s"
  by (simp add: same_world_def)

lemma same_world_trans: "same_world a b \<Longrightarrow> same_world b c \<Longrightarrow> same_world a c"
  by (simp add: same_world_def)

lemma desired_same:
  assumes w: "same_world s s'" and "ax_user x' = ax_user x" "ax_server x' = ax_server x" "ax_bindings x' = ax_bindings x"
  shows "desired digest at' s' x' = desired digest at' s x"
proof -
  have "usable_node u p sid b s' = usable_node u p sid b s" for u p sid b
    using w by (intro ext) (simp add: same_world_def usable_node_def node_allowed_def)
  then have nodes: "binding_nodes u p q sid b s' = binding_nodes u p q sid b s" for u p q sid b
    using w by (simp add: binding_nodes_def same_world_def split: option.split)
  have "entry_of digest u p q sid s' = entry_of digest u p q sid s" for u p q sid
  proof (intro ext)
    fix b
    have "plan_rules pl s' = plan_rules pl s" for pl
      using w by (simp add: plan_rules_def same_world_def)
    moreover have "agent_can sid cap (sa_fleet s') = agent_can sid cap (sa_fleet s)" for cap
      using w by (simp add: agent_can_def agent_of_def same_world_def)
    ultimately show "entry_of digest u p q sid s' b = entry_of digest u p q sid s b"
      by (cases p) (simp_all add: entry_of_def nodes)
  qed
  then show ?thesis
    using w assms(2-4) by (simp add: desired_def desired_entries_def nodes same_world_def split: option.split)
qed

text \<open>One turn of the reconciliation, for the row of \<open>key\<close>: everything the other rows rest on stays.\<close>

definition turn :: "string \<times> nat \<Rightarrow> subs \<Rightarrow> subs \<Rightarrow> bool" where
  "turn key s s' \<longleftrightarrow> access_ok s' \<and> same_world s s' \<and> ebbs (cmds (sa_fleet s)) (cmds (sa_fleet s')) \<and>
     map access_key (sa_rows s') = map access_key (sa_rows s) \<and>
     (\<forall>x. access_key x \<noteq> key \<longrightarrow> x \<in> set (sa_rows s') \<longleftrightarrow> x \<in> set (sa_rows s)) \<and>
     (\<forall>x \<in> set (sa_rows s). access_key x \<noteq> key \<longrightarrow>
        opt_cmd (ax_command x) (sa_fleet s') = opt_cmd (ax_command x) (sa_fleet s))"

lemma turn_refl: "access_ok s \<Longrightarrow> turn key s s"
  by (simp add: turn_def)

lemma turn_done:
  assumes "turn key s s'" and "x \<in> set (sa_rows s)" and "access_key x \<noteq> key"
  shows "x \<in> set (sa_rows s') \<and> (row_done digest now at' s' x = row_done digest now at' s x)"
proof -
  have "desired digest at' s' x = desired digest at' s x"
    using assms(1) by (intro desired_same) (auto simp: turn_def)
  moreover have "opt_cmd (ax_command x) (sa_fleet s') = opt_cmd (ax_command x) (sa_fleet s)"
    using assms by (simp add: turn_def)
  ultimately have "row_done digest now at' s' x = row_done digest now at' s x"
    unfolding row_done_def by (simp only:)
  moreover have "x \<in> set (sa_rows s')" using assms by (simp add: turn_def)
  ultimately show ?thesis by simp
qed

lemma access_okD:
  assumes "access_ok s" and "x \<in> set (sa_rows s)" and "ax_command x = Some i"
  shows "owner i (sa_fleet s) = None" and "\<exists>c. get_cmd i (sa_fleet s) = Some c \<and> cm_status c \<noteq> Waiting"
  using assms by (auto simp: access_ok_def)

lemma owner_steps: "steps f' = steps f \<Longrightarrow> changes f' = changes f \<Longrightarrow> owner i f' = owner i f"
  by (simp add: owner_def get_change_def split: option.split)

text \<open>The queue moves under the rows.\<close>

lemma fleet_turn:
  assumes ok: "access_ok s" and x: "x \<in> set (sa_rows s)" and sp: "spares (ax_command x) (sa_fleet s) f"
    and "queue_ok f" and self: "\<And>i. ax_command x = Some i \<Longrightarrow> \<exists>c. get_cmd i f = Some c \<and> cm_status c \<noteq> Waiting"
  shows "turn (access_key x) s (s\<lparr>sa_fleet := f\<rparr>)"
proof -
  have f: "steps f = steps (sa_fleet s)" "changes f = changes (sa_fleet s)" "agents f = agents (sa_fleet s)"
    using sp by (auto simp: spares_def same_sets_def)
  have keep: "get_cmd i f = Some c" if "y \<in> set (sa_rows s)" "ax_command y = Some i" "y \<noteq> x"
      "get_cmd i (sa_fleet s) = Some c" for y i c
  proof -
    have "ax_command x \<noteq> Some i" using ok x that by (auto simp: access_ok_def)
    moreover have "cm_status c \<noteq> Waiting" using access_okD(2) [OF ok that(1,2)] that(4) by auto
    ultimately show ?thesis using sp that(4) by (auto simp: spares_def)
  qed
  have "\<exists>c. get_cmd i f = Some c \<and> cm_status c \<noteq> Waiting" if y: "y \<in> set (sa_rows s)" "ax_command y = Some i" for y i
  proof (cases "y = x")
    case True
    then show ?thesis using self y by blast
  next
    case False
    then show ?thesis using access_okD(2) [OF ok y] keep [OF y False] by blast
  qed
  then have "access_ok (s\<lparr>sa_fleet := f\<rparr>)"
    using ok assms(4) sp f owner_steps [OF f(1,2)] by (fastforce simp: access_ok_def spares_def)
  moreover have "opt_cmd (ax_command y) f = opt_cmd (ax_command y) (sa_fleet s)"
    if y: "y \<in> set (sa_rows s)" "access_key y \<noteq> access_key x" for y
  proof (cases "ax_command y")
    case (Some i)
    then obtain c where "get_cmd i (sa_fleet s) = Some c" using access_okD(2) [OF ok y(1)] by blast
    then show ?thesis using keep [OF y(1) Some] y(2) by (auto simp: opt_cmd_def Some)
  qed (simp add: opt_cmd_def)
  ultimately show ?thesis using sp f by (auto simp: turn_def same_world_def spares_def)
qed

lemma access_unique: "access_ok s \<Longrightarrow> x \<in> set (sa_rows s) \<Longrightarrow> y \<in> set (sa_rows s) \<Longrightarrow> access_key x = access_key y \<Longrightarrow> x = y"
  unfolding access_ok_def tbl_keyed_def by (blast dest: distinct_map [THEN iffD1, THEN conjunct2, THEN inj_onD])

lemma turn_trans:
  assumes "turn key a b" and "turn key b c"
  shows "turn key a c"
proof -
  have "opt_cmd (ax_command x) (sa_fleet c) = opt_cmd (ax_command x) (sa_fleet a)"
    if "x \<in> set (sa_rows a)" "access_key x \<noteq> key" for x
    using assms that by (auto simp: turn_def)
  then show ?thesis using assms unfolding turn_def
    by (auto intro: same_world_trans ebbs_trans)
qed

text \<open>A row is linked to a command no other row has.\<close>

lemma in_upd: "y \<in> set (tbl_upd P f xs) \<longleftrightarrow> (\<exists>x \<in> set xs. y = (if P x then f x else x))"
  unfolding tbl_upd_def by auto

lemma linked_row_same [simp]: "ax_command (linked_row force i now x) = Some i" "ax_user (linked_row force i now x) = ax_user x"
  "ax_server (linked_row force i now x) = ax_server x"
  by (simp_all add: linked_row_def)

lemma link_row_turn:
  assumes ok: "access_ok s" and x: "x \<in> set (sa_rows s)" and c: "get_cmd i (sa_fleet s) = Some c" "cm_status c \<noteq> Waiting"
    and free: "owner i (sa_fleet s) = None" "\<And>y. y \<in> set (sa_rows s) \<Longrightarrow> ax_command y \<noteq> Some i"
    and s': "s' = upd_access (\<lambda>r. access_key r = access_key x) (linked_row force i now) s"
  shows "turn (access_key x) s s'" and "linked_row force i now x \<in> set (sa_rows s')" and "sa_fleet s' = sa_fleet s"
proof -
  have rows: "sa_rows s' = tbl_upd (\<lambda>r. access_key r = access_key x) (linked_row force i now) (sa_rows s)"
    and rest: "sa_fleet s' = sa_fleet s" "same_world s s'"
    by (simp_all add: s' upd_access_def same_world_def)
  have row: "y \<in> set (sa_rows s') \<longleftrightarrow> y = linked_row force i now x \<or> y \<in> set (sa_rows s) \<and> y \<noteq> x" for y
  proof -
    have "(\<exists>z \<in> set (sa_rows s). y = (if access_key z = access_key x then linked_row force i now z else z)) \<longleftrightarrow>
      y = linked_row force i now x \<or> y \<in> set (sa_rows s) \<and> y \<noteq> x"
    proof
      assume "\<exists>z \<in> set (sa_rows s). y = (if access_key z = access_key x then linked_row force i now z else z)"
      then obtain z where z: "z \<in> set (sa_rows s)" "y = (if access_key z = access_key x then linked_row force i now z else z)"
        by blast
      show "y = linked_row force i now x \<or> y \<in> set (sa_rows s) \<and> y \<noteq> x"
        using z access_unique [OF ok z(1) x] by (cases "access_key z = access_key x") auto
    next
      assume "y = linked_row force i now x \<or> y \<in> set (sa_rows s) \<and> y \<noteq> x"
      then show "\<exists>z \<in> set (sa_rows s). y = (if access_key z = access_key x then linked_row force i now z else z)"
        using x access_unique [OF ok _ x, of y] by (metis (no_types, lifting))
    qed
    then show ?thesis by (simp only: rows in_upd)
  qed
  have old: "y = x \<or> y \<in> set (sa_rows s) \<and> access_key y \<noteq> access_key x" if "y \<in> set (sa_rows s)" for y
    using that access_unique [OF ok that x] by blast
  have "map access_key (sa_rows s') = map access_key (sa_rows s)"
    unfolding rows by (rule map_tbl_upd) simp
  moreover from this have "tbl_keyed access_key (sa_rows s')"
    using ok by (simp add: access_ok_def tbl_keyed_def)
  moreover have "\<forall>y \<in> set (sa_rows s'). \<forall>j. ax_command y = Some j \<longrightarrow> owner j (sa_fleet s) = None \<and>
      (\<exists>d. get_cmd j (sa_fleet s) = Some d \<and> cm_status d \<noteq> Waiting)"
    using ok c free(1) by (auto simp: row access_ok_def)
  moreover have "\<forall>y \<in> set (sa_rows s'). \<forall>z \<in> set (sa_rows s').
      ax_command y = ax_command z \<longrightarrow> ax_command y \<noteq> None \<longrightarrow> y = z"
  proof (intro ballI impI)
    fix y z assume y: "y \<in> set (sa_rows s')" and z: "z \<in> set (sa_rows s')" and e: "ax_command y = ax_command z" "ax_command y \<noteq> None"
    have own: "y = z" if "y \<in> set (sa_rows s)" "z \<in> set (sa_rows s)" using ok e that unfolding access_ok_def by blast
    show "y = z"
    proof (cases "y = linked_row force i now x")
      case True
      then have "ax_command z = Some i" using e(1) by simp
      then have "z = linked_row force i now x" using z free(2) row by blast
      then show ?thesis using True by simp
    next
      case False
      then have "y \<in> set (sa_rows s)" using y row by blast
      moreover from this have "z \<noteq> linked_row force i now x" using e free(2) by auto
      ultimately show ?thesis using own z row by blast
    qed
  qed
  ultimately have "access_ok s'" using ok by (simp add: access_ok_def rest)
  then show "turn (access_key x) s s'"
    using rest \<open>map access_key (sa_rows s') = map access_key (sa_rows s)\<close> by (auto simp: turn_def row)
  show "linked_row force i now x \<in> set (sa_rows s')" by (simp add: row)
  show "sa_fleet s' = sa_fleet s" by (rule rest)
qed

text \<open>A new command for a row.\<close>

lemma owner_fresh: "access_ok s \<Longrightarrow> owner (fresh (sa_fleet s)) (sa_fleet s) = None"
proof -
  assume ok: "access_ok s"
  have "List.find (\<lambda>st. links st (fresh (sa_fleet s))) (steps (sa_fleet s)) = None"
    using ok by (auto simp: access_ok_def find_None_iff)
  then show ?thesis by (simp add: owner_def)
qed

lemma create_turn:
  assumes ok: "access_ok s" and x: "x \<in> set (sa_rows s)" and path: "pl_path p \<noteq> batch_path"
    and new: "create_command_model (ax_server x) p now None (sa_fleet s) = Inr (f, c)"
    and s': "s' = upd_access (\<lambda>r. access_key r = access_key x) (linked_row force (cm_id c) now) (s\<lparr>sa_fleet := f\<rparr>)"
  shows "turn (access_key x) s s' \<and> linked_row force (cm_id c) now x \<in> set (sa_rows s') \<and>
    get_cmd (cm_id c) (sa_fleet s') = Some c \<and> cm_payload c = p \<and> \<not> terminal c"
proof -
  have q: "queue_ok (sa_fleet s)" using ok by (simp add: access_ok_def)
  have f: "spares (ax_command x) (sa_fleet s) f" "queue_ok f" "get_cmd (cm_id c) f = Some c" "cm_id c = fresh (sa_fleet s)"
    "cm_status c = Pending" "cm_payload c = p"
    using create_spares [OF new q path, of "ax_command x"] by blast+
  have old: "get_cmd i f = Some d" if "get_cmd i (sa_fleet s) = Some d" "cm_status d \<noteq> Waiting" for i d
    using create_spares [OF new q path, of None] that by (simp add: spares_def)
  have known: "\<exists>d. get_cmd i f = Some d \<and> cm_status d \<noteq> Waiting" "i \<noteq> cm_id c"
    if y: "y \<in> set (sa_rows s)" "ax_command y = Some i" for y i
  proof -
    obtain d where d: "get_cmd i (sa_fleet s) = Some d" "cm_status d \<noteq> Waiting"
      using access_okD(2) [OF ok y] by blast
    then show "\<exists>d. get_cmd i f = Some d \<and> cm_status d \<noteq> Waiting" using old by blast
    have "d \<in> set (cmds (sa_fleet s))" "cm_id d = i"
      using d(1) by (auto simp: get_cmd_def dest: tbl_get_SomeD)
    then show "i \<noteq> cm_id c" using q by (auto simp: rows_ok_def row_ok_def f(4))
  qed
  have t: "turn (access_key x) s (s\<lparr>sa_fleet := f\<rparr>)"
    using ok x f(1,2) known(1) [OF x] by (rule fleet_turn)
  have "owner (cm_id c) f = None"
    using owner_fresh [OF ok] f(1) owner_steps [of f "sa_fleet s"] by (simp add: f(4) spares_def same_sets_def)
  moreover have "y \<in> set (sa_rows (s\<lparr>sa_fleet := f\<rparr>)) \<Longrightarrow> ax_command y \<noteq> Some (cm_id c)" for y
    using known(2) [of y "cm_id c"] by auto
  moreover have "access_ok (s\<lparr>sa_fleet := f\<rparr>)" using t by (simp add: turn_def)
  ultimately have "turn (access_key x) (s\<lparr>sa_fleet := f\<rparr>) s'" "linked_row force (cm_id c) now x \<in> set (sa_rows s')" "sa_fleet s' = f"
    using link_row_turn [OF _ _ _ _ _ _ s', of c] x f(3,5) by simp_all
  then show ?thesis using t f(3,5,6) turn_trans by (auto simp: terminal_def)
qed

section \<open>What a reconciliation settles\<close>

text \<open>A turn that leaves its row done.\<close>

definition settles :: "(json \<Rightarrow> string) \<Rightarrow> time \<Rightarrow> instant \<Rightarrow> string \<times> nat \<Rightarrow> subs \<Rightarrow> subs \<Rightarrow> bool" where
  "settles digest now at' key s s' \<longleftrightarrow> turn key s s' \<and> (\<exists>x \<in> set (sa_rows s'). access_key x = key \<and> row_done digest now at' s' x)"

lemma settlesI: "turn (access_key x) s s' \<Longrightarrow> x' \<in> set (sa_rows s') \<Longrightarrow> access_key x' = access_key x \<Longrightarrow>
   row_done digest now at' s' x' \<Longrightarrow> settles digest now at' (access_key x) s s'"
  by (auto simp: settles_def)

lemma request_row_settles:
  assumes run: "request_row force timeout now x body previous s = Inr (s', ids)" and ok: "access_ok s"
    and x: "x \<in> set (sa_rows s)" and d: "desired digest at' s x = Inr (body, rs)"
    and prev: "\<And>c. previous = Some c \<Longrightarrow> json_eq (pl_body (cm_payload c)) body \<Longrightarrow>
      opt_cmd (ax_command x) (sa_fleet s) = Some c \<and> terminal c"
  shows "settles digest now at' (access_key x) s s'"
proof -
  let ?waits = "(case ax_retry x of Some t \<Rightarrow> now < t | None \<Rightarrow> False) \<and> \<not> force \<and>
              (case previous of Some c \<Rightarrow> json_eq (pl_body (cm_payload c)) body | None \<Rightarrow> False)"
  consider (applied) "ax_applied x = Some (revision_of body) \<and> \<not> force" | (waits) "?waits"
    | (new) "\<not> (ax_applied x = Some (revision_of body) \<and> \<not> force)" "\<not> ?waits" by blast
  then show ?thesis
  proof cases
    case applied
    then have "s' = s" using run by (simp add: request_row_def revision_of_def)
    moreover have "row_done digest now at' s x" using d applied by (simp add: row_done_def)
    ultimately show ?thesis using x turn_refl [OF ok] by (auto intro: settlesI)
  next
    case waits
    then obtain c t where c: "previous = Some c" "json_eq (pl_body (cm_payload c)) body" "ax_retry x = Some t" "now < t"
      by (auto split: option.splits)
    have "s' = s" using run c waits by (simp add: request_row_def split: if_splits)
    moreover have "row_done digest now at' s x" using d prev [OF c(1,2)] c by (simp add: row_done_def)
    ultimately show ?thesis using x turn_refl [OF ok] by (auto intro: settlesI)
  next
    case new
    then have "(case create_command_model (ax_server x) (access_payload body timeout) now None (sa_fleet s) of
           Inl e \<Rightarrow> Inl (QueueError e)
         | Inr (f, c) \<Rightarrow>
             Inr (upd_access (\<lambda>r. access_key r = access_key x) (linked_row force (cm_id c) now)
                    (s\<lparr>sa_fleet := f\<rparr>), [cm_id c])) = Inr (s', ids)"
      using run unfolding request_row_def revision_of_def by (simp only: if_False)
    then obtain f c where "create_command_model (ax_server x) (access_payload body timeout) now None (sa_fleet s) = Inr (f, c)"
        "s' = upd_access (\<lambda>r. access_key r = access_key x) (linked_row force (cm_id c) now) (s\<lparr>sa_fleet := f\<rparr>)"
      by (auto split: sum.splits)
    note t0 = create_turn [OF ok x _ this]
    let ?x = "linked_row force (cm_id c) now x"
    have t: "turn (access_key x) s s'" "?x \<in> set (sa_rows s')" "get_cmd (cm_id c) (sa_fleet s') = Some c"
      "pl_body (cm_payload c) = body" "\<not> terminal c"
      using t0 by (simp_all add: access_payload_def access_path_def batch_path_def)
    have "desired digest at' s' ?x = Inr (body, rs)"
      using desired_same [of s s' ?x x digest at'] t(1) d by (simp add: turn_def linked_row_def)
    then have "row_done digest now at' s' ?x"
      using t(3-5) by (simp add: row_done_def opt_cmd_def)
    then show ?thesis using t(1,2) by (intro settlesI) simp_all
  qed
qed

text \<open>Superseding the command of a row.\<close>

lemma skip_turn:
  assumes ok: "access_ok s" and x: "x \<in> set (sa_rows s)" and p: "opt_cmd (ax_command x) (sa_fleet s) = Some c"
    and live: "\<not> terminal c" and skip: "skip_command (cm_id c) now err (sa_fleet s) = Inr f"
  shows "turn (access_key x) s (s\<lparr>sa_fleet := f\<rparr>)"
proof -
  obtain i where i: "ax_command x = Some i" "get_cmd i (sa_fleet s) = Some c"
    using p by (cases "ax_command x") (auto simp: opt_cmd_def)
  have id: "cm_id c = i" using i(2) by (rule get_cmd_id)
  have alone: "owner i (sa_fleet s) = None" using access_okD(1) [OF ok x i(1)] .
  have q: "queue_ok (sa_fleet s)" using ok by (simp add: access_ok_def)
  have f: "f = advance_command_dependents i now (upd_cmd i (skip_row err now) (sa_fleet s))"
    using skip_alone [OF alone] skip id by simp
  have "queue_next (sa_fleet s) f" unfolding f
    by (rule skip_and_drop [OF i(2) live]) (auto simp: skip_row_def evolve_def terminal_def)
  then have "queue_ok f" using q by (simp add: queue_next_def)
  moreover have "get_cmd i f = Some (skip_row err now c)"
  proof -
    have "get_cmd i (upd_cmd i (skip_row err now) (sa_fleet s)) = Some (skip_row err now c)"
      using i(2) by (simp add: get_cmd_def upd_cmd_def tbl_get_upd skip_row_def id)
    then show ?thesis
      by (simp add: f advance_command_dependents_def get_cmd_def advance_dependents_get skip_row_def)
  qed
  moreover have "spares (ax_command x) (sa_fleet s) f"
    using skip_spares [OF alone] skip by (simp add: i(1) id)
  ultimately show ?thesis using i(1) by (intro fleet_turn [OF ok x]) (auto simp: skip_row_def)
qed

lemma reconcile_row_settles:
  assumes run: "reconcile_row digest now at' force timeout key s = Inr (s', ids)" and ok: "access_ok s"
    and x: "tbl_get access_key key (sa_rows s) = Some x" and calm: "\<not> legacy_in_flight (ax_server x) (sa_fleet s)"
  shows "settles digest now at' key s s'"
proof -
  have in_x: "x \<in> set (sa_rows s)" and key: "key = access_key x" using tbl_get_SomeD [OF x] by auto
  obtain body rs where d: "desired digest at' s x = Inr (body, rs)"
    using run x by (auto simp: reconcile_row_def split: sum.splits)
  let ?p = "opt_cmd (ax_command x) (sa_fleet s)"
  consider (none) "?p = None" | (ended) c where "?p = Some c" "terminal c"
    | (wait) c where "?p = Some c" "\<not> terminal c" "cm_attempts c > 0 \<or> json_eq (pl_body (cm_payload c)) body"
    | (skip) c where "?p = Some c" "\<not> terminal c" "\<not> (cm_attempts c > 0 \<or> json_eq (pl_body (cm_payload c)) body)"
    by (cases ?p; blast)
  then show ?thesis
  proof cases
    case none
    then have "request_row force timeout now x body None s = Inr (s', ids)"
      using run x d calm by (simp add: reconcile_row_def)
    then show ?thesis unfolding key by (rule request_row_settles [OF _ ok in_x d]) simp
  next
    case (ended c)
    then have "request_row force timeout now x body (Some c) s = Inr (s', ids)"
      using run x d calm by (simp add: reconcile_row_def)
    then show ?thesis unfolding key using ended by (intro request_row_settles [OF _ ok in_x d]) auto
  next
    case (wait c)
    then have "s' = s" using run x d calm by (simp add: reconcile_row_def Let_def)
    moreover have "row_done digest now at' s x" using wait d by (simp add: row_done_def)
    ultimately show ?thesis unfolding key using in_x turn_refl [OF ok] by (auto intro: settlesI)
  next
    case (skip c)
    then obtain f where f: "skip_command (cm_id c) now superseded (sa_fleet s) = Inr f"
        "request_row force timeout now x body (Some c) (s\<lparr>sa_fleet := f\<rparr>) = Inr (s', ids)"
      using run x d calm by (auto simp: reconcile_row_def Let_def split: sum.splits)
    let ?s = "s\<lparr>sa_fleet := f\<rparr>"
    have t: "turn key s ?s" unfolding key by (rule skip_turn [OF ok in_x skip(1,2) f(1)])
    have "desired digest at' ?s x = Inr (body, rs)"
      using desired_same [of s ?s x x digest at'] t d by (simp add: turn_def)
    then have "settles digest now at' key ?s s'" unfolding key
      using f(2) t in_x skip(3) by (intro request_row_settles) (auto simp: turn_def)
    then show ?thesis using turn_trans [OF t] by (auto simp: settles_def)
  qed
qed

lemma reconcile_row_turn:
  assumes "reconcile_row digest now at' force timeout key s = Inr (s', ids)" and "access_ok s"
  shows "turn key s s'"
proof (cases "tbl_get access_key key (sa_rows s)")
  case None
  then show ?thesis using assms turn_refl by (simp add: reconcile_row_def)
next
  case (Some x)
  show ?thesis
  proof (cases "legacy_in_flight (ax_server x) (sa_fleet s)")
    case True
    then show ?thesis using assms Some turn_refl by (auto simp: reconcile_row_def split: sum.splits)
  next
    case False
    then show ?thesis using reconcile_row_settles [OF assms Some] by (simp add: settles_def)
  qed
qed

lemma turn_row:
  assumes "turn key s s'" and "access_key x \<noteq> key"
  shows "x \<in> set (sa_rows s') \<and> row_done digest now at' s' x \<longleftrightarrow> x \<in> set (sa_rows s) \<and> row_done digest now at' s x"
proof -
  have m: "x \<in> set (sa_rows s') \<longleftrightarrow> x \<in> set (sa_rows s)" using assms by (simp add: turn_def)
  show ?thesis
  proof (cases "x \<in> set (sa_rows s)")
    case True
    then show ?thesis using turn_done [OF assms(1) True assms(2), of digest now at'] by simp
  qed (simp add: m)
qed

definition row_settled :: "(json \<Rightarrow> string) \<Rightarrow> time \<Rightarrow> instant \<Rightarrow> subs \<Rightarrow> string \<times> nat \<Rightarrow> bool" where
  "row_settled digest now at' s key \<longleftrightarrow> (\<exists>x \<in> set (sa_rows s). access_key x = key \<and> row_done digest now at' s x)"

lemma turn_settled: "turn key s s' \<Longrightarrow> k \<noteq> key \<Longrightarrow> row_settled digest now at' s' k = row_settled digest now at' s k"
  unfolding row_settled_def using turn_row by blast

lemma reconcile_rows_settle:
  "reconcile_rows digest now at' force timeout ks s = Inr (s', ids) \<Longrightarrow> access_ok s \<Longrightarrow> distinct ks \<Longrightarrow>
   access_ok s' \<and> access_key ` set (sa_rows s') = access_key ` set (sa_rows s) \<and> (\<forall>k. k \<notin> set ks \<longrightarrow> row_settled digest now at' s' k = row_settled digest now at' s k) \<and>
   (\<forall>k \<in> set ks. k \<in> access_key ` set (sa_rows s) \<longrightarrow> \<not> legacy_in_flight (snd k) (sa_fleet s) \<longrightarrow>
      row_settled digest now at' s' k)"
proof (induction ks arbitrary: s ids)
  case (Cons key ks)
  obtain s1 ids1 ids2 where one: "reconcile_row digest now at' force timeout key s = Inr (s1, ids1)"
    and rest: "reconcile_rows digest now at' force timeout ks s1 = Inr (s', ids2)"
    using Cons.prems(1) by (auto simp: map_sum_eq_Inr split: sum.splits)
  note t = reconcile_row_turn [OF one Cons.prems(2)]
  have keys: "access_key ` set (sa_rows s1) = access_key ` set (sa_rows s)"
    using t unfolding turn_def by (metis list.set_map)
  have calm: "legacy_in_flight sid (sa_fleet s1) \<Longrightarrow> legacy_in_flight sid (sa_fleet s)" for sid
    using t ebbs_legacy by (auto simp: turn_def)
  have ih: "access_ok s'" "access_key ` set (sa_rows s') = access_key ` set (sa_rows s)"
    "\<And>k. k \<notin> set ks \<Longrightarrow> row_settled digest now at' s' k = row_settled digest now at' s1 k"
    "\<And>k. k \<in> set ks \<Longrightarrow> k \<in> access_key ` set (sa_rows s) \<Longrightarrow> \<not> legacy_in_flight (snd k) (sa_fleet s) \<Longrightarrow>
      row_settled digest now at' s' k"
    using Cons.IH [OF rest] t Cons.prems(3) calm by (auto simp: turn_def keys)
  have "row_settled digest now at' s1 key"
    if here: "key \<in> access_key ` set (sa_rows s)" "\<not> legacy_in_flight (snd key) (sa_fleet s)"
  proof -
    obtain x where x: "x \<in> set (sa_rows s)" "access_key x = key" using here(1) by (elim imageE) simp
    have "tbl_get access_key key (sa_rows s) = Some x"
      using x Cons.prems(2) tbl_get_keyed [of access_key "sa_rows s" x] by (simp add: access_ok_def)
    then show ?thesis using reconcile_row_settles [OF one Cons.prems(2)] here(2) x(2)
      by (auto simp: settles_def row_settled_def)
  qed
  note head = this
  have key: "key \<notin> set ks" using Cons.prems(3) by simp
  show ?case
  proof (intro conjI allI ballI impI)
    show "access_ok s'" "access_key ` set (sa_rows s') = access_key ` set (sa_rows s)" using ih(1,2) keys by simp_all
  next
    fix k assume "k \<notin> set (key # ks)"
    then show "row_settled digest now at' s' k = row_settled digest now at' s k"
      using ih(3) [of k] turn_settled [OF t, of k] by simp
  next
    fix k assume k: "k \<in> set (key # ks)" "k \<in> access_key ` set (sa_rows s)" "\<not> legacy_in_flight (snd k) (sa_fleet s)"
    show "row_settled digest now at' s' k"
    proof (cases "k = key")
      case True
      then show ?thesis using head k(2,3) ih(3) [of k] key by simp
    next
      case False
      then show ?thesis using ih(4) [of k] k by simp
    qed
  qed
qed simp

lemma access_keys_distinct: "access_ok s \<Longrightarrow> distinct (access_keys user s)"
  by (simp add: access_keys_def access_ok_def tbl_keyed_def distinct_map_filter)

lemma reconcile_done:
  assumes "reconcile digest now at' user force timeout s = Inr (s', ids)" and "access_ok s"
    and "x \<in> set (sa_rows s')" and "user = None \<or> user = Some (ax_user x)"
    and "\<not> legacy_in_flight (ax_server x) (sa_fleet s)"
  shows "row_done digest now at' s' x \<and> access_ok s'"
proof -
  have ok: "access_ok s'" and keys: "access_key ` set (sa_rows s') = access_key ` set (sa_rows s)"
    and settled: "\<And>k. k \<in> set (access_keys user s) \<Longrightarrow> k \<in> access_key ` set (sa_rows s) \<Longrightarrow>
      \<not> legacy_in_flight (snd k) (sa_fleet s) \<Longrightarrow> row_settled digest now at' s' k"
    using reconcile_rows_settle [OF assms(1)[unfolded reconcile_def] assms(2)] access_keys_distinct [OF assms(2)]
    by blast+
  obtain y where y: "y \<in> set (sa_rows s)" "access_key y = access_key x"
    using keys imageI [OF assms(3), of access_key] by (elim equalityE) (auto dest!: subsetD)
  have "y \<in> set (filter (\<lambda>x. user = None \<or> user = Some (ax_user x)) (sa_rows s))"
    using y assms(4) by auto
  then have "access_key y \<in> set (access_keys user s)"
    unfolding access_keys_def set_sort set_map by (rule imageI)
  then have "access_key x \<in> set (access_keys user s)" by (simp only: y(2))
  moreover have "access_key x \<in> access_key ` set (sa_rows s)"
    using imageI [OF y(1), of access_key] by (simp only: y(2))
  ultimately have "row_settled digest now at' s' (access_key x)"
    by (rule settled) (use assms(5) in simp)
  then obtain z where "z \<in> set (sa_rows s')" "access_key z = access_key x" "row_done digest now at' s' z"
    unfolding row_settled_def by blast
  then show ?thesis using access_unique [OF ok _ assms(3)] ok by blast
qed


text \<open>One subscriber with one binding on server 1, nothing provisioned yet.\<close>

definition sample_binding :: binding where
  "sample_binding = \<lparr>bd_tag = ''t'', bd_protocol = ''vless'', bd_client = JObj [(''email'', JStr ''m'')], bd_nodes = [''n'']\<rparr>"

definition sample_node :: access_node where
  "sample_node = \<lparr>ln_id = ''n'', ln_name = ''N'', ln_parent = None, ln_enabled = True, ln_removal = None,
     an_server = Some 1, an_protocol = ''vless'', an_tag = Some ''t'', an_marktag = None, an_outbound = None\<rparr>"

definition sample_subs :: subs where
  "sample_subs = \<lparr>sa_fleet = empty_fleet\<lparr>fresh := 5,
       agents := [\<lparr>ag_server = 1, ag_caps = [''subscription_access''], ag_seen = 0\<rparr>]\<rparr>,
     sa_billing = sample_billing,
     sa_rows = [\<lparr>ax_user = ''u'', ax_server = 1, ax_bindings = [sample_binding], ax_applied = None, ax_command = None,
       ax_error = None, ax_retry = None, ax_updated = 0\<rparr>],
     sa_nodes = [sample_node], sa_private = [], sa_rules = [], sa_credentials = []\<rparr>"

definition sample_turn :: "access_error + (subs \<times> nat list)" where
  "sample_turn = reconcile (\<lambda>j. ''r'') 5 ((2025, 2, 3), 0) None False 60000 sample_subs"

lemma sample_turn_run:
  "case sample_turn of Inr (s', ids) \<Rightarrow> ids = [5] \<and> sa_rows s' \<noteq> [] | Inl e \<Rightarrow> False"
  unfolding sample_turn_def by code_simp

lemma sample_subs_ok: "access_ok sample_subs \<and> \<not> legacy_in_flight sid (sa_fleet sample_subs)"
  by (simp add: access_ok_def sample_subs_def empty_fleet_def rows_ok_def tbl_keyed_def legacy_in_flight_def)


section \<open>What goes out\<close>

lemma access_body_fields [simp]:
  "jfield ''entries'' (access_body digest es) = JArr es" "jfield ''revision'' (access_body digest es) = JStr (digest (JArr es))"
  by (simp_all add: access_body_def jfield_def jget_or_def)

lemma entry_enabled: "jfield ''enabled'' (entry_of digest u p q sid s b) = JBool (binding_nodes u p q sid b s \<noteq> [])"
  by (simp add: entry_of_def Let_def jfield_def jget_or_def)

lemma enabled_available: "binding_nodes u p q sid b s \<noteq> [] \<Longrightarrow> qu_available q"
  by (simp add: binding_nodes_def split: option.splits if_splits)

lemma gate_current:
  assumes "access_gate_of digest now at' node_ok retired c s = Inr (s1, Pass)" and "pl_path (cm_payload c) = access_path"
    and "cm_attempts c = 0" and "cm_server c \<notin> set (shared_servers (sa_fleet s))" and "row_of_command (cm_id c) s = Some x"
  shows "\<exists>body rs. desired digest at' s x = Inr (body, rs) \<and> json_eq body (pl_body (cm_payload c))"
proof -
  have "command_clients (cm_payload c) = []"
    using assms(2) by (simp add: command_clients_def access_path_def batch_path_def)
  then have "endpoint_gate digest at' c s = Inr Pass"
    using assms(1,2,3) by (auto simp: access_gate_of_def map_sum_eq_Inr split: if_splits)
  then have "outdated_body digest at' c s = Inr False"
    using assms(3,4) by (auto simp: endpoint_gate_def split: sum.splits if_splits)
  then show ?thesis using assms(3,5) by (auto simp: outdated_body_def map_sum_eq_Inr)
qed

lemma claim_passes:
  assumes "claim_access digest now at' node_ok retired i s = Inr (s', True)" and "get_cmd i (sa_fleet s) = Some c"
  shows "\<exists>s1. access_gate_of digest now at' node_ok retired c s = Inr (s1, Pass)"
proof -
  obtain s1 g f ok where g: "access_gate_of digest now at' node_ok retired c s = Inr (s1, g)"
    and f: "claim_lease (verdict_of g) now c (sa_fleet s1) = Inr (f, ok)" and "ok"
    using assms by (auto simp: claim_access_def split: if_splits sum.splits)
  moreover have "g = Pass"
    using f \<open>ok\<close> by (cases g) (auto simp: claim_lease_def map_sum_eq_Inr split: if_splits)
  ultimately show ?thesis by blast
qed

lemma quota_available:
  "qu_available (quota_status u p at' s) \<Longrightarrow>
   bu_active u \<and> \<not> bu_removal u \<and> p \<noteq> None \<and> \<not> expired u at' \<and> \<not> qu_over (quota_status u p at' s)"
  by (simp add: quota_status_def Let_def split: prod.splits)


text \<open>The command of the turn above is claimed a second later.\<close>

lemma sample_claim_run:
  "case sample_turn of Inl e \<Rightarrow> False
   | Inr (s', ids) \<Rightarrow>
       (case claim_access (\<lambda>j. ''r'') 6 ((2025, 2, 3), 1) True False 5 s' of Inr (s2, ok) \<Rightarrow> ok | Inl e \<Rightarrow> False) \<and>
       get_cmd 5 (sa_fleet s') = Some (hd (cmds (sa_fleet s'))) \<and>
       pl_path (cm_payload (hd (cmds (sa_fleet s')))) = access_path \<and> cm_attempts (hd (cmds (sa_fleet s'))) = 0 \<and>
       shared_servers (sa_fleet s') = [] \<and> row_of_command 5 s' = Some (hd (sa_rows s'))"
  unfolding sample_turn_def by code_simp


end
