(* ===== verification/Access_Safety.thy ===== *)
theory Access_Safety
  imports Access_Properties Fleet_Safety
begin

text \<open>
  Every history of the access coordinator over the command queue: whatever is reconciled, claimed,
  reported, adopted, administered and queued, in any order, a revision a row holds as applied was
  confirmed by the Agent of its server.
\<close>

section \<open>The coordinator as a machine\<close>

text \<open>
  Reconciliation, claims, results (by id and the loss of a capability) and the rest of the queue;
  \<open>Administer\<close> is what the rest of the program does to users, plans, nodes, rules and credentials,
  \<open>Forget\<close> the deletion of a user or a server. A lease batch is a claim per candidate.
\<close>

datatype access_call =
    Reconcile time instant "string option" bool int
  | Claim time instant bool bool nat
  | Report string nat result_report time
  | Lost nat time
  | Authorize string "provision list" "(nat \<times> json) list" time
  | Backfill time
  | Fleet fcall
  | Administer billing "access_node list" "(string \<times> string \<times> bool) list" "(string \<times> json) list" "access_credential list"
  | Forget "(string \<times> nat) list"

text \<open>The calls of the queue after which no row is told anything.\<close>

fun silent :: "fcall \<Rightarrow> bool" where
  "silent (Lease token limit now vs) = False"
| "silent (Push i v now) = False"
| "silent (Complete token i r now) = False"
| "silent (CompleteByRequest token rid r now) = False"
| "silent (CapabilityLoss i now) = False"
| "silent call = True"

text \<open>A transaction: an error leaves the state.\<close>

definition committed :: "subs \<Rightarrow> access_error + 'a \<Rightarrow> ('a \<Rightarrow> subs) \<Rightarrow> subs" where
  "committed s r g = (case r of Inl e \<Rightarrow> s | Inr a \<Rightarrow> g a)"

fun access_step :: "(json \<Rightarrow> string) \<Rightarrow> subs \<Rightarrow> access_call \<Rightarrow> subs" where
  "access_step digest s (Reconcile now at' user force timeout) =
     committed s (reconcile digest now at' user force timeout s) fst"
| "access_step digest s (Claim now at' node_ok retired i) =
     committed s (claim_access digest now at' node_ok retired i s) fst"
| "access_step digest s (Report token i r now) = committed s (report_access digest token i r now s) id"
| "access_step digest s (Lost i now) =
     (case reconcile_capability_loss i now (sa_fleet s) of Inl e \<Rightarrow> s | Inr (f, _) \<Rightarrow> notify i now s f)"
| "access_step digest s (Authorize user pvs batches now) = committed s (authorize user pvs batches now s) id"
| "access_step digest s (Backfill now) = backfill now s"
| "access_step digest s (Fleet call) =
     (if silent call then s\<lparr>sa_fleet := fleet_step digest (sa_fleet s) call\<rparr> else s)"
| "access_step digest s (Administer b ns ps rs crs) =
     s\<lparr>sa_billing := b, sa_nodes := ns, sa_private := ps, sa_rules := rs, sa_credentials := crs\<rparr>"
| "access_step digest s (Forget ks) = s\<lparr>sa_rows := filter (\<lambda>x. access_key x \<notin> set ks) (sa_rows s)\<rparr>"

definition no_subs :: subs where
  "no_subs = \<lparr>sa_fleet = empty_fleet, sa_billing = \<lparr>b_users = [], b_plans = [], b_nodes = [], b_credentials = [],
     b_ledgers = [], b_archived = [], b_servers = [], b_telemetry = []\<rparr>, sa_rows = [], sa_nodes = [],
     sa_private = [], sa_rules = [], sa_credentials = []\<rparr>"

definition access_history :: "(json \<Rightarrow> string) \<Rightarrow> access_call list \<Rightarrow> subs" where
  "access_history digest calls = foldl (access_step digest) no_subs calls"

section \<open>What a row claims\<close>

text \<open>A successful command of the server carries the revision, and its stored result confirms it.\<close>

definition confirmed :: "(json \<Rightarrow> string) \<Rightarrow> fleet \<Rightarrow> nat \<Rightarrow> string \<Rightarrow> bool" where
  "confirmed digest f sid rn \<longleftrightarrow> (\<exists>i c. get_cmd i f = Some c \<and> cm_server c = sid \<and>
     pl_path (cm_payload c) = access_path \<and> revision_of (pl_body (cm_payload c)) = rn \<and> cm_status c = Succeeded \<and>
     access_confirmation digest c (as_dict (cm_result_body c)) = None)"

definition sent_to :: "fleet \<Rightarrow> nat \<Rightarrow> nat \<Rightarrow> bool" where
  "sent_to f sid i \<longleftrightarrow> (\<exists>c. get_cmd i f = Some c \<and> cm_server c = sid \<and> pl_path (cm_payload c) = access_path)"

definition row_sound :: "(json \<Rightarrow> string) \<Rightarrow> fleet \<Rightarrow> access_row \<Rightarrow> bool" where
  "row_sound digest f x \<longleftrightarrow> (\<forall>rn. ax_applied x = Some rn \<longrightarrow> confirmed digest f (ax_server x) rn) \<and>
     (\<forall>i. ax_command x = Some i \<longrightarrow> sent_to f (ax_server x) i)"

definition access_sound :: "(json \<Rightarrow> string) \<Rightarrow> subs \<Rightarrow> bool" where
  "access_sound digest s \<longleftrightarrow> fleet_ok (sa_fleet s) \<and> (\<forall>x \<in> set (sa_rows s). row_sound digest (sa_fleet s) x)"

lemma confirmed_mono: "rows_le (cmds f) (cmds f') \<Longrightarrow> confirmed digest f sid rn \<Longrightarrow> confirmed digest f' sid rn"
  unfolding confirmed_def by (fastforce dest: get_cmd_le simp: evolve_def terminal_def)

lemma sent_to_mono: "rows_le (cmds f) (cmds f') \<Longrightarrow> sent_to f sid i \<Longrightarrow> sent_to f' sid i"
  unfolding sent_to_def by (fastforce dest: get_cmd_le simp: evolve_def)

lemma row_sound_mono: "rows_le (cmds f) (cmds f') \<Longrightarrow> row_sound digest f x \<Longrightarrow> row_sound digest f' x"
  unfolding row_sound_def using confirmed_mono sent_to_mono by blast

lemma sound_fleet: "access_sound digest s \<Longrightarrow> next_ok (sa_fleet s) f \<Longrightarrow> access_sound digest (s\<lparr>sa_fleet := f\<rparr>)"
  unfolding access_sound_def next_ok_def using row_sound_mono by fastforce

text \<open>A row claims no more than a row it comes from, or nothing.\<close>

definition claims_less :: "access_row \<Rightarrow> access_row \<Rightarrow> bool" where
  "claims_less x x' \<longleftrightarrow> ax_server x' = ax_server x \<and> ax_command x' = ax_command x \<and>
     (ax_applied x' = None \<or> ax_applied x' = ax_applied x)"

definition rows_less :: "subs \<Rightarrow> subs \<Rightarrow> bool" where
  "rows_less s s' \<longleftrightarrow> sa_fleet s' = sa_fleet s \<and> (\<forall>x' \<in> set (sa_rows s').
     (ax_applied x' = None \<and> ax_command x' = None) \<or> (\<exists>x \<in> set (sa_rows s). claims_less x x'))"

lemma claims_less_refl [simp]: "claims_less x x"
  by (simp add: claims_less_def)

lemma rows_lessI:
  assumes "sa_fleet s' = sa_fleet s"
    and "\<And>y. y \<in> set (sa_rows s') \<Longrightarrow> y \<in> set (sa_rows s) \<or> (ax_applied y = None \<and> ax_command y = None) \<or>
      (\<exists>x \<in> set (sa_rows s). claims_less x y)"
  shows "rows_less s s'"
  unfolding rows_less_def using assms claims_less_refl by blast

lemma rows_less_refl [simp]: "rows_less s s"
  by (rule rows_lessI) auto

lemma rows_less_trans: "rows_less a b \<Longrightarrow> rows_less b c \<Longrightarrow> rows_less a c"
  unfolding rows_less_def claims_less_def by (smt (verit))

lemma sound_less: "rows_less s s' \<Longrightarrow> access_sound digest s \<Longrightarrow> access_sound digest s'"
  unfolding rows_less_def access_sound_def row_sound_def claims_less_def by (smt (verit) option.distinct(1))

lemma rows_less_upd: "(\<And>x. P x \<Longrightarrow> claims_less x (f x)) \<Longrightarrow> rows_less s (upd_access P f s)"
  by (rule rows_lessI) (auto simp: upd_access_def tbl_upd_def)

lemma ensure_less: "rows_less s (ensure_access user sid now s)"
  by (rule rows_lessI) (auto simp: ensure_access_def new_access_def split: if_splits)

lemma adopt_one_less: "rows_less s (adopt_one c now item s cr)"
  unfolding adopt_one_def
  by (auto simp: claims_less_def intro: rows_less_trans [OF ensure_less rows_less_upd])

lemma foldl_less: "(\<And>s x. rows_less s (g s x)) \<Longrightarrow> rows_less s (foldl g s xs)"
  by (induction xs arbitrary: s) (auto intro: rows_less_trans)

lemma adopt_less: "rows_less s (adopt_command c now s)"
  unfolding adopt_command_def by (intro foldl_less adopt_one_less)

lemma backfill_less: "rows_less s (backfill now s)"
  unfolding backfill_def by (intro foldl_less adopt_less)

lemma authorize_rows_less: "authorize_rows user now acc s = Inr s' \<Longrightarrow> rows_less s s'"
proof (induction acc arbitrary: s)
  case (Cons p acc)
  obtain sid es where p: "p = (sid, es)" by (cases p)
  let ?s1 = "ensure_access user sid now s"
  from Cons.prems obtain bs where
    "authorize_rows user now acc (upd_access (\<lambda>x. access_key x = (user, sid))
       (\<lambda>x. x\<lparr>ax_bindings := sort_key binding_key bs, ax_retry := None, ax_updated := now\<rparr>) ?s1) = Inr s'"
    by (auto simp: p Let_def split: sum.splits)
  note ih = Cons.IH [OF this]
  have "rows_less s (upd_access (\<lambda>x. access_key x = (user, sid))
       (\<lambda>x. x\<lparr>ax_bindings := sort_key binding_key bs, ax_retry := None, ax_updated := now\<rparr>) ?s1)"
    by (rule rows_less_trans [OF ensure_less rows_less_upd]) (simp add: claims_less_def)
  then show ?case using ih rows_less_trans by blast
qed simp

lemma authorize_less: "authorize user pvs batches now s = Inr s' \<Longrightarrow> rows_less s s'"
  by (auto simp: authorize_def dest: authorize_rows_less split: sum.splits)

section \<open>Every call keeps it\<close>

lemma upd_sound:
  assumes "access_sound digest s"
    and "\<And>x. x \<in> set (sa_rows s) \<Longrightarrow> P x \<Longrightarrow> row_sound digest (sa_fleet s) x \<Longrightarrow> row_sound digest (sa_fleet s) (f x)"
  shows "access_sound digest (upd_access P f s)"
  using assms by (auto simp: access_sound_def upd_access_def tbl_upd_def)

text \<open>A result reaches its row: success is recorded only with the Agent's confirmation.\<close>

lemma after_result_sound:
  assumes s: "access_sound digest s" and c: "get_cmd i (sa_fleet s) = Some c"
    and conf: "cm_status c = Succeeded \<Longrightarrow> access_confirmation digest c (as_dict (cm_result_body c)) = None"
  shows "access_sound digest (after_result c now s)"
proof -
  define s1 where "s1 = (if cm_attempts c > 0 then adopt_command c now s else s)"
  have less: "rows_less s s1" by (simp add: s1_def adopt_less)
  then have s1: "access_sound digest s1" and f: "sa_fleet s1 = sa_fleet s"
    using sound_less s by (auto simp: rows_less_def)
  have id: "cm_id c = i" using c by (rule get_cmd_id)
  have "access_sound digest (upd_access (\<lambda>x. ax_command x = Some (cm_id c)) (settled_access c now) s1)"
    if path: "pl_path (cm_payload c) = access_path"
  proof (rule upd_sound [OF s1])
    fix x assume x: "ax_command x = Some (cm_id c)" and ok: "row_sound digest (sa_fleet s1) x"
    then have sent: "sent_to (sa_fleet s) (ax_server x) i" by (auto simp: row_sound_def f id)
    then have "cm_server c = ax_server x" using c by (auto simp: sent_to_def)
    then have "cm_status c = Succeeded \<Longrightarrow>
        confirmed digest (sa_fleet s) (ax_server x) (revision_of (pl_body (cm_payload c)))"
      using conf path c unfolding confirmed_def by blast
    then show "row_sound digest (sa_fleet s1) (settled_access c now x)"
      using sent x by (auto simp: row_sound_def settled_access_def revision_of_def f id)
  qed
  moreover have "access_sound digest (upd_access P (\<lambda>x. x\<lparr>ax_applied := None, ax_retry := None\<rparr>) s1)" for P
    by (rule sound_less [OF rows_less_upd s1]) (simp add: claims_less_def)
  ultimately show ?thesis using s1 by (simp add: after_result_def s1_def [symmetric])
qed

lemma notify_sound:
  assumes s: "access_sound digest s" and f: "next_ok (sa_fleet s) f"
    and gain: "\<And>c c'. get_cmd i (sa_fleet s) = Some c \<Longrightarrow> \<not> terminal c \<Longrightarrow> get_cmd i f = Some c' \<Longrightarrow>
      cm_status c' = Succeeded \<Longrightarrow> access_confirmation digest c' (as_dict (cm_result_body c')) = None"
  shows "access_sound digest (notify i now s f)"
proof -
  have s1: "access_sound digest (s\<lparr>sa_fleet := f\<rparr>)" using s f by (rule sound_fleet)
  have "access_sound digest (after_result c' now (s\<lparr>sa_fleet := f\<rparr>))"
    if "get_cmd i (sa_fleet s) = Some c" "\<not> terminal c" "get_cmd i f = Some c'" for c c'
    using gain [OF that] that(3) by (intro after_result_sound [OF s1]) auto
  then show ?thesis using s1 by (simp add: notify_def Let_def split: option.split)
qed

lemma keyed_cmd: "queue_ok f \<Longrightarrow> c \<in> set (cmds f) \<Longrightarrow> get_cmd (cm_id c) f = Some c"
  by (simp add: get_cmd_def rows_ok_def tbl_get_keyed)

lemma no_gain_new:
  assumes "queue_ok f" and "get_cmd i f = Some c" and "\<not> terminal c" and "c0 \<in> set (cmds f)" and "no_gain c0 c'" and "cm_id c' = i"
  shows "cm_status c' \<noteq> Succeeded"
proof -
  have "cm_id c0 = i" using assms(5,6) by (simp add: no_gain_def same_origin_def)
  then have "c0 = c" using keyed_cmd [OF assms(1,4)] assms(2) by simp
  then show ?thesis using assms(3,5) by (auto simp: no_gain_def terminal_def)
qed

lemma calm_notify:
  assumes s: "access_sound digest s" and f: "next_ok (sa_fleet s) f" and calm: "calm (sa_fleet s) f"
  shows "access_sound digest (notify i now s f)"
proof (rule notify_sound [OF s f])
  fix c c' assume c: "get_cmd i (sa_fleet s) = Some c" "\<not> terminal c" and c': "get_cmd i f = Some c'" "cm_status c' = Succeeded"
  have "c' \<in> set (cmds f)" "cm_id c' = i" using c'(1) by (auto simp: get_cmd_def dest: tbl_get_SomeD)
  then obtain c0 where "c0 \<in> set (cmds (sa_fleet s))" "no_gain c0 c'"
    using calm c'(2) unfolding calm_rows_def by blast
  moreover have "queue_ok (sa_fleet s)" using s by (simp add: access_sound_def fleet_ok_def tables_ok_def)
  ultimately have False using no_gain_new [OF _ c] \<open>cm_id c' = i\<close> c'(2) by blast
  then show "access_confirmation digest c' (as_dict (cm_result_body c')) = None" ..
qed

lemma claim_sound:
  assumes run: "claim_access digest now at' node_ok retired i s = Inr (s', ok)" and s: "access_sound digest s"
  shows "access_sound digest s'"
proof (cases "s' = s")
  case False
  obtain c s1 g f where c: "get_cmd i (sa_fleet s) = Some c"
    and g: "access_gate_of digest now at' node_ok retired c s = Inr (s1, g)"
    and f: "claim_lease (verdict_of g) now c (sa_fleet s1) = Inr (f, ok)"
    and s': "s' = s1\<lparr>sa_fleet := f\<rparr> \<or> s' = notify i now s1 f"
    using run False
    by (auto simp: claim_access_def split: option.splits if_splits sum.splits access_gate.splits bool.splits)
  have less: "rows_less s s1"
    using g by (auto simp: access_gate_of_def map_sum_eq_Inr Let_def adopt_less split: if_splits sum.splits)
  then have s1: "access_sound digest s1" "sa_fleet s1 = sa_fleet s" using sound_less s by (auto simp: rows_less_def)
  have id: "cm_id c = i" using c by (rule get_cmd_id)
  have "next_ok (sa_fleet s1) f" using claim_lease_next [OF f] c id s1(2) by simp
  then show ?thesis using s' sound_fleet [OF s1(1)] calm_notify [OF s1(1) _ claim_lease_calm [OF f]] by blast
qed (simp add: s)

lemma report_sound:
  assumes run: "report_access digest token i r now s = Inr s'" and s: "access_sound digest s"
  shows "access_sound digest s'"
proof -
  obtain f d where f: "complete_command digest token i r now (sa_fleet s) = Inr (f, d)" and s': "s' = notify i now s f"
    using run by (auto simp: report_access_def split: sum.splits)
  have q: "queue_ok (sa_fleet s)" using s by (simp add: access_sound_def fleet_ok_def tables_ok_def)
  obtain sid c where c: "get_cmd i (sa_fleet s) = Some c" and a: "apply_result digest sid c r now (sa_fleet s) = Inr f"
    using f by (auto simp: complete_command_def map_sum_eq_Inr split: sum.splits option.splits if_splits)
  have "c \<in> set (cmds (sa_fleet s))" using c by (auto simp: get_cmd_def dest: tbl_get_SomeD)
  then have gains: "gains digest c r (sa_fleet s) f" using apply_result_gains [OF a _ q] by blast
  show ?thesis unfolding s'
  proof (rule notify_sound [OF s complete_command_next [OF f]])
    fix e c' assume e: "get_cmd i (sa_fleet s) = Some e" "\<not> terminal e" and c': "get_cmd i f = Some c'" "cm_status c' = Succeeded"
    have "c' \<in> set (cmds f)" "cm_id c' = i" using c'(1) by (auto simp: get_cmd_def dest: tbl_get_SomeD)
    then have "granted digest c r c'"
      using gains no_gain_new [OF q e] c'(2) unfolding gains_def by blast
    then show "access_confirmation digest c' (as_dict (cm_result_body c')) = None" by (simp add: granted_def)
  qed
qed

lemma lost_sound:
  assumes "reconcile_capability_loss i now (sa_fleet s) = Inr (f, d)" and s: "access_sound digest s"
  shows "access_sound digest (notify i now s f)"
  using calm_notify [OF s reconcile_capability_loss_next [OF assms(1)] reconcile_calm [OF assms(1)]] .

lemma request_sound:
  assumes run: "request_row force timeout now x body previous s = Inr (s', ids)" and s: "access_sound digest s"
  shows "access_sound digest s'"
proof (cases "s' = s")
  case False
  then obtain f c where new: "create_command_model (ax_server x) (access_payload body timeout) now None (sa_fleet s) = Inr (f, c)"
    and s': "s' = upd_access (\<lambda>r. access_key r = access_key x) (linked_row force (cm_id c) now) (s\<lparr>sa_fleet := f\<rparr>)"
    using run by (auto simp: request_row_def split: if_splits sum.splits)
  have q: "queue_ok (sa_fleet s)" using s by (simp add: access_sound_def fleet_ok_def tables_ok_def)
  have created: "created (ax_server x) (sa_fleet s) f c"
    by (rule create_command_model_next [OF new q]) (simp add: prior_def)
  have "cm_payload c = access_payload body timeout"
    using create_spares [OF new q] by (simp add: access_payload_def access_path_def batch_path_def)
  then have sent: "sent_to f (ax_server x) (cm_id c)"
    unfolding sent_to_def access_payload_def using created unfolding created_def by (metis payload.select_convs(2))
  have "access_sound digest (s\<lparr>sa_fleet := f\<rparr>)"
    using sound_fleet [OF s] created_advances [OF created] advances_next by blast
  then show ?thesis unfolding s'
  proof (rule upd_sound)
    fix r assume "access_key r = access_key x" "row_sound digest (sa_fleet (s\<lparr>sa_fleet := f\<rparr>)) r"
    then show "row_sound digest (sa_fleet (s\<lparr>sa_fleet := f\<rparr>)) (linked_row force (cm_id c) now r)"
      using sent by (auto simp: row_sound_def linked_row_def)
  qed
qed (simp add: s)

lemma reconcile_row_sound:
  assumes run: "reconcile_row digest' now at' force timeout key s = Inr (s', ids)" and s: "access_sound digest s"
  shows "access_sound digest s'"
proof (cases "s' = s")
  case False
  then obtain x body where x: "tbl_get access_key key (sa_rows s) = Some x" "\<not> legacy_in_flight (ax_server x) (sa_fleet s)"
    and d: "\<exists>rs. desired digest' at' s x = Inr (body, rs)"
    using run by (auto simp: reconcile_row_def split: option.splits sum.splits if_splits)
  have "(\<exists>previous. request_row force timeout now x body previous s = Inr (s', ids)) \<or>
      (\<exists>previous c f. opt_cmd (ax_command x) (sa_fleet s) = Some c \<and> \<not> terminal c \<and>
         skip_command (cm_id c) now superseded (sa_fleet s) = Inr f \<and>
         request_row force timeout now x body previous (s\<lparr>sa_fleet := f\<rparr>) = Inr (s', ids))"
  proof (cases "opt_cmd (ax_command x) (sa_fleet s)")
    case None
    then show ?thesis using run x d by (auto simp: reconcile_row_def)
  next
    case (Some c)
    show ?thesis
    proof (cases "terminal c")
      case True
      then have "request_row force timeout now x body (Some c) s = Inr (s', ids)"
        using run x d Some by (auto simp: reconcile_row_def)
      then show ?thesis by blast
    next
      case live: False
      then obtain f where "skip_command (cm_id c) now superseded (sa_fleet s) = Inr f"
         "request_row force timeout now x body (Some c) (s\<lparr>sa_fleet := f\<rparr>) = Inr (s', ids)"
        using run x d Some False by (auto simp: reconcile_row_def Let_def split: if_splits sum.splits)
      then show ?thesis using Some live by blast
    qed
  qed
  then show ?thesis
  proof (elim disjE exE conjE)
    fix previous assume "request_row force timeout now x body previous s = Inr (s', ids)"
    then show ?thesis using s by (rule request_sound)
  next
    fix previous c f assume c: "opt_cmd (ax_command x) (sa_fleet s) = Some c" "\<not> terminal c"
      and f: "skip_command (cm_id c) now superseded (sa_fleet s) = Inr f"
      and rest: "request_row force timeout now x body previous (s\<lparr>sa_fleet := f\<rparr>) = Inr (s', ids)"
    have "next_ok (sa_fleet s) f"
      using f [unfolded skip_command_def] by (intro skip_chain_next [OF opt_cmd_get [OF c(1)] c(2), where f = "skip_row superseded now"])
        (auto simp: skip_row_def evolve_def terminal_def)
    then show ?thesis using request_sound [OF rest] sound_fleet [OF s] by blast
  qed
qed (simp add: s)

lemma reconcile_rows_sound:
  "reconcile_rows digest' now at' force timeout ks s = Inr (s', ids) \<Longrightarrow> access_sound digest s \<Longrightarrow> access_sound digest s'"
proof (induction ks arbitrary: s ids)
  case (Cons key ks)
  obtain s1 ids1 ids2 where "reconcile_row digest' now at' force timeout key s = Inr (s1, ids1)"
    "reconcile_rows digest' now at' force timeout ks s1 = Inr (s', ids2)"
    using Cons.prems(1) by (auto simp: map_sum_eq_Inr split: sum.splits)
  then show ?case using Cons.IH reconcile_row_sound Cons.prems(2) by blast
qed simp

lemma committed_sound:
  "access_sound digest s \<Longrightarrow> (\<And>a. r = Inr a \<Longrightarrow> access_sound digest (g a)) \<Longrightarrow> access_sound digest (committed s r g)"
  by (simp add: committed_def split: sum.split)

lemma access_step_sound:
  assumes s: "access_sound digest s"
  shows "access_sound digest (access_step digest s call)"
proof (cases call)
  case (Reconcile now at' user force timeout)
  show ?thesis unfolding Reconcile access_step.simps
    by (rule committed_sound [OF s]) (auto simp: reconcile_def intro: reconcile_rows_sound [OF _ s])
next
  case (Claim now at' node_ok retired i)
  show ?thesis unfolding Claim access_step.simps
    by (rule committed_sound [OF s]) (auto intro: claim_sound [OF _ s])
next
  case (Report token i r now)
  show ?thesis unfolding Report access_step.simps
    by (rule committed_sound [OF s]) (auto intro: report_sound [OF _ s])
next
  case (Lost i now)
  then show ?thesis using lost_sound [OF _ s] s by (auto split: sum.split)
next
  case (Authorize user pvs batches now)
  show ?thesis unfolding Authorize access_step.simps
    by (rule committed_sound [OF s]) (auto intro: sound_less [OF authorize_less s])
next
  case (Backfill now)
  then show ?thesis using sound_less [OF backfill_less s] by simp
next
  case (Fleet c)
  then show ?thesis using sound_fleet [OF s fleet_step_next] s by simp
qed (use s in \<open>auto simp: access_sound_def\<close>)

lemma access_history_sound: "access_sound digest (access_history digest calls)"
proof -
  have "access_sound digest s \<Longrightarrow> access_sound digest (foldl (access_step digest) s calls)" for s
    by (induction calls arbitrary: s) (simp_all add: access_step_sound)
  moreover have "access_sound digest no_subs"
    by (simp add: access_sound_def no_subs_def empty_fleet_ok)
  ultimately show ?thesis by (simp add: access_history_def)
qed


text \<open>One subscriber provisioned on one server, from the registration to the result.\<close>

definition access_calls :: "access_call list" where
  "access_calls =
    [Fleet (AddServer (sample_server 1 ''k'')),
     Fleet (Register \<lparr>ag_server = 1, ag_caps = [''subscription_access''], ag_seen = 0\<rparr>),
     Administer sample_billing [sample_node] [] [] [],
     Authorize ''u'' [\<lparr>pv_node = sample_node, pv_client = bd_client sample_binding\<rparr>]
       [(1, JObj [(''inbound_clients'', JArr [JObj [(''tag'', JStr ''t''), (''client'', bd_client sample_binding)]])])] 1,
     Reconcile 5 ((2025, 2, 3), 0) None False 60000, Claim 6 ((2025, 2, 3), 1) True False 0,
     Report ''k'' 0 \<lparr>rp_status = 200, rp_body = JObj [(''access'', JObj [(''applied'', JBool True),
       (''revision'', JStr ''r''), (''enabled'', JInt 1), (''disabled'', JInt 0)])], rp_error = None\<rparr> 7]"

lemma access_calls_run:
  "case sa_rows (access_history (\<lambda>j. ''r'') access_calls) of [x] \<Rightarrow> ax_applied x = Some ''r'' \<and> ax_server x = 1 | _ \<Rightarrow> False"
  unfolding access_history_def by code_simp


end
