(* ===== verification/Renewals.thy ===== *)
theory Renewals
  imports Subscription_Access
begin

text \<open>
  Renewals under review: \<open>backend/app/open_node/services/renewals.py\<close> and
  \<open>domain/renewals.py\<close>. A subscriber asks for another cycle of the current plan; an administrator
  approves it against a passphrase the subscriber chose, which extends the expiry and reconciles the
  access rows in the same transaction. Password hashing is a parameter; what the provisioning renders
  for the user is an input of the review, as it is of \<open>authorize\<close>.
\<close>

datatype renewal_status = Pending_Review | Approved | Rejected | Withdrawn

datatype renewal_error =
    RenewalNotFound | RenewalUnavailable | RenewalPending | RenewalConflict | WrongPassphrase
  | AccessUnsafe | RenewalRateLimited | RenewalInvalid | RenewalFailure access_error

record renewal =
  rq_id :: string
  rq_user :: string
  rq_pending :: "string option"
  rq_plan :: string
  rq_plan_name :: string
  rq_previous_end :: "instant option"
  rq_days :: int
  rq_passphrase :: "string option"
  rq_status :: renewal_status
  rq_created :: instant
  rq_reviewed_at :: "instant option"
  rq_reviewed_by :: "string option"
  rq_new_end :: "instant option"

text \<open>\<open>rd_cycle\<close>: the \<open>cycle_days\<close> of the plans.\<close>

record renewals =
  rd_subs :: subs
  rd_cycle :: "(string \<times> int) list"
  rd_rows :: "renewal list"

section \<open>Input\<close>

definition renewal_passphrase :: "string \<Rightarrow> renewal_error + string" where
  "renewal_passphrase value =
     (let text = py_strip value in
      if length text < 1 \<or> length text > 256 \<or> list_ex (\<lambda>c. of_char c < (32::nat) \<or> of_char c = (127::nat)) text
      then Inl RenewalInvalid else Inr text)"

datatype decision = Approve string | Reject

definition renewal_decision :: "bool \<Rightarrow> bool \<Rightarrow> string option \<Rightarrow> renewal_error + decision" where
  "renewal_decision approve confirmed passphrase =
     (if \<not> confirmed then Inl RenewalInvalid
      else if approve then
        (case passphrase of None \<Rightarrow> Inl RenewalInvalid | Some p \<Rightarrow> map_sum id Approve (renewal_passphrase p))
      else (case passphrase of None \<Rightarrow> Inr Reject | Some p \<Rightarrow> Inl RenewalInvalid))"

section \<open>Reading\<close>

definition get_renewal :: "string \<Rightarrow> string option \<Rightarrow> renewals \<Rightarrow> renewal_error + renewal" where
  "get_renewal i user s =
     (case tbl_get rq_id i (rd_rows s) of
        None \<Rightarrow> Inl RenewalNotFound
      | Some r \<Rightarrow> if user = None \<or> user = Some (rq_user r) then Inr r else Inl RenewalNotFound)"

definition cycle_of :: "bill_plan \<Rightarrow> renewals \<Rightarrow> int" where
  "cycle_of p s = (case map_of (rd_cycle s) (bp_id p) of Some d \<Rightarrow> d | None \<Rightarrow> 0)"

text \<open>\<open>_user_plan\<close>: the user, the plan when there is one, and whether it may be renewed.\<close>

definition user_plan :: "string \<Rightarrow> renewals \<Rightarrow> renewal_error + (bill_user \<times> bill_plan option \<times> bool)" where
  "user_plan name s =
     (case tbl_get bu_name name (b_users (sa_billing (rd_subs s))) of
        None \<Rightarrow> Inl RenewalNotFound
      | Some u \<Rightarrow>
          (let p = plan_of u (sa_billing (rd_subs s))
           in Inr (u, p, bu_active u \<and> \<not> bu_removal u \<and> (case p of Some pl \<Rightarrow> cycle_of pl s > 0 | None \<Rightarrow> False))))"

definition pending_of :: "string \<Rightarrow> renewals \<Rightarrow> renewal option" where
  "pending_of name s = List.find (\<lambda>r. rq_pending r = Some name) (rd_rows s)"

text \<open>\<open>_page\<close>: newest first.\<close>

definition renewal_page ::
  "string option \<Rightarrow> renewal_status option \<Rightarrow> nat \<Rightarrow> nat \<Rightarrow> renewals \<Rightarrow> renewal list \<times> nat" where
  "renewal_page user status limit offset s =
     (let rows = filter (\<lambda>r. (user = None \<or> user = Some (rq_user r)) \<and> (status = None \<or> status = Some (rq_status r)))
            (rd_rows s)
      in (take limit (drop offset (rev (sort_key (\<lambda>r. (rq_created r, rq_id r)) rows))), length rows))"

text \<open>\<open>account\<close>: whether the subscriber may ask, and why not.\<close>

definition renewal_account :: "string \<Rightarrow> renewals \<Rightarrow> renewal_error + (bool \<times> renewal_error option)" where
  "renewal_account name s =
     (case user_plan name s of
        Inl e \<Rightarrow> Inl e
      | Inr (u, p, eligible) \<Rightarrow>
          (let pending = pending_of name s \<noteq> None
           in Inr (eligible \<and> \<not> pending,
                   if \<not> eligible then Some RenewalUnavailable else if pending then Some RenewalPending else None)))"

section \<open>Submitting and cancelling\<close>

definition day_before :: "instant \<Rightarrow> instant" where
  "day_before i = (prev_day (fst i), snd i)"

definition recent_count :: "string \<Rightarrow> instant \<Rightarrow> renewals \<Rightarrow> nat" where
  "recent_count name now s = length (filter (\<lambda>r. rq_user r = name \<and> day_before now \<le> rq_created r) (rd_rows s))"

text \<open>\<open>hash\<close> is the password hash, salted by the caller.\<close>

definition submit_renewal ::
  "(string \<Rightarrow> string) \<Rightarrow> string \<Rightarrow> string \<Rightarrow> string \<Rightarrow> instant \<Rightarrow> renewals \<Rightarrow> renewal_error + (renewals \<times> renewal)" where
  "submit_renewal hash name i passphrase now s =
     (case user_plan name s of
        Inl e \<Rightarrow> Inl e
      | Inr (u, p, eligible) \<Rightarrow>
        (case tbl_get rq_id i (rd_rows s) of
           Some r \<Rightarrow> if rq_user r \<noteq> name then Inl RenewalNotFound else Inr (s, r)
         | None \<Rightarrow>
             if \<not> eligible then Inl RenewalUnavailable
             else if pending_of name s \<noteq> None then Inl RenewalPending
             else if recent_count name now s \<ge> 20 then Inl RenewalRateLimited
             else
               (case p of
                  None \<Rightarrow> Inl RenewalUnavailable
                | Some pl \<Rightarrow>
                    (let r = \<lparr>rq_id = i, rq_user = name, rq_pending = Some name, rq_plan = bp_id pl,
                              rq_plan_name = bp_name pl, rq_previous_end = bu_expires u, rq_days = cycle_of pl s,
                              rq_passphrase = Some (hash (''renewal:'' @ passphrase)), rq_status = Pending_Review,
                              rq_created = now, rq_reviewed_at = None, rq_reviewed_by = None, rq_new_end = None\<rparr>
                     in Inr (s\<lparr>rd_rows := rd_rows s @ [r]\<rparr>, r)))))"

text \<open>\<open>_finish\<close>.\<close>

definition finish_renewal :: "renewal_status \<Rightarrow> instant \<Rightarrow> string option \<Rightarrow> renewal \<Rightarrow> renewal" where
  "finish_renewal st now reviewer r =
     r\<lparr>rq_status := st, rq_reviewed_at := Some now, rq_reviewed_by := reviewer, rq_pending := None, rq_passphrase := None\<rparr>"

definition upd_renewal :: "string \<Rightarrow> (renewal \<Rightarrow> renewal) \<Rightarrow> renewals \<Rightarrow> renewals" where
  "upd_renewal i f s = s\<lparr>rd_rows := tbl_upd (\<lambda>r. rq_id r = i) f (rd_rows s)\<rparr>"

definition cancel_renewal :: "string \<Rightarrow> string \<Rightarrow> instant \<Rightarrow> renewals \<Rightarrow> renewal_error + renewals" where
  "cancel_renewal i name now s =
     (case get_renewal i (Some name) s of
        Inl e \<Rightarrow> Inl e
      | Inr r \<Rightarrow>
          if rq_status r = Withdrawn then Inr s
          else if rq_status r \<noteq> Pending_Review then Inl RenewalConflict
          else Inr (upd_renewal i (finish_renewal Withdrawn now None) s))"

section \<open>Reviewing\<close>

text \<open>The new end: the cycle counts from now or from the end already paid for, whichever is later.\<close>

definition renewal_base :: "instant \<Rightarrow> bill_user \<Rightarrow> renewal \<Rightarrow> instant" where
  "renewal_base now u r =
     Max (set (now # List.map_filter (\<lambda>x. x) [bu_expires u, rq_previous_end r]))"

definition add_days :: "int \<Rightarrow> instant \<Rightarrow> instant option" where
  "add_days n i =
     (let dt = plus_days (nat n) (fst i) in if fst dt > 9999 then None else Some (dt, snd i))"

definition extended :: "instant \<Rightarrow> instant \<Rightarrow> bill_user \<Rightarrow> bill_user" where
  "extended now new_end u =
     u\<lparr>bu_expires := Some new_end, bu_started := (case bu_started u of None \<Rightarrow> Some now | t \<Rightarrow> t), bu_updated := now\<rparr>"

definition upd_user :: "string \<Rightarrow> (bill_user \<Rightarrow> bill_user) \<Rightarrow> subs \<Rightarrow> subs" where
  "upd_user name f s =
     s\<lparr>sa_billing := (sa_billing s)\<lparr>b_users := tbl_upd (\<lambda>u. bu_name u = name) f (b_users (sa_billing s))\<rparr>\<rparr>"

type_synonym rendered = "provision list \<times> (nat \<times> json) list"

text \<open>Conflicts of the access coordinator become one error of the review; others pass through.\<close>

fun access_failure :: "access_error \<Rightarrow> renewal_error" where
  "access_failure (AccessConflict msg) = AccessUnsafe"
| "access_failure e = RenewalFailure e"

definition approve_renewal ::
  "(json \<Rightarrow> string) \<Rightarrow> (string \<Rightarrow> string \<Rightarrow> bool) \<Rightarrow> renewal \<Rightarrow> string \<Rightarrow> access_error + rendered \<Rightarrow>
   time \<Rightarrow> instant \<Rightarrow> renewals \<Rightarrow> renewal_error + (renewals \<times> instant \<times> nat list)" where
  "approve_renewal digest verify r passphrase provisioned now at' s =
     (if (case rq_passphrase r of None \<Rightarrow> True | Some h \<Rightarrow> h = [] \<or> \<not> verify (''renewal:'' @ passphrase) h)
      then Inl WrongPassphrase
      else
        (case user_plan (rq_user r) s of
           Inl e \<Rightarrow> Inl e
         | Inr (u, p, eligible) \<Rightarrow>
             if \<not> eligible \<or> bu_plan u \<noteq> Some (rq_plan r) then Inl RenewalConflict
             else
               (case add_days (rq_days r) (renewal_base at' u r) of
                  None \<Rightarrow> Inl RenewalConflict
                | Some new_end \<Rightarrow>
                  (case provisioned of
                     Inl e \<Rightarrow> Inl (access_failure e)
                   | Inr (pvs, batches) \<Rightarrow>
                     (case authorize (rq_user r) pvs batches now (upd_user (rq_user r) (extended at' new_end) (rd_subs s)) of
                        Inl e \<Rightarrow> Inl (access_failure e)
                      | Inr s1 \<Rightarrow>
                        (case reconcile digest now at' (Some (rq_user r)) False 60000 s1 of
                           Inl e \<Rightarrow> Inl (access_failure e)
                         | Inr (s2, ids) \<Rightarrow> Inr (s\<lparr>rd_subs := s2\<rparr>, new_end, ids)))))))"

text \<open>\<open>review\<close>: the answer says whether this call decided.\<close>

definition review_renewal ::
  "(json \<Rightarrow> string) \<Rightarrow> (string \<Rightarrow> string \<Rightarrow> bool) \<Rightarrow> string \<Rightarrow> decision \<Rightarrow> string \<Rightarrow> access_error + rendered \<Rightarrow>
   time \<Rightarrow> instant \<Rightarrow> renewals \<Rightarrow> renewal_error + (renewals \<times> bool \<times> nat list)" where
  "review_renewal digest verify i d reviewer provisioned now at' s =
     (case get_renewal i None s of
        Inl e \<Rightarrow> Inl e
      | Inr r \<Rightarrow>
          (let target = (case d of Approve p \<Rightarrow> Approved | Reject \<Rightarrow> Rejected) in
           if rq_status r = target then Inr (s, False, [])
           else if rq_status r \<noteq> Pending_Review then Inl RenewalConflict
           else
             (case d of
                Reject \<Rightarrow> Inr (upd_renewal i (finish_renewal Rejected at' (Some reviewer)) s, True, [])
              | Approve p \<Rightarrow>
                (case approve_renewal digest verify r p provisioned now at' s of
                   Inl e \<Rightarrow> Inl e
                 | Inr (s1, new_end, ids) \<Rightarrow>
                     Inr (upd_renewal i (\<lambda>r. finish_renewal Approved at' (Some reviewer) (r\<lparr>rq_new_end := Some new_end\<rparr>)) s1,
                          True, ids)))))"

end
