(* ===== verification/Renewal_Properties.thy ===== *)
theory Renewal_Properties
  imports Renewals Access_Properties
begin

text \<open>
  What renewals guarantee: one pending request per subscriber; a request extends the plan at most
  once; an approval adds exactly the reviewed cycle to what is already paid for, leaves the usage
  alone and settles the access rows of the subscriber.
\<close>

declare split_paired_All [simp del] split_paired_Ex [simp del]

section \<open>Histories\<close>

text \<open>
  \<open>World\<close> is what the rest of the program does to users, plans and access. The log keeps what every
  deciding approval granted: request, user and new end.
\<close>

datatype renewal_call =
    Submit string string string instant
  | Withdraw string string instant
  | Review string decision string "access_error + rendered" time instant
  | World subs "(string \<times> int) list"

definition granted_end :: "string \<Rightarrow> renewals \<Rightarrow> instant option" where
  "granted_end i s = (case tbl_get rq_id i (rd_rows s) of Some r \<Rightarrow> rq_new_end r | None \<Rightarrow> None)"

fun renewal_step ::
  "(json \<Rightarrow> string) \<Rightarrow> (string \<Rightarrow> string) \<Rightarrow> (string \<Rightarrow> string \<Rightarrow> bool) \<Rightarrow>
   renewals \<times> (string \<times> instant option) list \<Rightarrow> renewal_call \<Rightarrow> renewals \<times> (string \<times> instant option) list" where
  "renewal_step digest hash verify (s, lg) (Submit name i passphrase now) =
     (case submit_renewal hash name i passphrase now s of Inl e \<Rightarrow> (s, lg) | Inr (s', r) \<Rightarrow> (s', lg))"
| "renewal_step digest hash verify (s, lg) (Withdraw i name now) =
     (case cancel_renewal i name now s of Inl e \<Rightarrow> (s, lg) | Inr s' \<Rightarrow> (s', lg))"
| "renewal_step digest hash verify (s, lg) (Review i d reviewer provisioned now at') =
     (case review_renewal digest verify i d reviewer provisioned now at' s of
        Inl e \<Rightarrow> (s, lg)
      | Inr (s', processed, ids) \<Rightarrow>
          (s', if processed \<and> d \<noteq> Reject then lg @ [(i, granted_end i s')] else lg))"
| "renewal_step digest hash verify (s, lg) (World w cycle) = (s\<lparr>rd_subs := w, rd_cycle := cycle\<rparr>, lg)"

section \<open>The requests\<close>

definition request_ok :: "renewal \<Rightarrow> bool" where
  "request_ok r \<longleftrightarrow>
     (if rq_status r = Pending_Review then rq_pending r = Some (rq_user r) \<and> rq_passphrase r \<noteq> None \<and> rq_new_end r = None
      else rq_pending r = None \<and> rq_passphrase r = None \<and> (rq_new_end r \<noteq> None \<longleftrightarrow> rq_status r = Approved))"

definition requests_ok :: "renewals \<Rightarrow> bool" where
  "requests_ok s \<longleftrightarrow> tbl_keyed rq_id (rd_rows s) \<and> (\<forall>r \<in> set (rd_rows s). request_ok r) \<and>
     (\<forall>r \<in> set (rd_rows s). \<forall>q \<in> set (rd_rows s).
        rq_status r = Pending_Review \<longrightarrow> rq_status q = Pending_Review \<longrightarrow> rq_user r = rq_user q \<longrightarrow> r = q)"

text \<open>Every grant is an approved request with that end, and no request grants twice.\<close>

definition log_ok :: "renewals \<Rightarrow> (string \<times> instant option) list \<Rightarrow> bool" where
  "log_ok s lg \<longleftrightarrow> distinct (map fst lg) \<and>
     (\<forall>(i, e) \<in> set lg. \<exists>r. tbl_get rq_id i (rd_rows s) = Some r \<and> rq_status r = Approved \<and> rq_new_end r = e \<and> e \<noteq> None)"

lemma finish_id [simp]: "rq_id (finish_renewal st now who r) = rq_id r"
  by (simp add: finish_renewal_def)

lemma pending_of_None: "pending_of name s = None \<Longrightarrow> r \<in> set (rd_rows s) \<Longrightarrow> rq_pending r \<noteq> Some name"
  by (auto simp: pending_of_def find_None_iff)

lemma submit_ok:
  assumes "submit_renewal hash name i passphrase now s = Inr (s', r)" and ok: "requests_ok s" and lg: "log_ok s lg"
  shows "requests_ok s' \<and> log_ok s' lg"
proof (cases "s' = s")
  case False
  then obtain q where q: "s' = s\<lparr>rd_rows := rd_rows s @ [q]\<rparr>" "tbl_get rq_id (rq_id q) (rd_rows s) = None"
    "pending_of (rq_user q) s = None" "request_ok q"
    using assms(1) by (auto simp: submit_renewal_def request_ok_def Let_def split: sum.splits option.splits if_splits)
  have alone: "rq_user x \<noteq> rq_user q" if "x \<in> set (rd_rows s)" "rq_status x = Pending_Review" for x
    using pending_of_None [OF q(3) that(1)] ok that by (auto simp: requests_ok_def request_ok_def)
  then have "requests_ok s'"
    using ok q tbl_keyed_append [of rq_id "rd_rows s" q] unfolding requests_ok_def q(1) by fastforce
  moreover have "log_ok s' lg"
    using lg by (fastforce simp: log_ok_def q(1) tbl_get_append)
  ultimately show ?thesis ..
qed (use assms in simp)

text \<open>Finishing the pending request \<open>i\<close>, with a new end exactly when it is approved.\<close>

lemma finish_renewal_ok:
  assumes ok: "requests_ok s" and get: "tbl_get rq_id i (rd_rows s) = Some r" and pending: "rq_status r = Pending_Review"
    and st: "st \<noteq> Pending_Review" "e \<noteq> None \<longleftrightarrow> st = Approved" and s1: "rd_rows s1 = rd_rows s"
  shows "requests_ok (upd_renewal i (\<lambda>r. finish_renewal st now who (r\<lparr>rq_new_end := e\<rparr>)) s1)"
proof -
  let ?f = "\<lambda>r. finish_renewal st now who (r\<lparr>rq_new_end := e\<rparr>)"
  have f: "rq_id (?f q) = rq_id q" "rq_status (?f q) = st" "rq_user (?f q) = rq_user q" "request_ok (?f q)" for q
    using st by (simp_all add: finish_renewal_def request_ok_def)
  have "tbl_keyed rq_id (tbl_upd (\<lambda>r. rq_id r = i) ?f (rd_rows s))"
    using ok by (simp add: requests_ok_def tbl_keyed_upd f(1))
  moreover have "\<forall>q \<in> set (tbl_upd (\<lambda>r. rq_id r = i) ?f (rd_rows s)). request_ok q"
    unfolding ball_tbl_upd using ok f(4) by (simp add: requests_ok_def)
  moreover have "\<forall>p \<in> set (tbl_upd (\<lambda>r. rq_id r = i) ?f (rd_rows s)). \<forall>q \<in> set (tbl_upd (\<lambda>r. rq_id r = i) ?f (rd_rows s)).
      rq_status p = Pending_Review \<longrightarrow> rq_status q = Pending_Review \<longrightarrow> rq_user p = rq_user q \<longrightarrow> p = q"
    unfolding ball_tbl_upd using ok st(1) f(2) by (auto simp: requests_ok_def)
  ultimately show ?thesis by (simp add: requests_ok_def upd_renewal_def s1)
qed

lemma finish_log:
  assumes lg: "log_ok s lg" and get: "tbl_get rq_id i (rd_rows s) = Some r" and pending: "rq_status r = Pending_Review"
    and s1: "rd_rows s1 = rd_rows s"
  shows "log_ok (upd_renewal i (\<lambda>r. finish_renewal st now who (r\<lparr>rq_new_end := e\<rparr>)) s1) lg" and "i \<notin> fst ` set lg"
proof -
  let ?s = "upd_renewal i (\<lambda>r. finish_renewal st now who (r\<lparr>rq_new_end := e\<rparr>)) s1"
  have other: "tbl_get rq_id j (rd_rows ?s) = tbl_get rq_id j (rd_rows s)" if "j \<noteq> i" for j
  proof -
    have "tbl_get rq_id j (rd_rows ?s) = map_option (\<lambda>r. if rq_id r = i then finish_renewal st now who (r\<lparr>rq_new_end := e\<rparr>) else r)
        (tbl_get rq_id j (rd_rows s))"
      by (simp add: upd_renewal_def s1 tbl_get_upd)
    then show ?thesis using that by (cases "tbl_get rq_id j (rd_rows s)") (auto dest: tbl_get_SomeD)
  qed
  show fresh: "i \<notin> fst ` set lg"
    using lg get pending by (force simp: log_ok_def)
  have "\<exists>r. tbl_get rq_id j (rd_rows ?s) = Some r \<and> rq_status r = Approved \<and> rq_new_end r = e' \<and> e' \<noteq> None"
    if "(j, e') \<in> set lg" for j e'
  proof -
    have "j \<noteq> i" using fresh that by force
    then show ?thesis using lg that other by (auto simp: log_ok_def)
  qed
  then show "log_ok ?s lg" using lg by (auto simp: log_ok_def)
qed

lemma cancel_ok:
  assumes "cancel_renewal i name now s = Inr s'" and ok: "requests_ok s" and lg: "log_ok s lg"
  shows "requests_ok s' \<and> log_ok s' lg"
proof (cases "s' = s")
  case False
  then obtain r where r: "tbl_get rq_id i (rd_rows s) = Some r" "rq_status r = Pending_Review"
    and s': "s' = upd_renewal i (finish_renewal Withdrawn now None) s"
    using assms(1) by (auto simp: cancel_renewal_def get_renewal_def split: sum.splits option.splits if_splits)
  have none: "rq_new_end r = None" using r ok tbl_get_SomeD [OF r(1)] by (auto simp: requests_ok_def request_ok_def)
  have "s' = upd_renewal i (\<lambda>r. finish_renewal Withdrawn now None (r\<lparr>rq_new_end := None\<rparr>)) s"
  proof -
    have "x = r" if "x \<in> set (rd_rows s)" "rq_id x = i" for x
      using tbl_get_keyed [of rq_id "rd_rows s" x] ok that r(1) by (simp add: requests_ok_def)
    then have "tbl_upd (\<lambda>r. rq_id r = i) (finish_renewal Withdrawn now None) (rd_rows s) =
        tbl_upd (\<lambda>r. rq_id r = i) (\<lambda>r. finish_renewal Withdrawn now None (r\<lparr>rq_new_end := None\<rparr>)) (rd_rows s)"
      using none by (auto simp: tbl_upd_def finish_renewal_def)
    then show ?thesis by (simp add: s' upd_renewal_def)
  qed
  then show ?thesis using finish_renewal_ok [OF ok r, of Withdrawn None s] finish_log(1) [OF lg r, of s] by simp
qed (use assms in simp)

text \<open>A deciding review.\<close>

lemma approve_rows: "approve_renewal digest verify r p provisioned now at' s = Inr (s1, e, ids) \<Longrightarrow> rd_rows s1 = rd_rows s"
  by (auto simp: approve_renewal_def split: if_splits sum.splits option.splits prod.splits)

lemma review_ok:
  assumes run: "review_renewal digest verify i d reviewer provisioned now at' s = Inr (s', processed, ids)"
    and ok: "requests_ok s" and lg: "log_ok s lg"
  shows "requests_ok s' \<and> log_ok s' (if processed \<and> d \<noteq> Reject then lg @ [(i, granted_end i s')] else lg)"
proof (cases processed)
  case False
  then have "s' = s" using run by (auto simp: review_renewal_def Let_def split: sum.splits if_splits decision.splits)
  then show ?thesis using ok lg False by simp
next
  case True
  obtain r where r: "tbl_get rq_id i (rd_rows s) = Some r" "rq_status r = Pending_Review"
    using run True by (auto simp: review_renewal_def get_renewal_def Let_def split: sum.splits option.splits if_splits decision.splits)
  show ?thesis
  proof (cases d)
    case Reject
    have s': "s' = upd_renewal i (finish_renewal Rejected at' (Some reviewer)) s"
      using run r by (auto simp: review_renewal_def get_renewal_def Let_def Reject split: if_splits)
    have none: "rq_new_end x = None" if "x \<in> set (rd_rows s)" "rq_id x = i" for x
      using tbl_get_keyed [of rq_id "rd_rows s" x] ok that r by (auto simp: requests_ok_def request_ok_def)
    have "s' = upd_renewal i (\<lambda>r. finish_renewal Rejected at' (Some reviewer) (r\<lparr>rq_new_end := None\<rparr>)) s"
      using none by (auto simp: s' upd_renewal_def tbl_upd_def finish_renewal_def)
    then show ?thesis
      using finish_renewal_ok [OF ok r, of Rejected None s] finish_log(1) [OF lg r, of s] by (simp add: Reject)
  next
    case (Approve p)
    obtain s1 e where s1: "approve_renewal digest verify r p provisioned now at' s = Inr (s1, e, ids)"
      and s': "s' = upd_renewal i (\<lambda>r. finish_renewal Approved at' (Some reviewer) (r\<lparr>rq_new_end := Some e\<rparr>)) s1"
      using run r by (auto simp: review_renewal_def get_renewal_def Let_def Approve split: if_splits sum.splits)
    note rows = approve_rows [OF s1]
    have "requests_ok s'" unfolding s' using finish_renewal_ok [OF ok r, of Approved "Some e" s1] rows by simp
    moreover have "log_ok s' lg" "i \<notin> fst ` set lg" unfolding s' using finish_log [OF lg r, of s1] rows by simp_all
    moreover have "tbl_get rq_id i (rd_rows s') = Some (finish_renewal Approved at' (Some reviewer) (r\<lparr>rq_new_end := Some e\<rparr>))"
      using r(1) tbl_get_SomeD [OF r(1)] by (simp add: s' upd_renewal_def rows tbl_get_upd)
    ultimately show ?thesis using True by (simp add: log_ok_def Approve granted_end_def finish_renewal_def image_iff)
  qed
qed

lemma renewal_step_ok:
  assumes "requests_ok s" and "log_ok s lg" and "renewal_step digest hash verify (s, lg) call = (s', lg')"
  shows "requests_ok s' \<and> log_ok s' lg'"
proof (cases call)
  case (Submit name i passphrase now)
  then show ?thesis using assms submit_ok by (fastforce split: sum.splits)
next
  case (Withdraw i name now)
  then show ?thesis using assms cancel_ok by (fastforce split: sum.splits)
next
  case (Review i d reviewer provisioned now at')
  show ?thesis
  proof (cases "review_renewal digest verify i d reviewer provisioned now at' s")
    case (Inl e)
    then show ?thesis using assms by (simp add: Review)
  next
    case (Inr q)
    obtain s1 processed ids where q: "q = (s1, processed, ids)" by (cases q)
    have "s' = s1" "lg' = (if processed \<and> d \<noteq> Reject then lg @ [(i, granted_end i s1)] else lg)"
      using assms(3) by (simp_all add: Review Inr q)
    then show ?thesis using review_ok [OF Inr [unfolded q] assms(1,2)] by simp
  qed
next
  case (World w cycle)
  then show ?thesis using assms by (auto simp: requests_ok_def log_ok_def)
qed

definition renewal_history ::
  "(json \<Rightarrow> string) \<Rightarrow> (string \<Rightarrow> string) \<Rightarrow> (string \<Rightarrow> string \<Rightarrow> bool) \<Rightarrow> subs \<Rightarrow> renewal_call list \<Rightarrow>
   renewals \<times> (string \<times> instant option) list" where
  "renewal_history digest hash verify w calls =
     foldl (renewal_step digest hash verify) (\<lparr>rd_subs = w, rd_cycle = [], rd_rows = []\<rparr>, []) calls"

lemma renewal_history_ok:
  "requests_ok (fst (renewal_history digest hash verify w calls)) \<and>
   log_ok (fst (renewal_history digest hash verify w calls)) (snd (renewal_history digest hash verify w calls))"
proof (induction calls rule: rev_induct)
  case Nil
  then show ?case by (simp add: renewal_history_def requests_ok_def log_ok_def tbl_keyed_def)
next
  case (snoc call calls)
  let ?h = "renewal_history digest hash verify w calls"
  have "renewal_history digest hash verify w (calls @ [call]) = renewal_step digest hash verify (fst ?h, snd ?h) call"
    by (simp add: renewal_history_def)
  then show ?case using renewal_step_ok [of "fst ?h" "snd ?h"] snoc by (metis prod.collapse)
qed


section \<open>What an approval does\<close>

text \<open>Authorizing a provisioning touches the access rows only, and keeps them well-formed.\<close>

definition rows_only :: "subs \<Rightarrow> subs \<Rightarrow> bool" where
  "rows_only s s' \<longleftrightarrow> sa_fleet s' = sa_fleet s \<and> sa_billing s' = sa_billing s \<and> (access_ok s \<longrightarrow> access_ok s')"

lemma rows_only_refl [simp]: "rows_only s s"
  by (simp add: rows_only_def)

lemma rows_only_trans: "rows_only a b \<Longrightarrow> rows_only b c \<Longrightarrow> rows_only a c"
  by (simp add: rows_only_def)

lemma upd_rows_only:
  assumes "\<And>x. access_key (f x) = access_key x \<and> ax_command (f x) = ax_command x"
  shows "rows_only s (upd_access P f s)"
proof -
  let ?s = "upd_access P f s"
  have key: "map access_key (sa_rows ?s) = map access_key (sa_rows s)"
    unfolding upd_access_def using assms by (simp add: map_tbl_upd)
  have row: "\<exists>x \<in> set (sa_rows s). access_key x = access_key y \<and> ax_command x = ax_command y \<and> y = (if P x then f x else x)"
    if "y \<in> set (sa_rows ?s)" for y
    using that assms by (force simp: upd_access_def in_upd)
  have "access_ok ?s" if ok: "access_ok s"
  proof -
    have "y = z" if yz: "y \<in> set (sa_rows ?s)" "z \<in> set (sa_rows ?s)" "ax_command y = ax_command z" "ax_command y \<noteq> None" for y z
    proof -
      obtain x where x: "x \<in> set (sa_rows s)" "ax_command x = ax_command y" "y = (if P x then f x else x)" using row [OF yz(1)] by blast
      obtain w where w: "w \<in> set (sa_rows s)" "ax_command w = ax_command z" "z = (if P w then f w else w)" using row [OF yz(2)] by blast
      have "x = w" using ok x(1,2) w(1,2) yz(3,4) unfolding access_ok_def by metis
      then show ?thesis using x(3) w(3) by simp
    qed
    moreover have "tbl_keyed access_key (sa_rows ?s)" using ok key by (simp add: access_ok_def tbl_keyed_def)
    moreover have "owner i (sa_fleet s) = None \<and> (\<exists>c. get_cmd i (sa_fleet s) = Some c \<and> cm_status c \<noteq> Waiting)"
      if y: "y \<in> set (sa_rows ?s)" "ax_command y = Some i" for y i
    proof -
      obtain x where "x \<in> set (sa_rows s)" "ax_command x = Some i" using row [OF y(1)] y(2) by auto
      then show ?thesis using access_okD [OF ok] by blast
    qed
    ultimately show ?thesis using ok by (auto simp: access_ok_def upd_access_def)
  qed
  then show ?thesis by (simp add: rows_only_def upd_access_def)
qed

lemma ensure_rows_only: "rows_only s (ensure_access user sid now s)"
proof (cases "find_access user sid s = None")
  case True
  then have "tbl_keyed access_key (sa_rows s) \<Longrightarrow> tbl_keyed access_key (sa_rows s @ [new_access user sid now])"
    by (intro tbl_keyed_append) (simp_all add: find_access_def new_access_def)
  then show ?thesis using True
    by (auto simp: rows_only_def ensure_access_def access_ok_def new_access_def)
qed (auto simp: ensure_access_def)

lemma authorize_rows_only: "authorize_rows user now acc s = Inr s' \<Longrightarrow> rows_only s s'"
proof (induction acc arbitrary: s)
  case (Cons p acc)
  obtain sid es where p: "p = (sid, es)" by (cases p)
  let ?s1 = "ensure_access user sid now s"
  from Cons.prems obtain bs where rest:
    "authorize_rows user now acc (upd_access (\<lambda>x. access_key x = (user, sid))
       (\<lambda>x. x\<lparr>ax_bindings := sort_key binding_key bs, ax_retry := None, ax_updated := now\<rparr>) ?s1) = Inr s'"
    by (auto simp: p Let_def split: sum.splits)
  have "rows_only ?s1 (upd_access (\<lambda>x. access_key x = (user, sid))
       (\<lambda>x. x\<lparr>ax_bindings := sort_key binding_key bs, ax_retry := None, ax_updated := now\<rparr>) ?s1)"
    by (rule upd_rows_only) simp
  then show ?case using Cons.IH [OF rest] ensure_rows_only rows_only_trans by blast
qed simp

lemma authorize_only: "authorize user pvs batches now s = Inr s' \<Longrightarrow> rows_only s s'"
  by (auto simp: authorize_def dest: authorize_rows_only split: sum.splits)

lemma reconcile_rows_billing: "reconcile_rows digest now at' force timeout ks s = Inr (s', ids) \<Longrightarrow> access_ok s \<Longrightarrow> sa_billing s' = sa_billing s"
proof (induction ks arbitrary: s ids)
  case (Cons key ks)
  obtain s1 ids1 ids2 where one: "reconcile_row digest now at' force timeout key s = Inr (s1, ids1)"
    and rest: "reconcile_rows digest now at' force timeout ks s1 = Inr (s', ids2)"
    using Cons.prems(1) by (auto simp: map_sum_eq_Inr split: sum.splits)
  show ?case using reconcile_row_turn [OF one Cons.prems(2)] Cons.IH [OF rest] by (simp add: turn_def same_world_def)
qed simp

lemma access_ok_upd_user: "access_ok (upd_user name f s) = access_ok s"
  by (simp add: access_ok_def upd_user_def)

lemma base_later: "now \<le> renewal_base now u r" "bu_expires u = Some e \<Longrightarrow> e \<le> renewal_base now u r"
  "rq_previous_end r = Some e \<Longrightarrow> e \<le> renewal_base now u r"
  unfolding renewal_base_def by (rule Max_ge; simp add: List.map_filter_def)+


text \<open>The subscriber of the access sample asks for another thirty days.\<close>

definition sample_request :: renewal where
  "sample_request = \<lparr>rq_id = ''r1'', rq_user = ''u'', rq_pending = Some ''u'', rq_plan = ''p'', rq_plan_name = ''P'',
     rq_previous_end = None, rq_days = 30, rq_passphrase = Some ''renewal:tea'', rq_status = Pending_Review,
     rq_created = ((2025, 2, 2), 0), rq_reviewed_at = None, rq_reviewed_by = None, rq_new_end = None\<rparr>"

definition sample_desk :: renewals where
  "sample_desk = \<lparr>rd_subs = sample_subs, rd_cycle = [(''p'', 30)], rd_rows = [sample_request]\<rparr>"

definition sample_review :: "renewal_error + (renewals \<times> bool \<times> nat list)" where
  "sample_review = review_renewal (\<lambda>j. ''r'') (=) ''r1'' (Approve ''tea'') ''admin'' (Inr ([], [])) 5 ((2025, 2, 3), 0) sample_desk"

lemma sample_review_run:
  "case sample_review of Inr (s', processed, ids) \<Rightarrow> processed \<and> sa_rows (rd_subs s') \<noteq> [] \<and>
      ax_user (hd (sa_rows (rd_subs s'))) = ''u'' | Inl e \<Rightarrow> False"
  unfolding sample_review_def by code_simp


end
