(* ===== verification/Registration.thy ===== *)
theory Registration
  imports Subscription_Access
begin

text \<open>
  Registration by invitation: \<open>backend/app/open_node/services/registration_invitations.py\<close>. An
  administrator issues a link with a secret token for a plan; whoever claims it first creates an
  account with that plan, its access is provisioned in the same transaction, and the link is spent.
  Token hashing (SHA-256) and password hashing are parameters; what the provisioning renders for the
  new user is an input of the claim.
\<close>

datatype invitation_status = Active | Used | Revoked | Expired

datatype registration_error =
    PlanNotFound | InvitationConflict string | InvitationUnavailable | DuplicateKey | AccessFailed access_error

record invitation =
  iv_id :: nat
  iv_token_hash :: string
  iv_hint :: string
  iv_plan :: string
  iv_used_by :: "string option"
  iv_expires :: instant
  iv_used_at :: "instant option"
  iv_revoked_at :: "instant option"
  iv_created :: instant

text \<open>What a plan hands to a new account; \<open>pt_owned\<close>: it contains topology nodes of a subscriber.\<close>

record plan_terms =
  pt_cycle :: int
  pt_resets :: bool
  pt_reset_day :: int
  pt_owned :: bool

record account =
  sc_user :: string
  sc_password :: string
  sc_version :: nat
  sc_last_step :: int

record registration =
  rg_subs :: subs
  rg_terms :: "(string \<times> plan_terms) list"
  rg_invitations :: "invitation list"
  rg_accounts :: "account list"
  rg_fresh :: nat

definition plan_row :: "string \<Rightarrow> registration \<Rightarrow> (bill_plan \<times> plan_terms) option" where
  "plan_row i s =
     (case (tbl_get bp_id i (b_plans (sa_billing (rg_subs s))), map_of (rg_terms s) i) of
        (Some p, Some t) \<Rightarrow> Some (p, t)
      | _ \<Rightarrow> None)"

definition invitation_status_of :: "instant \<Rightarrow> invitation \<Rightarrow> invitation_status" where
  "invitation_status_of now v =
     (if iv_used_at v \<noteq> None then Used
      else if iv_revoked_at v \<noteq> None then Revoked
      else if iv_expires v \<le> now then Expired else Active)"

text \<open>\<open>now + timedelta(minutes=m)\<close>.\<close>

definition day_micros :: nat where "day_micros = 24 * 60 * 60 * 1000000"

definition plus_minutes :: "nat \<Rightarrow> instant \<Rightarrow> instant" where
  "plus_minutes m i =
     (let t = snd i + m * 60 * 1000000 in (plus_days (t div day_micros) (fst i), t mod day_micros))"

text \<open>\<open>list\<close>: newest first, with the plan of each.\<close>

definition list_invitations :: "instant \<Rightarrow> registration \<Rightarrow> (invitation \<times> bill_plan \<times> invitation_status) list" where
  "list_invitations now s =
     rev (sort_key (\<lambda>(v, p, st). iv_created v)
       (List.map_filter (\<lambda>v. map_option (\<lambda>(p, t). (v, p, invitation_status_of now v)) (plan_row (iv_plan v) s))
          (rev (rg_invitations s))))"

definition create_invitation ::
  "(string \<Rightarrow> string) \<Rightarrow> string \<Rightarrow> string \<Rightarrow> nat \<Rightarrow> instant \<Rightarrow> registration \<Rightarrow> registration_error + (registration \<times> invitation)" where
  "create_invitation digest token plan minutes now s =
     (case plan_row plan s of
        None \<Rightarrow> Inl PlanNotFound
      | Some (p, t) \<Rightarrow>
          if pt_owned t then Inl (InvitationConflict ''Plans with subscriber-owned topology nodes cannot be invited'')
          else if list_ex (\<lambda>v. iv_token_hash v = digest token) (rg_invitations s) then Inl DuplicateKey
          else
            (let v = \<lparr>iv_id = rg_fresh s, iv_token_hash = digest token, iv_hint = take 8 token, iv_plan = bp_id p,
                      iv_used_by = None, iv_expires = plus_minutes minutes now, iv_used_at = None,
                      iv_revoked_at = None, iv_created = now\<rparr>
             in Inr (s\<lparr>rg_invitations := rg_invitations s @ [v], rg_fresh := Suc (rg_fresh s)\<rparr>, v)))"

definition upd_invitation :: "nat \<Rightarrow> (invitation \<Rightarrow> invitation) \<Rightarrow> registration \<Rightarrow> registration" where
  "upd_invitation i f s = s\<lparr>rg_invitations := tbl_upd (\<lambda>v. iv_id v = i) f (rg_invitations s)\<rparr>"

definition revoke_invitation :: "nat \<Rightarrow> instant \<Rightarrow> registration \<Rightarrow> registration_error + registration" where
  "revoke_invitation i now s =
     (case tbl_get iv_id i (rg_invitations s) of
        None \<Rightarrow> Inl InvitationUnavailable
      | Some v \<Rightarrow>
          if invitation_status_of now v \<noteq> Active then Inl (InvitationConflict ''Only active invitations can be revoked'')
          else Inr (upd_invitation i (\<lambda>v. v\<lparr>iv_revoked_at := Some now\<rparr>) s))"

section \<open>Claiming\<close>

text \<open>SQL's \<open>lower\<close>, which folds ASCII letters only (SQLite).\<close>

definition sql_lower_char :: "char \<Rightarrow> char" where
  "sql_lower_char c = (let n = of_char c :: nat in if 65 \<le> n \<and> n \<le> 90 then shift_char c else c)"

definition name_taken :: "string \<Rightarrow> registration \<Rightarrow> bool" where
  "name_taken name s =
     list_ex (\<lambda>u. map sql_lower_char (bu_name u) = map py_lower_char name) (b_users (sa_billing (rg_subs s)))"

record registration_claim =
  cl_token :: string
  cl_user :: string
  cl_password :: string

definition reset_day_for :: "plan_terms \<Rightarrow> instant \<Rightarrow> int" where
  "reset_day_for t now =
     (if pt_resets t \<and> pt_reset_day t = 0 then min (int (snd (snd (fst now)))) 28 else pt_reset_day t)"

definition new_user :: "string \<Rightarrow> bill_plan \<Rightarrow> plan_terms \<Rightarrow> instant \<Rightarrow> bill_user" where
  "new_user name p t now =
     \<lparr>bu_name = name,
      bu_limits = \<lparr>lu_traffic = None, lu_speed = None, lu_devices = None, lu_node_speeds = [], lu_node_devices = []\<rparr>,
      bu_removal = False, bu_active = True, bu_plan = Some (bp_id p), bu_started = Some now,
      bu_expires = Some (plus_days (nat (pt_cycle t)) (fst now), snd now), bu_resets = pt_resets t,
      bu_reset_day = reset_day_for t now, bu_last_reset = None, bu_created = now, bu_updated = now\<rparr>"

definition add_user :: "bill_user \<Rightarrow> subs \<Rightarrow> subs" where
  "add_user u s = s\<lparr>sa_billing := (sa_billing s)\<lparr>b_users := b_users (sa_billing s) @ [u]\<rparr>\<rparr>"

definition claim_invitation ::
  "(json \<Rightarrow> string) \<Rightarrow> (string \<Rightarrow> string) \<Rightarrow> (string \<Rightarrow> string) \<Rightarrow> registration_claim \<Rightarrow>
   access_error + (provision list \<times> (nat \<times> json) list) \<Rightarrow> int \<Rightarrow> time \<Rightarrow> instant \<Rightarrow> registration \<Rightarrow>
   registration_error + (registration \<times> bill_user \<times> nat list)" where
  "claim_invitation digest token_digest hash cl provisioned timeout now at' s =
     (case List.find (\<lambda>v. iv_token_hash v = token_digest (cl_token cl)) (rg_invitations s) of
        None \<Rightarrow> Inl InvitationUnavailable
      | Some v \<Rightarrow>
          if invitation_status_of at' v \<noteq> Active then Inl InvitationUnavailable
          else if name_taken (cl_user cl) s then Inl (InvitationConflict ''Username is unavailable'')
          else
            (case plan_row (iv_plan v) s of
               None \<Rightarrow> Inl InvitationUnavailable
             | Some (p, t) \<Rightarrow>
                 if pt_owned t then Inl InvitationUnavailable
                 else if tbl_get bu_name (cl_user cl) (b_users (sa_billing (rg_subs s))) \<noteq> None then Inl DuplicateKey
                 else
                   (let u = new_user (cl_user cl) p t at';
                        acct = \<lparr>sc_user = cl_user cl, sc_password = hash (cl_password cl), sc_version = rg_fresh s,
                                sc_last_step = -1\<rparr>;
                        s1 = s\<lparr>rg_subs := add_user u (rg_subs s), rg_accounts := rg_accounts s @ [acct],
                               rg_fresh := Suc (rg_fresh s)\<rparr>
                    in case provisioned of
                         Inl e \<Rightarrow> Inl (AccessFailed e)
                       | Inr (pvs, batches) \<Rightarrow>
                         (case authorize (cl_user cl) pvs batches now (rg_subs s1) of
                            Inl e \<Rightarrow> Inl (AccessFailed e)
                          | Inr a \<Rightarrow>
                            (case reconcile digest now at' (Some (cl_user cl)) False timeout a of
                               Inl e \<Rightarrow> Inl (AccessFailed e)
                             | Inr (a', ids) \<Rightarrow>
                                 Inr (upd_invitation (iv_id v) (\<lambda>v. v\<lparr>iv_used_by := Some (cl_user cl), iv_used_at := Some at'\<rparr>)
                                        (s1\<lparr>rg_subs := a'\<rparr>), u, ids))))))"

end
