(* ===== verification/Registration_Properties.thy ===== *)
theory Registration_Properties
  imports Registration Access_Properties
begin

text \<open>An invitation admits one account, while it is active, and never after it was revoked or expired.\<close>

declare split_paired_All [simp del] split_paired_Ex [simp del]

section \<open>Histories\<close>

datatype registration_call =
    Invite string string nat instant
  | Revoke nat instant
  | Claim_Link registration_claim "access_error + (provision list \<times> (nat \<times> json) list)" int time instant
  | Outside subs "(string \<times> plan_terms) list"

text \<open>The log keeps the link spent, the account made and when.\<close>

definition spent_by :: "string \<Rightarrow> instant \<Rightarrow> registration \<Rightarrow> (nat \<times> string \<times> instant) list" where
  "spent_by hash now s =
     (case List.find (\<lambda>v. iv_token_hash v = hash) (rg_invitations s) of
        Some v \<Rightarrow> (case iv_used_by v of Some u \<Rightarrow> [(iv_id v, u, now)] | None \<Rightarrow> [])
      | None \<Rightarrow> [])"

fun registration_step ::
  "(json \<Rightarrow> string) \<Rightarrow> (string \<Rightarrow> string) \<Rightarrow> (string \<Rightarrow> string) \<Rightarrow> registration \<times> (nat \<times> string \<times> instant) list \<Rightarrow>
   registration_call \<Rightarrow> registration \<times> (nat \<times> string \<times> instant) list" where
  "registration_step digest td hash (s, spent) (Invite token plan minutes now) =
     (case create_invitation td token plan minutes now s of Inl e \<Rightarrow> (s, spent) | Inr (s', v) \<Rightarrow> (s', spent))"
| "registration_step digest td hash (s, spent) (Revoke i now) =
     (case revoke_invitation i now s of Inl e \<Rightarrow> (s, spent) | Inr s' \<Rightarrow> (s', spent))"
| "registration_step digest td hash (s, spent) (Claim_Link cl provisioned timeout now at') =
     (case claim_invitation digest td hash cl provisioned timeout now at' s of
        Inl e \<Rightarrow> (s, spent)
      | Inr (s', u, ids) \<Rightarrow> (s', spent @ spent_by (td (cl_token cl)) at' s'))"
| "registration_step digest td hash (s, spent) (Outside w terms) = (s\<lparr>rg_subs := w, rg_terms := terms\<rparr>, spent)"

definition registration_history ::
  "(json \<Rightarrow> string) \<Rightarrow> (string \<Rightarrow> string) \<Rightarrow> (string \<Rightarrow> string) \<Rightarrow> subs \<Rightarrow> registration_call list \<Rightarrow>
   registration \<times> (nat \<times> string \<times> instant) list" where
  "registration_history digest td hash w calls =
     foldl (registration_step digest td hash)
       (\<lparr>rg_subs = w, rg_terms = [], rg_invitations = [], rg_accounts = [], rg_fresh = 0\<rparr>, []) calls"

section \<open>The invariant\<close>

definition invitations_ok :: "registration \<Rightarrow> bool" where
  "invitations_ok s \<longleftrightarrow> tbl_keyed iv_id (rg_invitations s) \<and> tbl_keyed iv_token_hash (rg_invitations s) \<and>
     (\<forall>v \<in> set (rg_invitations s). iv_id v < rg_fresh s \<and> (iv_used_by v = None \<longleftrightarrow> iv_used_at v = None))"

definition spent_ok :: "registration \<Rightarrow> (nat \<times> string \<times> instant) list \<Rightarrow> bool" where
  "spent_ok s spent \<longleftrightarrow> distinct (map fst spent) \<and>
     (\<forall>(i, u, t) \<in> set spent. \<exists>v. tbl_get iv_id i (rg_invitations s) = Some v \<and> iv_used_by v = Some u \<and>
        iv_used_at v = Some t \<and> t < iv_expires v \<and> iv_revoked_at v = None)"

text \<open>Updating an invitation that was active.\<close>

lemma active_unspent:
  assumes "spent_ok s spent" and "tbl_get iv_id i (rg_invitations s) = Some v" and "invitation_status_of now v = Active"
  shows "i \<notin> fst ` set spent"
  using assms by (force simp: spent_ok_def invitation_status_of_def split: if_splits)

lemma upd_other:
  assumes "\<And>v. iv_id (f v) = iv_id v" and "j \<noteq> i"
  shows "tbl_get iv_id j (tbl_upd (\<lambda>v. iv_id v = i) f rows) = tbl_get iv_id j rows"
  using assms by (cases "tbl_get iv_id j rows") (auto simp: tbl_get_upd dest: tbl_get_SomeD)

lemma upd_spent:
  assumes spent: "spent_ok s spent" and new: "i \<notin> fst ` set spent" and f: "\<And>v. iv_id (f v) = iv_id v"
    and rows: "rg_invitations s' = tbl_upd (\<lambda>v. iv_id v = i) f (rg_invitations s)"
  shows "spent_ok s' spent"
proof -
  have "tbl_get iv_id j (rg_invitations s') = tbl_get iv_id j (rg_invitations s)" if "(j, u, t) \<in> set spent" for j u t
  proof -
    have "j \<noteq> i" using new that by force
    then show ?thesis unfolding rows by (rule upd_other [OF f])
  qed
  then show ?thesis using spent by (auto simp: spent_ok_def)
qed

lemma upd_invitations_ok:
  assumes ok: "invitations_ok s" and rows: "rg_invitations s' = tbl_upd (\<lambda>v. iv_id v = i) f (rg_invitations s)"
    and f: "\<And>v. iv_id (f v) = iv_id v" "\<And>v. iv_token_hash (f v) = iv_token_hash v"
      "\<And>v. (iv_used_by v = None \<longleftrightarrow> iv_used_at v = None) \<Longrightarrow> (iv_used_by (f v) = None \<longleftrightarrow> iv_used_at (f v) = None)"
    and fresh: "rg_fresh s \<le> rg_fresh s'"
  shows "invitations_ok s'"
proof -
  have "\<forall>v \<in> set (rg_invitations s'). iv_id v < rg_fresh s' \<and> (iv_used_by v = None \<longleftrightarrow> iv_used_at v = None)"
    unfolding rows ball_tbl_upd using ok f fresh by (force simp: invitations_ok_def)
  then show ?thesis using ok f(1,2) by (simp add: invitations_ok_def rows tbl_keyed_upd)
qed

lemma create_ok:
  assumes "create_invitation td token plan minutes now s = Inr (s', v)" and "invitations_ok s" and "spent_ok s spent"
  shows "invitations_ok s' \<and> spent_ok s' spent"
proof -
  have new: "rg_invitations s' = rg_invitations s @ [v]" "rg_fresh s' = Suc (rg_fresh s)" "iv_id v = rg_fresh s"
    "iv_used_by v = None" "iv_used_at v = None" "\<not> list_ex (\<lambda>x. iv_token_hash x = iv_token_hash v) (rg_invitations s)"
    using assms(1) by (auto simp: create_invitation_def Let_def split: option.splits if_splits)
  have "tbl_get iv_id (iv_id v) (rg_invitations s) = None" "tbl_get iv_token_hash (iv_token_hash v) (rg_invitations s) = None"
    using assms(2) new(3,6) by (auto simp: tbl_get_None invitations_ok_def list_ex_iff image_iff)
  then have "invitations_ok s'"
    using assms(2) new(1-5) by (auto simp: invitations_ok_def tbl_keyed_append less_Suc_eq)
  moreover have "spent_ok s' spent"
    using assms(3) unfolding spent_ok_def new(1) by (fastforce simp: tbl_get_append)
  ultimately show ?thesis ..
qed

lemma revoke_ok:
  assumes "revoke_invitation i now s = Inr s'" and ok: "invitations_ok s" and spent: "spent_ok s spent"
  shows "invitations_ok s' \<and> spent_ok s' spent"
proof -
  obtain v where v: "tbl_get iv_id i (rg_invitations s) = Some v" "invitation_status_of now v = Active"
    and s': "s' = upd_invitation i (\<lambda>v. v\<lparr>iv_revoked_at := Some now\<rparr>) s"
    using assms(1) by (auto simp: revoke_invitation_def split: option.splits if_splits)
  have rows: "rg_invitations s' = tbl_upd (\<lambda>v. iv_id v = i) (\<lambda>v. v\<lparr>iv_revoked_at := Some now\<rparr>) (rg_invitations s)"
    and fresh: "rg_fresh s \<le> rg_fresh s'" by (simp_all add: s' upd_invitation_def)
  show ?thesis
    using upd_invitations_ok [OF ok rows _ _ _ fresh] upd_spent [OF spent active_unspent [OF spent v] _ rows] by simp
qed

lemma claim_ok:
  assumes run: "claim_invitation digest td hash cl provisioned timeout now at' s = Inr (s', u, ids)"
    and ok: "invitations_ok s" and spent: "spent_ok s spent"
  shows "invitations_ok s' \<and> spent_ok s' (spent @ spent_by (td (cl_token cl)) at' s')"
proof -
  define f :: "invitation \<Rightarrow> invitation" where "f = (\<lambda>v. v\<lparr>iv_used_by := Some (cl_user cl), iv_used_at := Some at'\<rparr>)"
  obtain v where v: "List.find (\<lambda>v. iv_token_hash v = td (cl_token cl)) (rg_invitations s) = Some v"
      "invitation_status_of at' v = Active"
    and rows: "rg_invitations s' = tbl_upd (\<lambda>x. iv_id x = iv_id v) f (rg_invitations s)"
    and fresh: "rg_fresh s \<le> rg_fresh s'"
    using run by (auto simp: claim_invitation_def upd_invitation_def f_def Let_def
        split: option.splits if_splits sum.splits prod.splits)
  have mem: "v \<in> set (rg_invitations s)" and token: "iv_token_hash v = td (cl_token cl)" using v(1) by (auto dest: find_SomeD)
  have get: "tbl_get iv_id (iv_id v) (rg_invitations s) = Some v"
    using ok mem by (simp add: invitations_ok_def tbl_get_keyed)
  have f: "iv_id (f x) = iv_id x" "iv_token_hash (f x) = iv_token_hash x" for x by (simp_all add: f_def)
  note unspent = active_unspent [OF spent get v(2)]
  have ok': "invitations_ok s'"
    by (rule upd_invitations_ok [OF ok rows f _ fresh]) (simp add: f_def)
  have spent': "spent_ok s' spent" by (rule upd_spent [OF spent unspent f(1) rows])
  have get': "tbl_get iv_id (iv_id v) (rg_invitations s') = Some (f v)"
    using get f(1) by (simp add: rows tbl_get_upd)
  then have "f v \<in> set (rg_invitations s')" by (auto dest: tbl_get_SomeD)
  then have "List.find (\<lambda>x. iv_token_hash x = td (cl_token cl)) (rg_invitations s') = Some (f v)"
    using ok' token tbl_get_keyed [of iv_token_hash "rg_invitations s'" "f v"] f(2) [of v]
    by (simp add: invitations_ok_def tbl_get_def)
  then have entry: "spent_by (td (cl_token cl)) at' s' = [(iv_id v, cl_user cl, at')]" by (simp add: f_def spent_by_def)
  have "at' < iv_expires v" "iv_revoked_at v = None" using v(2) by (auto simp: invitation_status_of_def split: if_splits)
  then show ?thesis using ok' spent' get' unspent
    unfolding entry by (auto simp: spent_ok_def f_def)
qed

lemma registration_step_ok:
  assumes "invitations_ok s" and "spent_ok s spent" and "registration_step digest td hash (s, spent) call = (s', spent')"
  shows "invitations_ok s' \<and> spent_ok s' spent'"
proof (cases call)
  case (Invite token plan minutes now)
  then show ?thesis using assms create_ok by (fastforce split: sum.splits)
next
  case (Revoke i now)
  then show ?thesis using assms revoke_ok by (fastforce split: sum.splits)
next
  case (Claim_Link cl provisioned timeout now at')
  show ?thesis
  proof (cases "claim_invitation digest td hash cl provisioned timeout now at' s")
    case (Inl e)
    then show ?thesis using assms by (simp add: Claim_Link)
  next
    case (Inr q)
    obtain s1 u ids where q: "q = (s1, u, ids)" by (cases q)
    show ?thesis using claim_ok [OF Inr [unfolded q] assms(1,2)] assms(3) by (auto simp: Claim_Link Inr q)
  qed
next
  case (Outside w terms)
  then show ?thesis using assms by (auto simp: invitations_ok_def spent_ok_def)
qed

lemma registration_history_ok:
  "invitations_ok (fst (registration_history digest td hash w calls)) \<and>
   spent_ok (fst (registration_history digest td hash w calls)) (snd (registration_history digest td hash w calls))"
proof (induction calls rule: rev_induct)
  case Nil
  then show ?case by (simp add: registration_history_def invitations_ok_def spent_ok_def tbl_keyed_def)
next
  case (snoc call calls)
  let ?h = "registration_history digest td hash w calls"
  have "registration_history digest td hash w (calls @ [call]) = registration_step digest td hash (fst ?h, snd ?h) call"
    by (simp add: registration_history_def)
  then show ?case using registration_step_ok [of "fst ?h" "snd ?h"] snoc by (metis prod.collapse)
qed


end
