(* ===== verification/Secure_Channel.thy ===== *)
theory Secure_Channel
  imports Json "HOL-Library.Word"
begin

unbundle bit_operations_syntax

text \<open>
  The encrypted channel of legacy agents and of federated controllers:
  \<open>backend/app/open_node/services/secure_channel.py\<close>. \<open>ChannelSession\<close> seals numbered messages and
  accepts each number once, within a window of the last 64 below the highest one accepted;
  \<open>AgentSocket\<close> carries JSON over it. Python's integers are \<open>int\<close>, bytes are lists of \<open>8 word\<close>. The
  cryptography (AES-GCM, HKDF, X25519, Ed25519) and the JSON codec are parameters.
\<close>

section \<open>Bytes\<close>

type_synonym bytes = "8 word list"

text \<open>\<open>int.from_bytes(b, "big")\<close> and \<open>n.to_bytes(k, "big")\<close>, the latter for a number that fits.\<close>

definition from_bytes :: "bytes \<Rightarrow> int" where
  "from_bytes bs = foldl (\<lambda>n b. n * 256 + uint b) 0 bs"

fun to_bytes :: "nat \<Rightarrow> int \<Rightarrow> bytes" where
  "to_bytes 0 n = []"
| "to_bytes (Suc k) n = to_bytes k (n div 256) @ [word_of_int n]"

text \<open>\<open>base64.b64encode\<close>, and \<open>base64.b64decode\<close> with \<open>validate=True\<close>: alphabet, then padding to a multiple of four.\<close>

definition b64_alphabet :: string where
  "b64_alphabet = ''ABCDEFGHIJKLMNOPQRSTUVWXYZabcdefghijklmnopqrstuvwxyz0123456789+/''"

definition b64_char :: "nat \<Rightarrow> char" where
  "b64_char n = b64_alphabet ! n"

definition b64_value :: "char \<Rightarrow> nat" where
  "b64_value c = length (takeWhile (\<lambda>x. x \<noteq> c) b64_alphabet)"

fun b64_pack :: "nat list \<Rightarrow> nat list" where
  "b64_pack (a # b # c # xs) =
     [a div 4, (a mod 4) * 16 + b div 16, (b mod 16) * 4 + c div 64, c mod 64] @ b64_pack xs"
| "b64_pack [a, b] = [a div 4, (a mod 4) * 16 + b div 16, (b mod 16) * 4]"
| "b64_pack [a] = [a div 4, (a mod 4) * 16]"
| "b64_pack [] = []"

fun b64_unpack :: "nat list \<Rightarrow> nat list" where
  "b64_unpack (a # b # c # d # xs) =
     [a * 4 + b div 16, (b mod 16) * 16 + c div 4, (c mod 4) * 64 + d] @ b64_unpack xs"
| "b64_unpack [a, b, c] = [a * 4 + b div 16, (b mod 16) * 16 + c div 4]"
| "b64_unpack [a, b] = [a * 4 + b div 16]"
| "b64_unpack xs = []"

definition b64_padding :: "nat \<Rightarrow> string" where
  "b64_padding n = replicate ((4 - n mod 4) mod 4) CHR ''=''"

definition b64encode :: "bytes \<Rightarrow> string" where
  "b64encode bs =
     (let digits = b64_pack (map unat bs) in map b64_char digits @ b64_padding (length digits))"

definition b64decode :: "string \<Rightarrow> bytes option" where
  "b64decode s =
     (let body = takeWhile (\<lambda>c. c \<in> set b64_alphabet) s; rest = dropWhile (\<lambda>c. c \<in> set b64_alphabet) s
      in if length body mod 4 = 1 \<or> rest \<noteq> b64_padding (length body) then None
         else Some (map (\<lambda>n. word_of_nat n) (b64_unpack (map b64_value body))))"

section \<open>A session\<close>

datatype channel_error =
    InvalidKey | SendLimit | InvalidEnvelope | Replayed | InvalidTag | InvalidExchange | NotConfigured
  | ExchangeRequired | BinaryRequired | TextRequired | TooLarge | NotJson | Disconnected

definition max_message :: nat where "max_message = 4 * 1024 * 1024"
definition max_sequence :: int where "max_sequence = push_bit 64 1 - 1"

text \<open>\<open>seal key nonce plaintext\<close> and \<open>open key nonce ciphertext\<close> are AES-GCM without associated data.\<close>

type_synonym sealing = "bytes \<Rightarrow> bytes \<Rightarrow> bytes \<Rightarrow> bytes"
type_synonym unsealing = "bytes \<Rightarrow> bytes \<Rightarrow> bytes \<Rightarrow> bytes option"

record channel =
  cs_send_key :: bytes
  cs_recv_key :: bytes
  cs_send_nonce :: bytes
  cs_recv_nonce :: bytes
  cs_send_sequence :: int
  cs_recv_max :: int
  cs_recv_bitmap :: int

definition channel_info :: bytes where
  "channel_info = map (\<lambda>c. word_of_nat (of_char c)) ''securechan-v1''"

text \<open>\<open>derive shared salt info\<close> is HKDF-SHA256 with 88 bytes of output.\<close>

definition new_channel :: "(bytes \<Rightarrow> bytes \<Rightarrow> bytes \<Rightarrow> bytes) \<Rightarrow> bytes \<Rightarrow> bytes \<Rightarrow> bytes \<Rightarrow> bool \<Rightarrow> channel" where
  "new_channel derive shared agent_public master_public is_master =
     (let material = derive shared (agent_public @ master_public) channel_info;
          first_key = take 32 material; second_key = take 32 (drop 32 material);
          first_nonce = take 12 (drop 64 material); second_nonce = take 12 (drop 76 material)
      in \<lparr>cs_send_key = if is_master then first_key else second_key,
          cs_recv_key = if is_master then second_key else first_key,
          cs_send_nonce = if is_master then first_nonce else second_nonce,
          cs_recv_nonce = if is_master then second_nonce else first_nonce,
          cs_send_sequence = 0, cs_recv_max = 0, cs_recv_bitmap = 0\<rparr>)"

definition nonce_at :: "bytes \<Rightarrow> int \<Rightarrow> bytes" where
  "nonce_at base sequence = to_bytes 12 (from_bytes base XOR sequence)"

definition encrypt :: "sealing \<Rightarrow> bytes \<Rightarrow> channel \<Rightarrow> channel_error + (channel \<times> bytes)" where
  "encrypt seal p s =
     (if length p > max_message \<or> cs_send_sequence s \<ge> max_sequence then Inl SendLimit
      else
        (let n = cs_send_sequence s + 1 in
         Inr (s\<lparr>cs_send_sequence := n\<rparr>,
              [1] @ to_bytes 8 n @ seal (cs_send_key s) (nonce_at (cs_send_nonce s) n) p)))"

definition advanced :: "int \<Rightarrow> channel \<Rightarrow> channel" where
  "advanced n s =
     (if n > cs_recv_max s then
        (let shift = n - cs_recv_max s in
         s\<lparr>cs_recv_bitmap := (if shift \<ge> 64 then 0 else push_bit (nat shift) (cs_recv_bitmap s) AND max_sequence) OR 1,
           cs_recv_max := n\<rparr>)
      else s\<lparr>cs_recv_bitmap := cs_recv_bitmap s OR push_bit (nat (cs_recv_max s - n)) 1\<rparr>)"

definition stale_sequence :: "int \<Rightarrow> channel \<Rightarrow> bool" where
  "stale_sequence n s =
     (let distance = cs_recv_max s - n in
      n = 0 \<or> distance \<ge> 64 \<or> (distance \<ge> 0 \<and> cs_recv_bitmap s AND push_bit (nat distance) 1 \<noteq> 0))"

definition well_formed :: "bytes \<Rightarrow> bool" where
  "well_formed env = (length env \<ge> 25 \<and> length env \<le> max_message + 25 \<and> hd env = 1)"

definition sequence_of :: "bytes \<Rightarrow> int" where
  "sequence_of env = from_bytes (take 8 (drop 1 env))"

definition decrypt :: "unsealing \<Rightarrow> bytes \<Rightarrow> channel \<Rightarrow> channel_error + (channel \<times> bytes)" where
  "decrypt opens env s =
     (if \<not> well_formed env then Inl InvalidEnvelope
      else
        (let n = sequence_of env in
         if stale_sequence n s then Inl Replayed
         else
           (case opens (cs_recv_key s) (nonce_at (cs_recv_nonce s) n) (drop 9 env) of
              None \<Rightarrow> Inl InvalidTag
            | Some p \<Rightarrow> Inr (advanced n s, p))))"

section \<open>The handshake and the socket\<close>

definition decode_public_key :: "json \<Rightarrow> channel_error + bytes" where
  "decode_public_key v =
     (case v of
        JStr s \<Rightarrow>
          if length s \<noteq> 44 then Inl InvalidKey
          else (case b64decode s of
                  None \<Rightarrow> Inl InvalidKey
                | Some d \<Rightarrow> if length d \<noteq> 32 then Inl InvalidKey else Inr d)
      | _ \<Rightarrow> Inl InvalidKey)"

text \<open>
  The primitives of the handshake: \<open>kx_public\<close> of an ephemeral private key, \<open>kx_shared\<close> (refused for a
  point of small order), \<open>kx_sign\<close> of the long-term key, \<open>kx_derive\<close>.
\<close>

record crypto =
  kx_public :: "bytes \<Rightarrow> bytes"
  kx_shared :: "bytes \<Rightarrow> bytes \<Rightarrow> bytes option"
  kx_sign :: "bytes \<Rightarrow> bytes"
  kx_derive :: "bytes \<Rightarrow> bytes \<Rightarrow> bytes \<Rightarrow> bytes"

definition exchange_keys :: "crypto \<Rightarrow> bytes \<Rightarrow> json \<Rightarrow> channel_error + (json \<times> channel)" where
  "exchange_keys k ephemeral v =
     (if \<not> is_dict v then Inl InvalidExchange
      else
        (case decode_public_key (jfield ''agent_ephemeral_pub'' v) of
           Inl e \<Rightarrow> Inl e
         | Inr agent \<Rightarrow>
           (case kx_shared k ephemeral agent of
              None \<Rightarrow> Inl InvalidKey
            | Some shared \<Rightarrow>
                (let public = kx_public k ephemeral in
                 Inr (JObj [(''type'', JStr ''key_exchange_resp''),
                            (''payload'', JObj [(''master_ephemeral_pub'', JStr (b64encode public)),
                                                (''signature'', JStr (b64encode (kx_sign k public)))])],
                      new_channel (kx_derive k) shared agent public True)))))"

text \<open>A WebSocket message: text (in UTF-8), binary or the end of the connection.\<close>

datatype ws_message = TextMessage bytes | BinaryMessage bytes | Closed

record socket =
  so_session :: "channel option"
  so_sent :: "ws_message list"

definition receive_json ::
  "(bytes \<Rightarrow> json option) \<Rightarrow> unsealing \<Rightarrow> ws_message \<Rightarrow> socket \<Rightarrow> channel_error + (socket \<times> json)" where
  "receive_json loads opens m so =
     (let got = (case m of
          Closed \<Rightarrow> Inl Disconnected
        | TextMessage d \<Rightarrow>
            (case so_session so of Some s \<Rightarrow> Inl BinaryRequired | None \<Rightarrow> Inr (so, d))
        | BinaryMessage d \<Rightarrow>
            (case so_session so of
               None \<Rightarrow> Inl TextRequired
             | Some s \<Rightarrow> map_sum id (\<lambda>(s', p). (so\<lparr>so_session := Some s'\<rparr>, p)) (decrypt opens d s)))
      in case got of
           Inl e \<Rightarrow> Inl e
         | Inr (so', d) \<Rightarrow>
             if length d > max_message then Inl TooLarge
             else (case loads d of None \<Rightarrow> Inl NotJson | Some v \<Rightarrow> Inr (so', v)))"

definition send_json :: "(json \<Rightarrow> bytes) \<Rightarrow> sealing \<Rightarrow> json \<Rightarrow> socket \<Rightarrow> channel_error + socket" where
  "send_json dumps seal v so =
     (let d = dumps v in
      if length d > max_message then Inl TooLarge
      else
        (case so_session so of
           None \<Rightarrow> Inr (so\<lparr>so_sent := so_sent so @ [TextMessage d]\<rparr>)
         | Some s \<Rightarrow>
             map_sum id (\<lambda>(s', env). so\<lparr>so_session := Some s', so_sent := so_sent so @ [BinaryMessage env]\<rparr>)
               (encrypt seal d s)))"

text \<open>The first messages of a connection; \<open>identity\<close> is the long-term key, when configured.\<close>

definition authenticate_message ::
  "(bytes \<Rightarrow> json option) \<Rightarrow> (json \<Rightarrow> bytes) \<Rightarrow> sealing \<Rightarrow> unsealing \<Rightarrow> crypto option \<Rightarrow> bool \<Rightarrow> bytes \<Rightarrow>
   ws_message \<Rightarrow> ws_message \<Rightarrow> socket \<Rightarrow> channel_error + (socket \<times> json)" where
  "authenticate_message loads dumps seal opens identity require_encryption ephemeral m1 m2 so =
     (case receive_json loads opens m1 so of
        Inl e \<Rightarrow> Inl e
      | Inr (so1, v) \<Rightarrow>
          if is_dict v \<and> jfield ''type'' v = JStr ''key_exchange'' then
            (case identity of
               None \<Rightarrow> Inl NotConfigured
             | Some k \<Rightarrow>
               (case exchange_keys k ephemeral (jfield ''payload'' v) of
                  Inl e \<Rightarrow> Inl e
                | Inr (response, s) \<Rightarrow>
                  (case send_json dumps seal response so1 of
                     Inl e \<Rightarrow> Inl e
                   | Inr so2 \<Rightarrow> receive_json loads opens m2 (so2\<lparr>so_session := Some s\<rparr>))))
          else if require_encryption then Inl ExchangeRequired
          else Inr (so1, v))"

end
