(* ===== verification/Channel_Safety.thy ===== *)
theory Channel_Safety
  imports Secure_Channel "HOL-Library.Multiset"
begin

unbundle bit_operations_syntax

text \<open>
  What the encrypted channel guarantees: its 64-bit window accepts exactly what a receiver that
  remembers every number would; no nonce is used twice; over any network a message is delivered at
  most once and as it was sent; reordering within the window loses nothing.
\<close>

section \<open>Bytes and numbers\<close>

lemma from_bytes_snoc [simp]: "from_bytes (bs @ [b]) = from_bytes bs * 256 + uint b"
  by (simp add: from_bytes_def)

lemma from_bytes_Nil [simp]: "from_bytes [] = 0"
  by (simp add: from_bytes_def)

lemma from_bytes_bounds: "0 \<le> from_bytes bs \<and> from_bytes bs < 256 ^ length bs"
proof (induction bs rule: rev_induct)
  case (snoc b bs)
  have "uint b < 256" using uint_lt2p [of b] by simp
  then show ?case using snoc by simp
qed simp

lemma to_bytes_length [simp]: "length (to_bytes k n) = k"
  by (induction k arbitrary: n) simp_all

lemma from_to_bytes: "0 \<le> n \<Longrightarrow> n < 256 ^ k \<Longrightarrow> from_bytes (to_bytes k n) = n"
proof (induction k arbitrary: n)
  case (Suc k)
  have "n div 256 < 256 ^ k" "0 \<le> n div 256" using Suc.prems by (simp_all add: div_less_iff_less_mult pos_imp_zdiv_nonneg_iff)
  then have "from_bytes (to_bytes k (n div 256)) = n div 256" by (intro Suc.IH)
  then show ?case by (simp add: uint_word_of_int)
qed simp

lemma sequence_bounds: "0 \<le> sequence_of env"
  by (simp add: sequence_of_def from_bytes_bounds)

lemma xor_small:
  assumes "0 \<le> a" "a < 2 ^ n" "0 \<le> b" "b < 2 ^ n"
  shows "0 \<le> a XOR b \<and> a XOR b < (2::int) ^ n"
  using assms by (simp add: XOR_upper)

text \<open>The nonce of a number determines the number.\<close>

lemma nonce_inj:
  assumes "length base \<le> 12" and "0 \<le> a" "a \<le> max_sequence" and "0 \<le> b" "b \<le> max_sequence"
    and "nonce_at base a = nonce_at base b"
  shows "a = b"
proof -
  have base: "0 \<le> from_bytes base" "from_bytes base < 2 ^ 96"
  proof -
    have "from_bytes base < 256 ^ length base" using from_bytes_bounds by blast
    also have "\<dots> \<le> 256 ^ 12" using assms(1) by (intro power_increasing) simp_all
    finally show "from_bytes base < 2 ^ 96" by simp
  qed (simp add: from_bytes_bounds)
  have small: "0 \<le> from_bytes base XOR n \<and> from_bytes base XOR n < 256 ^ 12" if "0 \<le> n" "n \<le> max_sequence" for n
    using xor_small [of "from_bytes base" 96 n] base that by (simp add: max_sequence_def)
  have "from_bytes base XOR a = from_bytes base XOR b"
    using from_to_bytes small assms(2-6) unfolding nonce_at_def by metis
  then have "from_bytes base XOR (from_bytes base XOR a) = from_bytes base XOR (from_bytes base XOR b)" by simp
  then show ?thesis by (simp flip: xor.assoc)
qed

section \<open>The replay window\<close>

text \<open>The window of a channel that has accepted the numbers \<open>A\<close>.\<close>

definition tracks :: "int set \<Rightarrow> channel \<Rightarrow> bool" where
  "tracks A s \<longleftrightarrow> finite A \<and> A \<subseteq> {1..} \<and> cs_recv_max s = Max (insert 0 A) \<and>
     (\<forall>k < 64. bit (cs_recv_bitmap s) k \<longleftrightarrow> cs_recv_max s - int k \<in> A)"

definition fresh_sequence :: "int set \<Rightarrow> int \<Rightarrow> bool" where
  "fresh_sequence A n \<longleftrightarrow> 1 \<le> n \<and> n \<notin> A \<and> (\<forall>a \<in> A. a < n + 64)"

lemma tracks_new: "tracks {} (new_channel derive shared a m master)"
  by (simp add: tracks_def new_channel_def Let_def)

lemma max_sequence_mask: "max_sequence = mask 64"
  by (simp add: max_sequence_def mask_eq_exp_minus_1)

lemma tracks_max:
  assumes "tracks A s"
  shows "a \<in> A \<Longrightarrow> a \<le> cs_recv_max s" and "cs_recv_max s = 0 \<or> cs_recv_max s \<in> A" and "0 \<le> cs_recv_max s"
proof -
  have f: "finite (insert 0 A)" and m: "cs_recv_max s = Max (insert 0 A)" using assms by (simp_all add: tracks_def)
  show "a \<in> A \<Longrightarrow> a \<le> cs_recv_max s" using f m by simp
  show "cs_recv_max s = 0 \<or> cs_recv_max s \<in> A" using Max_in [OF f] m by auto
  show "0 \<le> cs_recv_max s" using f m by simp
qed

lemma stale_iff:
  assumes t: "tracks A s" and "0 \<le> n"
  shows "stale_sequence n s \<longleftrightarrow> \<not> fresh_sequence A n"
proof -
  let ?d = "cs_recv_max s - n"
  have far: "?d \<ge> 64 \<longleftrightarrow> \<not> (\<forall>a \<in> A. a < n + 64)" if "n \<ge> 1"
  proof
    assume "?d \<ge> 64"
    then have "cs_recv_max s \<in> A" using tracks_max(2) [OF t] that by auto
    then show "\<not> (\<forall>a \<in> A. a < n + 64)" using \<open>?d \<ge> 64\<close> by force
  next
    assume "\<not> (\<forall>a \<in> A. a < n + 64)"
    then obtain a where "a \<in> A" "a \<ge> n + 64" by (meson not_le)
    then show "?d \<ge> 64" using tracks_max(1) [OF t] by force
  qed
  have near: "(?d \<ge> 0 \<and> cs_recv_bitmap s AND push_bit (nat ?d) 1 \<noteq> 0) \<longleftrightarrow> n \<in> A" if "?d < 64"
  proof (cases "?d \<ge> 0")
    case True
    then have "bit (cs_recv_bitmap s) (nat ?d) \<longleftrightarrow> n \<in> A" using t that by (simp add: tracks_def)
    then show ?thesis using True by (simp add: bit_iff_and_push_bit_not_eq_0)
  next
    case False
    then show ?thesis using tracks_max(1) [OF t] by force
  qed
  show ?thesis
    using far near assms(2) unfolding stale_sequence_def fresh_sequence_def Let_def by (cases "n = 0") auto
qed

lemma bit_or_one: "bit (x OR 1) k \<longleftrightarrow> bit (x :: int) k \<or> k = 0"
  by (simp add: bit_or_iff bit_1_iff)

lemma shifted_bit:
  assumes "k < 64" and "shift \<ge> 0"
  shows "bit (if shift \<ge> 64 then 0 else push_bit (nat shift) b AND max_sequence) k \<longleftrightarrow> int k \<ge> shift \<and> bit b (k - nat shift)"
  using assms by (auto simp: bit_and_iff bit_push_bit_iff max_sequence_mask bit_mask_iff nat_le_iff)

lemma tracks_advanced:
  assumes t: "tracks A s" and n: "fresh_sequence A n"
  shows "tracks (insert n A) (advanced n s)"
proof (cases "n > cs_recv_max s")
  case True
  let ?shift = "n - cs_recv_max s" and ?s = "advanced n s"
  have m: "cs_recv_max ?s = n" using True by (simp add: advanced_def Let_def)
  have b: "cs_recv_bitmap ?s = (if ?shift \<ge> 64 then 0 else push_bit (nat ?shift) (cs_recv_bitmap s) AND max_sequence) OR 1"
    using True by (simp add: advanced_def Let_def)
  have "bit (cs_recv_bitmap ?s) k \<longleftrightarrow> n - int k \<in> insert n A" if k: "k < 64" for k
  proof (cases "int k \<ge> ?shift")
    case in_old: True
    have "bit (cs_recv_bitmap s) (k - nat ?shift) \<longleftrightarrow> cs_recv_max s - int (k - nat ?shift) \<in> A"
      using t k by (simp add: tracks_def)
    moreover have "cs_recv_max s - int (k - nat ?shift) = n - int k" using in_old True by simp
    moreover have "k \<noteq> 0" using in_old True by auto
    ultimately show ?thesis
      unfolding b bit_or_one using shifted_bit [OF k, of ?shift "cs_recv_bitmap s"] in_old True by simp
  next
    case False
    then have "n - int k \<notin> A" using tracks_max(1) [OF t] by force
    then show ?thesis
      unfolding b bit_or_one using shifted_bit [OF k, of ?shift "cs_recv_bitmap s"] False True by auto
  qed
  moreover have "Max (insert 0 (insert n A)) = n"
  proof (rule Max_eqI)
    show "finite (insert 0 (insert n A))" using t by (simp add: tracks_def)
    show "y \<le> n" if "y \<in> insert 0 (insert n A)" for y
      using that True tracks_max(1) [OF t, of y] tracks_max(3) [OF t] by auto
  qed simp
  ultimately show ?thesis using t n m by (simp add: tracks_def fresh_sequence_def)
next
  case False
  let ?s = "advanced n s" and ?d = "nat (cs_recv_max s - n)"
  have m: "cs_recv_max ?s = cs_recv_max s" and b: "cs_recv_bitmap ?s = cs_recv_bitmap s OR push_bit ?d 1"
    using False by (simp_all add: advanced_def)
  have "bit (cs_recv_bitmap ?s) k \<longleftrightarrow> cs_recv_max s - int k \<in> insert n A" if k: "k < 64" for k
  proof -
    have "bit (cs_recv_bitmap ?s) k \<longleftrightarrow> cs_recv_max s - int k \<in> A \<or> k = ?d"
      using t k by (auto simp: b bit_or_iff bit_exp_iff tracks_def)
    moreover have "k = ?d \<longleftrightarrow> cs_recv_max s - int k = n" using False by auto
    ultimately show ?thesis by blast
  qed
  moreover have "Max (insert 0 (insert n A)) = cs_recv_max s"
  proof -
    have "cs_recv_max s \<in> insert 0 (insert n A)" using tracks_max(2) [OF t] by auto
    moreover have "y \<le> cs_recv_max s" if "y \<in> insert 0 (insert n A)" for y
      using that False tracks_max(1) [OF t, of y] tracks_max(3) [OF t] by auto
    moreover have "finite (insert 0 (insert n A))" using t by (simp add: tracks_def)
    ultimately show ?thesis by (intro Max_eqI)
  qed
  ultimately show ?thesis using t n m by (simp add: tracks_def fresh_sequence_def)
qed

section \<open>Histories of a receiver\<close>

text \<open>What arrives, in order; a refused message leaves the session.\<close>

fun receive_step :: "unsealing \<Rightarrow> channel \<times> (int \<times> bytes) list \<Rightarrow> bytes \<Rightarrow> channel \<times> (int \<times> bytes) list" where
  "receive_step opens (s, got) env =
     (case decrypt opens env s of
        Inl e \<Rightarrow> (s, got)
      | Inr (s', p) \<Rightarrow> (s', got @ [(sequence_of env, p)]))"

definition receive_all :: "unsealing \<Rightarrow> channel \<Rightarrow> bytes list \<Rightarrow> (int \<times> bytes) list" where
  "receive_all opens s wire = snd (foldl (receive_step opens) (s, []) wire)"

text \<open>The specification remembers every number it has accepted.\<close>

definition ledger_step :: "unsealing \<Rightarrow> bytes \<Rightarrow> bytes \<Rightarrow> (int \<times> bytes) list \<Rightarrow> bytes \<Rightarrow> (int \<times> bytes) list" where
  "ledger_step opens key base got env =
     (if well_formed env \<and> fresh_sequence (fst ` set got) (sequence_of env) then
        (case opens key (nonce_at base (sequence_of env)) (drop 9 env) of
           Some p \<Rightarrow> got @ [(sequence_of env, p)]
         | None \<Rightarrow> got)
      else got)"

definition ledger_all :: "unsealing \<Rightarrow> bytes \<Rightarrow> bytes \<Rightarrow> bytes list \<Rightarrow> (int \<times> bytes) list" where
  "ledger_all opens key base wire = foldl (ledger_step opens key base) [] wire"

lemma advanced_keys [simp]:
  "cs_recv_key (advanced n s) = cs_recv_key s" "cs_recv_nonce (advanced n s) = cs_recv_nonce s"
  "cs_send_key (advanced n s) = cs_send_key s" "cs_send_nonce (advanced n s) = cs_send_nonce s"
  by (simp_all add: advanced_def Let_def)

lemma receive_step_spec:
  assumes "tracks (fst ` set got) s" and "receive_step opens (s, got) env = (s', got')"
  shows "got' = ledger_step opens (cs_recv_key s) (cs_recv_nonce s) got env \<and> tracks (fst ` set got') s' \<and>
    cs_recv_key s' = cs_recv_key s \<and> cs_recv_nonce s' = cs_recv_nonce s"
  using assms stale_iff [OF assms(1) sequence_bounds] tracks_advanced [OF assms(1)]
  by (auto simp: decrypt_def ledger_step_def Let_def split: if_splits option.splits)

lemma receive_fold:
  "tracks (fst ` set got) s \<Longrightarrow>
   snd (foldl (receive_step opens) (s, got) wire) =
   foldl (ledger_step opens (cs_recv_key s) (cs_recv_nonce s)) got wire"
proof (induction wire arbitrary: s got)
  case (Cons env wire)
  obtain s' got' where st: "receive_step opens (s, got) env = (s', got')" by force
  note spec = receive_step_spec [OF Cons.prems st]
  then have "snd (foldl (receive_step opens) (s', got') wire) =
      foldl (ledger_step opens (cs_recv_key s) (cs_recv_nonce s)) got' wire"
    using Cons.IH [of got' s'] by metis
  then show ?case using spec by (simp only: foldl_Cons st)
qed simp

text \<open>
  C6: The 64-bit window forgets nothing that matters. From a new session on, whatever arrives, the
  channel accepts exactly the messages that a receiver remembering every accepted number would: a
  well-formed envelope with a number above 0 that was never accepted and is less than 64 below every
  accepted one, whose tag is valid.
\<close>

theorem window_refines_ledger:
  "receive_all opens (new_channel derive shared a m master) wire =
   ledger_all opens (cs_recv_key (new_channel derive shared a m master))
     (cs_recv_nonce (new_channel derive shared a m master)) wire"
  using receive_fold [of "[]" "new_channel derive shared a m master" opens wire]
  by (simp add: receive_all_def ledger_all_def tracks_new)

section \<open>Histories of a sender\<close>

fun send_all :: "sealing \<Rightarrow> bytes list \<Rightarrow> channel \<Rightarrow> channel_error + (channel \<times> bytes list)" where
  "send_all seal [] s = Inr (s, [])"
| "send_all seal (p # ps) s =
     (case encrypt seal p s of
        Inl e \<Rightarrow> Inl e
      | Inr (s', env) \<Rightarrow> map_sum id (\<lambda>(s2, envs). (s2, env # envs)) (send_all seal ps s'))"

text \<open>The envelope of the message with a given number, and the pairs the cipher was used on.\<close>

definition envelope_of :: "sealing \<Rightarrow> channel \<Rightarrow> int \<Rightarrow> bytes \<Rightarrow> bytes" where
  "envelope_of seal s n p = [1] @ to_bytes 8 n @ seal (cs_send_key s) (nonce_at (cs_send_nonce s) n) p"

definition sealed_pairs :: "channel \<Rightarrow> bytes list \<Rightarrow> (bytes \<times> bytes) list" where
  "sealed_pairs s ps =
     map (\<lambda>i. (nonce_at (cs_send_nonce s) (cs_send_sequence s + 1 + int i), ps ! i)) [0..<length ps]"

lemma send_all_run:
  assumes "send_all seal ps s = Inr (s', envs)"
  shows "length envs = length ps \<and> (ps = [] \<or> cs_send_sequence s + int (length ps) \<le> max_sequence) \<and>
    (\<forall>i < length ps. length (ps ! i) \<le> max_message \<and> envs ! i = envelope_of seal s (cs_send_sequence s + 1 + int i) (ps ! i))"
  using assms
proof (induction ps arbitrary: s envs)
  case (Cons p ps)
  obtain s1 env envs' where e: "encrypt seal p s = Inr (s1, env)" and r: "send_all seal ps s1 = Inr (s', envs')"
    and envs: "envs = env # envs'"
    using Cons.prems by (auto simp: map_sum_eq_Inr split: sum.splits)
  have s1: "cs_send_sequence s1 = cs_send_sequence s + 1" "cs_send_key s1 = cs_send_key s" "cs_send_nonce s1 = cs_send_nonce s"
    "cs_send_sequence s < max_sequence" "length p \<le> max_message" "env = envelope_of seal s (cs_send_sequence s + 1) p"
    using e by (auto simp: encrypt_def envelope_of_def Let_def split: if_splits)
  note ih = Cons.IH [OF r]
  have "envs ! i = envelope_of seal s (cs_send_sequence s + 1 + int i) ((p # ps) ! i) \<and> length ((p # ps) ! i) \<le> max_message"
    if "i < length (p # ps)" for i
    using that ih s1 by (cases i) (simp_all add: envs envelope_of_def algebra_simps)
  then show ?case using ih s1 envs by auto
qed simp

text \<open>
  C33: No nonce is ever used twice. Whatever a new session seals, up to its limit of messages, the
  nonces given to the cipher are pairwise distinct; each is 12 bytes long and the number written in
  the envelope is read back as it was, so no number wraps in its 8 bytes.
\<close>

theorem nonces_never_repeat:
  assumes "send_all seal ps (new_channel derive shared a m master) = Inr (s', envs)"
  shows "distinct (map fst (sealed_pairs (new_channel derive shared a m master) ps)) \<and>
    (\<forall>i < length envs. sequence_of (envs ! i) = 1 + int i \<and> envs ! i = envelope_of seal (new_channel derive shared a m master) (1 + int i) (ps ! i))"
proof -
  let ?s = "new_channel derive shared a m master"
  note run = send_all_run [OF assms]
  have zero: "cs_send_sequence ?s = 0" and short: "length (cs_send_nonce ?s) \<le> 12"
    by (simp_all add: new_channel_def Let_def)
  have bound: "1 + int i \<le> max_sequence" if "i < length ps" for i using run zero that by auto
  have "inj_on (\<lambda>i. nonce_at (cs_send_nonce ?s) (1 + int i)) {0..<length ps}"
  proof (rule inj_onI)
    fix i j assume "i \<in> {0..<length ps}" "j \<in> {0..<length ps}"
      and eq: "nonce_at (cs_send_nonce ?s) (1 + int i) = nonce_at (cs_send_nonce ?s) (1 + int j)"
    then have "1 + int i \<le> max_sequence" "1 + int j \<le> max_sequence" using bound by simp_all
    then show "i = j" using nonce_inj [OF short _ _ _ _ eq] by simp
  qed
  then have "distinct (map fst (sealed_pairs ?s ps))"
    by (simp add: sealed_pairs_def zero distinct_map comp_def)
  moreover have "sequence_of (envs ! i) = 1 + int i" if "i < length envs" for i
    using run that bound [of i] from_to_bytes [of "1 + int i" 8]
    by (simp add: envelope_of_def sequence_of_def zero max_sequence_def)
  ultimately show ?thesis using run by (simp add: zero)
qed

section \<open>Over a network\<close>

text \<open>
  What AES-GCM promises under a key: sealing is undone by opening and adds a tag of 16 bytes; and, for
  a key held by the two ends only, whatever opens was sealed by the other end.
\<close>

definition aead :: "sealing \<Rightarrow> unsealing \<Rightarrow> bool" where
  "aead seal opens \<longleftrightarrow> (\<forall>k n p. opens k n (seal k n p) = Some p \<and> length (seal k n p) = length p + 16)"

definition only_sealed :: "unsealing \<Rightarrow> bytes \<Rightarrow> (bytes \<times> bytes) list \<Rightarrow> bool" where
  "only_sealed opens key pairs \<longleftrightarrow> (\<forall>n c p. opens key n c = Some p \<longrightarrow> (n, p) \<in> set pairs)"

lemma peers [simp]:
  "cs_recv_key (new_channel derive shared a m (\<not> master)) = cs_send_key (new_channel derive shared a m master)"
  "cs_recv_nonce (new_channel derive shared a m (\<not> master)) = cs_send_nonce (new_channel derive shared a m master)"
  by (simp_all add: new_channel_def Let_def)

lemma sequence_max: "sequence_of env \<le> max_sequence"
proof -
  have "from_bytes (take 8 (drop 1 env)) < 256 ^ length (take 8 (drop 1 env))" using from_bytes_bounds by blast
  also have "\<dots> \<le> (256::int) ^ 8" by (intro power_increasing) simp_all
  finally show ?thesis by (simp add: sequence_of_def max_sequence_def)
qed

lemma ledger_snoc: "ledger_all opens key base (wire @ [env]) = ledger_step opens key base (ledger_all opens key base wire) env"
  by (simp add: ledger_all_def)

lemma ledger_sound:
  "distinct (map fst (ledger_all opens key base wire)) \<and>
   (\<forall>(q, p) \<in> set (ledger_all opens key base wire). 1 \<le> q \<and> q \<le> max_sequence \<and> (\<exists>c. opens key (nonce_at base q) c = Some p))"
proof (induction wire rule: rev_induct)
  case (snoc env wire)
  then show ?case
    by (auto simp: ledger_snoc ledger_step_def fresh_sequence_def sequence_max split: option.splits)
qed (simp add: ledger_all_def)

lemma mset_nths:
  assumes "distinct idx" and "set idx \<subseteq> {..<length xs}"
  shows "mset (map (nth xs) idx) \<subseteq># mset xs"
proof -
  have "mset idx = mset_set (set idx)" using assms(1) by (simp add: mset_set_set)
  also have "\<dots> \<subseteq># mset_set {..<length xs}" using assms(2) by (intro subset_imp_msubset_mset_set) simp_all
  finally have "image_mset (nth xs) (mset idx) \<subseteq># image_mset (nth xs) (mset_set {..<length xs})"
    by (rule image_mset_subseteq_mono)
  moreover have "image_mset (nth xs) (mset_set {..<length xs}) = mset xs"
  proof -
    have "mset_set {..<length xs} = mset [0..<length xs]" by (simp add: lessThan_atLeast0)
    then show ?thesis by (simp only: mset_map [symmetric] map_nth)
  qed
  ultimately show ?thesis by simp
qed

text \<open>
  C15: At most once, and as sent. One end seals a list of messages; the network loses, repeats, reorders
  and invents at will; nobody else holds the key. Then what the other end accepts is a part of what
  was sent, no message more often than it was sent, and no number twice.
\<close>

theorem channel_delivers_at_most_once:
  assumes sent: "send_all seal ps (new_channel derive shared a m master) = Inr (s', envs)"
    and key: "only_sealed opens (cs_send_key (new_channel derive shared a m master))
      (sealed_pairs (new_channel derive shared a m master) ps)"
  shows "mset (map snd (receive_all opens (new_channel derive shared a m (\<not> master)) wire)) \<subseteq># mset ps \<and>
    distinct (map fst (receive_all opens (new_channel derive shared a m (\<not> master)) wire))"
proof -
  let ?s = "new_channel derive shared a m master"
  define got where "got = ledger_all opens (cs_send_key ?s) (cs_send_nonce ?s) wire"
  have zero: "cs_send_sequence ?s = 0" and short: "length (cs_send_nonce ?s) \<le> 12"
    by (simp_all add: new_channel_def Let_def)
  have dist: "distinct (map fst got)" using ledger_sound unfolding got_def by blast
  have from_sender: "nat (q - 1) < length ps \<and> p = ps ! nat (q - 1)" if in_got: "(q, p) \<in> set got" for q p
  proof -
    obtain c where q: "1 \<le> q" "q \<le> max_sequence" and c: "opens (cs_send_key ?s) (nonce_at (cs_send_nonce ?s) q) c = Some p"
      using ledger_sound in_got unfolding got_def by blast
    then have "(nonce_at (cs_send_nonce ?s) q, p) \<in> set (sealed_pairs ?s ps)"
      using key unfolding only_sealed_def by blast
    then obtain i where i: "i < length ps" "nonce_at (cs_send_nonce ?s) q = nonce_at (cs_send_nonce ?s) (1 + int i)" "p = ps ! i"
      by (auto simp: sealed_pairs_def zero)
    have "1 + int i \<le> max_sequence" using send_all_run [OF sent] i(1) zero by auto
    then have "q = 1 + int i" using nonce_inj [OF short _ q(2) _ _ i(2)] q(1) by simp
    then show ?thesis using i by simp
  qed
  define idx where "idx = map (\<lambda>(q, p). nat (q - 1)) got"
  have positive: "1 \<le> q" if "(q, p) \<in> set got" for q p using ledger_sound that unfolding got_def by blast
  have "distinct idx"
  proof -
    have "inj_on (\<lambda>q. nat (q - 1)) (set (map fst got))"
    proof (rule inj_onI)
      fix x y assume "x \<in> set (map fst got)" "y \<in> set (map fst got)" and eq: "nat (x - 1) = nat (y - 1)"
      then have "1 \<le> x" "1 \<le> y" using positive by auto
      then show "x = y" using eq by simp
    qed
    then show ?thesis using dist unfolding idx_def by (simp add: case_prod_beta distinct_map comp_inj_on_iff comp_def inj_on_def)
  qed
  moreover have "set idx \<subseteq> {..<length ps}" using from_sender by (auto simp: idx_def)
  moreover have "map snd got = map (nth ps) idx" using from_sender by (auto simp: idx_def)
  ultimately have "mset (map snd got) \<subseteq># mset ps" using mset_nths by simp
  then show ?thesis using dist by (simp add: window_refines_ledger got_def)
qed

text \<open>
  C19: Reordering within the window loses nothing. If the messages that arrive are distinct ones and
  none comes after one numbered 64 or more above it, the other end delivers all of them, as sent, in
  the order of arrival; in particular a channel that keeps the order is the identity.
\<close>

theorem window_delivers_all:
  assumes gcm: "aead seal opens"
    and sent: "send_all seal ps (new_channel derive shared a m master) = Inr (s', envs)"
    and idx: "distinct idx" "set idx \<subseteq> {..<length ps}"
    and close: "\<And>i j. i < j \<Longrightarrow> j < length idx \<Longrightarrow> idx ! i < idx ! j + 64"
  shows "receive_all opens (new_channel derive shared a m (\<not> master)) (map (nth envs) idx) =
    map (\<lambda>i. (1 + int i, ps ! i)) idx"
proof -
  let ?s = "new_channel derive shared a m master"
  note run = send_all_run [OF sent]
  have zero: "cs_send_sequence ?s = 0" by (simp add: new_channel_def Let_def)
  have "ledger_all opens (cs_send_key ?s) (cs_send_nonce ?s) (map (nth envs) idx) = map (\<lambda>i. (1 + int i, ps ! i)) idx"
    using idx close
  proof (induction idx rule: rev_induct)
    case (snoc i idx)
    have i: "i < length ps" "i \<notin> set idx" using snoc.prems by auto
    have near: "j < i + 64" if j: "j \<in> set idx" for j
    proof -
      obtain k where k: "k < length idx" "idx ! k = j" using j by (auto simp: in_set_conv_nth)
      then show ?thesis using snoc.prems(3) [of k "length idx"] by (simp add: nth_append)
    qed
    have ih: "ledger_all opens (cs_send_key ?s) (cs_send_nonce ?s) (map (nth envs) idx) = map (\<lambda>i. (1 + int i, ps ! i)) idx"
    proof (rule snoc.IH)
      fix u v assume "u < v" "v < length idx"
      then show "idx ! u < idx ! v + 64" using snoc.prems(3) [of u v] by (simp add: nth_append)
    qed (use snoc.prems in auto)
    have env: "envs ! i = envelope_of seal ?s (1 + int i) (ps ! i)" and small: "length (ps ! i) \<le> max_message"
      using run i(1) by (simp_all add: zero)
    have "1 + int i \<le> max_sequence" using run i(1) zero by auto
    then have number: "sequence_of (envs ! i) = 1 + int i"
      using from_to_bytes [of "1 + int i" 8] by (simp add: env envelope_of_def sequence_of_def max_sequence_def)
    have "well_formed (envs ! i)"
      using gcm small by (simp add: env envelope_of_def well_formed_def aead_def)
    moreover have "opens (cs_send_key ?s) (nonce_at (cs_send_nonce ?s) (1 + int i)) (drop 9 (envs ! i)) = Some (ps ! i)"
      using gcm by (simp add: env envelope_of_def aead_def)
    moreover have "fresh_sequence (fst ` set (map (\<lambda>i. (1 + int i, ps ! i)) idx)) (1 + int i)"
      using i(2) near by (force simp: fresh_sequence_def)
    ultimately show ?case by (simp add: ledger_snoc ih ledger_step_def number)
  qed (simp add: ledger_all_def)
  then show ?thesis by (simp add: window_refines_ledger)
qed

section \<open>Concrete ciphers\<close>

text \<open>A tag of sixteen zero bytes; and an opening that knows one message.\<close>

definition pad_seal :: sealing where
  "pad_seal key n p = p @ replicate 16 0"

definition pad_open :: unsealing where
  "pad_open key n c = (if length c < 16 then None else Some (take (length c - 16) c))"

definition one_open :: unsealing where
  "one_open key n c = (if n = nonce_at (replicate 12 0) 1 \<and> c = [7] @ replicate 16 0 then Some [7] else None)"

definition flat_derive :: "bytes \<Rightarrow> bytes \<Rightarrow> bytes \<Rightarrow> bytes" where
  "flat_derive shared salt info = replicate 88 0"

lemma pad_aead: "aead pad_seal pad_open"
  by (simp add: aead_def pad_seal_def pad_open_def)

lemma pad_sends:
  "case send_all pad_seal [[7], [8, 9]] (new_channel flat_derive [] [] [] True) of Inr (s', envs) \<Rightarrow> length envs = 2 | Inl e \<Rightarrow> False"
  "case send_all pad_seal [[7]] (new_channel flat_derive [] [] [] True) of Inr (s', envs) \<Rightarrow> envs = [[1, 0, 0, 0, 0, 0, 0, 0, 1, 7] @ replicate 16 0] | Inl e \<Rightarrow> False"
  by code_simp+

theorem nonces_never_repeat_witness:
  "distinct (map fst (sealed_pairs (new_channel flat_derive [] [] [] True) [[7], [8, 9]]))"
proof -
  obtain s' envs where "send_all pad_seal [[7], [8, 9]] (new_channel flat_derive [] [] [] True) = Inr (s', envs)"
    using pad_sends(1) by (auto split: sum.splits prod.splits)
  from nonces_never_repeat [OF this] show ?thesis by blast
qed

lemma one_message: "only_sealed one_open key (sealed_pairs (new_channel flat_derive [] [] [] True) [[7]])"
proof -
  have "sealed_pairs (new_channel flat_derive [] [] [] True) [[7]] = [(nonce_at (replicate 12 0) 1, [7])]"
    by (simp add: sealed_pairs_def new_channel_def Let_def flat_derive_def)
  then show ?thesis by (simp add: only_sealed_def one_open_def)
qed

definition replayed :: "bytes list" where
  "replayed = (let env = [1, 0, 0, 0, 0, 0, 0, 0, 1, 7] @ replicate 16 0 in [env, [], env])"

theorem channel_delivers_at_most_once_witness:
  "mset (map snd (receive_all one_open (new_channel flat_derive [] [] [] False) replayed)) \<subseteq># mset [[7]] \<and>
   receive_all one_open (new_channel flat_derive [] [] [] False) replayed = [(1, [7])]"
proof -
  obtain s' envs where "send_all pad_seal [[7]] (new_channel flat_derive [] [] [] True) = Inr (s', envs)"
    using pad_sends(2) by (auto split: sum.splits prod.splits)
  from channel_delivers_at_most_once [OF this one_message, of replayed]
  have "mset (map snd (receive_all one_open (new_channel flat_derive [] [] [] False) replayed)) \<subseteq># mset [[7]]" by simp
  moreover have "receive_all one_open (new_channel flat_derive [] [] [] False) replayed = [(1, [7])]" by code_simp
  ultimately show ?thesis by blast
qed

theorem window_delivers_all_witness:
  "\<exists>envs. receive_all pad_open (new_channel flat_derive [] [] [] False) (map (nth envs) [1, 0]) = [(2, [8, 9]), (1, [7])]"
proof -
  obtain s' envs where sent: "send_all pad_seal [[7], [8, 9]] (new_channel flat_derive [] [] [] True) = Inr (s', envs)"
    using pad_sends(1) by (auto split: sum.splits prod.splits)
  have "receive_all pad_open (new_channel flat_derive [] [] [] (\<not> True)) (map (nth envs) [1, 0]) =
      map (\<lambda>i. (1 + int i, [[7], [8, 9]] ! i)) [1, 0]"
    by (rule window_delivers_all [OF pad_aead sent]) (auto simp: less_Suc_eq)
  then show ?thesis by auto
qed

section \<open>The socket never falls back\<close>

text \<open>Once a session is set, only what the session decrypts is read and only what it encrypts is written.\<close>

lemma receive_encrypted:
  assumes "receive_json loads opens m so = Inr (so', v)" and "so_session so = Some s"
  shows "\<exists>env s' p. m = BinaryMessage env \<and> decrypt opens env s = Inr (s', p) \<and> so_session so' = Some s'"
  using assms by (auto simp: receive_json_def Let_def map_sum_eq_Inr split: ws_message.splits sum.splits if_splits option.splits)

lemma send_encrypted:
  assumes "send_json dumps seal v so = Inr so'" and "so_session so = Some s"
  shows "\<exists>env s'. so_sent so' = so_sent so @ [BinaryMessage env] \<and> encrypt seal (dumps v) s = Inr (s', env) \<and> so_session so' = Some s'"
  using assms by (auto simp: send_json_def Let_def map_sum_eq_Inr split: if_splits)

text \<open>
  No downgrade. When encryption is required and a connection is authenticated, the peer has done
  the key exchange with a valid public key, the first message returned to the handlers was opened by
  the session of that exchange, and the socket holds that session; a plain first message is refused.
\<close>

theorem authentication_is_encrypted:
  assumes run: "authenticate_message loads dumps seal opens identity True ephemeral m1 m2 \<lparr>so_session = None, so_sent = []\<rparr> = Inr (so', v)"
  shows "\<exists>k agent shared env s' p. identity = Some k \<and> length agent = 32 \<and> kx_shared k ephemeral agent = Some shared \<and>
    m2 = BinaryMessage env \<and>
    decrypt opens env (new_channel (kx_derive k) shared agent (kx_public k ephemeral) True) = Inr (s', p) \<and>
    so_session so' = Some s'"
proof -
  let ?so = "\<lparr>so_session = None, so_sent = []\<rparr>"
  obtain so1 v1 k response s so2 where x: "exchange_keys k ephemeral (jfield ''payload'' v1) = Inr (response, s)"
    and id: "identity = Some k" and m2: "receive_json loads opens m2 (so2\<lparr>so_session := Some s\<rparr>) = Inr (so', v)"
    using run by (auto simp: authenticate_message_def split: sum.splits if_splits option.splits)
  obtain agent shared where a: "decode_public_key (jfield ''agent_ephemeral_pub'' (jfield ''payload'' v1)) = Inr agent"
    "kx_shared k ephemeral agent = Some shared" "s = new_channel (kx_derive k) shared agent (kx_public k ephemeral) True"
    using x by (auto simp: exchange_keys_def Let_def split: if_splits sum.splits option.splits)
  have "length agent = 32" using a(1) by (auto simp: decode_public_key_def split: json.splits if_splits option.splits)
  moreover obtain env s' p where "m2 = BinaryMessage env" "decrypt opens env s = Inr (s', p)" "so_session so' = Some s'"
    using receive_encrypted [OF m2] by auto
  ultimately show ?thesis using id a(2,3) by blast
qed

text \<open>An agent with the key of 32 zero bytes.\<close>

definition toy_crypto :: crypto where
  "toy_crypto = \<lparr>kx_public = (\<lambda>e. e), kx_shared = (\<lambda>e a. Some a), kx_sign = (\<lambda>p. p), kx_derive = flat_derive\<rparr>"

definition toy_loads :: "bytes \<Rightarrow> json option" where
  "toy_loads d =
     (if d = [1] then Some (JObj [(''type'', JStr ''key_exchange''),
        (''payload'', JObj [(''agent_ephemeral_pub'', JStr (replicate 43 CHR ''A'' @ ''=''))])])
      else Some (JInt 5))"

definition toy_login :: "channel_error + (socket \<times> json)" where
  "toy_login = authenticate_message toy_loads (\<lambda>v. []) pad_seal pad_open (Some toy_crypto) True [] (TextMessage [1])
     (BinaryMessage ([1, 0, 0, 0, 0, 0, 0, 0, 1, 7] @ replicate 16 0)) \<lparr>so_session = None, so_sent = []\<rparr>"

lemma toy_login_run: "case toy_login of Inr (so', v) \<Rightarrow> v = JInt 5 | Inl e \<Rightarrow> False"
  by code_simp

theorem authentication_is_encrypted_witness:
  "case toy_login of Inr (so', v) \<Rightarrow> so_session so' \<noteq> None \<and> v = JInt 5 | Inl e \<Rightarrow> False"
proof -
  obtain so' where run: "toy_login = Inr (so', JInt 5)" using toy_login_run by (auto split: sum.splits)
  from authentication_is_encrypted [OF run [unfolded toy_login_def]] show ?thesis by (auto simp: run)
qed

section \<open>Public keys on the wire\<close>

lemma b64_char_value: "n < 64 \<Longrightarrow> b64_value (b64_char n) = n \<and> b64_char n \<in> set b64_alphabet"
proof -
  assume "n < 64"
  moreover have "list_all (\<lambda>n. b64_value (b64_char n) = n \<and> b64_char n \<in> set b64_alphabet) [0..<64]" by code_simp
  ultimately show ?thesis by (simp add: list_all_iff)
qed

lemma b64_pack_small: "\<forall>b \<in> set bs. b < 256 \<Longrightarrow> \<forall>d \<in> set (b64_pack bs). d < 64"
  by (induction bs rule: b64_pack.induct) auto

lemma b64_unpack_pack: "\<forall>b \<in> set bs. b < 256 \<Longrightarrow> b64_unpack (b64_pack bs) = bs"
  by (induction bs rule: b64_pack.induct) (auto simp: div_add1_eq)

lemma b64_pack_length: "length (b64_pack bs) mod 4 \<noteq> 1"
  by (induction bs rule: b64_pack.induct) auto

lemma b64_pack_size: "length (b64_pack bs) = 4 * (length bs div 3) + (if length bs mod 3 = 0 then 0 else Suc (length bs mod 3))"
proof (induction bs rule: b64_pack.induct)
  case (1 a b c xs)
  have "Suc (Suc (Suc (length xs))) div 3 = Suc (length xs div 3)" "Suc (Suc (Suc (length xs))) mod 3 = length xs mod 3"
    by presburger+
  then show ?case using 1 by simp
qed simp_all

lemma b64_round_trip: "b64decode (b64encode bs) = Some bs"
proof -
  define ds where "ds = b64_pack (map unat bs)"
  have "unat b < 256" for b :: "8 word" using unsigned_less [of b, where 'a = nat] by simp
  then have bytes: "\<forall>b \<in> set (map unat bs). b < 256" by auto
  have small: "\<forall>d \<in> set ds. d < 64" unfolding ds_def by (rule b64_pack_small [OF bytes])
  have alph: "\<forall>c \<in> set (map b64_char ds). c \<in> set b64_alphabet" using small b64_char_value by auto
  have pad: "\<forall>c \<in> set (b64_padding (length ds)). c \<notin> set b64_alphabet"
    by (simp add: b64_padding_def b64_alphabet_def)
  let ?pad = "b64_padding (length ds)" and ?in = "\<lambda>c. c \<in> set b64_alphabet"
  have enc: "b64encode bs = map b64_char ds @ ?pad" by (simp add: b64encode_def ds_def Let_def)
  have last_part: "takeWhile ?in ?pad = []" "dropWhile ?in ?pad = ?pad"
    using pad by (simp_all only: takeWhile_eq_Nil_iff dropWhile_eq_self_iff) (metis list.set_sel(1))+
  have "takeWhile ?in (map b64_char ds @ ?pad) = map b64_char ds @ takeWhile ?in ?pad"
    "dropWhile ?in (map b64_char ds @ ?pad) = dropWhile ?in ?pad"
    using alph by (blast intro: takeWhile_append2 dropWhile_append2)+
  then have body: "takeWhile ?in (b64encode bs) = map b64_char ds" "dropWhile ?in (b64encode bs) = ?pad"
    by (simp_all only: enc last_part append_Nil2)
  have "map b64_value (map b64_char ds) = ds" using small b64_char_value by (simp add: map_idI)
  moreover have "length ds mod 4 \<noteq> 1" unfolding ds_def by (rule b64_pack_length)
  moreover have "b64_unpack ds = map unat bs" unfolding ds_def by (rule b64_unpack_pack [OF bytes])
  ultimately show ?thesis by (simp add: b64decode_def body comp_def)
qed

text \<open>
  C39: A public key survives the wire: the base64 text that one end writes for a key of 32 bytes is
  accepted by the other end's \<open>decode_public_key\<close>, which returns the same key.
\<close>

theorem public_key_round_trip:
  assumes "length key = 32"
  shows "decode_public_key (JStr (b64encode key)) = Inr key"
proof -
  have "length (b64encode key) = 44"
    using assms by (simp add: b64encode_def b64_padding_def Let_def b64_pack_size)
  then show ?thesis using assms by (simp add: decode_public_key_def b64_round_trip)
qed

theorem public_key_round_trip_witness:
  "decode_public_key (JStr (b64encode (replicate 32 9))) = Inr (replicate 32 9)"
  by (rule public_key_round_trip) simp

end
