(* ===== verification/Agent_Access.thy ===== *)
theory Agent_Access
  imports Json
begin

text \<open>
  How an agent enforces subscription access on Xray: \<open>agent/app/open_node_agent/subscription_access.py\<close>
  with the client and routing editors of \<open>operations.py\<close>. A request names credentials by inbound and
  says which are enabled; the configuration is edited in memory, an inbound that would be left without
  credentials is taken out and its template kept in a journal, and only a complete, validated candidate
  is written. The configuration is JSON as the agent holds it. The external Xray validation, the check
  that protected records survive and the digest are parameters. A Python exception other than the
  agent's own is \<open>Crashed\<close>: the handler reports both as failures.
\<close>

datatype fault = Refused string | Crashed

section \<open>Credentials\<close>

definition secret_fields :: "(string \<times> string list) list" where
  "secret_fields = [(''vless'', [''id'']), (''vmess'', [''id'']), (''trojan'', [''password'']),
     (''shadowsocks'', [''password'']), (''hysteria'', [''auth'']), (''anytls'', [''password'']),
     (''snell'', [''psk'']), (''mieru'', [''username'', ''password'']), (''socks'', [''username'', ''password'']),
     (''socks5'', [''username'', ''password''])]"

definition fields_of :: "string \<Rightarrow> string list" where
  "fields_of p = (case map_of secret_fields p of Some fs \<Rightarrow> fs | None \<Rightarrow> [])"

definition field_alias :: "string \<Rightarrow> string" where
  "field_alias f = (if f = ''username'' then ''user'' else if f = ''password'' then ''pass'' else [])"

definition py_or :: "json \<Rightarrow> json \<Rightarrow> json" where
  "py_or a b = (if truthy a then a else b)"

definition client_value :: "json \<Rightarrow> string \<Rightarrow> json" where
  "client_value c f = py_or (jfield f c) (jfield (field_alias f) c)"

definition named_by_user :: "string \<Rightarrow> bool" where
  "named_by_user p = (p \<in> {''mieru'', ''socks'', ''socks5''})"

definition client_name :: "json \<Rightarrow> string \<Rightarrow> json" where
  "client_name c p =
     (if named_by_user p then py_or (py_or (jfield ''username'' c) (jfield ''user'' c)) (jfield ''email'' c)
      else py_or (jfield ''email'' c) (client_value c ''username''))"

definition secret :: "json \<Rightarrow> string \<Rightarrow> json list" where
  "secret c p = map (client_value c) (fields_of p)"

definition same_secret :: "json list \<Rightarrow> json list \<Rightarrow> bool" where
  "same_secret a b = json_eq (JArr a) (JArr b)"

section \<open>The request\<close>

record entry =
  en_tag :: string
  en_protocol :: string
  en_client :: json
  en_enabled :: bool
  en_routes :: "json list"
  en_limiter :: "json option"

definition filled_text :: "json \<Rightarrow> bool" where
  "filled_text v = (case v of JStr s \<Rightarrow> py_strip s \<noteq> [] | _ \<Rightarrow> False)"

definition route_ok :: "json \<Rightarrow> json \<Rightarrow> bool" where
  "route_ok client r =
     (case r of
        JObj kvs \<Rightarrow>
          list_all (\<lambda>(k, v). k \<in> {''marktag'', ''outbound_tag'', ''user_email''} \<and>
            (case v of JStr s \<Rightarrow> s \<noteq> [] | _ \<Rightarrow> False)) kvs \<and>
          jfield ''user_email'' r = jfield ''email'' client \<and>
          (truthy (jfield ''marktag'' r) \<or> truthy (jfield ''outbound_tag'' r))
      | _ \<Rightarrow> False)"

text \<open>The validator of an entry, after its fields have their types.\<close>

definition entry_ok :: "entry \<Rightarrow> bool" where
  "entry_ok e =
     (let c = en_client e; p = en_protocol e; name = client_name c p in
      length (en_tag e) \<ge> 1 \<and> length (en_tag e) \<le> 255 \<and> map_of secret_fields p \<noteq> None \<and> is_dict c \<and>
      filled_text name \<and>
      list_all (\<lambda>f. filled_text (if f = ''username'' \<and> named_by_user p then name else client_value c f)) (fields_of p) \<and>
      (case en_limiter e of None \<Rightarrow> True
       | Some l \<Rightarrow> jfield ''inbound_tag'' l = JStr (en_tag e) \<and>
           jfield ''email'' (jfield ''user'' l) = jfield ''email'' c) \<and>
      length (en_routes e) \<le> 100 \<and> list_all (route_ok c) (en_routes e))"

definition entry_name :: "entry \<Rightarrow> string \<times> json" where
  "entry_name e = (en_tag e, client_name (en_client e) (en_protocol e))"

definition request_ok :: "entry list \<Rightarrow> bool" where
  "request_ok es = (1 \<le> length es \<and> length es \<le> 1000 \<and> list_all entry_ok es \<and> distinct (map entry_name es))"

section \<open>Editing the configuration\<close>

definition container :: "string \<Rightarrow> string" where
  "container p =
     (if p = ''socks'' \<or> p = ''socks5'' then ''accounts''
      else if p \<in> {''anytls'', ''snell'', ''mieru''} then ''users'' else ''clients'')"

definition protocol_of :: "json \<Rightarrow> json" where
  "protocol_of i = jfield ''protocol'' i"

definition text_of :: "json \<Rightarrow> string" where
  "text_of v = (case v of JStr s \<Rightarrow> s | _ \<Rightarrow> [])"

text \<open>A list of dicts, or none.\<close>

definition dict_list :: "json \<Rightarrow> json list option" where
  "dict_list v = (case v of JArr xs \<Rightarrow> if list_all is_dict xs then Some xs else None | _ \<Rightarrow> None)"

definition clients_of :: "json \<Rightarrow> fault + json list" where
  "clients_of i =
     (let s = jget_or (JObj []) ''settings'' i in
      if \<not> is_dict s then Inl (Refused ''Access target has an invalid credential list'')
      else
        (case dict_list (jget_or (JArr []) (container (text_of (protocol_of i))) s) of
           None \<Rightarrow> Inl (Refused ''Access target has an invalid credential list'')
         | Some cs \<Rightarrow> Inr cs))"

text \<open>\<open>snell_options\<close>: the transport options of the first user, or of the settings.\<close>

definition snell_source :: "json \<Rightarrow> fault + json" where
  "snell_source s =
     (let users = jfield ''users'' s in
      if truthy users then
        (case users of JArr (u # us) \<Rightarrow> if is_dict u then Inr u else Inl Crashed | _ \<Rightarrow> Inl Crashed)
      else Inr s)"

definition snell_options :: "json \<Rightarrow> fault + json" where
  "snell_options s =
     (case snell_source s of
        Inl f \<Rightarrow> Inl f
      | Inr source \<Rightarrow>
          (let version = py_or (jfield ''version'' source) (JInt 4) in
           if version \<notin> {JInt 4, JInt 5, JInt 6}
           then Inl (Refused ''Snell user management supports versions 4, 5 and 6'')
           else if version = JInt 6 then
             (let mode = py_or (jfield ''v6Mode'' source) (JStr ''default'') in
              if mode \<notin> {JStr ''default'', JStr ''unshaped''}
              then Inl (Refused ''Snell user management requires an authenticated v6 mode'')
              else Inr (JObj [(''version'', version), (''v6Mode'', mode)]))
           else
             (let mode = py_or (jfield ''obfsMode'' source) (JStr ''none'');
                  host = py_or (jfield ''obfsHost'' source) (JStr [])
              in if mode \<notin> {JStr ''none'', JStr ''http'', JStr ''tls''}
                 then Inl (Refused ''Unsupported Snell obfuscation mode'')
                 else if (case host of JStr h \<Rightarrow> False | _ \<Rightarrow> True)
                 then Inl (Refused ''Snell obfuscation host must be text'')
                 else Inr (JObj [(''version'', version), (''obfsMode'', mode), (''obfsHost'', host)]))))"

text \<open>\<open>d.update(other)\<close>.\<close>

definition keys_of :: "json \<Rightarrow> string list" where
  "keys_of v = (case v of JObj kvs \<Rightarrow> map fst kvs | _ \<Rightarrow> [])"

definition jupdate :: "json \<Rightarrow> json \<Rightarrow> json" where
  "jupdate other d = foldl (\<lambda>d k. jput k (jfield k other) d) d (keys_of other)"

definition hashable :: "json \<Rightarrow> bool" where
  "hashable v = (case v of JArr _ \<Rightarrow> False | JObj _ \<Rightarrow> False | _ \<Rightarrow> True)"

definition skeleton :: "json \<Rightarrow> fault + json" where
  "skeleton i =
     (let p = text_of (protocol_of i); s = jget_or (JObj []) ''settings'' i in
      if jget ''protocol'' i = None \<or> \<not> hashable (protocol_of i) \<or> \<not> is_dict s then Inl Crashed
      else
        (case (if p = ''snell'' then map_sum id (\<lambda>opts. jupdate opts s) (snell_options s) else Inr s) of
           Inl f \<Rightarrow> Inl f
         | Inr s' \<Rightarrow> Inr (jput ''settings'' (jput (container p) (JArr []) s') i)))"

definition insert_at :: "nat \<Rightarrow> 'a \<Rightarrow> 'a list \<Rightarrow> 'a list" where
  "insert_at n x xs = take n xs @ x # drop n xs"

definition index_of :: "('a \<Rightarrow> bool) \<Rightarrow> 'a list \<Rightarrow> nat \<Rightarrow> nat" where
  "index_of P xs d = (if list_ex P xs then length (takeWhile (\<lambda>x. \<not> P x) xs) else d)"

definition email_is :: "json \<Rightarrow> json \<Rightarrow> bool" where
  "email_is client c = (jfield ''email'' c = jfield ''email'' client)"

definition ascii_lower :: "string \<Rightarrow> string" where
  "ascii_lower s = map (\<lambda>c. if 65 \<le> code c \<and> code c \<le> 90 then char_of (code c + 32) else c) s"

definition editable :: "string \<Rightarrow> bool" where
  "editable p = (map_of secret_fields p \<noteq> None)"

text \<open>Whether some user has other options than the first.\<close>

fun mixed_options :: "json \<Rightarrow> json list \<Rightarrow> fault + bool" where
  "mixed_options opts [] = Inr False"
| "mixed_options opts (c # cs) =
     (case snell_options (JObj [(''users'', JArr [c])]) of
        Inl f \<Rightarrow> Inl f
      | Inr o' \<Rightarrow> if \<not> json_eq o' opts then Inr True else mixed_options opts cs)"

definition snell_edit ::
  "json \<Rightarrow> json list \<Rightarrow> json list \<Rightarrow> json \<Rightarrow> bool \<Rightarrow> fault + (json \<times> json)" where
  "snell_edit s cs remaining client remove =
     (case snell_options s of
        Inl f \<Rightarrow> Inl f
      | Inr opts \<Rightarrow>
        (case mixed_options opts cs of
           Inl f \<Rightarrow> Inl f
         | Inr True \<Rightarrow> Inl (Refused ''Snell users must share the inbound's version and transport options'')
         | Inr False \<Rightarrow>
             if remove then Inr (opts, client)
             else
               (let merged = jupdate client opts in
                case snell_options (JObj [(''users'', JArr [merged])]) of
                  Inl f \<Rightarrow> Inl f
                | Inr candidate \<Rightarrow>
                    if remaining \<noteq> [] \<and> \<not> json_eq candidate opts
                    then Inl (Refused ''Changing one user's Snell options would change the whole inbound'')
                    else Inr (candidate, merged))))"

definition edit_client :: "json \<Rightarrow> bool \<Rightarrow> json \<Rightarrow> fault + json" where
  "edit_client client remove i =
     (let p = ascii_lower (text_of (protocol_of i)); box = container p; s = jget_or (JObj []) ''settings'' i;
          email = jfield ''email'' client
      in if \<not> editable p then Inl (Refused ''Client editing for this protocol is not implemented'')
         else if \<not> is_dict client \<or> text_of email = [] then Inl (Refused ''Client email is required'')
         else if \<not> is_dict s then Inl (Refused ''Inbound settings must be an object'')
         else
           (case dict_list (jget_or (JArr []) box s) of
              None \<Rightarrow> Inl (Refused ''settings must hold an array of user objects'')
            | Some cs \<Rightarrow>
                if box \<noteq> ''clients'' \<and> truthy (jfield ''clients'' s)
                then Inl (Refused ''This protocol does not use settings.clients'')
                else
                  (let remaining = filter (\<lambda>c. \<not> email_is client c) cs in
                   case (if p = ''snell'' then snell_edit s cs remaining client remove else Inr (JObj [], client)) of
                     Inl f \<Rightarrow> Inl f
                   | Inr (opts, replacement) \<Rightarrow>
                       (let cs' = (if remove then remaining
                                   else insert_at (min (index_of (email_is client) cs (length remaining)) (length remaining))
                                          replacement remaining)
                        in Inr (jput ''settings'' (jput box (JArr cs') (jupdate opts s)) i)))))"

text \<open>\<open>routing_rule\<close>: the position of the one rule selected.\<close>

definition rule_matches :: "json \<Rightarrow> json \<Rightarrow> bool" where
  "rule_matches route r =
     (if truthy (jfield ''marktag'' route) then json_eq (jfield ''marktag'' r) (jfield ''marktag'' route)
      else json_eq (jfield ''outboundTag'' r) (jfield ''outbound_tag'' route))"

definition routing_rule :: "json list \<Rightarrow> json \<Rightarrow> fault + nat" where
  "routing_rule rules route =
     (if \<not> truthy (jfield ''marktag'' route) \<and> \<not> truthy (jfield ''outbound_tag'' route)
      then Inl (Refused ''A rule marktag or outbound_tag is required'')
      else if \<not> list_all is_dict rules then Inl Crashed
      else
        (case filter (\<lambda>n. rule_matches route (rules ! n)) [0..<length rules] of
           [n] \<Rightarrow> Inr n
         | _ \<Rightarrow> Inl (Refused ''Routing selector must identify exactly one rule'')))"

text \<open>\<open>edit_routing\<close> with \<open>add_user_to_rule\<close>, after the target of the rule has been checked.\<close>

definition add_user_to_rule :: "json \<Rightarrow> json list \<Rightarrow> fault + json list" where
  "add_user_to_rule route rules =
     (case routing_rule rules route of
        Inl f \<Rightarrow> Inl f
      | Inr n \<Rightarrow>
          (let r = rules ! n in
           if truthy (jfield ''outbound_tag'' route) \<and> jfield ''outboundTag'' r \<noteq> jfield ''outbound_tag'' route
           then Inl (Refused ''Managed access routing target changed'')
           else if text_of (jfield ''user_email'' route) = [] then Inl (Refused ''User email is required'')
           else
             (let users = jget_or (JArr []) ''user'' r; email = text_of (jfield ''user_email'' route) in
              if json_in email users then Inr (rules[n := jput ''user'' users r])
              else
                (case users of
                   JArr us \<Rightarrow> Inr (rules[n := jput ''user'' (JArr (us @ [JStr email])) r])
                 | _ \<Rightarrow> Inl Crashed))))"

fun add_users :: "json list \<Rightarrow> json list \<Rightarrow> fault + json list" where
  "add_users [] rules = Inr rules"
| "add_users (r # rs) rules =
     (case add_user_to_rule r rules of Inl f \<Rightarrow> Inl f | Inr rules' \<Rightarrow> add_users rs rules')"

text \<open>The rules of a configuration, as the routing editors iterate over them.\<close>

definition rules_of :: "json \<Rightarrow> fault + json list" where
  "rules_of cfg =
     (let routing = jget_or (JObj []) ''routing'' cfg; rules = jget_or (JArr []) ''rules'' routing in
      if \<not> is_dict routing then Inl Crashed
      else (case rules of JArr rs \<Rightarrow> Inr rs | JObj _ \<Rightarrow> Inr (iterated rules) | JStr _ \<Rightarrow> Inr (iterated rules)
            | _ \<Rightarrow> Inl Crashed))"

definition route_users :: "json list \<Rightarrow> json \<Rightarrow> fault + json" where
  "route_users routes cfg =
     (if routes = [] then Inr cfg
      else
        (case rules_of cfg of
           Inl f \<Rightarrow> Inl f
         | Inr rules \<Rightarrow>
             (case add_users routes rules of
                Inl f \<Rightarrow> Inl f
              | Inr rules' \<Rightarrow>
                  Inr (jput ''routing'' (jput ''rules'' (JArr rules') (jget_or (JObj []) ''routing'' cfg)) cfg))))"

section \<open>The journal of suspended inbounds\<close>

text \<open>
  An entry of \<open>subscription_suspended_inbounds\<close> under its tag: an emptied inbound, the position it had,
  whether its removal is only prepared, and the digest of the configuration without it. \<open>load\<close> refuses
  a journal with an entry that is not \<open>suspension_ok\<close>.
\<close>

record suspension =
  su_tag :: string
  su_inbound :: json
  su_index :: nat
  su_prepared :: bool
  su_revision :: string

type_synonym journal = "suspension list"

definition suspension_ok :: "suspension \<Rightarrow> bool" where
  "suspension_ok r =
     (is_dict (su_inbound r) \<and> jfield ''tag'' (su_inbound r) = JStr (su_tag r) \<and>
      (case protocol_of (su_inbound r) of JStr p \<Rightarrow> map_of secret_fields p \<noteq> None | _ \<Rightarrow> False))"

text \<open>\<open>{**saved, **staged}\<close>.\<close>

definition merged :: "journal \<Rightarrow> journal \<Rightarrow> journal" where
  "merged saved staged = foldl (\<lambda>j r. tbl_put su_tag r j) saved staged"

section \<open>Preparing the candidate\<close>

text \<open>
  The targets are references to inbounds of the list that is edited in place. A tag that is a target
  stands for exactly one inbound, so the model refers to it by its tag.
\<close>

definition tag_is :: "string \<Rightarrow> json \<Rightarrow> bool" where
  "tag_is t i = (jfield ''tag'' i = JStr t)"

record resolution =
  rs_targets :: "(string \<times> string) list"
  rs_restoring :: "(nat \<times> json) list"

definition take_target :: "entry \<Rightarrow> json \<Rightarrow> resolution \<Rightarrow> fault + resolution" where
  "take_target e t r =
     (if protocol_of t \<noteq> JStr (en_protocol e) then Inl (Refused ''Access target protocol changed'')
      else Inr (r\<lparr>rs_targets := rs_targets r @ [(en_tag e, en_protocol e)]\<rparr>))"

definition resolve_entry ::
  "(json \<Rightarrow> string) \<Rightarrow> json \<Rightarrow> journal \<Rightarrow> json list \<Rightarrow> entry list \<Rightarrow> entry \<Rightarrow> resolution \<Rightarrow> fault + resolution" where
  "resolve_entry digest original saved inbs es e r =
     (case map_of (rs_targets r) (en_tag e) of
        Some p \<Rightarrow>
          if p \<noteq> en_protocol e then Inl (Refused ''Access entries disagree on the inbound protocol'') else Inr r
      | None \<Rightarrow>
          (case filter (tag_is (en_tag e)) inbs of
             [] \<Rightarrow>
               (case tbl_get su_tag (en_tag e) saved of
                  None \<Rightarrow>
                    if list_ex (\<lambda>x. en_enabled x \<and> en_tag x = en_tag e) es
                    then Inl (Refused ''Access target is missing and was not suspended by this Agent'')
                    else Inr r
                | Some su \<Rightarrow>
                    if su_prepared su \<and> su_revision su \<noteq> digest original
                    then Inl (Refused ''Interrupted listener suspension needs operator review'')
                    else take_target e (su_inbound su)
                           (r\<lparr>rs_restoring := rs_restoring r @ [(su_index su, su_inbound su)]\<rparr>))
           | [t] \<Rightarrow>
               (case tbl_get su_tag (en_tag e) saved of
                  None \<Rightarrow> take_target e t r
                | Some su \<Rightarrow>
                    (case skeleton t of
                       Inl f \<Rightarrow> Inl f
                     | Inr k \<Rightarrow>
                         if \<not> json_eq k (su_inbound su)
                         then Inl (Refused ''Suspended inbound was independently modified'')
                         else take_target e t r))
           | _ \<Rightarrow> Inl (Refused ''Access tag must identify exactly one inbound'')))"

fun resolve ::
  "(json \<Rightarrow> string) \<Rightarrow> json \<Rightarrow> journal \<Rightarrow> json list \<Rightarrow> entry list \<Rightarrow> entry list \<Rightarrow> resolution \<Rightarrow> fault + resolution" where
  "resolve digest original saved inbs es [] r = Inr r"
| "resolve digest original saved inbs es (e # rest) r =
     (case resolve_entry digest original saved inbs es e r of
        Inl f \<Rightarrow> Inl f
      | Inr r' \<Rightarrow> resolve digest original saved inbs es rest r')"

definition restore_inbounds :: "(nat \<times> json) list \<Rightarrow> json list \<Rightarrow> json list" where
  "restore_inbounds rs inbs =
     foldl (\<lambda>inbs (n, t). insert_at (min n (length inbs)) t inbs) inbs (sort_key fst rs)"

text \<open>The configuration being edited: its inbounds, the rest of it, and the limits collected.\<close>

record draft =
  dr_inbounds :: "json list"
  dr_config :: json
  dr_limits :: "json list"

definition set_inbound :: "string \<Rightarrow> json \<Rightarrow> json list \<Rightarrow> json list" where
  "set_inbound tag t inbs = map (\<lambda>i. if tag_is tag i then t else i) inbs"

definition found_clients :: "entry \<Rightarrow> json list \<Rightarrow> fault + json list" where
  "found_clients e cs =
     (if cs = [] then Inr []
      else
        (case jget ''email'' (en_client e) of
           None \<Rightarrow> Inl Crashed
         | Some v \<Rightarrow> Inr (filter (\<lambda>c. json_eq (jfield ''email'' c) v) cs)))"

definition entry_secret :: "entry \<Rightarrow> json list" where
  "entry_secret e = secret (en_client e) (en_protocol e)"

definition apply_entry :: "entry \<Rightarrow> draft \<Rightarrow> fault + draft" where
  "apply_entry e d =
     (case List.find (tag_is (en_tag e)) (dr_inbounds d) of
        None \<Rightarrow> Inr d
      | Some t \<Rightarrow>
          (case clients_of t of
             Inl f \<Rightarrow> Inl f
           | Inr cs \<Rightarrow>
               (case found_clients e cs of
                  Inl f \<Rightarrow> Inl f
                | Inr ms \<Rightarrow>
                    if length ms > 1 \<or> (ms \<noteq> [] \<and> \<not> same_secret (secret (hd ms) (en_protocol e)) (entry_secret e))
                    then Inl (Refused ''Access credential identity changed; no changes were applied'')
                    else if en_enabled e then
                      (case (if ms = [] then edit_client (en_client e) False t else Inr t) of
                         Inl f \<Rightarrow> Inl f
                       | Inr t' \<Rightarrow>
                           (case route_users (en_routes e) (dr_config d) of
                              Inl f \<Rightarrow> Inl f
                            | Inr cfg \<Rightarrow>
                                Inr (d\<lparr>dr_inbounds := set_inbound (en_tag e) t' (dr_inbounds d), dr_config := cfg,
                                       dr_limits := dr_limits d @ (case en_limiter e of None \<Rightarrow> [] | Some l \<Rightarrow> [l])\<rparr>)))
                    else if ms \<noteq> [] then
                      (case edit_client (en_client e) True t of
                         Inl f \<Rightarrow> Inl f
                       | Inr t' \<Rightarrow> Inr (d\<lparr>dr_inbounds := set_inbound (en_tag e) t' (dr_inbounds d)\<rparr>))
                    else Inr d)))"

fun apply_entries :: "entry list \<Rightarrow> draft \<Rightarrow> fault + draft" where
  "apply_entries [] d = Inr d"
| "apply_entries (e # es) d =
     (case apply_entry e d of Inl f \<Rightarrow> Inl f | Inr d' \<Rightarrow> apply_entries es d')"

text \<open>A revoked credential that another user of the inbound shares.\<close>

definition shares_secret :: "entry \<Rightarrow> json list \<Rightarrow> bool" where
  "shares_secret e cs = list_ex (\<lambda>c. same_secret (secret c (en_protocol e)) (entry_secret e)) cs"

fun check_revoked :: "entry list \<Rightarrow> json list \<Rightarrow> fault + unit" where
  "check_revoked [] inbs = Inr ()"
| "check_revoked (e # es) inbs =
     (case (if en_enabled e then None else List.find (tag_is (en_tag e)) inbs) of
        None \<Rightarrow> check_revoked es inbs
      | Some t \<Rightarrow>
          (case clients_of t of
             Inl f \<Rightarrow> Inl f
           | Inr cs \<Rightarrow>
               if shares_secret e cs then Inl (Refused ''Revoked credential is shared by another runtime user'')
               else check_revoked es inbs))"

record sweep =
  sw_staged :: journal
  sw_inbounds :: "json list"
  sw_suspended :: "string list"

definition drop_first :: "('a \<Rightarrow> bool) \<Rightarrow> 'a list \<Rightarrow> 'a list" where
  "drop_first P xs = takeWhile (\<lambda>x. \<not> P x) xs @ tl (dropWhile (\<lambda>x. \<not> P x) xs)"

text \<open>One target of the sweep; \<open>all\<close> is the list before any inbound is removed.\<close>

definition sweep_target :: "json list \<Rightarrow> string \<Rightarrow> sweep \<Rightarrow> fault + sweep" where
  "sweep_target all tag w =
     (case List.find (tag_is tag) all of
        None \<Rightarrow> Inl Crashed
      | Some t \<Rightarrow>
          (case clients_of t of
             Inl f \<Rightarrow> Inl f
           | Inr (c # cs) \<Rightarrow> Inr (w\<lparr>sw_staged := tbl_del su_tag tag (sw_staged w)\<rparr>)
           | Inr [] \<Rightarrow>
               (case skeleton t of
                  Inl f \<Rightarrow> Inl f
                | Inr k \<Rightarrow>
                    Inr (w\<lparr>sw_staged := tbl_put su_tag
                             \<lparr>su_tag = tag, su_inbound = k, su_index = index_of (tag_is tag) all 0,
                              su_prepared = True, su_revision = []\<rparr> (sw_staged w),
                           sw_inbounds := drop_first (tag_is tag) (sw_inbounds w),
                           sw_suspended := sw_suspended w @ [tag]\<rparr>))))"

fun sweep_targets :: "json list \<Rightarrow> string list \<Rightarrow> sweep \<Rightarrow> fault + sweep" where
  "sweep_targets all [] w = Inr w"
| "sweep_targets all (t # ts) w =
     (case sweep_target all t w of Inl f \<Rightarrow> Inl f | Inr w' \<Rightarrow> sweep_targets all ts w')"

definition stamp :: "string \<Rightarrow> string list \<Rightarrow> journal \<Rightarrow> journal" where
  "stamp revision tags j = tbl_upd (\<lambda>r. su_tag r \<in> set tags) (su_revision_update (\<lambda>_. revision)) j"

record plan =
  pl_original :: json
  pl_config :: json
  pl_saved :: journal
  pl_staged :: journal
  pl_suspended :: "string list"
  pl_limits :: "json list"

definition inbounds_of :: "json \<Rightarrow> json list option" where
  "inbounds_of cfg = dict_list (jget_or (JArr []) ''inbounds'' cfg)"

text \<open>
  \<open>_prepare_xray\<close>: \<open>preserved before after\<close> says that the protected records are the same and
  \<open>valid cfg\<close> is the verdict of Xray's own test.
\<close>

definition prepare ::
  "(json \<Rightarrow> string) \<Rightarrow> (json \<Rightarrow> json \<Rightarrow> bool) \<Rightarrow> (json \<Rightarrow> bool) \<Rightarrow> entry list \<Rightarrow> json \<Rightarrow> journal \<Rightarrow> fault + plan" where
  "prepare digest preserved valid es original saved =
     (case inbounds_of original of
        None \<Rightarrow> Inl (Refused ''Access configuration has invalid inbounds'')
      | Some inbs0 \<Rightarrow>
        if \<not> list_all suspension_ok saved then Inl (Refused ''Invalid suspended inbound journal'')
        else
        (case resolve digest original saved inbs0 es es \<lparr>rs_targets = [], rs_restoring = []\<rparr> of
           Inl f \<Rightarrow> Inl f
         | Inr r \<Rightarrow>
           (case apply_entries es \<lparr>dr_inbounds = restore_inbounds (rs_restoring r) inbs0,
                                   dr_config = jput ''inbounds'' (JArr inbs0) original, dr_limits = []\<rparr> of
              Inl f \<Rightarrow> Inl f
            | Inr d \<Rightarrow>
              (case check_revoked es (dr_inbounds d) of
                 Inl f \<Rightarrow> Inl f
               | Inr u \<Rightarrow>
                 if \<not> list_all (\<lambda>i. hashable (jfield ''tag'' i)) (dr_inbounds d) then Inl Crashed
                 else
                 (case sweep_targets (dr_inbounds d) (map fst (rs_targets r))
                         \<lparr>sw_staged = saved, sw_inbounds = dr_inbounds d, sw_suspended = []\<rparr> of
                    Inl f \<Rightarrow> Inl f
                  | Inr w \<Rightarrow>
                    (let config = jput ''inbounds'' (JArr (sw_inbounds w)) (dr_config d) in
                     if \<not> preserved original config
                     then Inl (Refused ''Managed egress entries must be changed through their workflow'')
                     else if \<not> valid config then Inl (Refused ''Xray validation failed before access changes'')
                     else Inr \<lparr>pl_original = original, pl_config = config, pl_saved = saved,
                               pl_staged = stamp (digest config) (sw_suspended w) (sw_staged w),
                               pl_suspended = sw_suspended w, pl_limits = dr_limits d\<rparr>))))))"

section \<open>Committing it\<close>

text \<open>
  What is on the agent's disk: the configuration Xray starts from and the journal. The commit returns
  every state the disk goes through, in order, and its result, so that a crash is a prefix of the
  trace. The world decides whether the limiter accepts the bindings, whether a journal can be saved,
  whether Xray restarts with a configuration (when it does not, \<open>Runtime.write\<close> restores the old
  file), and whether the file can be read back.
\<close>

record disk =
  dk_config :: json
  dk_journal :: journal

record world =
  wo_limiter :: "json list \<Rightarrow> bool"
  wo_save :: "journal \<Rightarrow> bool"
  wo_restart :: "json \<Rightarrow> bool"
  wo_read :: "json \<Rightarrow> json option"

text \<open>
  \<open>Runtime.write(config, restart=True, expected=old)\<close>: guarded by the content it replaces. When Xray
  does not restart the file goes back. The states of the disk, and whether the call returned.
\<close>

definition write_config :: "(json \<Rightarrow> bool) \<Rightarrow> world \<Rightarrow> json \<Rightarrow> json \<Rightarrow> disk \<Rightarrow> disk list \<times> bool" where
  "write_config valid wo old new dk =
     (if \<not> valid new \<or> \<not> json_eq (dk_config dk) old then ([], False)
      else if \<not> wo_restart wo new then ([dk\<lparr>dk_config := new\<rparr>, dk], False)
      else ([dk\<lparr>dk_config := new\<rparr>], True))"

text \<open>Reading the file back and comparing its protected records.\<close>

definition read_preserves :: "(json \<Rightarrow> json \<Rightarrow> bool) \<Rightarrow> world \<Rightarrow> json \<Rightarrow> disk \<Rightarrow> bool" where
  "read_preserves preserved wo before dk =
     (case wo_read wo (dk_config dk) of None \<Rightarrow> False | Some after \<Rightarrow> preserved before after)"

definition save_journal :: "world \<Rightarrow> journal \<Rightarrow> disk \<Rightarrow> disk option" where
  "save_journal wo j dk = (if wo_save wo j then Some (dk\<lparr>dk_journal := j\<rparr>) else None)"

definition after_save :: "world \<Rightarrow> journal \<Rightarrow> disk \<Rightarrow> disk list" where
  "after_save wo j dk = (case save_journal wo j dk of None \<Rightarrow> [] | Some dk' \<Rightarrow> [dk'])"

definition mark_suspended :: "string list \<Rightarrow> journal \<Rightarrow> journal" where
  "mark_suspended tags j = tbl_upd (\<lambda>r. su_tag r \<in> set tags) (su_prepared_update (\<lambda>_. False)) j"

text \<open>When the final journal cannot be saved: put the old configuration back.\<close>

definition roll_back ::
  "(json \<Rightarrow> json \<Rightarrow> bool) \<Rightarrow> (json \<Rightarrow> bool) \<Rightarrow> world \<Rightarrow> plan \<Rightarrow> disk \<Rightarrow> disk list" where
  "roll_back preserved valid wo pl dk =
     (if \<not> preserved (pl_config pl) (pl_original pl) then []
      else
        (case write_config valid wo (pl_config pl) (pl_original pl) dk of
           (trace, False) \<Rightarrow> trace
         | (trace, True) \<Rightarrow>
             trace @ (let dk' = dk\<lparr>dk_config := pl_original pl\<rparr> in
               if read_preserves preserved wo (pl_config pl) dk' then after_save wo (pl_saved pl) dk' else [])))"

definition commit_plan ::
  "(json \<Rightarrow> json \<Rightarrow> bool) \<Rightarrow> (json \<Rightarrow> bool) \<Rightarrow> world \<Rightarrow> plan \<Rightarrow> disk \<Rightarrow> disk list \<times> bool" where
  "commit_plan preserved valid wo pl dk =
     (if \<not> preserved (pl_original pl) (pl_config pl) \<or> \<not> wo_limiter wo (pl_limits pl) then ([], False)
      else
        (case save_journal wo (merged (pl_saved pl) (pl_staged pl)) dk of
           None \<Rightarrow> ([], False)
         | Some dk1 \<Rightarrow>
             (case write_config valid wo (pl_original pl) (pl_config pl) dk1 of
                (trace, False) \<Rightarrow> (dk1 # trace @ after_save wo (pl_saved pl) dk1, False)
              | (trace, True) \<Rightarrow>
                 (let dk2 = dk1\<lparr>dk_config := pl_config pl\<rparr> in
                  if \<not> read_preserves preserved wo (pl_original pl) dk2
                  then (dk1 # dk2 # after_save wo (pl_saved pl) dk2, False)
                  else
                    (case save_journal wo (mark_suspended (pl_suspended pl) (pl_staged pl)) dk2 of
                       Some dk3 \<Rightarrow> ([dk1, dk2, dk3], True)
                     | None \<Rightarrow> (dk1 # dk2 # roll_back preserved valid wo pl dk2, False))))))"

section \<open>The command\<close>

text \<open>The outcome \<open>_access_result\<close> reports: the revision and how many credentials were given each state.\<close>

record access_report =
  ar_revision :: string
  ar_enabled :: nat
  ar_disabled :: nat

definition access_report_of :: "string \<Rightarrow> entry list \<Rightarrow> access_report" where
  "access_report_of revision es =
     \<lparr>ar_revision = revision, ar_enabled = length (filter en_enabled es),
      ar_disabled = length (filter (\<lambda>e. \<not> en_enabled e) es)\<rparr>"

text \<open>
  \<open>apply\<close> on an agent without managed protocols; \<open>body\<close> is the JSON of the entries whose digest the
  request must carry, \<open>digest\<close> the \<open>revision\<close> function.
\<close>

definition apply_access ::
  "(json \<Rightarrow> string) \<Rightarrow> (json \<Rightarrow> json \<Rightarrow> bool) \<Rightarrow> (json \<Rightarrow> bool) \<Rightarrow> world \<Rightarrow> string \<Rightarrow> json \<Rightarrow> entry list \<Rightarrow> disk
    \<Rightarrow> disk list \<times> (fault + access_report)" where
  "apply_access digest preserved valid wo revision body es dk =
     (if \<not> request_ok es then ([], Inl (Refused ''Invalid subscription access payload''))
      else if digest body \<noteq> revision
      then ([], Inl (Refused ''Access revision does not match the requested entries''))
      else
        (case prepare digest preserved valid es (dk_config dk) (dk_journal dk) of
           Inl f \<Rightarrow> ([], Inl f)
         | Inr pl \<Rightarrow>
             (case commit_plan preserved valid wo pl dk of
                (trace, True) \<Rightarrow> (trace, Inr (access_report_of revision es))
              | (trace, False) \<Rightarrow> (trace, Inl (Refused ''Access changes were not applied'')))))"

end
