(* ===== verification/Agent_Access_Edits.thy ===== *)
theory Agent_Access_Edits
  imports Agent_Access "HOL-Library.Multiset"
begin

text \<open>
  What the credential editors do to one inbound: the JSON lemmas they rest on, the transport options
  Snell clients share, and \<open>entry_edit\<close>, the effect of an entry on the credential list of its inbound.
\<close>

section \<open>JSON objects\<close>

lemma is_dict_jput [simp]: "is_dict (jput k x v) = is_dict v"
  by (cases v) auto

lemma map_of_tbl_put: "map_of (tbl_put fst (k, x) kvs) k' = (if k' = k then Some x else map_of kvs k')"
  by (induction kvs) auto

lemma jget_jput: "is_dict v \<Longrightarrow> jget k' (jput k x v) = (if k' = k then Some x else jget k' v)"
  by (cases v) (auto simp: map_of_tbl_put)

lemma jfield_jput: "is_dict v \<Longrightarrow> jfield k' (jput k x v) = (if k' = k then x else jfield k' v)"
  by (simp add: jfield_def jget_or_def jget_jput)

lemma jget_or_jput: "is_dict v \<Longrightarrow> jget_or d k' (jput k x v) = (if k' = k then x else jget_or d k' v)"
  by (simp add: jget_or_def jget_jput)

lemma is_dict_puts: "is_dict (foldl (\<lambda>d k. jput k (f k) d) d ks) = is_dict d"
  by (induction ks arbitrary: d) auto

lemma is_dict_jupdate [simp]: "is_dict (jupdate other d) = is_dict d"
  by (simp add: jupdate_def is_dict_puts)

lemma jget_puts:
  "is_dict d \<Longrightarrow> jget k (foldl (\<lambda>d k. jput k (f k) d) d ks) = (if k \<in> set ks then Some (f k) else jget k d)"
  by (induction ks arbitrary: d) (auto simp: jget_jput)

lemma jget_jupdate:
  assumes "is_dict d"
  shows "jget k (jupdate other d) = (case jget k other of Some v \<Rightarrow> Some v | None \<Rightarrow> jget k d)"
proof (cases other)
  case (JObj kvs)
  have "k \<in> fst ` set kvs \<longleftrightarrow> map_of kvs k \<noteq> None"
    by (simp add: map_of_eq_None_iff)
  then show ?thesis
    using assms JObj
    by (cases "map_of kvs k") (simp_all add: jupdate_def jget_puts keys_of_def jfield_def jget_or_def)
qed (use assms in \<open>auto simp: jupdate_def keys_of_def\<close>)

lemma jfield_jupdate:
  "is_dict d \<Longrightarrow> jget k other \<noteq> None \<Longrightarrow> jfield k (jupdate other d) = jfield k other"
  by (auto simp: jfield_def jget_or_def jget_jupdate split: option.splits)

lemma jfield_jupdate_new:
  "is_dict d \<Longrightarrow> jget k d = None \<Longrightarrow> jfield k (jupdate other d) = jfield k other"
  by (auto simp: jfield_def jget_or_def jget_jupdate split: option.splits)

lemma jfield_None: "jget k v = None \<Longrightarrow> jfield k v = JNull"
  by (simp add: jfield_def jget_or_def)

section \<open>Editing one inbound\<close>

lemma protocol_lower:
  assumes "map_of secret_fields p \<noteq> None"
  shows "ascii_lower p = p"
proof -
  have "p \<in> set (map fst secret_fields)"
    using assms by (simp add: map_of_eq_None_iff)
  moreover have "list_all (\<lambda>p. ascii_lower p = p) (map fst secret_fields)"
    by code_simp
  ultimately show ?thesis
    unfolding list_all_iff by blast
qed

lemma set_insert_at [simp]: "set (insert_at n x xs) = insert x (set xs)"
proof -
  have "set (take n xs) \<union> set (drop n xs) = set xs"
    by (metis append_take_drop_id set_append)
  then show ?thesis
    by (auto simp: insert_at_def)
qed

lemma snell_options_keys:
  assumes "snell_options s = Inr opts"
  shows "is_dict opts \<and> set (keys_of opts) \<subseteq> {''version'', ''v6Mode'', ''obfsMode'', ''obfsHost''}"
  using assms by (auto simp: snell_options_def Let_def keys_of_def split: sum.splits if_splits json.splits)


lemma snell_options_other:
  assumes "snell_options s = Inr opts" "k \<notin> {''version'', ''v6Mode'', ''obfsMode'', ''obfsHost''}"
  shows "is_dict opts" "jget k opts = None"
proof -
  have "is_dict opts" "k \<notin> set (keys_of opts)"
    using snell_options_keys [OF assms(1)] assms(2) by blast+
  then show "is_dict opts" "jget k opts = None"
    by (cases opts; force simp: keys_of_def map_of_eq_None_iff)+
qed

text \<open>A client put into an inbound agrees with the one asked for on its email and its secret.\<close>

definition agrees :: "json \<Rightarrow> json \<Rightarrow> bool" where
  "agrees a b = (\<forall>k. k \<notin> {''version'', ''v6Mode'', ''obfsMode'', ''obfsHost''} \<longrightarrow> jfield k a = jfield k b)"

lemma agrees_refl [simp]: "agrees a a"
  by (simp add: agrees_def)

lemma agreesD:
  "agrees a b \<Longrightarrow> k \<notin> {''version'', ''v6Mode'', ''obfsMode'', ''obfsHost''} \<Longrightarrow> jfield k a = jfield k b"
  unfolding agrees_def by blast

lemma secret_field_names:
  assumes "f \<in> set (fields_of p)"
  shows "f \<in> {''id'', ''password'', ''auth'', ''psk'', ''username''}"
proof -
  obtain fs where "map_of secret_fields p = Some fs" and f: "f \<in> set fs"
    using assms by (cases "map_of secret_fields p") (auto simp: fields_of_def)
  then have "(p, fs) \<in> set secret_fields"
    by (simp add: map_of_SomeD)
  moreover have "list_all (\<lambda>(p, fs). list_all (\<lambda>f. f \<in> {''id'', ''password'', ''auth'', ''psk'', ''username''}) fs) secret_fields"
    by code_simp
  ultimately show ?thesis
    using f unfolding list_all_iff by blast
qed

lemma agrees_secret: "agrees a b \<Longrightarrow> secret a p = secret b p"
proof -
  assume a: "agrees a b"
  have "client_value a f = client_value b f" if "f \<in> set (fields_of p)" for f
  proof -
    have m: "f \<notin> {''version'', ''v6Mode'', ''obfsMode'', ''obfsHost''}"
      "field_alias f \<notin> {''version'', ''v6Mode'', ''obfsMode'', ''obfsHost''}"
      using secret_field_names [OF that] by (auto simp: field_alias_def)
    then show ?thesis
      by (simp only: client_value_def agreesD [OF a m(1)] agreesD [OF a m(2)])
  qed
  then show ?thesis
    by (simp add: secret_def)
qed

lemma agrees_email: "agrees a b \<Longrightarrow> jfield ''email'' a = jfield ''email'' b"
  by (simp add: agrees_def)

lemma agrees_jupdate: "snell_options s = Inr opts \<Longrightarrow> agrees (jupdate client opts) client"
  by (simp add: agrees_def snell_options_other jfield_jupdate_new)

lemma snell_edit_agrees:
  assumes "snell_edit s cs remaining client remove = Inr (opts, r)" "is_dict client"
  shows "agrees r client \<and> is_dict r"
proof -
  obtain o1 where o1: "snell_options s = Inr o1"
    using assms by (cases "snell_options s") (simp_all add: snell_edit_def)
  obtain m where m: "mixed_options o1 cs = Inr m"
    using assms by (cases "mixed_options o1 cs") (simp_all add: snell_edit_def o1)
  have no: "\<not> m"
    using assms by (cases m) (simp_all add: snell_edit_def o1 m)
  show ?thesis
  proof (cases remove)
    case True
    then have "r = client"
      using assms no by (simp add: snell_edit_def o1 m)
    then show ?thesis
      using assms(2) by simp
  next
    case False
    obtain o2 where o2: "snell_options (JObj [(''users'', JArr [jupdate client o1])]) = Inr o2"
      using assms no False
      by (cases "snell_options (JObj [(''users'', JArr [jupdate client o1])])") (simp_all add: snell_edit_def o1 m Let_def)
    then have "r = jupdate client o1"
      using assms no False by (simp add: snell_edit_def o1 m Let_def split: if_splits)
    then show ?thesis
      using agrees_jupdate [OF o1] snell_options_keys [OF o1] by simp
  qed
qed

text \<open>What an edit does to the credential list, with everything else of the inbound the same.\<close>

lemma edit_client_cases:
  assumes "edit_client client remove i = Inr i'" "is_dict i" "protocol_of i = JStr p" "map_of secret_fields p \<noteq> None"
  obtains cs cs' where "clients_of i = Inr cs" "clients_of i' = Inr cs'" "is_dict i'"
    "\<And>k. k \<noteq> ''settings'' \<Longrightarrow> jfield k i' = jfield k i"
    "remove \<Longrightarrow> cs' = filter (\<lambda>c. \<not> email_is client c) cs"
    "\<not> remove \<Longrightarrow> \<exists>n r. agrees r client \<and> cs' = insert_at n r (filter (\<lambda>c. \<not> email_is client c) cs)"
    "\<exists>s. jfield ''email'' client = JStr s \<and> s \<noteq> []"
proof -
  let ?s = "jget_or (JObj []) ''settings'' i"
  have pl: "ascii_lower p = p" "text_of (protocol_of i) = p"
    using assms(3,4) by (simp_all add: protocol_lower text_of_def)
  have em: "is_dict client" "text_of (jfield ''email'' client) \<noteq> []" "is_dict ?s"
    using assms(1) by (auto simp: edit_client_def Let_def pl split: if_splits)
  have ed: "editable p"
    using assms(4) by (simp add: editable_def)
  obtain cs where cs: "dict_list (jget_or (JArr []) (container p) ?s) = Some cs"
    using assms(1) em ed
    by (cases "dict_list (jget_or (JArr []) (container p) ?s)") (simp_all add: edit_client_def Let_def pl)
  have nocl: "\<not> (container p \<noteq> ''clients'' \<and> truthy (jfield ''clients'' ?s))"
    using assms(1) em ed cs by (auto simp: edit_client_def Let_def pl split: if_splits)
  let ?rem = "filter (\<lambda>c. \<not> email_is client c) cs"
  let ?e = "if p = ''snell'' then snell_edit ?s cs ?rem client remove else Inr (JObj [], client)"
  obtain opts r where e: "?e = Inr (opts, r)"
    using assms(1) em cs ed nocl by (cases ?e) (auto simp: edit_client_def Let_def pl)
  have ag: "agrees r client" "is_dict r"
    using e snell_edit_agrees em(1) by (cases "p = ''snell''"; force)+
  define cs' where "cs' = (if remove then ?rem
    else insert_at (min (index_of (email_is client) cs (length ?rem)) (length ?rem)) r ?rem)"
  have i': "i' = jput ''settings'' (jput (container p) (JArr cs') (jupdate opts ?s)) i"
    using assms(1) em cs ed nocl e by (simp add: edit_client_def Let_def pl cs'_def)
  have rem: "list_all is_dict cs"
    using cs by (auto simp: dict_list_def split: json.splits if_splits)
  show thesis
  proof (rule that)
    show "clients_of i = Inr cs"
      using em cs by (simp add: clients_of_def pl)
    have "list_all is_dict cs'"
      using rem ag(2) by (auto simp: cs'_def list_all_iff)
    moreover have "jget_or (JObj []) ''settings'' i' = jput (container p) (JArr cs') (jupdate opts ?s)"
      by (simp add: i' jget_or_jput assms(2))
    moreover have "protocol_of i' = JStr p"
      using assms(3) by (simp add: i' protocol_of_def jfield_jput assms(2))
    ultimately show "clients_of i' = Inr cs'"
      by (simp add: clients_of_def jget_or_jput em(3) dict_list_def text_of_def)
    show "is_dict i'"
      by (simp add: i' assms(2))
    show "jfield k i' = jfield k i" if "k \<noteq> ''settings''" for k
      using that by (simp add: i' jfield_jput assms(2))
    show "remove \<Longrightarrow> cs' = filter (\<lambda>c. \<not> email_is client c) cs"
      by (simp add: cs'_def)
    show "\<not> remove \<Longrightarrow> \<exists>n r. agrees r client \<and> cs' = insert_at n r (filter (\<lambda>c. \<not> email_is client c) cs)"
      using ag by (auto simp: cs'_def)
    show "\<exists>s. jfield ''email'' client = JStr s \<and> s \<noteq> []"
      using em(2) by (auto simp: text_of_def split: json.splits)
  qed
qed

lemma edit_client_add:
  assumes "edit_client client False i = Inr i'" "is_dict i" "protocol_of i = JStr p" "map_of secret_fields p \<noteq> None"
  shows "\<exists>cs n r s. clients_of i = Inr cs \<and> clients_of i' = Inr (insert_at n r (filter (\<lambda>c. \<not> email_is client c) cs)) \<and>
    is_dict i' \<and> (\<forall>k. k \<noteq> ''settings'' \<longrightarrow> jfield k i' = jfield k i) \<and> agrees r client \<and> jfield ''email'' client = JStr s"
proof (rule edit_client_cases [OF assms])
  fix cs cs'
  assume c: "clients_of i = Inr cs" "clients_of i' = Inr cs'" "is_dict i'"
    "\<And>k. k \<noteq> ''settings'' \<Longrightarrow> jfield k i' = jfield k i"
    "\<not> False \<Longrightarrow> \<exists>n r. agrees r client \<and> cs' = insert_at n r (filter (\<lambda>c. \<not> email_is client c) cs)"
    "\<exists>s. jfield ''email'' client = JStr s \<and> s \<noteq> []"
  obtain n r where r: "agrees r client" "cs' = insert_at n r (filter (\<lambda>c. \<not> email_is client c) cs)"
    using c(5) by auto
  show ?thesis
    using c(6) c(1) c(2) [unfolded r(2)] c(3,4) r(1) by (elim exE conjE) (intro exI conjI; simp)
qed

lemma edit_client_remove:
  assumes "edit_client client True i = Inr i'" "is_dict i" "protocol_of i = JStr p" "map_of secret_fields p \<noteq> None"
  shows "\<exists>cs s. clients_of i = Inr cs \<and> clients_of i' = Inr (filter (\<lambda>c. \<not> email_is client c) cs) \<and>
    is_dict i' \<and> (\<forall>k. k \<noteq> ''settings'' \<longrightarrow> jfield k i' = jfield k i) \<and> jfield ''email'' client = JStr s \<and> s \<noteq> []"
proof (rule edit_client_cases [OF assms])
  fix cs cs'
  assume c: "clients_of i = Inr cs" "clients_of i' = Inr cs'" "is_dict i'"
    "\<And>k. k \<noteq> ''settings'' \<Longrightarrow> jfield k i' = jfield k i"
    "True \<Longrightarrow> cs' = filter (\<lambda>c. \<not> email_is client c) cs"
    "\<exists>s. jfield ''email'' client = JStr s \<and> s \<noteq> []"
  show ?thesis
    using c(6) c(1) c(2) [unfolded c(5) [OF TrueI]] c(3,4) by (elim exE conjE) (intro exI conjI; simp)
qed

section \<open>One entry\<close>

definition same_email :: "entry \<Rightarrow> json \<Rightarrow> bool" where
  "same_email e c = json_eq (jfield ''email'' c) (jfield ''email'' (en_client e))"

definition matches_secret :: "entry \<Rightarrow> json \<Rightarrow> bool" where
  "matches_secret e c = same_secret (secret c (en_protocol e)) (entry_secret e)"

lemma json_eq_sym: "json_eq a b \<Longrightarrow> json_eq b a"
  by (simp add: json_eq_def)

lemma json_eq_trans: "json_eq a b \<Longrightarrow> json_eq b c \<Longrightarrow> json_eq a c"
  by (simp add: json_eq_def)

lemma json_eq_JStr [simp]: "json_eq v (JStr s) \<longleftrightarrow> v = JStr s" "json_eq (JStr s) v \<longleftrightarrow> v = JStr s"
  by (cases v; auto simp: json_eq_def)+

lemma found_clients_filter:
  assumes "found_clients e cs = Inr ms"
  shows "ms = filter (same_email e) cs"
proof (cases "cs = []")
  case True
  then show ?thesis
    using assms by (simp add: found_clients_def)
next
  case False
  then obtain v where v: "jget ''email'' (en_client e) = Some v"
    using assms by (cases "jget ''email'' (en_client e)") (simp_all add: found_clients_def)
  then have "jfield ''email'' (en_client e) = v"
    by (simp add: jfield_def jget_or_def)
  then show ?thesis
    using assms False v by (simp add: found_clients_def same_email_def [abs_def])
qed

text \<open>What applying an entry does to the credentials of its inbound.\<close>

definition entry_edit :: "entry \<Rightarrow> json list \<Rightarrow> json list \<Rightarrow> bool" where
  "entry_edit e cs cs' =
     (if en_enabled e then
        (\<exists>c. filter (same_email e) cs = [c] \<and> matches_secret e c \<and> cs' = cs) \<or>
        (filter (same_email e) cs = [] \<and> (\<exists>n r. agrees r (en_client e) \<and> cs' = insert_at n r cs))
      else
        (filter (same_email e) cs = [] \<and> cs' = cs) \<or>
        (\<exists>c s. filter (same_email e) cs = [c] \<and> matches_secret e c \<and> jfield ''email'' (en_client e) = JStr s \<and>
           s \<noteq> [] \<and> cs' = filter (\<lambda>c. \<not> same_email e c) cs))"

lemma find_filter: "List.find P xs = (case filter P xs of [] \<Rightarrow> None | x # _ \<Rightarrow> Some x)"
  by (induction xs) auto

lemma filter_set_inbound:
  "tag_is t t' \<Longrightarrow>
   filter (tag_is s) (set_inbound t t' inbs) =
     (if s = t then map (\<lambda>_. t') (filter (tag_is t) inbs) else filter (tag_is s) inbs)"
  by (induction inbs) (auto simp: set_inbound_def tag_is_def)

lemma set_inbound_same: "filter (tag_is t) inbs = [i] \<Longrightarrow> set_inbound t i inbs = inbs"
proof -
  assume a: "filter (tag_is t) inbs = [i]"
  have "j = i" if "j \<in> set inbs" "tag_is t j" for j
  proof -
    have "j \<in> set (filter (tag_is t) inbs)"
      using that by simp
    then show ?thesis
      by (simp add: a)
  qed
  then show ?thesis
    by (auto simp: set_inbound_def intro: map_idI)
qed

lemma email_is_same: "jfield ''email'' (en_client e) = JStr s \<Longrightarrow> email_is (en_client e) c = same_email e c"
  by (simp add: email_is_def same_email_def)

lemma apply_entry_target:
  assumes "apply_entry e d = Inr d'" "filter (tag_is (en_tag e)) (dr_inbounds d) = [i]"
    "protocol_of i = JStr (en_protocol e)" "is_dict i" "map_of secret_fields (en_protocol e) \<noteq> None"
  obtains i' cs cs' where "dr_inbounds d' = set_inbound (en_tag e) i' (dr_inbounds d)" "is_dict i'"
    "tag_is (en_tag e) i'" "protocol_of i' = JStr (en_protocol e)"
    "clients_of i = Inr cs" "clients_of i' = Inr cs'" "entry_edit e cs cs'"
proof -
  have ti: "tag_is (en_tag e) i"
    using assms(2) by (metis list.set_intros(1) mem_Collect_eq set_filter)
  have f: "List.find (tag_is (en_tag e)) (dr_inbounds d) = Some i"
    by (simp add: find_filter assms(2))
  obtain cs where cs: "clients_of i = Inr cs"
    using assms(1) by (cases "clients_of i") (simp_all add: apply_entry_def f)
  obtain ms where ms: "found_clients e cs = Inr ms"
    using assms(1) by (cases "found_clients e cs") (simp_all add: apply_entry_def f cs)
  have fm: "filter (same_email e) cs = ms"
    using found_clients_filter [OF ms] by simp
  have ok: "\<not> (length ms > 1 \<or> (ms \<noteq> [] \<and> \<not> same_secret (secret (hd ms) (en_protocol e)) (entry_secret e)))"
    using assms(1) by (auto simp: apply_entry_def f cs ms split: if_splits)
  have one: "\<exists>c. ms = [c] \<and> matches_secret e c" if "ms \<noteq> []"
    using ok that by (cases ms) (auto simp: matches_secret_def)
  show thesis
  proof (cases "en_enabled e")
    case True
    let ?t = "if ms = [] then edit_client (en_client e) False i else Inr i"
    obtain t' where t': "?t = Inr t'"
      using assms(1) ok True by (cases ?t) (auto simp: apply_entry_def f cs ms split: if_splits)
    then have d': "dr_inbounds d' = set_inbound (en_tag e) t' (dr_inbounds d)"
      using assms(1) ok True by (auto simp: apply_entry_def f cs ms split: sum.splits)
    show thesis
    proof (cases "ms = []")
      case ms0: True
      then have "edit_client (en_client e) False i = Inr t'"
        using t' by simp
      from edit_client_add [OF this assms(4,3,5)] obtain cs1 n r s where
        c: "clients_of i = Inr cs1" "clients_of t' = Inr (insert_at n r (filter (\<lambda>c. \<not> email_is (en_client e) c) cs1))"
          "is_dict t'" "\<forall>k. k \<noteq> ''settings'' \<longrightarrow> jfield k t' = jfield k i" "agrees r (en_client e)"
          "jfield ''email'' (en_client e) = JStr s"
        by blast
      have "filter (\<lambda>c. \<not> email_is (en_client e) c) cs1 = cs"
        using c(1) cs fm ms0 by (auto simp: email_is_same [OF c(6)] filter_empty_conv intro: filter_True)
      then have "clients_of t' = Inr (insert_at n r cs)"
        using c(1,2) cs by simp
      moreover have "entry_edit e cs (insert_at n r cs)"
        using True ms0 fm c(5) by (auto simp: entry_edit_def)
      ultimately show thesis
        using that [OF d' c(3) _ _ cs] c(4) assms(3) ti by (simp add: tag_is_def protocol_of_def)
    next
      case ms1: False
      then have "t' = i"
        using t' by simp
      moreover have "entry_edit e cs cs"
        using True one [OF ms1] fm by (auto simp: entry_edit_def)
      ultimately show thesis
        using that d' assms(4,3) ti cs by simp
    qed
  next
    case False
    show thesis
    proof (cases "ms = []")
      case True
      then have "d' = d"
        using assms(1) ok False by (simp add: apply_entry_def f cs ms)
      moreover have "entry_edit e cs cs"
        using False True fm by (simp add: entry_edit_def)
      ultimately show thesis
        using that [of i cs cs] set_inbound_same [OF assms(2)] assms(4,3) ti cs by simp
    next
      case ms1: False
      obtain t' where t': "edit_client (en_client e) True i = Inr t'"
        using assms(1) ok False ms1 by (cases "edit_client (en_client e) True i") (simp_all add: apply_entry_def f cs ms)
      then have d': "dr_inbounds d' = set_inbound (en_tag e) t' (dr_inbounds d)"
        using assms(1) ok False ms1 by (auto simp: apply_entry_def f cs ms)
      from edit_client_remove [OF t' assms(4,3,5)] obtain cs1 s where
        c: "clients_of i = Inr cs1" "clients_of t' = Inr (filter (\<lambda>c. \<not> email_is (en_client e) c) cs1)" "is_dict t'"
          "\<forall>k. k \<noteq> ''settings'' \<longrightarrow> jfield k t' = jfield k i" "jfield ''email'' (en_client e) = JStr s" "s \<noteq> []"
        by blast
      obtain c0 where c0: "ms = [c0]" "matches_secret e c0"
        using one [OF ms1] by blast
      have "entry_edit e cs (filter (\<lambda>c. \<not> email_is (en_client e) c) cs1)"
        using False c0 fm c(1,5,6) cs by (simp add: entry_edit_def email_is_same [OF c(5)])
      then show thesis
        using that [OF d' c(3) _ _ cs c(2)] c(4) assms(3) ti by (simp add: tag_is_def protocol_of_def)
    qed
  qed
qed

end
