(* ===== verification/Agent_Access_Draft.thy ===== *)
theory Agent_Access_Draft
  imports Agent_Access_Edits
begin

text \<open>
  Resolving the targets of a request and editing the draft configuration: a target stays one inbound of
  its protocol, an enabled credential stays where it was put, and what no entry names does not change.
\<close>

section \<open>Resolving the targets\<close>

text \<open>
  A target stands for exactly one inbound, among those of the configuration and those to restore, of the
  protocol asked for. Everything restored is a target.
\<close>

definition targets_ok :: "journal \<Rightarrow> json list \<Rightarrow> resolution \<Rightarrow> bool" where
  "targets_ok saved inbs r =
     (distinct (map fst (rs_targets r)) \<and>
      (\<forall>(t, p) \<in> set (rs_targets r).
         map_of secret_fields p \<noteq> None \<and>
         (\<exists>i. filter (tag_is t) (inbs @ map snd (rs_restoring r)) = [i] \<and> protocol_of i = JStr p) \<and>
         (filter (tag_is t) inbs \<noteq> [] \<or> tbl_get su_tag t saved \<noteq> None)) \<and>
      (\<forall>(n, i) \<in> set (rs_restoring r). is_dict i \<and> (\<exists>t \<in> fst ` set (rs_targets r). tag_is t i)))"

definition resolved :: "journal \<Rightarrow> json list \<Rightarrow> resolution \<Rightarrow> entry \<Rightarrow> bool" where
  "resolved saved inbs r e =
     ((en_tag e, en_protocol e) \<in> set (rs_targets r) \<or>
      (filter (tag_is (en_tag e)) inbs = [] \<and> tbl_get su_tag (en_tag e) saved = None \<and> \<not> en_enabled e))"

lemma take_target_ok:
  assumes "take_target e t (r\<lparr>rs_restoring := rs_restoring r @ new\<rparr>) = Inr r'" "targets_ok saved inbs r"
    "map_of (rs_targets r) (en_tag e) = None" "map_of secret_fields (en_protocol e) \<noteq> None"
    "filter (tag_is (en_tag e)) (inbs @ map snd new) = [t]" "\<forall>(n, i) \<in> set new. is_dict i \<and> tag_is (en_tag e) i"
    "filter (tag_is (en_tag e)) inbs \<noteq> [] \<or> tbl_get su_tag (en_tag e) saved \<noteq> None"
  shows "targets_ok saved inbs r' \<and> (en_tag e, en_protocol e) \<in> set (rs_targets r') \<and> set (rs_targets r) \<subseteq> set (rs_targets r')"
proof -
  let ?T = "fst ` set (rs_targets r)"
  have pt: "protocol_of t = JStr (en_protocol e)"
    and r': "rs_targets r' = rs_targets r @ [(en_tag e, en_protocol e)]" "rs_restoring r' = rs_restoring r @ new"
    using assms(1) by (auto simp: take_target_def split: if_splits)
  have notin: "en_tag e \<notin> ?T"
    using assms(3) by (simp add: map_of_eq_None_iff)
  have old: "\<forall>(n, i) \<in> set (rs_restoring r). is_dict i \<and> (\<exists>t \<in> ?T. tag_is t i)"
    using assms(2) unfolding targets_ok_def by blast
  have tag_eq: "s = s'" if "tag_is s i" "tag_is s' i" for s s' i
    using that by (simp add: tag_is_def)
  have "\<not> tag_is (en_tag e) i" if "(n, i) \<in> set (rs_restoring r)" for n i
    using old that notin tag_eq by fast
  then have none: "filter (tag_is (en_tag e)) (map snd (rs_restoring r)) = []"
    by (auto simp: filter_empty_conv)
  have keep: "filter (tag_is s) (map snd new) = []" if "s \<in> ?T" for s
  proof -
    have "\<not> tag_is s i" if "(n, i) \<in> set new" for n i
      using assms(6) that \<open>s \<in> ?T\<close> notin tag_eq by fast
    then show ?thesis
      by (auto simp: filter_empty_conv)
  qed
  have "\<exists>i. filter (tag_is s) (inbs @ map snd (rs_restoring r')) = [i] \<and> protocol_of i = JStr p"
    if "(s, p) \<in> set (rs_targets r')" for s p
  proof (cases "(s, p) \<in> set (rs_targets r)")
    case True
    then have "s \<in> ?T"
      by force
    then show ?thesis
      using True assms(2) keep unfolding targets_ok_def r' by force
  next
    case False
    then have "s = en_tag e" "p = en_protocol e"
      using that r' by auto
    then show ?thesis
      using none assms(5) pt by (simp add: r')
  qed
  moreover have "map_of secret_fields p \<noteq> None \<and> (filter (tag_is s) inbs \<noteq> [] \<or> tbl_get su_tag s saved \<noteq> None)"
    if "(s, p) \<in> set (rs_targets r')" for s p
    using that assms(2,4,7) unfolding targets_ok_def r' by auto
  moreover have "is_dict i \<and> (\<exists>t \<in> fst ` set (rs_targets r'). tag_is t i)" if "(n, i) \<in> set (rs_restoring r')" for n i
    using that old assms(6) unfolding r' by auto
  moreover have "distinct (map fst (rs_targets r'))"
    using assms(2) notin unfolding targets_ok_def r' by simp
  ultimately have "targets_ok saved inbs r'"
    unfolding targets_ok_def by (simp only: Ball_def split_paired_All prod.case) blast
  then show ?thesis
    by (simp add: r' subset_iff)
qed

lemma resolve_entry_ok:
  assumes "resolve_entry digest original saved inbs es e r = Inr r'" "targets_ok saved inbs r"
    "map_of secret_fields (en_protocol e) \<noteq> None" "list_all suspension_ok saved" "e \<in> set es"
  shows "targets_ok saved inbs r' \<and> resolved saved inbs r' e \<and> set (rs_targets r) \<subseteq> set (rs_targets r')"
proof (cases "map_of (rs_targets r) (en_tag e)")
  case (Some p)
  then have "p = en_protocol e" "r' = r"
    using assms(1) by (auto simp: resolve_entry_def split: if_splits)
  then show ?thesis
    using assms(2) Some by (auto simp: resolved_def dest: map_of_SomeD)
next
  case None
  let ?fs = "filter (tag_is (en_tag e)) inbs"
  let ?su = "tbl_get su_tag (en_tag e) saved"
  consider "?fs = []" | t where "?fs = [t]" | a b xs where "?fs = a # b # xs"
    by (cases ?fs rule: list.exhaust [case_product list.exhaust]; metis neq_Nil_conv)
  then show ?thesis
  proof cases
    case 1
    show ?thesis
    proof (cases ?su)
      case su: None
      then have "r' = r" "\<not> en_enabled e"
        using assms(1,5) 1 None by (auto simp: resolve_entry_def list_ex_iff split: if_splits)
      then show ?thesis
        using assms(2) 1 su by (simp add: resolved_def)
    next
      case (Some su)
      then have "suspension_ok su" "su_tag su = en_tag e"
        using assms(4) by (auto simp: list_all_iff dest: tbl_get_SomeD)
      then have su: "is_dict (su_inbound su)" "tag_is (en_tag e) (su_inbound su)"
        by (simp_all add: suspension_ok_def tag_is_def)
      have "take_target e (su_inbound su) (r\<lparr>rs_restoring := rs_restoring r @ [(su_index su, su_inbound su)]\<rparr>) = Inr r'"
        using assms(1) 1 None Some by (auto simp: resolve_entry_def split: if_splits)
      from take_target_ok [OF this assms(2) None assms(3)] show ?thesis
        using 1 su Some by (simp add: resolved_def)
    qed
  next
    case (2 t)
    then have "take_target e t r = Inr r'"
      using assms(1) None by (auto simp: resolve_entry_def split: if_splits option.splits sum.splits)
    then have "take_target e t (r\<lparr>rs_restoring := rs_restoring r @ []\<rparr>) = Inr r'"
      by simp
    from take_target_ok [OF this assms(2) None assms(3)] show ?thesis
      using 2 by (simp add: resolved_def)
  next
    case 3
    then show ?thesis
      using assms(1) None by (simp add: resolve_entry_def)
  qed
qed

lemma resolved_mono: "resolved saved inbs r e \<Longrightarrow> set (rs_targets r) \<subseteq> set (rs_targets r') \<Longrightarrow> resolved saved inbs r' e"
  unfolding resolved_def by blast

lemma resolve_ok:
  assumes "resolve digest original saved inbs es rest r = Inr r'" "targets_ok saved inbs r"
    "\<forall>e \<in> set es. map_of secret_fields (en_protocol e) \<noteq> None" "list_all suspension_ok saved" "set rest \<subseteq> set es"
  shows "targets_ok saved inbs r' \<and> (\<forall>e \<in> set rest. resolved saved inbs r' e) \<and> set (rs_targets r) \<subseteq> set (rs_targets r')"
  using assms(1,2,5)
proof (induction rest arbitrary: r)
  case (Cons e rest)
  then obtain r1 where r1: "resolve_entry digest original saved inbs es e r = Inr r1"
    by (cases "resolve_entry digest original saved inbs es e r") simp_all
  have e: "e \<in> set es" "set rest \<subseteq> set es"
    using Cons.prems(3) by auto
  have 1: "targets_ok saved inbs r1" "resolved saved inbs r1 e" "set (rs_targets r) \<subseteq> set (rs_targets r1)"
    using resolve_entry_ok [OF r1 Cons.prems(2) _ assms(4) e(1)] assms(3) e(1) by auto
  have "resolve digest original saved inbs es rest r1 = Inr r'"
    using Cons.prems(1) r1 by simp
  from Cons.IH [OF this 1(1) e(2)] show ?case
    using 1 resolved_mono by auto
qed simp

section \<open>Restoring and editing\<close>

lemma mset_insert_at [simp]: "mset (insert_at n x xs) = add_mset x (mset xs)"
proof -
  have "mset (take n xs) + mset (drop n xs) = mset xs"
    by (metis append_take_drop_id mset_append)
  then show ?thesis
    by (simp add: insert_at_def)
qed

lemma filter_insert_at: "\<not> P x \<Longrightarrow> filter P (insert_at n x xs) = filter P xs"
proof -
  assume "\<not> P x"
  moreover have "filter P (take n xs) @ filter P (drop n xs) = filter P xs"
    by (metis append_take_drop_id filter_append)
  ultimately show ?thesis
    by (simp add: insert_at_def)
qed

lemma mset_inserts:
  "mset (foldl (\<lambda>inbs (n, t). insert_at (min n (length inbs)) t inbs) inbs rs) = mset inbs + mset (map snd rs)"
  by (induction rs arbitrary: inbs) (auto split: prod.splits)

lemma mset_restore: "mset (restore_inbounds rs inbs) = mset (inbs @ map snd rs)"
proof -
  have "mset (map snd (sort_key fst rs)) = mset (map snd rs)"
    by (simp add: mset_map)
  then show ?thesis
    by (simp add: restore_inbounds_def mset_inserts)
qed

lemma filter_inserts:
  "\<forall>(n, t) \<in> set rs. \<not> P t \<Longrightarrow>
   filter P (foldl (\<lambda>inbs (n, t). insert_at (min n (length inbs)) t inbs) inbs rs) = filter P inbs"
  by (induction rs arbitrary: inbs) (auto simp: filter_insert_at)

lemma filter_restore: "\<forall>(n, t) \<in> set rs. \<not> P t \<Longrightarrow> filter P (restore_inbounds rs inbs) = filter P inbs"
  by (simp add: restore_inbounds_def filter_inserts)

lemma filter_mset_singleton: "mset xs = mset ys \<Longrightarrow> filter P ys = [i] \<Longrightarrow> filter P xs = [i]"
  by (metis mset_filter mset_single_iff_right)

lemma filter_mset_empty: "mset xs = mset ys \<Longrightarrow> filter P ys = [] \<Longrightarrow> filter P xs = []"
  by (metis mset_filter mset_zero_iff)

text \<open>Every target is one inbound of the list, of its protocol.\<close>

definition placed :: "(string \<times> string) list \<Rightarrow> json list \<Rightarrow> bool" where
  "placed T inbs =
     ((\<forall>i \<in> set inbs. is_dict i) \<and>
      (\<forall>(t, p) \<in> set T. map_of secret_fields p \<noteq> None \<and> (\<exists>i. filter (tag_is t) inbs = [i] \<and> protocol_of i = JStr p)))"

text \<open>The credentials of the inbound with a tag.\<close>

definition creds :: "string \<Rightarrow> json list \<Rightarrow> json list" where
  "creds t inbs =
     (case filter (tag_is t) inbs of
        [i] \<Rightarrow> (case clients_of i of Inr cs \<Rightarrow> cs | Inl _ \<Rightarrow> [])
      | _ \<Rightarrow> [])"

lemma creds_cong: "filter (tag_is t) inbs = filter (tag_is t) inbs' \<Longrightarrow> creds t inbs = creds t inbs'"
  by (simp add: creds_def)

lemma creds_one: "filter (tag_is t) inbs = [i] \<Longrightarrow> clients_of i = Inr cs \<Longrightarrow> creds t inbs = cs"
  by (simp add: creds_def)

lemma placed_target:
  assumes "placed T inbs" "(t, p) \<in> set T"
  obtains i where "filter (tag_is t) inbs = [i]" "protocol_of i = JStr p" "map_of secret_fields p \<noteq> None"
    "is_dict i" "i \<in> set inbs" "tag_is t i"
proof -
  obtain i where i: "filter (tag_is t) inbs = [i]" "protocol_of i = JStr p" "map_of secret_fields p \<noteq> None"
    using assms unfolding placed_def by blast
  then have "i \<in> set inbs" "tag_is t i"
    by (metis list.set_intros(1) mem_Collect_eq set_filter)+
  moreover have "is_dict i"
    using assms(1) calculation(1) by (simp add: placed_def)
  ultimately show thesis
    using i by (intro that)
qed

lemma restore_placed:
  assumes "targets_ok saved inbs r" "\<forall>i \<in> set inbs. is_dict i"
  shows "placed (rs_targets r) (restore_inbounds (rs_restoring r) inbs)"
proof -
  let ?l = "restore_inbounds (rs_restoring r) inbs"
  have "set ?l = set (inbs @ map snd (rs_restoring r))"
    using mset_restore mset_eq_setD by blast
  moreover have "is_dict i" if "(n, i) \<in> set (rs_restoring r)" for n i
    using assms(1) that unfolding targets_ok_def by blast
  ultimately have "\<forall>i \<in> set ?l. is_dict i"
    using assms(2) by auto
  moreover have "\<exists>i. filter (tag_is t) ?l = [i] \<and> protocol_of i = JStr p" "map_of secret_fields p \<noteq> None"
    if "(t, p) \<in> set (rs_targets r)" for t p
    using assms(1) that filter_mset_singleton [OF mset_restore] unfolding targets_ok_def by blast+
  ultimately show ?thesis
    unfolding placed_def by (simp only: Ball_def split_paired_All prod.case) blast
qed

lemma restore_unresolved:
  assumes "targets_ok saved inbs r" "filter (tag_is t) inbs = []" "t \<notin> fst ` set (rs_targets r)"
  shows "filter (tag_is t) (restore_inbounds (rs_restoring r) inbs) = []"
proof -
  have "\<not> tag_is t i" if i: "(n, i) \<in> set (rs_restoring r)" for n i
  proof -
    obtain s where s: "s \<in> fst ` set (rs_targets r)" "tag_is s i"
      using assms(1) i unfolding targets_ok_def by blast
    then have "s \<noteq> t"
      using assms(3) by blast
    then show ?thesis
      using s(2) by (simp add: tag_is_def)
  qed
  then have "filter (tag_is t) (inbs @ map snd (rs_restoring r)) = []"
    using assms(2) by (auto simp: filter_empty_conv)
  then show ?thesis
    using filter_mset_empty [OF mset_restore] by blast
qed

lemma apply_entry_step:
  assumes "apply_entry e d = Inr d'" "placed T (dr_inbounds d)" "(en_tag e, en_protocol e) \<in> set T" "distinct (map fst T)"
  shows "placed T (dr_inbounds d')"
    and "entry_edit e (creds (en_tag e) (dr_inbounds d)) (creds (en_tag e) (dr_inbounds d'))"
    and "\<And>s. s \<noteq> en_tag e \<Longrightarrow> creds s (dr_inbounds d') = creds s (dr_inbounds d)"
    and "\<And>P. (\<And>i. tag_is (en_tag e) i \<Longrightarrow> \<not> P i) \<Longrightarrow> filter P (dr_inbounds d') = filter P (dr_inbounds d)"
proof -
  obtain i where i: "filter (tag_is (en_tag e)) (dr_inbounds d) = [i]" "protocol_of i = JStr (en_protocol e)"
    "map_of secret_fields (en_protocol e) \<noteq> None" "is_dict i"
    using placed_target [OF assms(2,3)] by blast
  obtain i' cs cs' where e: "dr_inbounds d' = set_inbound (en_tag e) i' (dr_inbounds d)" "is_dict i'"
    "tag_is (en_tag e) i'" "protocol_of i' = JStr (en_protocol e)"
    "clients_of i = Inr cs" "clients_of i' = Inr cs'" "entry_edit e cs cs'"
    by (rule apply_entry_target [OF assms(1) i(1,2,4,3)])
  have fs: "filter (tag_is s) (dr_inbounds d') = (if s = en_tag e then [i'] else filter (tag_is s) (dr_inbounds d))" for s
    by (simp add: e(1) filter_set_inbound [OF e(3)] i(1))
  show "entry_edit e (creds (en_tag e) (dr_inbounds d)) (creds (en_tag e) (dr_inbounds d'))"
    using e(5,6,7) i(1) fs by (simp add: creds_one)
  show "creds s (dr_inbounds d') = creds s (dr_inbounds d)" if "s \<noteq> en_tag e" for s
    by (rule creds_cong) (simp add: fs that)
  show "filter P (dr_inbounds d') = filter P (dr_inbounds d)" if "\<And>i. tag_is (en_tag e) i \<Longrightarrow> \<not> P i" for P
  proof -
    have "filter P (set_inbound (en_tag e) i' xs) = filter P xs" for xs
      using that e(3) by (induction xs) (auto simp: set_inbound_def)
    then show ?thesis
      by (simp add: e(1))
  qed
  have "\<exists>j. filter (tag_is t) (dr_inbounds d') = [j] \<and> protocol_of j = JStr p" if "(t, p) \<in> set T" for t p
  proof (cases "t = en_tag e")
    case True
    then have "p = en_protocol e"
      using that assms(3,4) by (meson eq_key_imp_eq_value)
    then show ?thesis
      using True e(4) by (simp add: fs)
  next
    case False
    then show ?thesis
      using placed_target [OF assms(2) that] by (simp add: fs) blast
  qed
  moreover have "\<forall>j \<in> set (dr_inbounds d'). is_dict j"
    using assms(2) e(1,2) by (auto simp: placed_def set_inbound_def)
  ultimately show "placed T (dr_inbounds d')"
    using assms(2) unfolding placed_def by (simp only: Ball_def split_paired_All prod.case) blast
qed

section \<open>All entries\<close>

definition settled :: "(string \<times> string) list \<Rightarrow> json list \<Rightarrow> entry \<Rightarrow> bool" where
  "settled T inbs e = ((en_tag e, en_protocol e) \<in> set T \<or> filter (tag_is (en_tag e)) inbs = [])"

lemma apply_entry_absent: "apply_entry e d = Inr d' \<Longrightarrow> filter (tag_is (en_tag e)) (dr_inbounds d) = [] \<Longrightarrow> d' = d"
  by (simp add: apply_entry_def find_filter)

lemma tag_is_other: "s \<noteq> t \<Longrightarrow> tag_is t i \<Longrightarrow> \<not> tag_is s i"
  by (simp add: tag_is_def)

text \<open>What one step keeps, whether or not its entry has a target.\<close>

lemma apply_entry_keeps:
  assumes "apply_entry e d = Inr d'" "placed T (dr_inbounds d)" "settled T (dr_inbounds d) e" "distinct (map fst T)"
  shows "placed T (dr_inbounds d')"
    and "settled T (dr_inbounds d) x \<Longrightarrow> settled T (dr_inbounds d') x"
    and "\<And>P. (\<And>i. tag_is (en_tag e) i \<Longrightarrow> \<not> P i) \<Longrightarrow> filter P (dr_inbounds d') = filter P (dr_inbounds d)"
    and "\<And>s. s \<noteq> en_tag e \<Longrightarrow> creds s (dr_inbounds d') = creds s (dr_inbounds d)"
    and "(en_tag e, en_protocol e) \<in> set T \<Longrightarrow>
      entry_edit e (creds (en_tag e) (dr_inbounds d)) (creds (en_tag e) (dr_inbounds d'))"
    and "(en_tag e, en_protocol e) \<notin> set T \<Longrightarrow> d' = d"
proof -
  have d: "d' = d" if "(en_tag e, en_protocol e) \<notin> set T"
    using that assms(3) apply_entry_absent [OF assms(1)] by (simp add: settled_def)
  then show "(en_tag e, en_protocol e) \<notin> set T \<Longrightarrow> d' = d" .
  show "placed T (dr_inbounds d')"
    using d assms(2) apply_entry_step(1) [OF assms(1,2) _ assms(4)] by blast
  show flt: "filter P (dr_inbounds d') = filter P (dr_inbounds d)" if p: "\<And>i. tag_is (en_tag e) i \<Longrightarrow> \<not> P i" for P
  proof (cases "(en_tag e, en_protocol e) \<in> set T")
    case True
    show ?thesis
      by (rule apply_entry_step(4) [OF assms(1,2) True assms(4)]) (rule p)
  qed (simp add: d)
  show "creds s (dr_inbounds d') = creds s (dr_inbounds d)" if "s \<noteq> en_tag e" for s
    using d apply_entry_step(3) [OF assms(1,2) _ assms(4) that] by blast
  show "(en_tag e, en_protocol e) \<in> set T \<Longrightarrow>
      entry_edit e (creds (en_tag e) (dr_inbounds d)) (creds (en_tag e) (dr_inbounds d'))"
    by (rule apply_entry_step(2) [OF assms(1,2) _ assms(4)])
  show "settled T (dr_inbounds d') x" if "settled T (dr_inbounds d) x"
  proof (cases "(en_tag x, en_protocol x) \<in> set T")
    case False
    then have x: "filter (tag_is (en_tag x)) (dr_inbounds d) = []"
      using that by (simp add: settled_def)
    show ?thesis
    proof (cases "(en_tag e, en_protocol e) \<in> set T")
      case True
      then have "en_tag x \<noteq> en_tag e"
        using x placed_target [OF assms(2)] by (metis list.distinct(1))
      then have "filter (tag_is (en_tag x)) (dr_inbounds d') = []"
        using x flt tag_is_other by metis
      then show ?thesis
        by (simp add: settled_def)
    qed (use that d in simp)
  qed (simp add: settled_def)
qed

text \<open>A credential is held when the inbound has exactly one client of its email, with its secret.\<close>

definition held :: "entry \<Rightarrow> json list \<Rightarrow> bool" where
  "held e inbs = (\<exists>c. filter (same_email e) (creds (en_tag e) inbs) = [c] \<and> matches_secret e c)"

lemma agrees_same_email: "agrees r (en_client e) \<Longrightarrow> same_email e r"
  by (simp add: same_email_def agrees_email)

lemma agrees_matches: "agrees r (en_client e) \<Longrightarrow> matches_secret e r"
  by (simp add: matches_secret_def entry_secret_def agrees_secret same_secret_def)

lemma filter_insert_new: "filter P xs = [] \<Longrightarrow> P x \<Longrightarrow> filter P (insert_at n x xs) = [x]"
proof -
  assume "filter P xs = []" "P x"
  moreover have "filter P (take n xs) @ filter P (drop n xs) = filter P xs"
    by (metis append_take_drop_id filter_append)
  ultimately show ?thesis
    by (simp add: insert_at_def)
qed

lemma entry_edit_held:
  assumes "entry_edit e cs cs'" "en_enabled e"
  shows "\<exists>c. filter (same_email e) cs' = [c] \<and> matches_secret e c"
proof -
  have "filter (same_email e) (insert_at n r cs) = [r] \<and> matches_secret e r"
    if "filter (same_email e) cs = []" "agrees r (en_client e)" for n r
    using that filter_insert_new agrees_same_email agrees_matches by metis
  then show ?thesis
    using assms unfolding entry_edit_def by (auto split: if_splits)
qed

lemma filter_keep_one: "filter P xs = [c] \<Longrightarrow> Q c \<Longrightarrow> filter P (filter Q xs) = [c]"
proof -
  assume "filter P xs = [c]" "Q c"
  then have "filter Q (filter P xs) = [c]"
    by simp
  then show ?thesis
    by (simp add: conj_commute)
qed

text \<open>Two entries of one inbound with the same email and secret have the same name.\<close>

lemma filled_JStr: "filled_text v \<Longrightarrow> \<exists>s. v = JStr s \<and> s \<noteq> []"
  by (cases v) (auto simp: filled_text_def py_strip_def)

lemma list_eq_nth: "same_secret (secret a p) (secret b p) \<Longrightarrow> f \<in> set (fields_of p) \<Longrightarrow>
   json_eq (client_value a f) (client_value b f)"
  by (auto simp: same_secret_def json_eq_def secret_def)

lemma py_or_JStr: "s \<noteq> [] \<Longrightarrow> py_or a b = JStr s \<Longrightarrow> a = JStr s \<or> (\<not> truthy a \<and> b = JStr s)"
  by (auto simp: py_or_def split: if_splits)

lemma user_fields: "named_by_user p \<Longrightarrow> ''username'' \<in> set (fields_of p)"
  by (auto simp: named_by_user_def fields_of_def secret_fields_def)

lemma client_name_eq:
  assumes "entry_ok e" "entry_ok e'" "en_protocol e' = en_protocol e"
    "json_eq (jfield ''email'' (en_client e)) (jfield ''email'' (en_client e'))"
    "jfield ''email'' (en_client e') = JStr s" "s \<noteq> []"
    "same_secret (entry_secret e) (entry_secret e')"
  shows "client_name (en_client e) (en_protocol e) = client_name (en_client e') (en_protocol e')"
proof -
  let ?p = "en_protocol e" and ?c = "en_client e" and ?c' = "en_client e'"
  have em: "jfield ''email'' ?c = JStr s" "jfield ''email'' ?c' = JStr s"
    using assms(4,5) by simp_all
  show ?thesis
  proof (cases "named_by_user ?p")
    case False
    then show ?thesis
      using em assms(3,6) by (simp add: client_name_def py_or_def)
  next
    case True
    let ?v = "client_value ?c ''username''" and ?v' = "client_value ?c' ''username''"
    have name: "client_name ?c ?p = py_or ?v (JStr s)" "client_name ?c' (en_protocol e') = py_or ?v' (JStr s)"
      using True em assms(3) by (simp_all add: client_name_def client_value_def field_alias_def)
    have eq: "json_eq ?v ?v'"
      using list_eq_nth [OF _ user_fields [OF True]] assms(3,7) by (simp add: entry_secret_def)
    have "filled_text (py_or ?v (JStr s))" "filled_text (py_or ?v' (JStr s))"
      using assms(1,2) name by (simp_all add: entry_ok_def Let_def)
    then obtain x x' where x: "py_or ?v (JStr s) = JStr x" "x \<noteq> []" "py_or ?v' (JStr s) = JStr x'" "x' \<noteq> []"
      using filled_JStr by blast
    have "x = x'"
    proof (cases "?v = JStr x \<or> ?v' = JStr x'")
      case True
      then show ?thesis
        using eq x py_or_JStr by (auto simp: py_or_def split: if_splits)
    next
      case False
      then show ?thesis
        using x py_or_JStr [OF x(2,1)] py_or_JStr [OF x(4,3)] by simp
    qed
    then show ?thesis
      using x name by simp
  qed
qed

lemma entry_edit_cases:
  assumes "entry_edit e cs cs'"
  obtains "cs' = cs" | n r where "filter (same_email e) cs = []" "agrees r (en_client e)" "cs' = insert_at n r cs"
    | d s where "filter (same_email e) cs = [d]" "matches_secret e d" "jfield ''email'' (en_client e) = JStr s"
      "s \<noteq> []" "cs' = filter (\<lambda>c. \<not> same_email e c) cs"
  using assms unfolding entry_edit_def
  by (cases "en_enabled e"; simp only: if_True if_False simp_thms; blast)

lemma entry_edit_other:
  assumes "entry_edit e' cs cs'" "filter (same_email e) cs = [c]" "matches_secret e c"
    "entry_ok e" "entry_ok e'" "en_protocol e' = en_protocol e" "en_tag e' = en_tag e" "entry_name e' \<noteq> entry_name e"
  shows "filter (same_email e) cs' = [c]"
proof -
  have c: "c \<in> set cs" "same_email e c"
    using assms(2) by (metis list.set_intros(1) mem_Collect_eq set_filter)+
  show ?thesis
    using assms(1)
  proof (cases rule: entry_edit_cases)
    case 1
    then show ?thesis
      using assms(2) by simp
  next
    case (2 n r)
    have "\<not> same_email e r"
    proof
      assume "same_email e r"
      moreover have "same_email e' r"
        using 2(2) by (rule agrees_same_email)
      ultimately have "same_email e' c"
        using c(2) unfolding same_email_def json_eq_def by simp
      then show False
        using 2(1) c(1) by (auto simp: filter_empty_conv)
    qed
    then show ?thesis
      using 2(3) assms(2) by (simp add: filter_insert_at)
  next
    case (3 d s)
    have "\<not> same_email e' c"
    proof
      assume s: "same_email e' c"
      then have "c \<in> set (filter (same_email e') cs)"
        using c(1) by simp
      then have "d = c"
        using 3(1) by simp
      then have "same_secret (entry_secret e) (entry_secret e')"
        using 3(2) assms(3,6) by (simp add: matches_secret_def same_secret_def json_eq_def)
      moreover have "json_eq (jfield ''email'' (en_client e)) (jfield ''email'' (en_client e'))"
        using s c(2) by (simp add: same_email_def json_eq_def)
      ultimately have "client_name (en_client e) (en_protocol e) = client_name (en_client e') (en_protocol e')"
        using client_name_eq [OF assms(4,5,6) _ 3(3,4)] by blast
      then show False
        using assms(7,8) by (simp add: entry_name_def)
    qed
    then show ?thesis
      unfolding 3(5) by (rule filter_keep_one [OF assms(2)])
  qed
qed

lemma apply_entries_hold:
  assumes "apply_entries rest d = Inr d'" "placed T (dr_inbounds d)" "\<forall>x \<in> set rest. settled T (dr_inbounds d) x"
    "distinct (map fst T)" "en_enabled e" "(en_tag e, en_protocol e) \<in> set T" "entry_ok e" "\<forall>x \<in> set rest. entry_ok x"
    "\<forall>x \<in> set rest. x \<noteq> e \<longrightarrow> entry_name x \<noteq> entry_name e" "e \<in> set rest \<or> held e (dr_inbounds d)"
  shows "held e (dr_inbounds d')"
  using assms(1,2,3,8,9,10)
proof (induction rest arbitrary: d)
  case (Cons x rest)
  obtain d1 where d1: "apply_entry x d = Inr d1" "apply_entries rest d1 = Inr d'"
    using Cons.prems(1) by (cases "apply_entry x d") simp_all
  have sx: "settled T (dr_inbounds d) x"
    using Cons.prems(3) by simp
  note k = apply_entry_keeps [OF d1(1) Cons.prems(2) sx assms(4)]
  have rest: "\<forall>y \<in> set rest. settled T (dr_inbounds d1) y"
    using k(2) Cons.prems(3) by simp
  have "held e (dr_inbounds d1)" if "x = e"
    using entry_edit_held [OF k(5)] assms(5,6) that by (simp add: held_def)
  moreover have "held e (dr_inbounds d1)" if h: "held e (dr_inbounds d)" and ne: "x \<noteq> e"
  proof (cases "en_tag x = en_tag e")
    case False
    then show ?thesis
      using k(4) h by (simp add: held_def)
  next
    case True
    show ?thesis
    proof (cases "(en_tag x, en_protocol x) \<in> set T")
      case False
      then show ?thesis
        using k(6) h by simp
    next
      case xt: True
      then have p: "en_protocol x = en_protocol e"
        using True assms(4,6) by (metis eq_key_imp_eq_value)
      obtain c where c: "filter (same_email e) (creds (en_tag e) (dr_inbounds d)) = [c]" "matches_secret e c"
        using h by (auto simp: held_def)
      have "filter (same_email e) (creds (en_tag e) (dr_inbounds d1)) = [c]"
        using entry_edit_other [OF k(5) [OF xt, unfolded True] c assms(7) _ p True] Cons.prems(4,5) ne by simp
      then show ?thesis
        using c(2) by (auto simp: held_def)
    qed
  qed
  ultimately have "e \<in> set rest \<or> held e (dr_inbounds d1)"
    using Cons.prems(6) by auto
  then show ?case
    using Cons.IH [OF d1(2) k(1) rest] Cons.prems(4,5) by simp
qed simp

text \<open>Invariants of the whole pass: targets, and what no entry names.\<close>

lemma entry_edit_unnamed:
  assumes "entry_edit e cs cs'" "\<And>c. same_email e c \<Longrightarrow> \<not> U c"
  shows "filter U cs' = filter U cs"
proof -
  show ?thesis
    using assms(1)
  proof (cases rule: entry_edit_cases)
    case (2 n r)
    then show ?thesis
      by (simp add: filter_insert_at assms(2) agrees_same_email [OF 2(2)])
  next
    case (3 d s)
    have "filter U (filter (\<lambda>c. \<not> same_email e c) cs) = filter U cs"
      using assms(2) by (induction cs) auto
    then show ?thesis
      using 3(5) by simp
  qed simp
qed

lemma apply_entries_keep:
  assumes "apply_entries rest d = Inr d'" "placed T (dr_inbounds d)" "\<forall>x \<in> set rest. settled T (dr_inbounds d) x"
    "distinct (map fst T)"
  shows "placed T (dr_inbounds d') \<and> (\<forall>x. settled T (dr_inbounds d) x \<longrightarrow> settled T (dr_inbounds d') x) \<and>
    (\<forall>P. (\<forall>e \<in> set rest. \<forall>i. tag_is (en_tag e) i \<longrightarrow> \<not> P i) \<longrightarrow>
       filter P (dr_inbounds d') = filter P (dr_inbounds d)) \<and>
    (\<forall>U t. (\<forall>e \<in> set rest. en_tag e = t \<longrightarrow> (\<forall>c. same_email e c \<longrightarrow> \<not> U c)) \<longrightarrow>
       filter U (creds t (dr_inbounds d')) = filter U (creds t (dr_inbounds d)))"
  using assms(1,2,3)
proof (induction rest arbitrary: d)
  case (Cons x rest)
  obtain d1 where d1: "apply_entry x d = Inr d1" "apply_entries rest d1 = Inr d'"
    using Cons.prems(1) by (cases "apply_entry x d") simp_all
  have sx: "settled T (dr_inbounds d) x"
    using Cons.prems(3) by simp
  note k = apply_entry_keeps [OF d1(1) Cons.prems(2) sx assms(4)]
  have rest: "\<forall>y \<in> set rest. settled T (dr_inbounds d1) y"
    using k(2) Cons.prems(3) by simp
  note ih = Cons.IH [OF d1(2) k(1) rest]
  have "filter P (dr_inbounds d') = filter P (dr_inbounds d)"
    if "\<forall>e \<in> set (x # rest). \<forall>i. tag_is (en_tag e) i \<longrightarrow> \<not> P i" for P
    using ih k(3) [of P] that by simp
  moreover have "filter U (creds t (dr_inbounds d')) = filter U (creds t (dr_inbounds d))"
    if u: "\<forall>e \<in> set (x # rest). en_tag e = t \<longrightarrow> (\<forall>c. same_email e c \<longrightarrow> \<not> U c)" for U t
  proof -
    have "filter U (creds t (dr_inbounds d1)) = filter U (creds t (dr_inbounds d))"
    proof (cases "t = en_tag x")
      case True
      then have "\<not> U c" if "same_email x c" for c
        using u that by simp
      then show ?thesis
        using entry_edit_unnamed [OF k(5)] k(6) True by (cases "(en_tag x, en_protocol x) \<in> set T") auto
    qed (simp add: k(4))
    then show ?thesis
      using ih u by simp
  qed
  moreover have "settled T (dr_inbounds d') y" if "settled T (dr_inbounds d) y" for y
    using ih k(2) [OF that] by blast
  ultimately show ?case
    using ih by (intro conjI allI impI) simp_all
qed simp

end
