(* ===== verification/Agent_Access_Plan.thy ===== *)
theory Agent_Access_Plan
  imports Agent_Access_Draft
begin

text \<open>
  What a prepared plan is made of: the sweep that takes emptied listeners out and journals them, the
  candidate's inbounds, and what they hold of enabled, revoked and unnamed credentials.
\<close>

section \<open>The sweep of empty listeners\<close>

lemma drop_first_filter: "length (filter P xs) \<le> 1 \<Longrightarrow> drop_first P xs = filter (\<lambda>x. \<not> P x) xs"
proof (induction xs)
  case (Cons x xs)
  show ?case
  proof (cases "P x")
    case True
    then have "filter P xs = []"
      using Cons.prems by simp
    then have "filter (\<lambda>x. \<not> P x) xs = xs"
      by (auto simp: filter_empty_conv intro: filter_True)
    then show ?thesis
      using True by (simp add: drop_first_def)
  next
    case False
    then show ?thesis
      using Cons by (simp add: drop_first_def)
  qed
qed (simp add: drop_first_def)

definition emptied :: "json list \<Rightarrow> string list \<Rightarrow> json \<Rightarrow> bool" where
  "emptied all tags i = (\<exists>t \<in> set tags. tag_is t i \<and> creds t all = [])"

text \<open>The journal entry of a target after the sweep.\<close>

definition swept :: "json list \<Rightarrow> string \<Rightarrow> suspension option \<Rightarrow> bool" where
  "swept all t su =
     (\<exists>i cs. filter (tag_is t) all = [i] \<and> clients_of i = Inr cs \<and>
        (if cs = [] then \<exists>r. su = Some r \<and> su_prepared r \<and> skeleton i = Inr (su_inbound r) else su = None))"

lemma sweep_target_ok:
  assumes "sweep_target all t w = Inr w'" "filter (tag_is t) all = [i]" "length (filter (tag_is t) (sw_inbounds w)) \<le> 1"
  shows "swept all t (tbl_get su_tag t (sw_staged w'))"
    and "sw_inbounds w' = filter (\<lambda>j. \<not> (tag_is t j \<and> creds t all = [])) (sw_inbounds w)"
    and "sw_suspended w' = sw_suspended w @ (if creds t all = [] then [t] else [])"
    and "s \<noteq> t \<Longrightarrow> tbl_get su_tag s (sw_staged w') = tbl_get su_tag s (sw_staged w)"
proof -
  have f: "List.find (tag_is t) all = Some i"
    by (simp add: find_filter assms(2))
  obtain cs where cs: "clients_of i = Inr cs"
    using assms(1) by (cases "clients_of i") (simp_all add: sweep_target_def f)
  have c: "creds t all = cs"
    using creds_one [OF assms(2) cs] .
  have "swept all t (tbl_get su_tag t (sw_staged w')) \<and>
    sw_inbounds w' = filter (\<lambda>j. \<not> (tag_is t j \<and> creds t all = [])) (sw_inbounds w) \<and>
    sw_suspended w' = sw_suspended w @ (if creds t all = [] then [t] else []) \<and>
    (s \<noteq> t \<longrightarrow> tbl_get su_tag s (sw_staged w') = tbl_get su_tag s (sw_staged w))"
  proof (cases cs)
    case Nil
    obtain k where k: "skeleton i = Inr k"
      using assms(1) Nil by (cases "skeleton i") (simp_all add: sweep_target_def f cs)
    have w': "w' = w\<lparr>sw_staged := tbl_put su_tag
                 \<lparr>su_tag = t, su_inbound = k, su_index = index_of (tag_is t) all 0,
                  su_prepared = True, su_revision = []\<rparr> (sw_staged w),
               sw_inbounds := drop_first (tag_is t) (sw_inbounds w), sw_suspended := sw_suspended w @ [t]\<rparr>"
      using assms(1) Nil k by (simp add: sweep_target_def f cs)
    show ?thesis
      using assms(2) cs Nil c k drop_first_filter [OF assms(3)]
      by (simp add: w' swept_def tbl_get_put)
  next
    case (Cons a b)
    have w': "w' = w\<lparr>sw_staged := tbl_del su_tag t (sw_staged w)\<rparr>"
      using assms(1) Cons by (simp add: sweep_target_def f cs)
    show ?thesis
      using assms(2) cs Cons c by (simp add: w' swept_def tbl_get_del)
  qed
  then show "swept all t (tbl_get su_tag t (sw_staged w'))"
    "sw_inbounds w' = filter (\<lambda>j. \<not> (tag_is t j \<and> creds t all = [])) (sw_inbounds w)"
    "sw_suspended w' = sw_suspended w @ (if creds t all = [] then [t] else [])"
    "s \<noteq> t \<Longrightarrow> tbl_get su_tag s (sw_staged w') = tbl_get su_tag s (sw_staged w)"
    by blast+
qed

lemma filter_filter_le: "length (filter P (filter Q xs)) \<le> length (filter P xs)"
  by (induction xs) auto

lemma sweep_targets_ok:
  assumes "sweep_targets all tags w = Inr w'" "distinct tags" "\<forall>t \<in> set tags. \<exists>i. filter (tag_is t) all = [i]"
    "\<forall>t \<in> set tags. length (filter (tag_is t) (sw_inbounds w)) \<le> 1"
  shows "(\<forall>t \<in> set tags. swept all t (tbl_get su_tag t (sw_staged w'))) \<and>
    sw_inbounds w' = filter (\<lambda>i. \<not> emptied all tags i) (sw_inbounds w) \<and>
    sw_suspended w' = sw_suspended w @ filter (\<lambda>t. creds t all = []) tags \<and>
    (\<forall>t. t \<notin> set tags \<longrightarrow> tbl_get su_tag t (sw_staged w') = tbl_get su_tag t (sw_staged w))"
  using assms
proof (induction tags arbitrary: w)
  case (Cons t tags)
  obtain w1 where w1: "sweep_target all t w = Inr w1" "sweep_targets all tags w1 = Inr w'"
    using Cons.prems(1) by (cases "sweep_target all t w") simp_all
  obtain i where i: "filter (tag_is t) all = [i]"
    using Cons.prems(3) by auto
  note s = sweep_target_ok [OF w1(1) i]
  have le: "length (filter (tag_is t) (sw_inbounds w)) \<le> 1"
    using Cons.prems(4) by simp
  have "length (filter (tag_is x) (sw_inbounds w1)) \<le> 1" if "x \<in> set tags" for x
    using Cons.prems(4) that filter_filter_le [of "tag_is x" _ "sw_inbounds w"] s(2) [OF le]
    by (metis le_trans list.set_intros(2))
  then have ih: "(\<forall>t \<in> set tags. swept all t (tbl_get su_tag t (sw_staged w'))) \<and>
    sw_inbounds w' = filter (\<lambda>i. \<not> emptied all tags i) (sw_inbounds w1) \<and>
    sw_suspended w' = sw_suspended w1 @ filter (\<lambda>t. creds t all = []) tags \<and>
    (\<forall>t. t \<notin> set tags \<longrightarrow> tbl_get su_tag t (sw_staged w') = tbl_get su_tag t (sw_staged w1))"
    using Cons.IH [OF w1(2)] Cons.prems(2,3) by simp
  have t: "t \<notin> set tags"
    using Cons.prems(2) by simp
  have "\<forall>x \<in> set (t # tags). swept all x (tbl_get su_tag x (sw_staged w'))"
    using ih s(1) [OF le] t by simp
  moreover have "sw_inbounds w' = filter (\<lambda>i. \<not> emptied all (t # tags) i) (sw_inbounds w)"
    using ih s(2) [OF le] by (auto simp: emptied_def intro: filter_cong)
  moreover have "sw_suspended w' = sw_suspended w @ filter (\<lambda>t. creds t all = []) (t # tags)"
    using ih s(3) [OF le] by simp
  moreover have "\<forall>x. x \<notin> set (t # tags) \<longrightarrow> tbl_get su_tag x (sw_staged w') = tbl_get su_tag x (sw_staged w)"
    using ih s(4) [OF le] by simp
  ultimately show ?case
    by blast
qed (simp add: emptied_def)

lemma sweep_target_keyed: "sweep_target all t w = Inr w' \<Longrightarrow> tbl_keyed su_tag (sw_staged w) \<Longrightarrow> tbl_keyed su_tag (sw_staged w')"
  by (auto simp: sweep_target_def tbl_keyed_put tbl_keyed_del split: option.splits sum.splits list.splits)

lemma sweep_targets_keyed:
  "sweep_targets all ts w = Inr w' \<Longrightarrow> tbl_keyed su_tag (sw_staged w) \<Longrightarrow> tbl_keyed su_tag (sw_staged w')"
proof (induction ts arbitrary: w)
  case (Cons t ts)
  obtain w1 where "sweep_target all t w = Inr w1" "sweep_targets all ts w1 = Inr w'"
    using Cons.prems(1) by (cases "sweep_target all t w") simp_all
  then show ?case
    using Cons.IH Cons.prems(2) sweep_target_keyed by blast
qed simp

section \<open>A prepared candidate\<close>

lemma add_user_to_rule_length: "add_user_to_rule route rules = Inr rules' \<Longrightarrow> length rules' = length rules"
  by (auto simp: add_user_to_rule_def Let_def split: sum.splits if_splits json.splits)

lemma route_users_dict: "route_users routes cfg = Inr cfg' \<Longrightarrow> is_dict cfg' = is_dict cfg"
  by (auto simp: route_users_def split: if_splits sum.splits)

lemma apply_entry_dict: "apply_entry e d = Inr d' \<Longrightarrow> is_dict (dr_config d') = is_dict (dr_config d)"
proof (cases "List.find (tag_is (en_tag e)) (dr_inbounds d)")
  case (Some t)
  assume a: "apply_entry e d = Inr d'"
  show ?thesis
    using a Some unfolding apply_entry_def
    by (auto simp: route_users_dict split: sum.splits if_splits)
qed (simp add: apply_entry_def)

lemma apply_entries_dict: "apply_entries es d = Inr d' \<Longrightarrow> is_dict (dr_config d') = is_dict (dr_config d)"
  by (induction es arbitrary: d) (auto simp: apply_entry_dict split: sum.splits)

lemma inbounds_of_put: "is_dict cfg \<Longrightarrow> \<forall>i \<in> set inbs. is_dict i \<Longrightarrow> inbounds_of (jput ''inbounds'' (JArr inbs) cfg) = Some inbs"
  by (simp add: inbounds_of_def jget_or_jput dict_list_def list_all_iff)

lemma inbounds_of_dicts: "inbounds_of cfg = Some inbs \<Longrightarrow> \<forall>i \<in> set inbs. is_dict i"
  by (auto simp: inbounds_of_def dict_list_def list_all_iff split: json.splits if_splits)

lemma resolve_entry_tags:
  "resolve_entry digest original saved inbs es e r = Inr r' \<Longrightarrow>
   fst ` set (rs_targets r') \<subseteq> insert (en_tag e) (fst ` set (rs_targets r))"
  by (auto simp: resolve_entry_def take_target_def split: option.splits list.splits sum.splits if_splits)

lemma resolve_tags:
  "resolve digest original saved inbs es rest r = Inr r' \<Longrightarrow>
   fst ` set (rs_targets r') \<subseteq> en_tag ` set rest \<union> fst ` set (rs_targets r)"
proof (induction rest arbitrary: r)
  case (Cons e rest)
  obtain r1 where r1: "resolve_entry digest original saved inbs es e r = Inr r1"
    "resolve digest original saved inbs es rest r1 = Inr r'"
    using Cons.prems by (cases "resolve_entry digest original saved inbs es e r") simp_all
  show ?case
    using Cons.IH [OF r1(2)] resolve_entry_tags [OF r1(1)] by auto
qed simp

text \<open>What a plan was made of.\<close>

definition planned ::
  "(json \<Rightarrow> string) \<Rightarrow> entry list \<Rightarrow> journal \<Rightarrow> json list \<Rightarrow> resolution \<Rightarrow> draft \<Rightarrow> plan \<Rightarrow> bool" where
  "planned digest es saved inbs0 r d pl =
     (list_all suspension_ok saved \<and> targets_ok saved inbs0 r \<and> (\<forall>e \<in> set es. resolved saved inbs0 r e) \<and>
      fst ` set (rs_targets r) \<subseteq> en_tag ` set es \<and>
      apply_entries es \<lparr>dr_inbounds = restore_inbounds (rs_restoring r) inbs0,
                        dr_config = jput ''inbounds'' (JArr inbs0) (pl_original pl), dr_limits = []\<rparr> = Inr d \<and>
      check_revoked es (dr_inbounds d) = Inr () \<and> pl_saved pl = saved \<and>
      inbounds_of (pl_config pl) = Some (filter (\<lambda>i. \<not> emptied (dr_inbounds d) (map fst (rs_targets r)) i) (dr_inbounds d)) \<and>
      pl_suspended pl = filter (\<lambda>t. creds t (dr_inbounds d) = []) (map fst (rs_targets r)) \<and>
      (\<forall>t \<in> fst ` set (rs_targets r). swept (dr_inbounds d) t (tbl_get su_tag t (pl_staged pl))) \<and>
      (\<forall>t \<in> set (pl_suspended pl). \<forall>su. tbl_get su_tag t (pl_staged pl) = Some su \<longrightarrow>
         su_revision su = digest (pl_config pl)) \<and>
      (\<forall>t. t \<notin> fst ` set (rs_targets r) \<longrightarrow> tbl_get su_tag t (pl_staged pl) = tbl_get su_tag t saved) \<and>
      (tbl_keyed su_tag saved \<longrightarrow> tbl_keyed su_tag (pl_staged pl)))"

lemma tbl_get_stamp:
  "tbl_get su_tag t (stamp revision tags j) =
     map_option (\<lambda>r. if t \<in> set tags then r\<lparr>su_revision := revision\<rparr> else r) (tbl_get su_tag t j)"
  by (induction j) (auto simp: stamp_def tbl_upd_def tbl_get_Cons)

lemma swept_stamp: "swept all t (map_option (\<lambda>r. if b then r\<lparr>su_revision := revision\<rparr> else r) su) = swept all t su"
  by (cases su) (auto simp: swept_def)

lemma entry_ok_protocol: "entry_ok e \<Longrightarrow> map_of secret_fields (en_protocol e) \<noteq> None"
  by (simp add: entry_ok_def Let_def)

lemma request_okD:
  assumes "request_ok es"
  shows "\<forall>e \<in> set es. entry_ok e" "distinct (map entry_name es)"
    "\<forall>e \<in> set es. map_of secret_fields (en_protocol e) \<noteq> None"
  using assms entry_ok_protocol by (simp_all add: request_ok_def list_all_iff)

lemma resolve_start: "targets_ok saved inbs \<lparr>rs_targets = [], rs_restoring = []\<rparr>"
  by (simp add: targets_ok_def)

lemma settled_start:
  assumes "targets_ok saved inbs r" "resolved saved inbs r e"
  shows "settled (rs_targets r) (restore_inbounds (rs_restoring r) inbs) e"
proof (cases "(en_tag e, en_protocol e) \<in> set (rs_targets r)")
  case False
  then have e: "filter (tag_is (en_tag e)) inbs = []" "tbl_get su_tag (en_tag e) saved = None"
    using assms(2) by (simp_all add: resolved_def)
  have "en_tag e \<notin> fst ` set (rs_targets r)"
  proof
    assume "en_tag e \<in> fst ` set (rs_targets r)"
    then obtain p where "(en_tag e, p) \<in> set (rs_targets r)"
      by auto
    then show False
      using assms(1) e unfolding targets_ok_def by blast
  qed
  then show ?thesis
    using restore_unresolved [OF assms(1) e(1)] by (simp add: settled_def)
qed (simp add: settled_def)

lemma placed_one: "placed T inbs \<Longrightarrow> t \<in> fst ` set T \<Longrightarrow> \<exists>i. filter (tag_is t) inbs = [i]"
proof -
  assume p: "placed T inbs" and "t \<in> fst ` set T"
  then obtain q where "(t, q) \<in> set T"
    by auto
  then show ?thesis
    using p unfolding placed_def by blast
qed

lemma prepare_planned:
  assumes "prepare digest preserved valid es original saved = Inr pl" "request_ok es" "is_dict original"
  obtains inbs0 r d where "inbounds_of original = Some inbs0" "planned digest es saved inbs0 r d pl"
    "pl_original pl = original" "placed (rs_targets r) (dr_inbounds d)"
proof -
  obtain inbs0 where i0: "inbounds_of original = Some inbs0"
    using assms(1) by (cases "inbounds_of original") (simp_all add: prepare_def)
  have su: "list_all suspension_ok saved"
    using assms(1) i0 by (auto simp: prepare_def split: if_splits)
  let ?res = "resolve digest original saved inbs0 es es \<lparr>rs_targets = [], rs_restoring = []\<rparr>"
  obtain r where r: "?res = Inr r"
    using assms(1) i0 su by (cases ?res) (simp_all add: prepare_def)
  let ?d0 = "\<lparr>dr_inbounds = restore_inbounds (rs_restoring r) inbs0,
              dr_config = jput ''inbounds'' (JArr inbs0) original, dr_limits = []\<rparr>"
  obtain d where d: "apply_entries es ?d0 = Inr d"
    using assms(1) i0 su r by (cases "apply_entries es ?d0") (simp_all add: prepare_def)
  have rv: "check_revoked es (dr_inbounds d) = Inr ()"
    using assms(1) i0 su r d by (cases "check_revoked es (dr_inbounds d)") (simp_all add: prepare_def)
  let ?w0 = "\<lparr>sw_staged = saved, sw_inbounds = dr_inbounds d, sw_suspended = []\<rparr>"
  obtain w where w: "sweep_targets (dr_inbounds d) (map fst (rs_targets r)) ?w0 = Inr w"
    using assms(1) i0 su r d rv
    by (cases "sweep_targets (dr_inbounds d) (map fst (rs_targets r)) ?w0") (auto simp: prepare_def split: if_splits)
  have pl: "pl_original pl = original" "pl_config pl = jput ''inbounds'' (JArr (sw_inbounds w)) (dr_config d)"
    "pl_saved pl = saved" "pl_suspended pl = sw_suspended w"
    "pl_staged pl = stamp (digest (pl_config pl)) (sw_suspended w) (sw_staged w)"
    using assms(1) i0 su r d rv w by (auto simp: prepare_def Let_def split: if_splits)
  have res: "targets_ok saved inbs0 r" "\<forall>e \<in> set es. resolved saved inbs0 r e"
    using resolve_ok [OF r resolve_start request_okD(3) [OF assms(2)] su] by simp_all
  have start: "placed (rs_targets r) (dr_inbounds ?d0)"
    using restore_placed [OF res(1) inbounds_of_dicts [OF i0]] by simp
  have settled: "\<forall>x \<in> set es. settled (rs_targets r) (dr_inbounds ?d0) x"
    using settled_start [OF res(1)] res(2) by simp
  have dist: "distinct (map fst (rs_targets r))"
    using res(1) by (simp add: targets_ok_def)
  have pd: "placed (rs_targets r) (dr_inbounds d)"
    using apply_entries_keep [OF d start settled dist] by blast
  have one: "\<forall>t \<in> set (map fst (rs_targets r)). \<exists>i. filter (tag_is t) (dr_inbounds d) = [i]"
    using placed_one [OF pd] by simp
  have le: "\<forall>t \<in> set (map fst (rs_targets r)). length (filter (tag_is t) (sw_inbounds ?w0)) \<le> 1"
  proof
    fix t
    assume "t \<in> set (map fst (rs_targets r))"
    then obtain i where "filter (tag_is t) (dr_inbounds d) = [i]"
      using one by blast
    then show "length (filter (tag_is t) (sw_inbounds ?w0)) \<le> 1"
      by simp
  qed
  note sw = sweep_targets_ok [OF w dist one le]
  have sub: "\<forall>i \<in> set (sw_inbounds w). is_dict i"
    using sw pd by (simp add: placed_def)
  have "is_dict (dr_config d)"
    using apply_entries_dict [OF d] assms(3) by simp
  then have inb: "inbounds_of (pl_config pl) =
      Some (filter (\<lambda>i. \<not> emptied (dr_inbounds d) (map fst (rs_targets r)) i) (dr_inbounds d))"
    using inbounds_of_put sub pl(2) sw by simp
  have sus: "pl_suspended pl = filter (\<lambda>t. creds t (dr_inbounds d) = []) (map fst (rs_targets r))"
    using sw pl(4) by simp
  have swp: "\<forall>t \<in> fst ` set (rs_targets r). swept (dr_inbounds d) t (tbl_get su_tag t (pl_staged pl))"
    using sw unfolding pl(5) tbl_get_stamp swept_stamp set_map by blast
  have rev: "\<forall>t \<in> set (pl_suspended pl). \<forall>su. tbl_get su_tag t (pl_staged pl) = Some su \<longrightarrow>
      su_revision su = digest (pl_config pl)"
    unfolding pl(5) tbl_get_stamp pl(4) by auto
  have tags: "fst ` set (rs_targets r) \<subseteq> en_tag ` set es"
    using resolve_tags [OF r] by simp
  have sub': "set (sw_suspended w) \<subseteq> fst ` set (rs_targets r)"
    using sw by auto
  have other: "\<forall>t. t \<notin> fst ` set (rs_targets r) \<longrightarrow> tbl_get su_tag t (pl_staged pl) = tbl_get su_tag t saved"
  proof (intro allI impI)
    fix t
    assume t: "t \<notin> fst ` set (rs_targets r)"
    then have "t \<notin> set (sw_suspended w)" "tbl_get su_tag t (sw_staged w) = tbl_get su_tag t saved"
      using sub' sw by auto
    then show "tbl_get su_tag t (pl_staged pl) = tbl_get su_tag t saved"
      by (simp add: pl(5) tbl_get_stamp option.map_ident)
  qed
  have keyed: "tbl_keyed su_tag saved \<longrightarrow> tbl_keyed su_tag (pl_staged pl)"
    using sweep_targets_keyed [OF w] by (simp add: pl(5) stamp_def tbl_keyed_upd)
  have "planned digest es saved inbs0 r d pl"
    unfolding planned_def pl(1) by (intro conjI; fact)
  then show thesis
    using that i0 pl(1) pd by blast
qed

lemma check_revoked_ok:
  assumes "check_revoked es inbs = Inr ()" "e \<in> set es" "\<not> en_enabled e" "filter (tag_is (en_tag e)) inbs = [i]"
  shows "\<exists>cs. clients_of i = Inr cs \<and> \<not> shares_secret e cs"
  using assms
proof (induction es)
  case (Cons x es)
  show ?case
  proof (cases "x = e")
    case True
    have "List.find (tag_is (en_tag e)) inbs = Some i"
      by (simp add: find_filter Cons.prems(4))
    then show ?thesis
      using Cons.prems(1,3) True by (auto split: sum.splits if_splits)
  next
    case False
    have "check_revoked es inbs = Inr ()"
      using Cons.prems(1) by (auto split: option.splits sum.splits if_splits)
    then show ?thesis
      using Cons False by simp
  qed
qed simp

lemma planned_start:
  assumes "planned digest es saved inbs0 r d pl" "\<forall>i \<in> set inbs0. is_dict i"
  shows "placed (rs_targets r) (restore_inbounds (rs_restoring r) inbs0)"
    and "\<forall>x \<in> set es. settled (rs_targets r) (restore_inbounds (rs_restoring r) inbs0) x"
    and "distinct (map fst (rs_targets r))"
proof -
  have t: "targets_ok saved inbs0 r" "\<forall>e \<in> set es. resolved saved inbs0 r e"
    using assms(1) by (simp_all add: planned_def)
  show "placed (rs_targets r) (restore_inbounds (rs_restoring r) inbs0)"
    by (rule restore_placed [OF t(1) assms(2)])
  show "\<forall>x \<in> set es. settled (rs_targets r) (restore_inbounds (rs_restoring r) inbs0) x"
    using settled_start [OF t(1)] t(2) by blast
  show "distinct (map fst (rs_targets r))"
    using t(1) by (simp add: targets_ok_def)
qed

lemma planned_keep:
  assumes "planned digest es saved inbs0 r d pl" "\<forall>i \<in> set inbs0. is_dict i"
  shows "\<forall>x \<in> set es. settled (rs_targets r) (dr_inbounds d) x"
    and "(\<forall>e \<in> set es. \<forall>i. tag_is (en_tag e) i \<longrightarrow> \<not> P i) \<Longrightarrow>
      filter P (dr_inbounds d) = filter P (restore_inbounds (rs_restoring r) inbs0)"
    and "(\<forall>e \<in> set es. en_tag e = t \<longrightarrow> (\<forall>c. same_email e c \<longrightarrow> \<not> U c)) \<Longrightarrow>
      filter U (creds t (dr_inbounds d)) = filter U (creds t (restore_inbounds (rs_restoring r) inbs0))"
proof -
  let ?d0 = "\<lparr>dr_inbounds = restore_inbounds (rs_restoring r) inbs0,
              dr_config = jput ''inbounds'' (JArr inbs0) (pl_original pl), dr_limits = []\<rparr>"
  have d: "apply_entries es ?d0 = Inr d"
    using assms(1) by (simp add: planned_def)
  have p: "placed (rs_targets r) (dr_inbounds ?d0)" "\<forall>x \<in> set es. settled (rs_targets r) (dr_inbounds ?d0) x"
    using planned_start(1,2) [OF assms] by simp_all
  note k = apply_entries_keep [OF d p planned_start(3) [OF assms]]
  show "\<forall>x \<in> set es. settled (rs_targets r) (dr_inbounds d) x"
    using k p(2) by blast
  show "(\<forall>e \<in> set es. \<forall>i. tag_is (en_tag e) i \<longrightarrow> \<not> P i) \<Longrightarrow>
      filter P (dr_inbounds d) = filter P (restore_inbounds (rs_restoring r) inbs0)"
    using k by simp
  show "(\<forall>e \<in> set es. en_tag e = t \<longrightarrow> (\<forall>c. same_email e c \<longrightarrow> \<not> U c)) \<Longrightarrow>
      filter U (creds t (dr_inbounds d)) = filter U (creds t (restore_inbounds (rs_restoring r) inbs0))"
    using k by simp
qed

text \<open>The inbound a credential is sought in, in the candidate.\<close>

definition candidate_of :: "plan \<Rightarrow> json list" where
  "candidate_of pl = (case inbounds_of (pl_config pl) of Some inbs \<Rightarrow> inbs | None \<Rightarrow> [])"

lemma planned_candidate:
  "planned digest es saved inbs0 r d pl \<Longrightarrow>
   candidate_of pl = filter (\<lambda>i. \<not> emptied (dr_inbounds d) (map fst (rs_targets r)) i) (dr_inbounds d)"
  by (simp add: planned_def candidate_of_def)

lemma candidate_tagged:
  assumes "planned digest es saved inbs0 r d pl" "placed (rs_targets r) (dr_inbounds d)" "(t, p) \<in> set (rs_targets r)"
  shows "filter (tag_is t) (candidate_of pl) = (if creds t (dr_inbounds d) = [] then [] else filter (tag_is t) (dr_inbounds d))"
proof -
  obtain i where i: "filter (tag_is t) (dr_inbounds d) = [i]" "tag_is t i"
    using placed_target [OF assms(2,3)] by metis
  have "emptied (dr_inbounds d) (map fst (rs_targets r)) i = (creds t (dr_inbounds d) = [])"
    using i(2) assms(3) by (force simp: emptied_def tag_is_def)
  moreover have "filter (tag_is t) (candidate_of pl) =
      filter (\<lambda>i. \<not> emptied (dr_inbounds d) (map fst (rs_targets r)) i) (filter (tag_is t) (dr_inbounds d))"
    by (simp add: planned_candidate [OF assms(1)] conj_commute)
  ultimately show ?thesis
    by (simp add: i(1))
qed

lemma revoked_gone:
  assumes "prepare digest preserved valid es original saved = Inr pl" "request_ok es" "is_dict original"
    "e \<in> set es" "\<not> en_enabled e" "i \<in> set (candidate_of pl)" "tag_is (en_tag e) i"
  shows "\<exists>cs. clients_of i = Inr cs \<and> \<not> shares_secret e cs"
proof -
  obtain inbs0 r d where p: "inbounds_of original = Some inbs0" "planned digest es saved inbs0 r d pl"
    "placed (rs_targets r) (dr_inbounds d)"
    by (rule prepare_planned [OF assms(1-3)])
  have st: "settled (rs_targets r) (dr_inbounds d) e"
    using planned_keep(1) [OF p(2) inbounds_of_dicts [OF p(1)]] assms(4) by blast
  have mem: "i \<in> set (filter (tag_is (en_tag e)) (dr_inbounds d))"
    using assms(6,7) planned_candidate [OF p(2)] by simp
  then have "(en_tag e, en_protocol e) \<in> set (rs_targets r)"
    using st by (auto simp: settled_def filter_empty_conv)
  then obtain j where j: "filter (tag_is (en_tag e)) (dr_inbounds d) = [j]"
    using placed_target [OF p(3)] by metis
  then have "i = j"
    using mem by simp
  moreover have "check_revoked es (dr_inbounds d) = Inr ()"
    using p(2) by (simp add: planned_def)
  ultimately show ?thesis
    using check_revoked_ok [OF _ assms(4,5) j] by blast
qed

lemma swept_clients: "swept all t su \<Longrightarrow> \<exists>i cs. filter (tag_is t) all = [i] \<and> clients_of i = Inr cs"
  unfolding swept_def by blast

lemma planned_swept:
  assumes "planned digest es saved inbs0 r d pl" "t \<in> fst ` set (rs_targets r)"
  shows "swept (dr_inbounds d) t (tbl_get su_tag t (pl_staged pl))"
proof -
  have "\<forall>t \<in> fst ` set (rs_targets r). swept (dr_inbounds d) t (tbl_get su_tag t (pl_staged pl))"
    using assms(1) unfolding planned_def by (elim conjE)
  then show ?thesis
    using assms(2) by (rule bspec)
qed

lemma enabled_present:
  assumes "prepare digest preserved valid es original saved = Inr pl" "request_ok es" "is_dict original"
    "e \<in> set es" "en_enabled e"
  shows "\<exists>i cs c. filter (tag_is (en_tag e)) (candidate_of pl) = [i] \<and> clients_of i = Inr cs \<and>
    filter (same_email e) cs = [c] \<and> matches_secret e c"
proof -
  obtain inbs0 r d where p: "inbounds_of original = Some inbs0" "planned digest es saved inbs0 r d pl"
    "placed (rs_targets r) (dr_inbounds d)"
    by (rule prepare_planned [OF assms(1-3)])
  note st = planned_start [OF p(2) inbounds_of_dicts [OF p(1)]]
  have T: "(en_tag e, en_protocol e) \<in> set (rs_targets r)"
    using p(2) assms(4,5) by (auto simp: planned_def resolved_def)
  let ?d0 = "\<lparr>dr_inbounds = restore_inbounds (rs_restoring r) inbs0,
              dr_config = jput ''inbounds'' (JArr inbs0) (pl_original pl), dr_limits = []\<rparr>"
  have d: "apply_entries es ?d0 = Inr d"
    using p(2) by (simp add: planned_def)
  have names: "\<forall>x \<in> set es. x \<noteq> e \<longrightarrow> entry_name x \<noteq> entry_name e"
    using request_okD(2) [OF assms(2)] assms(4) by (auto simp: distinct_map inj_on_def)
  have "held e (dr_inbounds d)"
    using apply_entries_hold [OF d _ _ st(3) assms(5) T] st(1,2) request_okD(1) [OF assms(2)] names assms(4) by simp
  then obtain c where c: "filter (same_email e) (creds (en_tag e) (dr_inbounds d)) = [c]" "matches_secret e c"
    by (auto simp: held_def)
  have "en_tag e \<in> fst ` set (rs_targets r)"
    using T by force
  from swept_clients [OF planned_swept [OF p(2) this]] obtain i cs where
    i: "filter (tag_is (en_tag e)) (dr_inbounds d) = [i]" "clients_of i = Inr cs"
    by blast
  have cr: "creds (en_tag e) (dr_inbounds d) = cs"
    by (rule creds_one [OF i])
  then have "filter (tag_is (en_tag e)) (candidate_of pl) = [i]"
    using candidate_tagged [OF p(2,3) T] c(1) i(1) by auto
  then show ?thesis
    using i(2) c cr by blast
qed

section \<open>What no entry names\<close>

text \<open>Whether no entry for the inbound \<open>t\<close> names a credential.\<close>

definition unnamed :: "entry list \<Rightarrow> string \<Rightarrow> json \<Rightarrow> bool" where
  "unnamed es t c = (\<forall>e \<in> set es. en_tag e = t \<longrightarrow> \<not> same_email e c)"

lemma restored_tagged:
  assumes "targets_ok saved inbs r" "(\<And>i. i \<in> set (map snd (rs_restoring r)) \<Longrightarrow> \<not> P i)"
  shows "filter P (restore_inbounds (rs_restoring r) inbs) = filter P inbs"
  by (rule filter_restore) (use assms(2) in force)

lemma candidate_unnamed:
  assumes "planned digest es saved inbs0 r d pl" "\<forall>i \<in> set inbs0. is_dict i" "\<And>i e. e \<in> set es \<Longrightarrow> tag_is (en_tag e) i \<Longrightarrow> \<not> P i"
  shows "filter P (candidate_of pl) = filter P inbs0"
proof -
  have t: "targets_ok saved inbs0 r" "fst ` set (rs_targets r) \<subseteq> en_tag ` set es"
    using assms(1) by (simp_all add: planned_def)
  have np: "\<not> P i" if st: "s \<in> fst ` set (rs_targets r)" and i: "tag_is s i" for s i
  proof -
    obtain e where e: "e \<in> set es" "s = en_tag e"
      using st t(2) by blast
    show ?thesis
      by (rule assms(3) [OF e(1)]) (use i e(2) in simp)
  qed
  have "\<not> emptied (dr_inbounds d) (map fst (rs_targets r)) i" if "P i" for i
    using that np unfolding emptied_def set_map by blast
  then have "filter P (candidate_of pl) = filter P (dr_inbounds d)"
    unfolding planned_candidate [OF assms(1)] filter_filter by (metis (mono_tags, lifting))
  also have "\<dots> = filter P (restore_inbounds (rs_restoring r) inbs0)"
    using planned_keep(2) [OF assms(1,2)] assms(3) by blast
  also have "\<dots> = filter P inbs0"
  proof (rule restored_tagged [OF t(1)])
    fix i
    assume "i \<in> set (map snd (rs_restoring r))"
    then obtain n where "(n, i) \<in> set (rs_restoring r)"
      by auto
    then have "\<exists>s \<in> fst ` set (rs_targets r). tag_is s i"
      using t(1) unfolding targets_ok_def by blast
    then show "\<not> P i"
      using np by blast
  qed
  finally show ?thesis .
qed

lemma creds_unnamed:
  assumes "planned digest es saved inbs0 r d pl" "\<forall>i \<in> set inbs0. is_dict i" "placed (rs_targets r) (dr_inbounds d)"
    "filter (tag_is t) inbs0 \<noteq> []"
  shows "filter (unnamed es t) (creds t (candidate_of pl)) = filter (unnamed es t) (creds t inbs0)"
proof (cases "t \<in> fst ` set (rs_targets r)")
  case False
  have "\<not> tag_is t i" if "e \<in> set es" "tag_is (en_tag e) i" for e i
  proof -
    have "resolved saved inbs0 r e"
      using assms(1) that(1) by (simp add: planned_def)
    then have "en_tag e \<noteq> t"
      using assms(4) False unfolding resolved_def by force
    then show ?thesis
      using that(2) by (simp add: tag_is_def)
  qed
  then have "filter (tag_is t) (candidate_of pl) = filter (tag_is t) inbs0"
    using candidate_unnamed [OF assms(1,2)] by blast
  then show ?thesis
    using creds_cong by metis
next
  case True
  then obtain p where p: "(t, p) \<in> set (rs_targets r)"
    by auto
  have "targets_ok saved inbs0 r"
    using assms(1) by (simp add: planned_def)
  then obtain i where i: "filter (tag_is t) (inbs0 @ map snd (rs_restoring r)) = [i]"
    using p unfolding targets_ok_def by blast
  then have "filter (tag_is t) inbs0 = [i]"
    using assms(4) by (auto simp: append_eq_Cons_conv)
  moreover have "filter (tag_is t) (restore_inbounds (rs_restoring r) inbs0) = [i]"
    using filter_mset_singleton [OF mset_restore i] .
  ultimately have "creds t (restore_inbounds (rs_restoring r) inbs0) = creds t inbs0"
    using creds_cong by metis
  then have 1: "filter (unnamed es t) (creds t (dr_inbounds d)) = filter (unnamed es t) (creds t inbs0)"
    using planned_keep(3) [OF assms(1,2), of t "unnamed es t"] by (auto simp: unnamed_def)
  show ?thesis
  proof (cases "creds t (dr_inbounds d) = []")
    case True
    then have "creds t (candidate_of pl) = []"
      using candidate_tagged [OF assms(1,3) p] by (simp add: creds_def)
    then show ?thesis
      using 1 True by simp
  next
    case False
    then have "filter (tag_is t) (candidate_of pl) = filter (tag_is t) (dr_inbounds d)"
      using candidate_tagged [OF assms(1,3) p] by simp
    then have "creds t (candidate_of pl) = creds t (dr_inbounds d)"
      by (rule creds_cong)
    then show ?thesis
      using 1 by simp
  qed
qed

end
