(* ===== verification/Agent_Access_Safety.thy ===== *)
theory Agent_Access_Safety
  imports Agent_Access_Plan
begin

text \<open>
  The states the disk goes through while a plan is committed, and the properties of subscription access
  on an agent: credentials revoked, present and untouched, and listeners that no crash loses.
\<close>

section \<open>The states of the disk during a commit\<close>

text \<open>A listener is there when the configuration has an inbound with its tag or the journal holds it.\<close>

definition present :: "string \<Rightarrow> disk \<Rightarrow> bool" where
  "present t dk =
     ((case inbounds_of (dk_config dk) of Some inbs \<Rightarrow> list_ex (tag_is t) inbs | None \<Rightarrow> False) \<or>
      tbl_get su_tag t (dk_journal dk) \<noteq> None)"

lemma keys_merged: "su_tag ` set (merged a b) = su_tag ` set a \<union> su_tag ` set b"
proof -
  have "su_tag ` set (foldl (\<lambda>j r. tbl_put su_tag r j) a b) = su_tag ` set a \<union> su_tag ` set b"
    by (induction b arbitrary: a) (auto simp: keys_tbl_put)
  then show ?thesis
    by (simp add: merged_def)
qed

lemma tbl_get_merged:
  "tbl_keyed su_tag b \<Longrightarrow>
   tbl_get su_tag t (merged a b) = (case tbl_get su_tag t b of Some r \<Rightarrow> Some r | None \<Rightarrow> tbl_get su_tag t a)"
proof -
  assume "tbl_keyed su_tag b"
  then have "tbl_get su_tag t (foldl (\<lambda>j r. tbl_put su_tag r j) a b) =
      (case tbl_get su_tag t b of Some r \<Rightarrow> Some r | None \<Rightarrow> tbl_get su_tag t a)"
  proof (induction b arbitrary: a)
    case (Cons x b)
    then have "tbl_get su_tag (su_tag x) b = None"
      by (auto simp: tbl_keyed_def tbl_get_None)
    then show ?case
      using Cons by (auto simp: tbl_keyed_def tbl_get_put tbl_get_Cons split: option.splits)
  qed simp
  then show ?thesis
    by (simp add: merged_def)
qed

lemma tbl_get_mark:
  "tbl_get su_tag t (mark_suspended tags j) =
     map_option (\<lambda>r. if t \<in> set tags then r\<lparr>su_prepared := False\<rparr> else r) (tbl_get su_tag t j)"
  by (induction j) (auto simp: mark_suspended_def tbl_upd_def tbl_get_Cons)

text \<open>The configurations and journals a commit can leave behind, when the file reads back as written.\<close>

definition commit_states :: "plan \<Rightarrow> disk list" where
  "commit_states pl =
     (let j = merged (pl_saved pl) (pl_staged pl) in
      [\<lparr>dk_config = pl_original pl, dk_journal = pl_saved pl\<rparr>,
       \<lparr>dk_config = pl_original pl, dk_journal = j\<rparr>,
       \<lparr>dk_config = pl_config pl, dk_journal = j\<rparr>,
       \<lparr>dk_config = pl_config pl, dk_journal = mark_suspended (pl_suspended pl) (pl_staged pl)\<rparr>])"

lemma write_config_states:
  "set (fst (write_config valid wo old new dk)) \<subseteq> {dk\<lparr>dk_config := new\<rparr>, dk}"
  by (auto simp: write_config_def)

lemma after_save_states: "set (after_save wo j dk) \<subseteq> {dk\<lparr>dk_journal := j\<rparr>}"
  by (auto simp: after_save_def save_journal_def)

lemma roll_back_states:
  "set (roll_back preserved valid wo pl dk) \<subseteq>
     {dk\<lparr>dk_config := pl_original pl\<rparr>, dk, dk\<lparr>dk_config := pl_original pl, dk_journal := pl_saved pl\<rparr>}"
proof -
  obtain trace b where w: "write_config valid wo (pl_config pl) (pl_original pl) dk = (trace, b)"
    by (cases "write_config valid wo (pl_config pl) (pl_original pl) dk")
  have "set trace \<subseteq> {dk\<lparr>dk_config := pl_original pl\<rparr>, dk}"
    using write_config_states [of valid wo "pl_config pl" "pl_original pl" dk] w by simp
  moreover have "set (after_save wo (pl_saved pl) (dk\<lparr>dk_config := pl_original pl\<rparr>)) \<subseteq>
      {dk\<lparr>dk_config := pl_original pl, dk_journal := pl_saved pl\<rparr>}"
    using after_save_states [of wo "pl_saved pl" "dk\<lparr>dk_config := pl_original pl\<rparr>"] by simp
  ultimately show ?thesis
    by (cases b) (auto simp: roll_back_def w Let_def split: if_splits)
qed

lemma commit_plan_states:
  assumes "dk = \<lparr>dk_config = pl_original pl, dk_journal = pl_saved pl\<rparr>" "\<And>c. wo_read wo c = Some c"
  shows "set (fst (commit_plan preserved valid wo pl dk)) \<subseteq> set (commit_states pl)"
proof (cases "\<not> preserved (pl_original pl) (pl_config pl) \<or> \<not> wo_limiter wo (pl_limits pl)")
  case True
  then show ?thesis
    by (simp add: commit_plan_def)
next
  case False
  let ?j = "merged (pl_saved pl) (pl_staged pl)"
  let ?dk1 = "\<lparr>dk_config = pl_original pl, dk_journal = ?j\<rparr>" and ?dk2 = "\<lparr>dk_config = pl_config pl, dk_journal = ?j\<rparr>"
  let ?dk3 = "\<lparr>dk_config = pl_config pl, dk_journal = mark_suspended (pl_suspended pl) (pl_staged pl)\<rparr>"
  have st: "set (commit_states pl) = {dk, ?dk1, ?dk2, ?dk3}"
    by (simp add: commit_states_def Let_def assms(1) insert_commute)
  have rd: "read_preserves preserved wo (pl_original pl) ?dk2"
    using False by (simp add: read_preserves_def assms(2))
  show ?thesis
  proof (cases "wo_save wo ?j")
    case f: False
    then show ?thesis
      using False by (simp add: commit_plan_def save_journal_def)
  next
    case True
    then have sv: "save_journal wo ?j dk = Some ?dk1"
      by (simp add: save_journal_def assms(1))
    obtain trace b where w: "write_config valid wo (pl_original pl) (pl_config pl) ?dk1 = (trace, b)"
      by (cases "write_config valid wo (pl_original pl) (pl_config pl) ?dk1")
    have tr: "set trace \<subseteq> {?dk2, ?dk1}"
      using write_config_states [of valid wo "pl_original pl" "pl_config pl" ?dk1] w by simp
    show ?thesis
    proof (cases b)
      case b: False
      have "set (after_save wo (pl_saved pl) ?dk1) \<subseteq> {dk}"
        using after_save_states [of wo "pl_saved pl" ?dk1] by (simp add: assms(1))
      then show ?thesis
        using False sv w b tr unfolding st by (auto simp: commit_plan_def)
    next
      case b: True
      have rb: "set (roll_back preserved valid wo pl ?dk2) \<subseteq> {dk, ?dk1, ?dk2}"
        using roll_back_states [of preserved valid wo pl ?dk2] by (auto simp: assms(1))
      show ?thesis
      proof (cases "wo_save wo (mark_suspended (pl_suspended pl) (pl_staged pl))")
        case True
        then show ?thesis
          using False sv w b rd unfolding st by (simp add: commit_plan_def Let_def save_journal_def)
      next
        case f: False
        then show ?thesis
          using False sv w b rd rb unfolding st by (auto simp: commit_plan_def Let_def save_journal_def)
      qed
    qed
  qed
qed

section \<open>No listener is lost\<close>

lemma present_config:
  assumes "filter (tag_is t) (candidate_of pl) \<noteq> []"
  shows "present t \<lparr>dk_config = pl_config pl, dk_journal = j\<rparr>"
proof -
  obtain i where "i \<in> set (candidate_of pl)" "tag_is t i"
    using assms by (auto simp: filter_empty_conv)
  then show ?thesis
    by (auto simp: present_def candidate_of_def list_ex_iff split: option.splits)
qed

lemma planned_kept:
  assumes "planned digest es saved inbs0 r d pl" "placed (rs_targets r) (dr_inbounds d)" "inbounds_of (pl_original pl) = Some inbs0"
    "present t \<lparr>dk_config = pl_original pl, dk_journal = saved\<rparr>"
  shows "filter (tag_is t) (candidate_of pl) \<noteq> [] \<or> tbl_get su_tag t (pl_staged pl) \<noteq> None"
proof (cases "t \<in> fst ` set (rs_targets r)")
  case True
  then obtain p where p: "(t, p) \<in> set (rs_targets r)"
    by auto
  obtain i cs where i: "filter (tag_is t) (dr_inbounds d) = [i]" "clients_of i = Inr cs"
    and sw: "cs = [] \<Longrightarrow> tbl_get su_tag t (pl_staged pl) \<noteq> None"
    using planned_swept [OF assms(1) True] by (auto simp: swept_def split: if_splits)
  show ?thesis
  proof (cases "cs = []")
    case False
    then have "filter (tag_is t) (candidate_of pl) = [i]"
      using candidate_tagged [OF assms(1,2) p] creds_one [OF i] i(1) by simp
    then show ?thesis
      by simp
  qed (use sw in simp)
next
  case False
  have staged: "tbl_get su_tag t (pl_staged pl) = tbl_get su_tag t saved"
  proof -
    have "\<forall>t. t \<notin> fst ` set (rs_targets r) \<longrightarrow> tbl_get su_tag t (pl_staged pl) = tbl_get su_tag t saved"
      using assms(1) unfolding planned_def by (elim conjE)
    then show ?thesis
      using False by blast
  qed
  show ?thesis
  proof (cases "tbl_get su_tag t saved = None")
    case True
    then have t0: "filter (tag_is t) inbs0 \<noteq> []"
      using assms(3,4) by (auto simp: present_def list_ex_iff filter_empty_conv)
    have "\<not> tag_is t i" if e: "e \<in> set es" "tag_is (en_tag e) i" for e i
    proof -
      have "resolved saved inbs0 r e"
        using assms(1) e(1) by (simp add: planned_def)
      then have "en_tag e \<noteq> t"
        using t0 False unfolding resolved_def by force
      then show ?thesis
        using e(2) by (simp add: tag_is_def)
    qed
    then have "filter (tag_is t) (candidate_of pl) = filter (tag_is t) inbs0"
      using candidate_unnamed [OF assms(1) inbounds_of_dicts [OF assms(3)]] by blast
    then show ?thesis
      using t0 by simp
  qed (simp add: staged)
qed

lemma commit_states_present:
  assumes "planned digest es saved inbs0 r d pl" "placed (rs_targets r) (dr_inbounds d)" "inbounds_of (pl_original pl) = Some inbs0"
    "present t \<lparr>dk_config = pl_original pl, dk_journal = saved\<rparr>" "s \<in> set (commit_states pl)"
  shows "present t s"
proof -
  let ?j = "merged saved (pl_staged pl)"
  have saved: "pl_saved pl = saved"
    using assms(1) by (simp add: planned_def)
  have mono: "tbl_get su_tag t ?j \<noteq> None" if "tbl_get su_tag t saved \<noteq> None \<or> tbl_get su_tag t (pl_staged pl) \<noteq> None"
    using that by (auto simp: tbl_get_None keys_merged)
  note kept = planned_kept [OF assms(1-4)]
  have s: "s \<in> {\<lparr>dk_config = pl_original pl, dk_journal = saved\<rparr>, \<lparr>dk_config = pl_original pl, dk_journal = ?j\<rparr>,
     \<lparr>dk_config = pl_config pl, dk_journal = ?j\<rparr>,
     \<lparr>dk_config = pl_config pl, dk_journal = mark_suspended (pl_suspended pl) (pl_staged pl)\<rparr>}"
    using assms(5) by (simp add: commit_states_def Let_def saved)
  have "present t \<lparr>dk_config = pl_original pl, dk_journal = ?j\<rparr>"
    using assms(4) mono by (auto simp: present_def)
  moreover have "present t \<lparr>dk_config = pl_config pl, dk_journal = ?j\<rparr>"
  proof (cases "filter (tag_is t) (candidate_of pl) = []")
    case True
    then show ?thesis
      using kept mono by (simp add: present_def)
  qed (rule present_config)
  moreover have "present t \<lparr>dk_config = pl_config pl, dk_journal = mark_suspended (pl_suspended pl) (pl_staged pl)\<rparr>"
  proof (cases "filter (tag_is t) (candidate_of pl) = []")
    case True
    then show ?thesis
      using kept by (simp add: present_def tbl_get_mark)
  qed (rule present_config)
  ultimately show ?thesis
    using s assms(4) by blast
qed

lemma skeleton_protocol: "skeleton i = Inr k \<Longrightarrow> is_dict i \<Longrightarrow> protocol_of k = protocol_of i"
  by (auto simp: skeleton_def Let_def protocol_of_def jfield_jput split: if_splits sum.splits)

lemma suspended_resolves:
  assumes "planned digest es saved inbs0 r d pl" "placed (rs_targets r) (dr_inbounds d)" "tbl_keyed su_tag saved"
    "e \<in> set es" "en_tag e \<in> set (pl_suspended pl)"
    "j = merged saved (pl_staged pl) \<or> j = mark_suspended (pl_suspended pl) (pl_staged pl)"
  shows "\<exists>r'. resolve_entry digest (pl_config pl) j (candidate_of pl) es' e \<lparr>rs_targets = [], rs_restoring = []\<rparr> = Inr r' \<and>
    (en_tag e, en_protocol e) \<in> set (rs_targets r')"
proof -
  let ?t = "en_tag e"
  have sus: "pl_suspended pl = filter (\<lambda>t. creds t (dr_inbounds d) = []) (map fst (rs_targets r))"
    using assms(1) by (simp add: planned_def)
  have T: "?t \<in> fst ` set (rs_targets r)" and none: "creds ?t (dr_inbounds d) = []"
    using assms(5) by (auto simp: sus)
  obtain i cs where i: "filter (tag_is ?t) (dr_inbounds d) = [i]" "clients_of i = Inr cs"
    and sw: "cs = [] \<Longrightarrow> \<exists>su. tbl_get su_tag ?t (pl_staged pl) = Some su \<and> su_prepared su \<and> skeleton i = Inr (su_inbound su)"
    using planned_swept [OF assms(1) T] by (auto simp: swept_def split: if_splits)
  have "cs = []"
    using creds_one [OF i] none by simp
  then obtain su where su: "tbl_get su_tag ?t (pl_staged pl) = Some su" "skeleton i = Inr (su_inbound su)"
    using sw by blast
  obtain q where q: "(?t, q) \<in> set (rs_targets r)"
    using T by auto
  have te: "(?t, en_protocol e) \<in> set (rs_targets r)"
  proof -
    have "resolved saved inbs0 r e" "targets_ok saved inbs0 r"
      using assms(1,4) by (simp_all add: planned_def)
    then show ?thesis
      using q unfolding resolved_def targets_ok_def by blast
  qed
  obtain i' where "filter (tag_is ?t) (dr_inbounds d) = [i']" "protocol_of i' = JStr (en_protocol e)" "is_dict i'"
    by (rule placed_target [OF assms(2) te])
  then have p: "protocol_of (su_inbound su) = JStr (en_protocol e)"
    using i(1) skeleton_protocol [OF su(2)] by simp
  have rev: "su_revision su = digest (pl_config pl)"
  proof -
    have "\<forall>t \<in> set (pl_suspended pl). \<forall>su. tbl_get su_tag t (pl_staged pl) = Some su \<longrightarrow>
         su_revision su = digest (pl_config pl)"
      using assms(1) unfolding planned_def by (elim conjE)
    then show ?thesis
      using assms(5) su(1) by blast
  qed
  have keyed: "tbl_keyed su_tag (pl_staged pl)"
    using assms(1,3) by (simp add: planned_def)
  obtain su' where su': "tbl_get su_tag ?t j = Some su'" "su_revision su' = digest (pl_config pl)"
    "su_inbound su' = su_inbound su"
    using assms(6) su(1) rev tbl_get_merged [OF keyed] by (auto simp: tbl_get_mark)
  have gone: "filter (tag_is ?t) (candidate_of pl) = []"
    using candidate_tagged [OF assms(1,2) te] none by simp
  show ?thesis
    by (simp add: resolve_entry_def gone su' take_target_def p)
qed

section \<open>Properties\<close>


text \<open>C10: An enabled credential is in the candidate: one inbound has its tag, and among the clients of that
  inbound exactly one has its email, with its secret, whatever the other entries of the request do.\<close>

theorem enabled_credential_present:
  assumes "prepare digest preserved valid es original saved = Inr pl" "request_ok es" "is_dict original"
    "e \<in> set es" "en_enabled e"
  shows "\<exists>i cs c. filter (tag_is (en_tag e)) (candidate_of pl) = [i] \<and> clients_of i = Inr cs \<and>
    filter (same_email e) cs = [c] \<and> matches_secret e c"
  by (rule enabled_present [OF assms])

text \<open>C14: A request changes nothing it does not name: inbounds of other tags stay as they are, in their
  order, and in the inbounds it names every client whose email no entry has stays, in its order. So a
  listener is only taken out when all its clients were named.\<close>

theorem other_credentials_untouched:
  assumes "prepare digest preserved valid es original saved = Inr pl" "request_ok es" "is_dict original"
    "inbounds_of original = Some inbs"
  shows "filter (\<lambda>i. \<forall>e \<in> set es. \<not> tag_is (en_tag e) i) (candidate_of pl) =
      filter (\<lambda>i. \<forall>e \<in> set es. \<not> tag_is (en_tag e) i) inbs \<and>
    (\<forall>t. filter (tag_is t) inbs \<noteq> [] \<longrightarrow>
       filter (unnamed es t) (creds t (candidate_of pl)) = filter (unnamed es t) (creds t inbs))"
proof -
  obtain inbs0 r d where p: "inbounds_of original = Some inbs0" "planned digest es saved inbs0 r d pl"
    "placed (rs_targets r) (dr_inbounds d)"
    by (rule prepare_planned [OF assms(1-3)])
  have "filter (\<lambda>i. \<forall>e \<in> set es. \<not> tag_is (en_tag e) i) (candidate_of pl) =
      filter (\<lambda>i. \<forall>e \<in> set es. \<not> tag_is (en_tag e) i) inbs0"
    by (rule candidate_unnamed [OF p(2) inbounds_of_dicts [OF p(1)]]) blast
  then show ?thesis
    using creds_unnamed [OF p(2) inbounds_of_dicts [OF p(1)] p(3)] assms(4) p(1) by simp
qed


text \<open>C22: An interrupted suspension is recognised: when the process stops after the configuration without
  the emptied listeners was written, resolving a suspended tag in any later request takes the listener
  from the journal, for the protocol it had.\<close>

theorem interrupted_suspension_resumes:
  assumes "prepare digest preserved valid es (dk_config dk) (dk_journal dk) = Inr pl" "request_ok es" "is_dict (dk_config dk)"
    "tbl_keyed su_tag (dk_journal dk)" "\<And>c. wo_read wo c = Some c" "s \<in> set (fst (commit_plan preserved valid wo pl dk))"
    "dk_config s = pl_config pl" "pl_config pl \<noteq> dk_config dk" "e \<in> set es" "en_tag e \<in> set (pl_suspended pl)"
  shows "\<exists>r. resolve_entry digest (dk_config s) (dk_journal s) (candidate_of pl) es' e \<lparr>rs_targets = [], rs_restoring = []\<rparr> = Inr r \<and>
    (en_tag e, en_protocol e) \<in> set (rs_targets r)"
proof -
  obtain inbs0 r d where p: "inbounds_of (dk_config dk) = Some inbs0" "planned digest es (dk_journal dk) inbs0 r d pl"
    "pl_original pl = dk_config dk" "placed (rs_targets r) (dr_inbounds d)"
    by (rule prepare_planned [OF assms(1-3)])
  have dk: "dk = \<lparr>dk_config = pl_original pl, dk_journal = pl_saved pl\<rparr>" "pl_saved pl = dk_journal dk"
    using p(2,3) by (simp_all add: planned_def)
  have "s \<in> set (commit_states pl)"
    using commit_plan_states [OF dk(1) assms(5)] assms(6) by blast
  then have "dk_journal s = merged (dk_journal dk) (pl_staged pl) \<or>
      dk_journal s = mark_suspended (pl_suspended pl) (pl_staged pl)"
    using assms(7,8) p(3) dk(2) by (auto simp: commit_states_def Let_def)
  then show ?thesis
    using suspended_resolves [OF p(2,4) assms(4,9,10)] assms(7) by simp
qed

section \<open>A request on a concrete configuration\<close>

definition vless :: "string \<Rightarrow> (string \<times> string) list \<Rightarrow> json" where
  "vless tag us =
     JObj [(''tag'', JStr tag), (''protocol'', JStr ''vless''),
           (''settings'', JObj [(''clients'', JArr (map (\<lambda>(i, e). JObj [(''id'', JStr i), (''email'', JStr e)]) us))])]"

definition vless_entry :: "string \<Rightarrow> string \<Rightarrow> string \<Rightarrow> bool \<Rightarrow> entry" where
  "vless_entry tag i e on =
     \<lparr>en_tag = tag, en_protocol = ''vless'', en_client = JObj [(''id'', JStr i), (''email'', JStr e)],
      en_enabled = on, en_routes = [], en_limiter = None\<rparr>"

definition sample_inbounds :: "json list" where
  "sample_inbounds = [vless ''a'' [(''1'', ''ann''), (''2'', ''bob'')], vless ''b'' [(''3'', ''cy'')], vless ''c'' [(''4'', ''eve'')]]"

definition sample_config :: json where
  "sample_config = JObj [(''inbounds'', JArr sample_inbounds)]"

definition revoke_ann :: entry where "revoke_ann = vless_entry ''a'' ''1'' ''ann'' False"
definition enable_dan :: entry where "enable_dan = vless_entry ''a'' ''5'' ''dan'' True"
definition revoke_cy :: entry where "revoke_cy = vless_entry ''b'' ''3'' ''cy'' False"

definition sample_entries :: "entry list" where
  "sample_entries = [revoke_ann, enable_dan, revoke_cy]"

definition sample_digest :: "json \<Rightarrow> string" where
  "sample_digest c = (case inbounds_of c of Some is \<Rightarrow> nat_str (length is) | None \<Rightarrow> [])"

definition sample_prepare :: "fault + plan" where
  "sample_prepare = prepare sample_digest (\<lambda>_ _. True) (\<lambda>_. True) sample_entries sample_config []"

definition sample_plan :: plan where
  "sample_plan = (case sample_prepare of Inr pl \<Rightarrow> pl
     | Inl _ \<Rightarrow> \<lparr>pl_original = JNull, pl_config = JNull, pl_saved = [], pl_staged = [], pl_suspended = [], pl_limits = []\<rparr>)"

definition sample_world :: world where
  "sample_world = \<lparr>wo_limiter = \<lambda>_. True, wo_save = \<lambda>_. True, wo_restart = \<lambda>_. True, wo_read = Some\<rparr>"

definition sample_disk :: disk where
  "sample_disk = \<lparr>dk_config = sample_config, dk_journal = []\<rparr>"

definition sample_trace :: "disk list" where
  "sample_trace = fst (commit_plan (\<lambda>_ _. True) (\<lambda>_. True) sample_world sample_plan sample_disk)"

lemma sample_prepared: "prepare sample_digest (\<lambda>_ _. True) (\<lambda>_. True) sample_entries sample_config [] = Inr sample_plan"
  by code_simp

lemma sample_ok: "request_ok sample_entries" "is_dict sample_config"
  by code_simp+

lemma sample_candidate: "candidate_of sample_plan = [vless ''a'' [(''2'', ''bob''), (''5'', ''dan'')], vless ''c'' [(''4'', ''eve'')]]"
  by code_simp

lemma sample_traced: "length sample_trace = 3"
  by code_simp


theorem enabled_credential_present_witness:
  "\<exists>i cs c. filter (tag_is (en_tag enable_dan)) (candidate_of sample_plan) = [i] \<and> clients_of i = Inr cs \<and>
    filter (same_email enable_dan) cs = [c] \<and> matches_secret enable_dan c"
  by (rule enabled_credential_present [OF sample_prepared sample_ok])
    (simp_all add: sample_entries_def enable_dan_def vless_entry_def)

theorem other_credentials_untouched_witness:
  "filter (unnamed sample_entries ''a'') (creds ''a'' (candidate_of sample_plan)) =
     filter (unnamed sample_entries ''a'') (creds ''a'' sample_inbounds)"
proof -
  have "inbounds_of sample_config = Some sample_inbounds" "filter (tag_is ''a'') sample_inbounds \<noteq> []"
    by code_simp+
  then show ?thesis
    using other_credentials_untouched [OF sample_prepared sample_ok] by blast
qed


theorem interrupted_suspension_resumes_witness:
  "\<exists>r. resolve_entry sample_digest (dk_config (sample_trace ! 1)) (dk_journal (sample_trace ! 1)) (candidate_of sample_plan)
      sample_entries revoke_cy \<lparr>rs_targets = [], rs_restoring = []\<rparr> = Inr r \<and>
    (en_tag revoke_cy, en_protocol revoke_cy) \<in> set (rs_targets r)"
proof -
  have t: "sample_trace ! 1 \<in> set (fst (commit_plan (\<lambda>_ _. True) (\<lambda>_. True) sample_world sample_plan sample_disk))"
    using sample_traced nth_mem [of 1 sample_trace] by (simp add: sample_trace_def)
  have p: "prepare sample_digest (\<lambda>_ _. True) (\<lambda>_. True) sample_entries (dk_config sample_disk) (dk_journal sample_disk) =
      Inr sample_plan"
    using sample_prepared by (simp add: sample_disk_def)
  show ?thesis
  proof (rule interrupted_suspension_resumes [OF p sample_ok(1) _ _ _ t])
    show "is_dict (dk_config sample_disk)" "tbl_keyed su_tag (dk_journal sample_disk)"
      by (simp_all add: sample_disk_def sample_ok tbl_keyed_def)
    show "wo_read sample_world c = Some c" for c
      by (simp add: sample_world_def)
    show "dk_config (sample_trace ! 1) = pl_config sample_plan"
      by code_simp
    show "pl_config sample_plan \<noteq> dk_config sample_disk"
      by code_simp
    show "revoke_cy \<in> set sample_entries"
      by (simp add: sample_entries_def)
    show "en_tag revoke_cy \<in> set (pl_suspended sample_plan)"
      by code_simp
  qed
qed

end
