(* ===== verification/Managed_Egress.thy ===== *)
theory Managed_Egress
  imports Agent_Access "HOL-Library.Multiset"
begin

text \<open>
  The records of a configuration that only their own workflow may change:
  \<open>agent/app/open_node_agent/operations.py\<close>. Outbounds, rules, clients and balancers of managed
  egress, the WARP outbounds, and the sniffing exclusions managed egress owns are projected out of the
  configuration; an edit is refused when the projections before and after differ. Python compares
  sorted lists of canonical texts; here they are compared as lists up to order, of canonical values.
  A projection that meets a value Python cannot iterate over is \<open>None\<close>: the comparison raises.
\<close>

definition outbound_prefix :: string where
  "outbound_prefix = ''managed-egress:''"

definition rule_prefix :: string where
  "rule_prefix = ''managed-egress-rule:''"

definition client_prefix :: string where
  "client_prefix = ''open_node_egress__''"

definition sniffing_key :: string where
  "sniffing_key = ''_openNodeManagedEgressSniffing''"

definition warp_tags :: "string list" where
  "warp_tags = [''warp-v4'', ''warp-v6'']"

definition begins :: "string \<Rightarrow> string \<Rightarrow> bool" where
  "begins p s = (take (length p) s = p)"

text \<open>\<open>str(v or "")\<close>: the text of a value that is no string begins with none of the prefixes.\<close>

definition text_or :: "json \<Rightarrow> string" where
  "text_or v = (if truthy v then (case v of JStr s \<Rightarrow> s | _ \<Rightarrow> ''?'') else [])"

text \<open>\<open>config.get(key, [])\<close> when it is a list, else no entries; only the dicts among them.\<close>

definition dicts_in :: "json \<Rightarrow> json list" where
  "dicts_in v = filter is_dict (elements v)"

definition entries_at :: "string \<Rightarrow> json \<Rightarrow> json list" where
  "entries_at key v = dicts_in (jget_or (JArr []) key v)"

text \<open>\<open>config.get("routing") or {}\<close>.\<close>

definition routing_of :: "json \<Rightarrow> json" where
  "routing_of cfg = (let r = jfield ''routing'' cfg in if truthy r then r else JObj [])"

section \<open>The projections\<close>

definition managed_outbound :: "json \<Rightarrow> bool" where
  "managed_outbound o' = begins outbound_prefix (text_or (jfield ''tag'' o'))"

definition warp_outbound :: "json \<Rightarrow> bool" where
  "warp_outbound o' = list_ex (\<lambda>t. jfield ''tag'' o' = JStr t) warp_tags"

definition outbound_records :: "json \<Rightarrow> json list" where
  "outbound_records cfg = filter (\<lambda>o'. managed_outbound o' \<or> warp_outbound o') (entries_at ''outbounds'' cfg)"

definition managed_tags :: "json \<Rightarrow> string list" where
  "managed_tags cfg = map (\<lambda>o'. text_or (jfield ''tag'' o')) (filter managed_outbound (entries_at ''outbounds'' cfg))"

definition rule_records :: "json \<Rightarrow> json list" where
  "rule_records cfg =
     filter (\<lambda>r. begins rule_prefix (text_or (jfield ''marktag'' r)) \<or>
                 begins outbound_prefix (text_or (jfield ''outboundTag'' r)))
       (entries_at ''rules'' (routing_of cfg))"

definition client_record :: "json \<Rightarrow> string \<Rightarrow> json \<Rightarrow> json" where
  "client_record inbound box client =
     JObj [(''inbound_tag'', jfield ''tag'' inbound), (''container'', JStr box), (''client'', client)]"

text \<open>\<open>for client in settings.get(container, [])\<close>.\<close>

definition iterable :: "json \<Rightarrow> bool" where
  "iterable v = (case v of JArr _ \<Rightarrow> True | JObj _ \<Rightarrow> True | JStr _ \<Rightarrow> True | _ \<Rightarrow> False)"

definition settings_of :: "json \<Rightarrow> json" where
  "settings_of inbound = (let s = jfield ''settings'' inbound in if truthy s then s else JObj [])"

definition inbound_records :: "json \<Rightarrow> json list option" where
  "inbound_records inbound =
     (let s = settings_of inbound; boxes = [''clients'', ''users'', ''accounts''] in
      if \<not> is_dict s then Some []
      else if \<not> list_all (\<lambda>b. iterable (jget_or (JArr []) b s)) boxes then None
      else Some (concat (map (\<lambda>b. map (client_record inbound b)
        (filter (\<lambda>c. begins client_prefix (text_or (jfield ''email'' c))) (dicts_in (jget_or (JArr []) b s)))) boxes)))"

definition client_records :: "json \<Rightarrow> json list option" where
  "client_records cfg =
     (let rs = map inbound_records (entries_at ''inbounds'' cfg) in
      if None \<in> set rs then None else Some (concat (map the rs)))"

definition selectors :: "json \<Rightarrow> json list" where
  "selectors b = (case jget_or (JArr []) ''selector'' b of JStr s \<Rightarrow> [JStr s] | v \<Rightarrow> elements v)"

definition selects :: "string list \<Rightarrow> json \<Rightarrow> bool" where
  "selects tags v = (case v of JStr s \<Rightarrow> s \<noteq> [] \<and> list_ex (begins s) tags | _ \<Rightarrow> False)"

definition balancer_records :: "json \<Rightarrow> json list" where
  "balancer_records cfg =
     filter (\<lambda>b. list_ex (selects (managed_tags cfg)) (selectors b) \<or>
                 (case jfield ''fallbackTag'' b of JStr s \<Rightarrow> begins outbound_prefix s | _ \<Rightarrow> False))
       (entries_at ''balancers'' (routing_of cfg))"

section \<open>Sniffing exclusions\<close>

text \<open>The names in a list, stripped and lowered; anything but a list has none.\<close>

definition domain_names :: "json \<Rightarrow> string list" where
  "domain_names v =
     List.map_filter (\<lambda>d. case d of JStr s \<Rightarrow> if py_strip s = [] then None else Some (map py_lower_char (py_strip s))
                              | _ \<Rightarrow> None) (elements v)"

definition required_domains :: "json \<Rightarrow> string list" where
  "required_domains entry =
     domain_names (jget_or (JArr []) ''ownedDomains'' entry) @
     (case jget_or (JObj []) ''references'' entry of JObj kvs \<Rightarrow> concat (map (domain_names \<circ> snd) kvs) | _ \<Rightarrow> [])"

definition excluded_domains :: "json list \<Rightarrow> string list" where
  "excluded_domains matches =
     (case matches of
        [i] \<Rightarrow>
          (let s = jfield ''sniffing'' i in
           if truthy s \<and> is_dict s then domain_names (jget_or (JArr []) ''domainsExcluded'' s) else [])
      | _ \<Rightarrow> [])"

definition name_list :: "string list \<Rightarrow> json" where
  "name_list xs = JArr (map JStr (sort (remdups xs)))"

definition sniffing_record :: "json \<Rightarrow> string \<Rightarrow> json \<Rightarrow> json" where
  "sniffing_record cfg tag entry =
     (let matches = filter (\<lambda>i. jfield ''tag'' i = JStr tag) (entries_at ''inbounds'' cfg);
          required = required_domains entry; excluded = excluded_domains matches
      in JObj [(''inbound_tag'', JStr tag), (''match_count'', JInt (int (length matches))),
               (''required_domains'', name_list required),
               (''present_domains'', name_list (filter (\<lambda>d. d \<in> set excluded) required))])"

definition sidecar_records :: "json \<Rightarrow> json list" where
  "sidecar_records cfg = (case jget sniffing_key cfg of None \<Rightarrow> [] | Some v \<Rightarrow> [JObj [(''value'', v)]])"

definition sniffing_records :: "json \<Rightarrow> json list" where
  "sniffing_records cfg =
     (let raw = jfield sniffing_key cfg in
      if \<not> is_dict raw \<or> \<not> json_eq (jfield ''version'' raw) (JInt 1) then []
      else
        (case jfield ''inbounds'' raw of
           JObj kvs \<Rightarrow> map (\<lambda>(t, e). sniffing_record cfg t e) (filter (\<lambda>(t, e). is_dict e) kvs)
         | _ \<Rightarrow> []))"

section \<open>Comparing them\<close>

text \<open>The value \<open>json.dumps(sort_keys=True)\<close> writes.\<close>

fun canonical :: "json \<Rightarrow> json" where
  "canonical (JArr xs) = JArr (map canonical xs)"
| "canonical (JObj kvs) = JObj (sort_key fst (map (\<lambda>(k, v). (k, canonical v)) kvs))"
| "canonical v = v"

fun same_up_to_order :: "'a list \<Rightarrow> 'a list \<Rightarrow> bool" where
  "same_up_to_order [] ys = (ys = [])"
| "same_up_to_order (x # xs) ys = (x \<in> set ys \<and> same_up_to_order xs (remove1 x ys))"

definition same_records :: "json list \<Rightarrow> json list \<Rightarrow> bool" where
  "same_records xs ys = same_up_to_order (map canonical xs) (map canonical ys)"

definition managed_egress_records :: "json \<Rightarrow> json list list option" where
  "managed_egress_records cfg =
     (case client_records cfg of
        None \<Rightarrow> None
      | Some clients \<Rightarrow>
          Some [outbound_records cfg, rule_records cfg, clients, balancer_records cfg, sidecar_records cfg, sniffing_records cfg])"

text \<open>\<open>assert_managed_egress_preserved\<close> returns.\<close>

definition managed_egress_preserved :: "json \<Rightarrow> json \<Rightarrow> bool" where
  "managed_egress_preserved before after =
     (case (managed_egress_records before, managed_egress_records after) of
        (Some xs, Some ys) \<Rightarrow> list_all2 same_records xs ys
      | _ \<Rightarrow> False)"

definition has_managed_egress :: "json \<Rightarrow> bool option" where
  "has_managed_egress cfg = map_option (list_ex (\<lambda>rs. rs \<noteq> [])) (managed_egress_records cfg)"

section \<open>Its laws\<close>

lemma same_up_to_order_mset: "same_up_to_order xs ys \<longleftrightarrow> mset xs = mset ys"
proof (induction xs arbitrary: ys)
  case (Cons x xs)
  show ?case
  proof (cases "x \<in> set ys")
    case True
    then have "mset ys = add_mset x (mset (remove1 x ys))"
      by simp
    then have "mset (x # xs) = mset ys \<longleftrightarrow> mset xs = mset (remove1 x ys)"
      by (simp del: mset_remove1)
    then show ?thesis
      using Cons [of "remove1 x ys"] True by (simp del: mset_remove1 mset.simps(2))
  next
    case False
    then have "mset (x # xs) \<noteq> mset ys"
      by (metis list.set_intros(1) mset_eq_setD)
    then show ?thesis
      using False by simp
  qed
qed auto

lemma preserved_sym: "managed_egress_preserved a b \<Longrightarrow> managed_egress_preserved b a"
  by (auto simp: managed_egress_preserved_def same_records_def same_up_to_order_mset list_all2_conv_all_nth
      split: option.splits)

lemma preserved_trans:
  "managed_egress_preserved a b \<Longrightarrow> managed_egress_preserved b c \<Longrightarrow> managed_egress_preserved a c"
  by (auto simp: managed_egress_preserved_def same_records_def same_up_to_order_mset list_all2_conv_all_nth
      split: option.splits)

end
