(* ===== verification/Agent_Access_Rollback.thy ===== *)
theory Agent_Access_Rollback
  imports Agent_Access_Safety Managed_Egress
begin

text \<open>
  Subscription access with the comparison of protected records the agent uses, and the commit as a
  transaction: when it reports a failure the disk is what it was, as long as the old configuration is
  still accepted.
\<close>

definition apply_access_protected ::
  "(json \<Rightarrow> string) \<Rightarrow> (json \<Rightarrow> bool) \<Rightarrow> world \<Rightarrow> string \<Rightarrow> json \<Rightarrow> entry list \<Rightarrow> disk \<Rightarrow> disk list \<times> (fault + access_report)" where
  "apply_access_protected digest valid wo revision body es dk =
     apply_access digest managed_egress_preserved valid wo revision body es dk"

lemma last_states_failed_write:
  assumes "write_config valid wo old new dk = (trace, False)"
  shows "last (dk # trace) = dk"
  using assms by (auto simp: write_config_def split: if_splits)

lemma roll_back_last:
  assumes "managed_egress_preserved (pl_config pl) (pl_original pl)" "valid (pl_original pl)" "wo_restart wo (pl_original pl)"
    "\<And>c. wo_read wo c = Some c" "wo_save wo (pl_saved pl)" "dk_config dk = pl_config pl"
  shows "\<exists>xs. roll_back managed_egress_preserved valid wo pl dk =
    xs @ [\<lparr>dk_config = pl_original pl, dk_journal = pl_saved pl\<rparr>]"
proof -
  have "write_config valid wo (pl_config pl) (pl_original pl) dk = ([dk\<lparr>dk_config := pl_original pl\<rparr>], True)"
    using assms(2,3,6) by (simp add: write_config_def)
  moreover have "read_preserves managed_egress_preserved wo (pl_config pl) (dk\<lparr>dk_config := pl_original pl\<rparr>)"
    using assms(1,4) by (simp add: read_preserves_def)
  ultimately show ?thesis
    using assms(1,5) by (simp add: roll_back_def after_save_def save_journal_def)
qed

lemma commit_plan_atomic:
  assumes "commit_plan managed_egress_preserved valid wo pl dk = (trace, done')" "dk = \<lparr>dk_config = pl_original pl, dk_journal = pl_saved pl\<rparr>"
    "valid (pl_original pl)" "wo_restart wo (pl_original pl)" "\<And>c. wo_read wo c = Some c" "wo_save wo (pl_saved pl)"
  shows "last (dk # trace) = (if done' then \<lparr>dk_config = pl_config pl,
     dk_journal = mark_suspended (pl_suspended pl) (pl_staged pl)\<rparr> else dk)"
proof (cases "\<not> managed_egress_preserved (pl_original pl) (pl_config pl) \<or> \<not> wo_limiter wo (pl_limits pl)")
  case True
  then show ?thesis
    using assms(1) by (auto simp: commit_plan_def)
next
  case False
  let ?j = "merged (pl_saved pl) (pl_staged pl)"
  let ?dk1 = "\<lparr>dk_config = pl_original pl, dk_journal = ?j\<rparr>" and ?dk2 = "\<lparr>dk_config = pl_config pl, dk_journal = ?j\<rparr>"
  show ?thesis
  proof (cases "wo_save wo ?j")
    case f: False
    then show ?thesis
      using False assms(1) by (simp add: commit_plan_def save_journal_def)
  next
    case True
    then have sv: "save_journal wo ?j dk = Some ?dk1"
      by (simp add: save_journal_def assms(2))
    obtain t b where w: "write_config valid wo (pl_original pl) (pl_config pl) ?dk1 = (t, b)"
      by (cases "write_config valid wo (pl_original pl) (pl_config pl) ?dk1")
    show ?thesis
    proof (cases b)
      case b: False
      have "after_save wo (pl_saved pl) ?dk1 = [dk]"
        using assms(6) by (simp add: after_save_def save_journal_def assms(2))
      then have "trace = ?dk1 # t @ [dk]" "\<not> done'"
        using assms(1) False sv w b by (simp_all add: commit_plan_def)
      then show ?thesis
        by simp
    next
      case b: True
      have rd: "read_preserves managed_egress_preserved wo (pl_original pl) ?dk2"
        using False by (simp add: read_preserves_def assms(5))
      show ?thesis
      proof (cases "wo_save wo (mark_suspended (pl_suspended pl) (pl_staged pl))")
        case True
        then have "trace = [?dk1, ?dk2, \<lparr>dk_config = pl_config pl, dk_journal = mark_suspended (pl_suspended pl) (pl_staged pl)\<rparr>]"
          "done'"
          using assms(1) False sv w b rd by (simp_all add: commit_plan_def Let_def save_journal_def)
        then show ?thesis
          by simp
      next
        case f: False
        have "managed_egress_preserved (pl_config pl) (pl_original pl)"
          using False preserved_sym by blast
        then have "\<exists>xs. roll_back managed_egress_preserved valid wo pl ?dk2 =
            xs @ [\<lparr>dk_config = pl_original pl, dk_journal = pl_saved pl\<rparr>]"
          by (rule roll_back_last) (simp_all add: assms)
        then obtain xs where "roll_back managed_egress_preserved valid wo pl ?dk2 = xs @ [dk]"
          by (auto simp: assms(2))
        then have "trace = ?dk1 # ?dk2 # xs @ [dk]" "\<not> done'"
          using assms(1) False sv w b rd f by (simp_all add: commit_plan_def Let_def save_journal_def)
        then show ?thesis
          by simp
      qed
    qed
  qed
qed


section \<open>A commit that fails at its last step\<close>

text \<open>A world in which no journal without a pending suspension can be saved.\<close>

definition failing_world :: world where
  "failing_world = \<lparr>wo_limiter = \<lambda>_. True, wo_save = \<lambda>j. list_all su_prepared j, wo_restart = \<lambda>_. True, wo_read = Some\<rparr>"

definition sample_failure :: "disk list \<times> (fault + access_report)" where
  "sample_failure =
     apply_access_protected sample_digest (\<lambda>_. True) failing_world ''0'' JNull sample_entries sample_disk"

lemma sample_failure_run: "length (fst sample_failure) = 4" "snd sample_failure = Inl (Refused ''Access changes were not applied'')"
  by code_simp+


end
