(* ===== verification/Agent_Editors.thy ===== *)
theory Agent_Editors
  imports Agent_Access
begin

text \<open>
  The editors of an Xray configuration an agent offers besides subscription access:
  \<open>agent/app/open_node_agent/operations.py\<close>. Inbounds and outbounds are added, replaced, removed and
  reordered by their tags, routing rules are kept in the order of their priority, and outbounds without
  a tag are given one. The check of an outbound's TLS settings is a parameter.
\<close>

section \<open>Routing rules\<close>

definition managed_rule_prefix :: string where
  "managed_rule_prefix = ''managed-egress-rule:''"

definition starts :: "string \<Rightarrow> string \<Rightarrow> bool" where
  "starts p s = (take (length p) s = p)"

text \<open>\<open>str(v or "")\<close>; the text of a value that is no string begins with none of the prefixes compared.\<close>

definition text_or_empty :: "json \<Rightarrow> string" where
  "text_or_empty v = (if truthy v then (case v of JStr s \<Rightarrow> s | _ \<Rightarrow> ''?'') else [])"

definition routing_rule_priority :: "json \<Rightarrow> int" where
  "routing_rule_priority r =
     (let out = text_or_empty (jfield ''outboundTag'' r); mark = text_or_empty (jfield ''marktag'' r) in
      if out = ''nginx'' then -1
      else if starts ''tunnel-'' out then 0
      else if starts ''routed:'' mark then (if length (py_split (CHR '':'') mark) = 4 then 1 else 2)
      else if starts managed_rule_prefix mark then 2
      else if mark = ''home_broadband_warp'' \<or> mark = ''speedtest_warp'' then 3
      else 4)"

definition priority_index :: "int \<Rightarrow> json list \<Rightarrow> nat" where
  "priority_index p rules = index_of (\<lambda>r. is_dict r \<and> routing_rule_priority r \<ge> p) rules (length rules)"

definition is_true :: "json \<Rightarrow> bool" where
  "is_true v = (v = JBool True)"

definition add_rule :: "json \<Rightarrow> json list \<Rightarrow> fault + json list" where
  "add_rule payload rules =
     (let r = jfield ''rule'' payload in
      if \<not> is_dict r then Inl (Refused ''Rule must be an object'')
      else if \<not> list_all is_dict rules then Inl Crashed
      else
        (let existing = filter (\<lambda>x. json_eq (jfield ''marktag'' x) (jfield ''marktag'' r)) rules in
         if existing \<noteq> [] \<and> is_true (jfield ''allow_existing'' payload) \<and> json_eq (JArr existing) (JArr [r])
         then Inr rules
         else if truthy (jfield ''marktag'' r) \<and> existing \<noteq> [] then Inl (Refused ''Rule marktag already exists'')
         else Inr (insert_at (priority_index (routing_rule_priority r) rules) r rules)))"

definition drop_nth :: "nat \<Rightarrow> 'a list \<Rightarrow> 'a list" where
  "drop_nth n xs = take n xs @ drop (Suc n) xs"

text \<open>An \<open>int\<close> of Python: a bool is one.\<close>

definition as_index :: "json \<Rightarrow> int option" where
  "as_index v = (case v of JInt n \<Rightarrow> Some n | JBool b \<Rightarrow> Some (if b then 1 else 0) | _ \<Rightarrow> None)"

definition remove_rule :: "json \<Rightarrow> json list \<Rightarrow> fault + json list" where
  "remove_rule payload rules =
     (if truthy (jfield ''marktag'' payload) then
        (if \<not> list_all is_dict rules then Inl Crashed
         else if is_true (jfield ''ignore_missing'' payload) \<and>
             \<not> list_ex (\<lambda>r. json_eq (jfield ''marktag'' r) (jfield ''marktag'' payload)) rules
         then Inr rules
         else (case routing_rule rules payload of Inl f \<Rightarrow> Inl f | Inr n \<Rightarrow> Inr (drop_nth n rules)))
      else
        (case as_index (jfield ''index'' payload) of
           None \<Rightarrow> Inl (Refused ''Rule index is out of bounds'')
         | Some i \<Rightarrow>
             if 0 \<le> i \<and> i < int (length rules) then Inr (drop_nth (nat i) rules)
             else Inl (Refused ''Rule index is out of bounds'')))"

definition edit_rule_user :: "bool \<Rightarrow> json \<Rightarrow> json list \<Rightarrow> fault + json list" where
  "edit_rule_user add payload rules =
     (case routing_rule rules payload of
        Inl f \<Rightarrow> Inl f
      | Inr n \<Rightarrow>
          (let r = rules ! n; email = text_of (jfield ''user_email'' payload); users = jget_or (JArr []) ''user'' r in
           if email = [] then Inl (Refused ''User email is required'')
           else if \<not> (case users of JArr _ \<Rightarrow> True | JObj _ \<Rightarrow> True | JStr _ \<Rightarrow> True | _ \<Rightarrow> False) then Inl Crashed
           else if json_in email users = add then Inr (rules[n := jput ''user'' users r])
           else
             (case users of
                JArr us \<Rightarrow>
                  if add then Inr (rules[n := jput ''user'' (JArr (us @ [JStr email])) r])
                  else (let us' = remove1 (JStr email) us in
                        if us' = [] then Inr (drop_nth n rules) else Inr (rules[n := jput ''user'' (JArr us') r]))
              | _ \<Rightarrow> Inl Crashed)))"

definition edit_rules :: "json \<Rightarrow> json list \<Rightarrow> fault + json list" where
  "edit_rules payload rules =
     (let action = jfield ''action'' payload in
      if action = JStr ''add_rule'' then add_rule payload rules
      else if action = JStr ''remove_rule'' then remove_rule payload rules
      else if action = JStr ''add_user_to_rule'' then edit_rule_user True payload rules
      else if action = JStr ''remove_user_from_rule'' then edit_rule_user False payload rules
      else Inl (Refused ''Unsupported routing action''))"

text \<open>\<open>action set\<close>: the routing and the two observatories, under either name of the second.\<close>

definition jdel :: "string \<Rightarrow> json \<Rightarrow> json" where
  "jdel k v = (case v of JObj kvs \<Rightarrow> JObj (tbl_del fst k kvs) | _ \<Rightarrow> v)"

definition set_observatory :: "string list \<Rightarrow> string \<Rightarrow> json \<Rightarrow> json \<Rightarrow> fault + json" where
  "set_observatory sources target payload cfg =
     (case filter (\<lambda>k. jget k payload \<noteq> None) sources of
        [] \<Rightarrow> Inr cfg
      | k # ks \<Rightarrow>
          if ks \<noteq> [] \<and> \<not> json_eq (jfield k payload) (jfield (hd ks) payload)
          then Inl (Refused ''Conflicting burst observatory values'')
          else (let v = jfield k payload in Inr (if v = JNull then jdel target cfg else jput target v cfg)))"

definition set_routing :: "json \<Rightarrow> json \<Rightarrow> fault + json" where
  "set_routing payload cfg =
     (if \<not> is_dict (jfield ''routing'' payload) then Inl (Refused ''Routing must be an object'')
      else
        (case set_observatory [''observatory''] ''observatory'' payload (jput ''routing'' (jfield ''routing'' payload) cfg) of
           Inl f \<Rightarrow> Inl f
         | Inr cfg' \<Rightarrow> set_observatory [''burstObservatory'', ''burst_observatory''] ''burstObservatory'' payload cfg'))"

text \<open>\<open>edit_routing\<close>; rules that are no list make every action but \<open>set\<close> fail.\<close>

definition edit_routing :: "json \<Rightarrow> json \<Rightarrow> fault + json" where
  "edit_routing payload cfg =
     (let routing = jget_or (JObj []) ''routing'' cfg in
      if \<not> is_dict routing then Inl Crashed
      else if jfield ''action'' payload = JStr ''set'' then set_routing payload cfg
      else
        (case jget_or (JArr []) ''rules'' routing of
           JArr rules \<Rightarrow>
             (case edit_rules payload rules of
                Inl f \<Rightarrow> Inl f
              | Inr rules' \<Rightarrow> Inr (jput ''routing'' (jput ''rules'' (JArr rules') routing) cfg))
         | _ \<Rightarrow> Inl Crashed))"

section \<open>Inbounds and outbounds\<close>

definition tag_eq :: "json \<Rightarrow> json \<Rightarrow> bool" where
  "tag_eq t e = json_eq (jfield ''tag'' e) t"

text \<open>\<open>find_tag\<close>: the position of the one entry.\<close>

definition find_tag :: "json list \<Rightarrow> json \<Rightarrow> fault + nat" where
  "find_tag entries t =
     (if \<not> truthy t then Inl (Refused ''A tag is required'')
      else if \<not> list_all is_dict entries then Inl Crashed
      else (case filter (\<lambda>n. tag_eq t (entries ! n)) [0..<length entries] of
              [n] \<Rightarrow> Inr n
            | _ \<Rightarrow> Inl (Refused ''Tag must identify exactly one entry'')))"

text \<open>\<open>reorder\<close>: each tag takes its first entry that is not taken yet; the rest follow in their order.\<close>

fun pick_tags :: "json list \<Rightarrow> string list \<Rightarrow> nat list \<Rightarrow> nat list" where
  "pick_tags entries [] used = used"
| "pick_tags entries (t # ts) used =
     (case filter (\<lambda>n. n \<notin> set used \<and> is_dict (entries ! n) \<and> jfield ''tag'' (entries ! n) = JStr t) [0..<length entries] of
        [] \<Rightarrow> pick_tags entries ts used
      | n # ns \<Rightarrow> pick_tags entries ts (used @ [n]))"

definition reorder :: "string list \<Rightarrow> json list \<Rightarrow> json list" where
  "reorder tags entries =
     (let used = pick_tags entries tags [] in
      map (\<lambda>n. entries ! n) (used @ filter (\<lambda>n. n \<notin> set used) [0..<length entries]))"

definition tag_names :: "json \<Rightarrow> string list option" where
  "tag_names v =
     (case v of
        JArr ts \<Rightarrow> if ts \<noteq> [] \<and> list_all (\<lambda>t. text_of t \<noteq> []) ts then Some (map text_of ts) else None
      | _ \<Rightarrow> None)"

definition add_entry :: "(json \<Rightarrow> bool) \<Rightarrow> bool \<Rightarrow> json \<Rightarrow> json \<Rightarrow> json list \<Rightarrow> fault + json list" where
  "add_entry tls_ok outbound item payload entries =
     (if \<not> is_dict item \<or> \<not> truthy (jfield ''tag'' item) then Inl (Refused ''A tagged entry is required'')
      else if outbound \<and> \<not> tls_ok item then Inl (Refused ''Invalid outbound TLS settings'')
      else if \<not> list_all is_dict entries then Inl Crashed
      else
        (let existing = filter (tag_eq (jfield ''tag'' item)) entries in
         if existing \<noteq> [] \<and> is_true (jfield ''allow_existing'' payload) \<and> json_eq (JArr existing) (JArr [item])
         then Inr entries
         else if existing \<noteq> [] then Inl (Refused ''Tag already exists'')
         else Inr (entries @ [item])))"

definition replace_entry :: "(json \<Rightarrow> bool) \<Rightarrow> bool \<Rightarrow> json \<Rightarrow> nat \<Rightarrow> json list \<Rightarrow> fault + json list" where
  "replace_entry tls_ok outbound item n entries =
     (let current = entries ! n; t = jfield ''tag'' item in
      if \<not> is_dict item \<or> \<not> truthy t then Inl (Refused ''A tagged replacement is required'')
      else if outbound \<and> \<not> tls_ok item then Inl (Refused ''Invalid outbound TLS settings'')
      else if \<not> outbound \<and> \<not> tag_eq t current then Inl (Refused ''Inbound replacement must retain its tag'')
      else if \<not> tag_eq t current \<and> list_ex (tag_eq t) (drop_nth n entries)
      then Inl (Refused ''Replacement tag already exists'')
      else Inr (entries[n := item]))"

text \<open>\<open>list(dict.fromkeys(xs))\<close>: the first occurrence of each value; a list or dict is no key.\<close>

fun first_occurrences :: "json list \<Rightarrow> json list \<Rightarrow> json list" where
  "first_occurrences seen [] = seen"
| "first_occurrences seen (x # xs) =
     (if list_ex (json_eq x) seen then first_occurrences seen xs else first_occurrences (seen @ [x]) xs)"

definition exclude_domains :: "json \<Rightarrow> json \<Rightarrow> fault + json" where
  "exclude_domains payload i =
     (case jget_or (JArr []) ''domains'' payload of
        JArr ds \<Rightarrow>
          if \<not> list_all (\<lambda>d. case d of JStr _ \<Rightarrow> True | _ \<Rightarrow> False) ds
          then Inl (Refused ''Domains must be a list of strings'')
          else
            (let sniffing = jget_or (JObj []) ''sniffing'' i in
             if \<not> is_dict sniffing then Inl Crashed
             else
               (case jget_or (JArr []) ''domainsExcluded'' sniffing of
                  JArr xs \<Rightarrow>
                    if \<not> list_all hashable xs then Inl Crashed
                    else Inr (jput ''sniffing''
                      (jput ''domainsExcluded'' (JArr (first_occurrences [] (xs @ ds))) sniffing) i)
                | _ \<Rightarrow> Inl Crashed))
      | _ \<Rightarrow> Inl (Refused ''Domains must be a list of strings''))"

definition lookup_tag :: "bool \<Rightarrow> json \<Rightarrow> json" where
  "lookup_tag outbound payload =
     (let t = jfield ''tag'' payload; item = jfield ''outbound'' payload in
      if jfield ''action'' payload \<in> {JStr ''replace'', JStr ''update''} \<and> outbound \<and> \<not> truthy t \<and> is_dict item
      then jfield ''tag'' item else t)"

text \<open>One entry of the list, edited at its position.\<close>

definition edit_current :: "(json \<Rightarrow> bool) \<Rightarrow> bool \<Rightarrow> json \<Rightarrow> nat \<Rightarrow> json list \<Rightarrow> fault + json list" where
  "edit_current tls_ok outbound payload n entries =
     (let action = jfield ''action'' payload in
      if action = JStr ''remove'' then Inr (drop_nth n entries)
      else if action = JStr ''replace'' \<or> action = JStr ''update''
      then replace_entry tls_ok outbound (jfield (if outbound then ''outbound'' else ''inbound'') payload) n entries
      else if (action = JStr ''add-client'' \<or> action = JStr ''remove-client'') \<and> \<not> outbound then
        (case edit_client (jfield ''client'' payload) (action = JStr ''remove-client'') (entries ! n) of
           Inl f \<Rightarrow> Inl f | Inr i \<Rightarrow> Inr (entries[n := i]))
      else if action = JStr ''add-sniffing-exclude'' \<and> \<not> outbound then
        (case exclude_domains payload (entries ! n) of Inl f \<Rightarrow> Inl f | Inr i \<Rightarrow> Inr (entries[n := i]))
      else Inl (Refused ''Unsupported entry action''))"

definition edit_entry_list :: "(json \<Rightarrow> bool) \<Rightarrow> bool \<Rightarrow> json \<Rightarrow> json list \<Rightarrow> fault + json list" where
  "edit_entry_list tls_ok outbound payload entries =
     (let action = jfield ''action'' payload in
      if action = JStr ''reorder'' then
        (case tag_names (jget_or (JArr []) ''tags'' payload) of
           None \<Rightarrow> Inl (Refused ''Reordering requires at least one valid tag'')
         | Some ts \<Rightarrow> Inr (reorder ts entries))
      else if action = JStr ''add''
      then add_entry tls_ok outbound (jfield (if outbound then ''outbound'' else ''inbound'') payload) payload entries
      else if action = JStr ''remove'' \<and> is_true (jfield ''ignore_missing'' payload) \<and> \<not> list_all is_dict entries
      then Inl Crashed
      else if action = JStr ''remove'' \<and> is_true (jfield ''ignore_missing'' payload) \<and>
          \<not> list_ex (tag_eq (jfield ''tag'' payload)) entries
      then Inr entries
      else
        (case find_tag entries (lookup_tag outbound payload) of
           Inl f \<Rightarrow> Inl f
         | Inr n \<Rightarrow> edit_current tls_ok outbound payload n entries))"

text \<open>\<open>edit_entries\<close>, on a configuration whose entries are a list.\<close>

definition edit_entries :: "(json \<Rightarrow> bool) \<Rightarrow> string \<Rightarrow> json \<Rightarrow> json \<Rightarrow> fault + json" where
  "edit_entries tls_ok key payload cfg =
     (case jget_or (JArr []) key cfg of
        JArr entries \<Rightarrow>
          (case edit_entry_list tls_ok (key \<noteq> ''inbounds'') payload entries of
             Inl f \<Rightarrow> Inl f
           | Inr entries' \<Rightarrow> Inr (jput key (JArr entries') cfg))
      | _ \<Rightarrow> Inl Crashed)"

section \<open>Tags for outbounds without one\<close>

text \<open>
  The search for a free name counts a suffix up from 2. The names tried are pairwise different, so one
  more attempt than there are names in use is enough fuel.
\<close>

definition suffixed :: "string \<Rightarrow> nat \<Rightarrow> string" where
  "suffixed base n = (if n < 2 then base else base @ ''-'' @ nat_str n)"

fun free_name :: "nat \<Rightarrow> string \<Rightarrow> nat \<Rightarrow> string list \<Rightarrow> string option" where
  "free_name 0 base n used = None"
| "free_name (Suc fuel) base n used =
     (if suffixed base n \<in> set used then free_name fuel base (Suc n) used else Some (suffixed base n))"

definition text_tag :: "json \<Rightarrow> string option" where
  "text_tag o' = (if is_dict o' then (case jfield ''tag'' o' of JStr (c # s) \<Rightarrow> Some (c # s) | _ \<Rightarrow> None) else None)"

definition promotable :: "json \<Rightarrow> bool" where
  "promotable o' = (is_dict o' \<and> \<not> truthy (jfield ''tag'' o') \<and> text_of (jfield ''protocol'' o') \<noteq> [])"

fun promote_from :: "nat \<Rightarrow> string list \<Rightarrow> json list \<Rightarrow> json list option" where
  "promote_from n used [] = Some []"
| "promote_from n used (x # xs) =
     (if \<not> promotable x then map_option ((#) x) (promote_from (Suc n) used xs)
      else
        (case free_name (Suc (length used)) (text_of (jfield ''protocol'' x) @ ''-'' @ nat_str n) 1 used of
           None \<Rightarrow> None
         | Some t \<Rightarrow> map_option ((#) (jput ''tag'' (JStr t) x)) (promote_from (Suc n) (t # used) xs)))"

definition promote_outbound_tags :: "json list \<Rightarrow> json list option" where
  "promote_outbound_tags outbounds = promote_from 0 (List.map_filter text_tag outbounds) outbounds"

end
