(* ===== verification/Editor_Properties.thy ===== *)
theory Editor_Properties
  imports Agent_Editors Agent_Access_Edits
begin

text \<open>
  The invariants the editors keep: tags stay distinct, routing rules stay in the order of their
  priority, reordering is a permutation that puts the named entries first, and every outbound can be
  given a tag of its own.
\<close>

section \<open>Lists edited by position\<close>

lemma take_nth_drop: "n < length xs \<Longrightarrow> xs = take n xs @ xs ! n # drop (Suc n) xs"
  by (rule id_take_nth_drop)

lemma sorted_drop_nth: "sorted (map f xs) \<Longrightarrow> n < length xs \<Longrightarrow> sorted (map f (drop_nth n xs))"
proof -
  assume "sorted (map f xs)" "n < length xs"
  then have "sorted (map f (take n xs @ xs ! n # drop (Suc n) xs))"
    using take_nth_drop by metis
  then show ?thesis
    by (auto simp: drop_nth_def sorted_append)
qed

lemma map_update_same: "f x = f (xs ! n) \<Longrightarrow> map f (xs[n := x]) = map f xs"
  by (metis list_update_id map_update)

lemma index_of_length: "index_of P xs (length xs) = length (takeWhile (\<lambda>x. \<not> P x) xs)"
proof (cases "list_ex P xs")
  case False
  then have "takeWhile (\<lambda>x. \<not> P x) xs = xs"
    by (simp add: list_ex_iff takeWhile_eq_all_conv)
  then have "length (takeWhile (\<lambda>x. \<not> P x) xs) = length xs"
    by (rule arg_cong)
  then show ?thesis
    using False by (simp only: index_of_def if_False)
qed (simp add: index_of_def)

lemma insert_at_index: "insert_at (index_of P xs (length xs)) x xs = takeWhile (\<lambda>x. \<not> P x) xs @ x # dropWhile (\<lambda>x. \<not> P x) xs"
  by (simp add: insert_at_def index_of_length takeWhile_eq_take [symmetric] dropWhile_eq_drop [symmetric])

section \<open>Rules in the order of their priority\<close>

definition ordered :: "json list \<Rightarrow> bool" where
  "ordered rules = sorted (map routing_rule_priority rules)"

lemma sorted_insert_before:
  "sorted (map f xs) \<Longrightarrow> sorted (map f (takeWhile (\<lambda>x. \<not> f x \<ge> (p::int)) xs @ r # dropWhile (\<lambda>x. \<not> f x \<ge> p) xs))" if "f r = p"
proof (induction xs)
  case (Cons x xs)
  show ?case
  proof (cases "f x \<ge> p")
    case True
    then show ?thesis
      using Cons.prems that by auto
  next
    case False
    have "f x \<le> f y" if "y \<in> set (takeWhile (\<lambda>x. \<not> f x \<ge> p) xs @ r # dropWhile (\<lambda>x. \<not> f x \<ge> p) xs)" for y
    proof -
      have "set (takeWhile (\<lambda>x. \<not> f x \<ge> p) xs) \<union> set (dropWhile (\<lambda>x. \<not> f x \<ge> p) xs) = set xs"
        by (metis set_append takeWhile_dropWhile_id)
      then have "y \<in> set xs \<or> y = r"
        using that by auto
      then show ?thesis
        using Cons.prems False \<open>f r = p\<close> by auto
    qed
    then show ?thesis
      using Cons False by auto
  qed
qed (simp add: that)

lemma add_rule_ordered:
  assumes "add_rule payload rules = Inr rules'" "ordered rules"
  shows "ordered rules'"
proof -
  let ?r = "jfield ''rule'' payload"
  let ?p = "routing_rule_priority ?r"
  have d: "list_all is_dict rules"
    using assms(1) by (auto simp: add_rule_def Let_def split: if_splits)
  have "rules' = rules \<or> rules' = insert_at (priority_index ?p rules) ?r rules"
    using assms(1) by (auto simp: add_rule_def Let_def split: if_splits)
  moreover have "priority_index ?p rules = index_of (\<lambda>r. routing_rule_priority r \<ge> ?p) rules (length rules)"
  proof -
    have "takeWhile (\<lambda>r. \<not> (is_dict r \<and> routing_rule_priority r \<ge> ?p)) rules =
        takeWhile (\<lambda>r. \<not> routing_rule_priority r \<ge> ?p) rules"
      using d by (intro takeWhile_cong) (auto simp: list_all_iff)
    then show ?thesis
      by (simp add: priority_index_def index_of_length)
  qed
  ultimately show ?thesis
    using assms(2) sorted_insert_before [OF refl, of routing_rule_priority rules ?r]
    by (auto simp: ordered_def insert_at_index)
qed

lemma routing_rule_bound: "routing_rule rules route = Inr n \<Longrightarrow> n < length rules \<and> list_all is_dict rules"
proof -
  assume a: "routing_rule rules route = Inr n"
  let ?f = "filter (\<lambda>n. rule_matches route (rules ! n)) [0..<length rules]"
  have "?f = [n]" "list_all is_dict rules"
    using a by (auto simp: routing_rule_def split: if_splits list.splits)
  then have "n \<in> set ?f"
    by simp
  then show ?thesis
    using \<open>list_all is_dict rules\<close> by simp
qed

lemma remove_rule_drop:
  assumes "remove_rule payload rules = Inr rules'"
  shows "rules' = rules \<or> (\<exists>n < length rules. rules' = drop_nth n rules)"
proof (cases "truthy (jfield ''marktag'' payload)")
  case True
  then show ?thesis
    using assms routing_rule_bound [of rules payload] by (auto simp: remove_rule_def split: if_splits sum.splits)
next
  case False
  then obtain i where i: "as_index (jfield ''index'' payload) = Some i"
    using assms by (cases "as_index (jfield ''index'' payload)") (simp_all add: remove_rule_def)
  then have "0 \<le> i" "i < int (length rules)" "rules' = drop_nth (nat i) rules"
    using assms False by (simp_all add: remove_rule_def split: if_splits)
  then show ?thesis
    by (intro disjI2 exI [of _ "nat i"]) (simp add: nat_less_iff)
qed

lemma priority_user: "is_dict r \<Longrightarrow> routing_rule_priority (jput ''user'' v r) = routing_rule_priority r"
  by (simp add: routing_rule_priority_def jfield_jput)

lemma edit_rule_user_cases:
  assumes "edit_rule_user add payload rules = Inr rules'"
  shows "\<exists>n < length rules. is_dict (rules ! n) \<and> (rules' = drop_nth n rules \<or> (\<exists>v. rules' = rules[n := jput ''user'' v (rules ! n)]))"
proof -
  obtain n where n: "routing_rule rules payload = Inr n"
    using assms by (cases "routing_rule rules payload") (simp_all add: edit_rule_user_def)
  have "rules' = drop_nth n rules \<or> (\<exists>v. rules' = rules[n := jput ''user'' v (rules ! n)])"
    using assms by (auto simp: edit_rule_user_def n Let_def split: if_splits json.splits)
  then show ?thesis
    using routing_rule_bound [OF n] by (auto simp: list_all_length)
qed

lemma drop_nth_ordered: "ordered rules \<Longrightarrow> n < length rules \<Longrightarrow> ordered (drop_nth n rules)"
  by (simp add: ordered_def sorted_drop_nth)

lemma edit_rules_ordered:
  assumes "edit_rules payload rules = Inr rules'" "ordered rules"
  shows "ordered rules'"
proof -
  have user: "ordered rules'" if "edit_rule_user add payload rules = Inr rules'" for add
    using edit_rule_user_cases [OF that] assms(2) drop_nth_ordered
    by (auto simp: ordered_def map_update_same priority_user)
  consider "add_rule payload rules = Inr rules'" | "remove_rule payload rules = Inr rules'"
    | add where "edit_rule_user add payload rules = Inr rules'"
    using assms(1) by (auto simp: edit_rules_def Let_def split: if_splits)
  then show ?thesis
  proof cases
    case 1
    then show ?thesis
      using add_rule_ordered assms(2) by blast
  next
    case 2
    then show ?thesis
      using remove_rule_drop assms(2) drop_nth_ordered by blast
  qed (rule user)
qed

section \<open>Distinct tags\<close>

definition entry_tags :: "json list \<Rightarrow> json list" where
  "entry_tags xs = map (\<lambda>e. normal (jfield ''tag'' e)) (filter (\<lambda>e. truthy (jfield ''tag'' e)) xs)"

definition distinct_tags :: "json list \<Rightarrow> bool" where
  "distinct_tags xs = distinct (entry_tags xs)"

lemma truthy_normal [simp]: "truthy (normal v) = truthy v"
proof (cases v)
  case (JFloat a b r)
  have "a div int b \<noteq> 0" if "b \<noteq> 0" "a mod int b = 0" "a \<noteq> 0"
    using that by (metis add_0 mult_zero_left div_mult_mod_eq add.right_neutral)
  then show ?thesis
    using JFloat by auto
next
  case (JObj kvs)
  have "length (sort_key fst (map (\<lambda>(k, v). (k, normal v)) kvs)) = length kvs"
    by simp
  then show ?thesis
    using JObj by (cases kvs) auto
qed auto

lemma entry_tags_append [simp]: "entry_tags (xs @ ys) = entry_tags xs @ entry_tags ys"
  by (simp add: entry_tags_def)

lemma entry_tags_Cons:
  "entry_tags (x # xs) = (if truthy (jfield ''tag'' x) then [normal (jfield ''tag'' x)] else []) @ entry_tags xs"
  by (simp add: entry_tags_def)

lemma entry_tags_Nil [simp]: "entry_tags [] = []"
  by (simp add: entry_tags_def)

lemma entry_tags_mset: "mset xs = mset ys \<Longrightarrow> distinct_tags xs = distinct_tags ys"
proof -
  assume "mset xs = mset ys"
  then have "mset (entry_tags xs) = mset (entry_tags ys)"
    by (simp add: entry_tags_def mset_filter)
  then show ?thesis
    unfolding distinct_tags_def by (rule mset_eq_imp_distinct_iff)
qed

lemma distinct_tags_drop: "distinct_tags xs \<Longrightarrow> n < length xs \<Longrightarrow> distinct_tags (drop_nth n xs)"
proof -
  assume "distinct_tags xs" "n < length xs"
  then have "distinct (entry_tags (take n xs @ xs ! n # drop (Suc n) xs))"
    using take_nth_drop by (metis distinct_tags_def)
  then show ?thesis
    by (auto simp: distinct_tags_def drop_nth_def entry_tags_Cons split: if_splits)
qed

lemma tag_eq_entry_tags: "truthy t \<Longrightarrow> normal t \<in> set (entry_tags xs) \<longleftrightarrow> list_ex (tag_eq t) xs"
proof (induction xs)
  case (Cons x xs)
  have "truthy (jfield ''tag'' x)" if "normal (jfield ''tag'' x) = normal t"
    using that Cons.prems by (metis truthy_normal)
  then show ?case
    using Cons by (auto simp: entry_tags_Cons tag_eq_def json_eq_def)
qed simp

lemma distinct_tags_update:
  assumes "distinct_tags xs" "n < length xs"
    "\<not> truthy (jfield ''tag'' y) \<or> \<not> list_ex (tag_eq (jfield ''tag'' y)) (drop_nth n xs)"
  shows "distinct_tags (xs[n := y])"
proof -
  have d: "distinct (entry_tags (take n xs) @ entry_tags (drop (Suc n) xs))"
    using distinct_tags_drop [OF assms(1,2)] by (simp add: distinct_tags_def drop_nth_def)
  have "entry_tags (xs[n := y]) = entry_tags (take n xs) @
      (if truthy (jfield ''tag'' y) then [normal (jfield ''tag'' y)] else []) @ entry_tags (drop (Suc n) xs)"
    by (simp add: upd_conv_take_nth_drop assms(2) entry_tags_Cons)
  moreover have "normal (jfield ''tag'' y) \<notin> set (entry_tags (take n xs) @ entry_tags (drop (Suc n) xs))"
    if "truthy (jfield ''tag'' y)"
    using assms(3) tag_eq_entry_tags [OF that, of "drop_nth n xs"] that by (simp add: drop_nth_def)
  ultimately show ?thesis
    using d by (auto simp: distinct_tags_def)
qed

lemma distinct_tags_same:
  assumes "distinct_tags xs" "n < length xs" "json_eq (jfield ''tag'' y) (jfield ''tag'' (xs ! n))"
  shows "distinct_tags (xs[n := y])"
proof -
  have "distinct (entry_tags (take n xs @ xs ! n # drop (Suc n) xs))"
    using assms(1,2) take_nth_drop by (metis distinct_tags_def)
  moreover have "truthy (jfield ''tag'' y) = truthy (jfield ''tag'' (xs ! n))"
    using assms(3) unfolding json_eq_def by (metis truthy_normal)
  ultimately show ?thesis
    using assms(3) by (simp add: distinct_tags_def upd_conv_take_nth_drop assms(2) entry_tags_Cons json_eq_def)
qed

lemma find_tag_bound:
  assumes "find_tag entries t = Inr n"
  shows "n < length entries" "list_all is_dict entries" "truthy t" "tag_eq t (entries ! n)"
proof -
  let ?f = "filter (\<lambda>n. tag_eq t (entries ! n)) [0..<length entries]"
  have a: "?f = [n]" "list_all is_dict entries" "truthy t"
    using assms by (auto simp: find_tag_def split: if_splits list.splits)
  then have "n \<in> set ?f"
    by simp
  then show "n < length entries" "list_all is_dict entries" "truthy t" "tag_eq t (entries ! n)"
    using a(2,3) by simp_all
qed

lemma edit_client_settings: "edit_client client remove i = Inr i' \<Longrightarrow> \<exists>v. i' = jput ''settings'' v i"
  by (auto simp: edit_client_def Let_def split: if_splits option.splits sum.splits prod.splits)

lemma exclude_domains_sniffing: "exclude_domains payload i = Inr i' \<Longrightarrow> \<exists>v. i' = jput ''sniffing'' v i"
  by (auto simp: exclude_domains_def Let_def split: if_splits json.splits)

lemma replace_entry_distinct:
  assumes "replace_entry tls_ok outbound item n entries = Inr entries'" "distinct_tags entries" "n < length entries"
  shows "distinct_tags entries'"
proof -
  have e: "entries' = entries[n := item]"
    and c: "tag_eq (jfield ''tag'' item) (entries ! n) \<or> \<not> list_ex (tag_eq (jfield ''tag'' item)) (drop_nth n entries)"
    using assms(1) by (auto simp: replace_entry_def Let_def split: if_splits)
  show ?thesis
  proof (cases "tag_eq (jfield ''tag'' item) (entries ! n)")
    case True
    then show ?thesis
      unfolding e by (intro distinct_tags_same [OF assms(2,3)]) (simp add: tag_eq_def json_eq_sym)
  next
    case False
    then show ?thesis
      using c unfolding e by (intro distinct_tags_update [OF assms(2,3)]) simp
  qed
qed

lemma edit_current_distinct:
  assumes "edit_current tls_ok outbound payload n entries = Inr entries'" "distinct_tags entries" "n < length entries"
    "is_dict (entries ! n)"
  shows "distinct_tags entries'"
proof -
  let ?a = "jfield ''action'' payload"
  let ?c = "edit_client (jfield ''client'' payload) (?a = JStr ''remove-client'') (entries ! n)"
  let ?x = "exclude_domains payload (entries ! n)"
  let ?client = "(?a = JStr ''add-client'' \<or> ?a = JStr ''remove-client'') \<and> \<not> outbound"
  have same: "distinct_tags (entries[n := i])" if "i = jput k v (entries ! n)" "k \<noteq> ''tag''" for i k v
    by (rule distinct_tags_same [OF assms(2,3)]) (simp add: that(1) that(2) [symmetric] jfield_jput assms(4))
  show ?thesis
  proof (cases "?a = JStr ''remove''")
    case True
    then show ?thesis
      using assms(1) distinct_tags_drop [OF assms(2,3)] by (simp add: edit_current_def)
  next
    case r: False
    show ?thesis
    proof (cases "?a = JStr ''replace'' \<or> ?a = JStr ''update''")
      case True
      then have "replace_entry tls_ok outbound (jfield (if outbound then ''outbound'' else ''inbound'') payload) n entries =
          Inr entries'"
        using assms(1) r by (simp only: edit_current_def Let_def if_True if_False)
      then show ?thesis
        using replace_entry_distinct assms(2,3) by blast
    next
      case u: False
      show ?thesis
      proof (cases ?client)
        case True
        then have "(case ?c of Inl f \<Rightarrow> Inl f | Inr i \<Rightarrow> Inr (entries[n := i])) = Inr entries'"
          using assms(1) r u by (auto simp: edit_current_def)
        then obtain i where i: "?c = Inr i" "entries' = entries[n := i]"
          by (cases ?c) simp_all
        then show ?thesis
          using edit_client_settings [OF i(1)] same by auto
      next
        case c: False
        have "(case ?x of Inl f \<Rightarrow> Inl f | Inr i \<Rightarrow> Inr (entries[n := i])) = Inr entries'"
          using assms(1) r u c by (auto simp: edit_current_def split: if_splits)
        then obtain i where i: "?x = Inr i" "entries' = entries[n := i]"
          by (cases ?x) simp_all
        then show ?thesis
          using exclude_domains_sniffing [OF i(1)] same by auto
      qed
    qed
  qed
qed

section \<open>Reordering\<close>

lemma pick_tags_prefix: "\<exists>us. pick_tags entries ts used = used @ us"
  by (induction ts arbitrary: used) (auto split: list.splits, metis append.assoc)

lemma pick_tags_ok:
  "distinct used \<Longrightarrow> set used \<subseteq> {..<length entries} \<Longrightarrow>
   distinct (pick_tags entries ts used) \<and> set (pick_tags entries ts used) \<subseteq> {..<length entries}"
proof (induction ts arbitrary: used)
  case (Cons t ts)
  let ?f = "filter (\<lambda>n. n \<notin> set used \<and> is_dict (entries ! n) \<and> jfield ''tag'' (entries ! n) = JStr t) [0..<length entries]"
  show ?case
  proof (cases ?f)
    case Nil
    then show ?thesis
      using Cons by simp
  next
    case (Cons n ns)
    then have "n \<in> set ?f"
      by simp
    then have "n \<notin> set used" "n < length entries"
      by auto
    then show ?thesis
      using Cons Cons.IH [of "used @ [n]"] Cons.prems by simp
  qed
qed simp

lemma reorder_mset: "mset (reorder ts entries) = mset entries"
proof -
  let ?u = "pick_tags entries ts []"
  have u: "distinct ?u" "set ?u \<subseteq> {..<length entries}"
    using pick_tags_ok [of "[]" entries ts] by auto
  have "mset (?u @ filter (\<lambda>n. n \<notin> set ?u) [0..<length entries]) = mset [0..<length entries]"
    using u by (intro set_eq_iff_mset_eq_distinct [THEN iffD1]) auto
  then have "mset (map (\<lambda>n. entries ! n) (?u @ filter (\<lambda>n. n \<notin> set ?u) [0..<length entries])) =
      mset (map (\<lambda>n. entries ! n) [0..<length entries])"
    by (metis mset_map)
  then show ?thesis
    by (simp add: reorder_def Let_def map_nth)
qed

text \<open>Whether a tag has an entry.\<close>

definition tagged :: "json list \<Rightarrow> string \<Rightarrow> bool" where
  "tagged entries t = list_ex (\<lambda>e. is_dict e \<and> jfield ''tag'' e = JStr t) entries"

lemma pick_tags_names:
  "distinct ts \<Longrightarrow> \<forall>t \<in> set ts. \<exists>n < length entries. n \<notin> set used \<and> is_dict (entries ! n) \<and> jfield ''tag'' (entries ! n) = JStr t \<Longrightarrow>
   \<exists>us. pick_tags entries ts used = used @ us \<and> map (\<lambda>n. jfield ''tag'' (entries ! n)) us = map JStr ts"
proof (induction ts arbitrary: used)
  case (Cons t ts)
  let ?f = "filter (\<lambda>n. n \<notin> set used \<and> is_dict (entries ! n) \<and> jfield ''tag'' (entries ! n) = JStr t) [0..<length entries]"
  obtain m where "m < length entries" "m \<notin> set used" "is_dict (entries ! m)" "jfield ''tag'' (entries ! m) = JStr t"
    using Cons.prems(2) by auto
  then have "m \<in> set ?f"
    by simp
  then obtain n ns where n: "?f = n # ns"
    by (cases ?f) auto
  then have "n \<in> set ?f"
    by simp
  then have nt: "jfield ''tag'' (entries ! n) = JStr t"
    by simp
  have "\<exists>m < length entries. m \<notin> set (used @ [n]) \<and> is_dict (entries ! m) \<and> jfield ''tag'' (entries ! m) = JStr x"
    if x: "x \<in> set ts" for x
  proof -
    obtain m where m: "m < length entries" "m \<notin> set used" "is_dict (entries ! m)" "jfield ''tag'' (entries ! m) = JStr x"
      using Cons.prems(2) x by auto
    moreover have "m \<noteq> n"
      using m(4) nt x Cons.prems(1) by auto
    ultimately show ?thesis
      by auto
  qed
  then obtain us where "pick_tags entries ts (used @ [n]) = (used @ [n]) @ us"
    "map (\<lambda>n. jfield ''tag'' (entries ! n)) us = map JStr ts"
    using Cons.IH [of "used @ [n]"] Cons.prems(1) by auto
  then show ?case
    using n nt by (intro exI [of _ "n # us"]) simp
qed simp

lemma reorder_names:
  assumes "distinct ts" "\<forall>t \<in> set ts. tagged entries t"
  shows "map (jfield ''tag'') (take (length ts) (reorder ts entries)) = map JStr ts"
proof -
  have "\<forall>t \<in> set ts. \<exists>n < length entries. n \<notin> set [] \<and> is_dict (entries ! n) \<and> jfield ''tag'' (entries ! n) = JStr t"
    using assms(2) by (auto simp: tagged_def list_ex_length)
  from pick_tags_names [OF assms(1) this] obtain us where
    us: "pick_tags entries ts [] = us" "map (\<lambda>n. jfield ''tag'' (entries ! n)) us = map JStr ts"
    by auto
  then have "length us = length ts"
    by (metis length_map)
  then show ?thesis
    using us by (simp add: reorder_def Let_def comp_def)
qed

lemma edit_entry_list_distinct:
  assumes "edit_entry_list tls_ok outbound payload entries = Inr entries'" "distinct_tags entries"
  shows "distinct_tags entries'"
proof -
  let ?a = "jfield ''action'' payload"
  show ?thesis
  proof (cases "?a = JStr ''reorder''")
    case True
    then obtain ts where "entries' = reorder ts entries"
      using assms(1) by (cases "tag_names (jget_or (JArr []) ''tags'' payload)") (auto simp: edit_entry_list_def)
    then show ?thesis
      using entry_tags_mset [OF reorder_mset] assms(2) by simp
  next
    case r: False
    show ?thesis
    proof (cases "?a = JStr ''add''")
      case True
      let ?i = "jfield (if outbound then ''outbound'' else ''inbound'') payload"
      have a: "add_entry tls_ok outbound ?i payload entries = Inr entries'"
        using assms(1) True by (simp add: edit_entry_list_def)
      then have "entries' = entries \<or> (entries' = entries @ [?i] \<and> filter (tag_eq (jfield ''tag'' ?i)) entries = [] \<and>
          truthy (jfield ''tag'' ?i))"
        unfolding add_entry_def Let_def by (simp only: split: if_split_asm) auto
      then show ?thesis
        using assms(2) tag_eq_entry_tags [of "jfield ''tag'' ?i" entries]
        by (auto simp: distinct_tags_def entry_tags_Cons list_ex_iff filter_empty_conv)
    next
      case ad: False
      have "entries' = entries \<or> (\<exists>n. find_tag entries (lookup_tag outbound payload) = Inr n \<and>
          edit_current tls_ok outbound payload n entries = Inr entries')"
        using assms(1) r ad by (auto simp: edit_entry_list_def Let_def split: if_splits sum.splits)
      then show ?thesis
      proof (elim disjE exE conjE)
        fix n
        assume n: "find_tag entries (lookup_tag outbound payload) = Inr n"
          "edit_current tls_ok outbound payload n entries = Inr entries'"
        note f = find_tag_bound [OF n(1)]
        show ?thesis
          using edit_current_distinct [OF n(2) assms(2) f(1)] f(1,2) by (simp add: list_all_length)
      qed (use assms(2) in simp)
    qed
  qed
qed

section \<open>Names for outbounds\<close>

lemma free_name_None: "free_name fuel base n used = None \<Longrightarrow> k < fuel \<Longrightarrow> suffixed base (n + k) \<in> set used"
proof (induction fuel arbitrary: n k)
  case (Suc fuel)
  have s: "suffixed base n \<in> set used" "free_name fuel base (Suc n) used = None"
    using Suc.prems(1) by (simp_all split: if_splits)
  show ?case
  proof (cases k)
    case (Suc j)
    then show ?thesis
      using Suc.IH [OF s(2), of j] Suc.prems(2) \<open>k = Suc j\<close> by simp
  qed (simp add: s(1))
qed simp

lemma free_name_Some: "free_name fuel base n used = Some t \<Longrightarrow> t \<notin> set used \<and> (\<exists>m. t = suffixed base m)"
  by (induction fuel arbitrary: n) (auto split: if_splits)

lemma suffixed_inj: "suffixed base (Suc m) = suffixed base (Suc n) \<Longrightarrow> m = n"
  using nat_str_inj [of "Suc m" "Suc n"] by (auto simp: suffixed_def split: if_splits)

lemma free_name_found: "\<exists>t. free_name (Suc (length used)) base 1 used = Some t"
proof (rule ccontr)
  assume "\<not> ?thesis"
  then have "free_name (Suc (length used)) base 1 used = None"
    by simp
  then have "(\<lambda>k. suffixed base (Suc k)) ` {..<Suc (length used)} \<subseteq> set used"
    using free_name_None [of "Suc (length used)" base 1 used] by auto
  then have "card ((\<lambda>k. suffixed base (Suc k)) ` {..<Suc (length used)}) \<le> card (set used)"
    by (intro card_mono) auto
  moreover have "card ((\<lambda>k. suffixed base (Suc k)) ` {..<Suc (length used)}) = Suc (length used)"
    using suffixed_inj by (subst card_image) (auto simp: inj_on_def)
  ultimately show False
    using card_length [of used] by linarith
qed

text \<open>The tags that are names.\<close>

definition named :: "json list \<Rightarrow> string list" where
  "named xs = List.map_filter text_tag xs"

lemma named_Cons: "named (x # xs) = (case text_tag x of None \<Rightarrow> named xs | Some t \<Rightarrow> t # named xs)"
  by (simp add: named_def map_filter_simps split: option.splits)

lemma text_tag_put: "is_dict x \<Longrightarrow> t \<noteq> [] \<Longrightarrow> text_tag (jput ''tag'' (JStr t) x) = Some t"
  by (cases t) (simp_all add: text_tag_def jfield_jput)

lemma promotable_unnamed: "promotable x \<Longrightarrow> text_tag x = None"
  by (auto simp: promotable_def text_tag_def split: json.splits list.splits)

lemma suffixed_nonempty: "base \<noteq> [] \<Longrightarrow> suffixed base m \<noteq> []"
  by (simp add: suffixed_def)

definition promoted :: "string list \<Rightarrow> json \<Rightarrow> json \<Rightarrow> bool" where
  "promoted used x y =
     (if promotable x then \<exists>t. t \<notin> set used \<and> t \<noteq> [] \<and> y = jput ''tag'' (JStr t) x else y = x)"

lemma promote_from_ok:
  assumes "distinct (named xs)" "set (named xs) \<subseteq> set used"
  shows "\<exists>ys. promote_from n used xs = Some ys \<and> list_all2 (promoted used) xs ys \<and> distinct (named ys) \<and>
    set (named ys) \<subseteq> set (named xs) \<union> - set used"
  using assms
proof (induction xs arbitrary: n used)
  case (Cons x xs)
  have xs: "distinct (named xs)" "set (named xs) \<subseteq> set used"
    using Cons.prems by (auto simp: named_Cons split: option.splits)
  show ?case
  proof (cases "promotable x")
    case False
    obtain ys where ys: "promote_from (Suc n) used xs = Some ys" "list_all2 (promoted used) xs ys" "distinct (named ys)"
      "set (named ys) \<subseteq> set (named xs) \<union> - set used"
      using Cons.IH [OF xs] by blast
    have "promote_from n used (x # xs) = Some (x # ys)"
      using ys(1) False by simp
    moreover have "list_all2 (promoted used) (x # xs) (x # ys)"
      using ys(2) False by (simp add: promoted_def)
    moreover have "distinct (named (x # ys))" "set (named (x # ys)) \<subseteq> set (named (x # xs)) \<union> - set used"
      using ys(3,4) Cons.prems by (auto simp: named_Cons split: option.splits)
    ultimately show ?thesis
      by blast
  next
    case True
    let ?b = "text_of (jfield ''protocol'' x) @ ''-'' @ nat_str n"
    obtain t where t: "free_name (Suc (length used)) ?b 1 used = Some t"
      using free_name_found by blast
    have tn: "t \<notin> set used" "t \<noteq> []"
      using free_name_Some [OF t] suffixed_nonempty by auto
    have sub: "set (named xs) \<subseteq> set (t # used)"
      using xs(2) by auto
    obtain ys where ys: "promote_from (Suc n) (t # used) xs = Some ys" "list_all2 (promoted (t # used)) xs ys"
      "distinct (named ys)" "set (named ys) \<subseteq> set (named xs) \<union> - set (t # used)"
      using Cons.IH [OF xs(1) sub] by blast
    let ?y = "jput ''tag'' (JStr t) x"
    have tag: "text_tag ?y = Some t" "text_tag x = None"
      using text_tag_put tn(2) promotable_unnamed True by (simp_all add: promotable_def)
    have "promote_from n used (x # xs) = Some (?y # ys)"
      using ys(1) True t by (simp del: free_name.simps)
    moreover have "list_all2 (promoted used) (x # xs) (?y # ys)"
    proof -
      have "list_all2 (promoted used) xs ys"
        using ys(2) by (rule list_all2_mono) (auto simp: promoted_def split: if_splits)
      then show ?thesis
        using True tn by (auto simp: promoted_def)
    qed
    moreover have "distinct (named (?y # ys))" "set (named (?y # ys)) \<subseteq> set (named (x # xs)) \<union> - set used"
      using ys(3,4) tag tn(1) xs(2) by (auto simp: named_Cons)
    ultimately show ?thesis
      by blast
  qed
qed (simp add: named_def map_filter_simps)

section \<open>Properties\<close>

text \<open>C24: Every edit of the inbounds or outbounds keeps their tags distinct: adding, replacing, removing and
  reordering entries, editing a client and excluding domains, on every list the editor accepts.\<close>

theorem tags_stay_distinct:
  assumes "edit_entry_list tls_ok outbound payload entries = Inr entries'" "distinct_tags entries"
  shows "distinct_tags entries'"
  by (rule edit_entry_list_distinct [OF assms])

text \<open>C29: Every edit of the routing but replacing it keeps the rules in the order of their priority, so a
  rule for a tunnel or a routed node is never shadowed by a less specific one added later.\<close>

theorem rules_stay_ordered:
  assumes "edit_rules payload rules = Inr rules'" "ordered rules"
  shows "ordered rules'"
  by (rule edit_rules_ordered [OF assms])

text \<open>Reordering neither loses nor invents an entry, and when every tag named has an entry, entries with
  the tags named come first, in the order named.\<close>

theorem reorder_permutes:
  assumes "distinct ts" "\<forall>t \<in> set ts. tagged entries t"
  shows "mset (reorder ts entries) = mset entries \<and>
    map (jfield ''tag'') (take (length ts) (reorder ts entries)) = map JStr ts"
  using reorder_mset reorder_names [OF assms] by blast


section \<open>Concrete edits\<close>

definition tag_only :: "string \<Rightarrow> json" where
  "tag_only t = JObj [(''tag'', JStr t), (''protocol'', JStr ''freedom'')]"

definition rule_of :: "string \<Rightarrow> json" where
  "rule_of m = JObj [(''marktag'', JStr m), (''outboundTag'', JStr ''x'')]"

definition add_payload :: json where
  "add_payload = JObj [(''action'', JStr ''add''), (''outbound'', tag_only ''c'')]"

definition rule_payload :: json where
  "rule_payload = JObj [(''action'', JStr ''add_rule''), (''rule'', rule_of ''routed:a:b:c'')]"

theorem tags_stay_distinct_witness: "distinct_tags [tag_only ''a'', tag_only ''b'', tag_only ''c'']"
proof (rule tags_stay_distinct)
  show "edit_entry_list (\<lambda>_. True) True add_payload [tag_only ''a'', tag_only ''b''] =
      Inr [tag_only ''a'', tag_only ''b'', tag_only ''c'']"
    by code_simp
  show "distinct_tags [tag_only ''a'', tag_only ''b'']"
    by code_simp
qed

theorem rules_stay_ordered_witness: "ordered [rule_of ''routed:a:b:c'', rule_of ''speedtest_warp'', rule_of ''m'']"
proof (rule rules_stay_ordered)
  show "edit_rules rule_payload [rule_of ''speedtest_warp'', rule_of ''m''] =
      Inr [rule_of ''routed:a:b:c'', rule_of ''speedtest_warp'', rule_of ''m'']"
    by code_simp
  show "ordered [rule_of ''speedtest_warp'', rule_of ''m'']"
    by code_simp
qed

theorem reorder_permutes_witness:
  "mset (reorder [''c'', ''a''] [tag_only ''a'', tag_only ''b'', tag_only ''c'']) =
     mset [tag_only ''a'', tag_only ''b'', tag_only ''c''] \<and>
   map (jfield ''tag'') (take (length [''c'', ''a'']) (reorder [''c'', ''a''] [tag_only ''a'', tag_only ''b'', tag_only ''c''])) =
     map JStr [''c'', ''a'']"
  by (rule reorder_permutes) code_simp+


end
