(* ===== verification/Temporary_Shares.thy ===== *)
theory Temporary_Shares
  imports Access_Properties
begin

text \<open>
  Temporary subscriptions: \<open>backend/app/open_node/services/temporary_subscriptions.py\<close>. A share lets
  whoever has its code fetch some of a subscriber's nodes a limited number of times, for a limited time,
  as long as the subscriber's own plan covers the nodes. Identifiers come from a counter, the candidates
  for a code and whether the rendering of the document succeeds are inputs. The validated stages of an
  orchestrated node are a table of the state.
\<close>

section \<open>Data\<close>

record share =
  tm_id :: nat
  tm_code :: string
  tm_user :: string
  tm_label :: string
  tm_nodes :: "string list"
  tm_max :: nat
  tm_count :: nat
  tm_expires :: instant
  tm_created :: instant
  tm_updated :: instant

text \<open>\<open>sh_stages\<close>: of each orchestrated node, its validated stages (components, and whether they are
  managed), or that it has none.\<close>

record shares =
  sh_subs :: subs
  sh_stages :: "(string \<times> (string \<times> bool) list list option) list"
  sh_rows :: "share list"
  sh_next :: nat

datatype share_error =
    InvalidShare | ShareNotFound | ShareConflict string | NodeUnknown string | NodeRemoved | Unavailable string

record share_request =
  sp_user :: string
  sp_label :: string
  sp_nodes :: "string list"
  sp_max :: int
  sp_seconds :: int

definition share_request_ok :: "share_request \<Rightarrow> bool" where
  "share_request_ok p =
     (1 \<le> length (sp_user p) \<and> length (sp_user p) \<le> 80 \<and> py_strip (sp_user p) \<noteq> [] \<and>
      1 \<le> length (sp_label p) \<and> length (sp_label p) \<le> 120 \<and> py_strip (sp_label p) \<noteq> [] \<and>
      1 \<le> length (sp_nodes p) \<and> length (sp_nodes p) \<le> 10000 \<and> distinct (sp_nodes p) \<and>
      1 \<le> sp_max p \<and> sp_max p \<le> 100 \<and> 60 \<le> sp_seconds p \<and> sp_seconds p \<le> 3600)"

text \<open>\<open>now + timedelta(seconds=n)\<close>, for less than a day.\<close>

definition add_seconds :: "nat \<Rightarrow> instant \<Rightarrow> instant" where
  "add_seconds n i =
     (let t = snd i + n * 1000000; day = 86400 * 1000000 in
      if t < day then (fst i, t) else (next_day (fst i), t - day))"

section \<open>What the plan covers\<close>

definition available_plan :: "bill_user option \<Rightarrow> instant \<Rightarrow> billing \<Rightarrow> string + bill_plan" where
  "available_plan user now b =
     (case user of
        None \<Rightarrow> Inl ''subscription user is not active''
      | Some u \<Rightarrow>
          if \<not> bu_active u \<or> bu_removal u then Inl ''subscription user is not active''
          else if bu_plan u = None \<or> bu_plan u = Some [] then Inl ''user has no active subscription plan''
          else if expired u now then Inl ''subscription plan has expired''
          else
            (case plan_of u b of
               None \<Rightarrow> Inl ''subscription plan is missing''
             | Some p \<Rightarrow>
                 if qu_over (quota_status u (Some p) now b) then Inl ''subscription traffic quota exceeded'' else Inr p))"

text \<open>\<open>_effective_subscription_entry_ids\<close>, as a set: shared nodes of the plan and the user's own routed nodes.\<close>

definition entry_ids :: "bill_user \<Rightarrow> bill_plan \<Rightarrow> subs \<Rightarrow> string list" where
  "entry_ids u p s =
     filter (\<lambda>n. map_of (sa_private s) n = None) (lp_nodes (bp_limits p)) @
     map fst (filter (\<lambda>(n, who, active). who = bu_name u \<and> active) (sa_private s))"

definition expand_node :: "shares \<Rightarrow> string \<Rightarrow> string list" where
  "expand_node s n =
     (case (map_of (sh_stages s) n, tbl_get ln_id n (sa_nodes (sh_subs s))) of
        (Some stages, Some node) \<Rightarrow>
          if \<not> ln_enabled node \<or> ln_removal node \<noteq> None then []
          else (case stages of None \<Rightarrow> [] | Some st \<Rightarrow> map fst (filter snd (concat st)))
      | _ \<Rightarrow> [n])"

definition effective_nodes :: "bill_user \<Rightarrow> bill_plan \<Rightarrow> shares \<Rightarrow> string set" where
  "effective_nodes u p s = set (concat (map (expand_node s) (entry_ids u p (sh_subs s))))"

fun nodes_exist :: "string list \<Rightarrow> subs \<Rightarrow> share_error option" where
  "nodes_exist [] s = None"
| "nodes_exist (n # ns) s =
     (case tbl_get ln_id n (sa_nodes s) of
        None \<Rightarrow> Some (NodeUnknown n)
      | Some node \<Rightarrow> if ln_removal node \<noteq> None then Some NodeRemoved else nodes_exist ns s)"

definition user_row :: "string \<Rightarrow> shares \<Rightarrow> bill_user option" where
  "user_row name s = tbl_get bu_name name (b_users (sa_billing (sh_subs s)))"

section \<open>Operations\<close>

datatype share_status = ShareActive | ShareExpired | ShareExhausted

definition share_status_of :: "share \<Rightarrow> instant \<Rightarrow> share_status" where
  "share_status_of r now =
     (if now \<ge> tm_expires r then ShareExpired else if tm_count r \<ge> tm_max r then ShareExhausted else ShareActive)"

definition list_shares :: "instant \<Rightarrow> shares \<Rightarrow> (share \<times> share_status) list" where
  "list_shares now s =
     map (\<lambda>r. (r, share_status_of r now))
       (concat (map (\<lambda>t. sort_key tm_id (filter (\<lambda>r. tm_created r = t) (sh_rows s)))
          (rev (sort (remdups (map tm_created (sh_rows s)))))))"

definition free_code :: "(nat \<Rightarrow> string) \<Rightarrow> shares \<Rightarrow> string option" where
  "free_code candidate s = List.find (\<lambda>c. c \<notin> tm_code ` set (sh_rows s)) (map candidate [0..<16])"

definition create_share ::
  "share_request \<Rightarrow> (nat \<Rightarrow> string) \<Rightarrow> instant \<Rightarrow> shares \<Rightarrow> share_error + (shares \<times> share)" where
  "create_share p candidate now s =
     (if \<not> share_request_ok p then Inl InvalidShare
      else
        (let name = py_strip (sp_user p) in
         case available_plan (user_row name s) now (sa_billing (sh_subs s)) of
           Inl e \<Rightarrow> Inl (ShareConflict e)
         | Inr pl \<Rightarrow>
             (case nodes_exist (sp_nodes p) (sh_subs s) of
                Some e \<Rightarrow> Inl e
              | None \<Rightarrow>
                  if \<not> list_all (\<lambda>n. n \<in> effective_nodes (the (user_row name s)) pl s) (sp_nodes p)
                  then Inl (ShareConflict ''temporary subscription nodes must belong to the subscriber's current plan'')
                  else
                    (case free_code candidate s of
                       None \<Rightarrow> Inl (ShareConflict ''unable to allocate temporary subscription'')
                     | Some c \<Rightarrow>
                         if c = [] then Inl (ShareConflict ''unable to allocate temporary subscription'')
                         else
                           (let r = \<lparr>tm_id = sh_next s, tm_code = c, tm_user = name, tm_label = py_strip (sp_label p),
                                     tm_nodes = sp_nodes p, tm_max = nat (sp_max p), tm_count = 0,
                                     tm_expires = add_seconds (nat (sp_seconds p)) now, tm_created = now, tm_updated = now\<rparr>
                            in Inr (s\<lparr>sh_rows := sh_rows s @ [r], sh_next := Suc (sh_next s)\<rparr>, r))))))"

definition delete_share :: "nat \<Rightarrow> shares \<Rightarrow> share_error + (shares \<times> unit)" where
  "delete_share i s =
     (case tbl_get tm_id i (sh_rows s) of
        None \<Rightarrow> Inl ShareNotFound
      | Some r \<Rightarrow> Inr (s\<lparr>sh_rows := tbl_del tm_id i (sh_rows s)\<rparr>, ()))"

text \<open>What \<open>_render_user_subscription\<close> is asked for, when it does not fail.\<close>

record grant =
  gr_share :: nat
  gr_user :: string
  gr_plan :: string
  gr_nodes :: "string list"
  gr_title :: string

definition find_share :: "string \<Rightarrow> shares \<Rightarrow> share option" where
  "find_share c s = List.find (\<lambda>r. tm_code r = c) (sh_rows s)"

definition render_share :: "string \<Rightarrow> bool \<Rightarrow> instant \<Rightarrow> shares \<Rightarrow> share_error + (shares \<times> grant)" where
  "render_share c renders now s =
     (if py_strip c = [] then Inl ShareNotFound
      else
        (case find_share (py_strip c) s of
           None \<Rightarrow> Inl ShareNotFound
         | Some r \<Rightarrow>
             if now \<ge> tm_expires r \<or> tm_count r \<ge> tm_max r then Inl ShareNotFound
             else
               (case available_plan (user_row (tm_user r) s) now (sa_billing (sh_subs s)) of
                  Inl e \<Rightarrow> Inl (Unavailable e)
                | Inr pl \<Rightarrow>
                    if tm_nodes r = [] \<or> \<not> list_all (\<lambda>n. n \<in> effective_nodes (the (user_row (tm_user r) s)) pl s) (tm_nodes r)
                    then Inl (Unavailable ''temporary subscription nodes are outside the current plan'')
                    else if \<not> renders then Inl (Unavailable ''the subscription cannot be rendered'')
                    else Inr (s\<lparr>sh_rows := tbl_upd (\<lambda>x. tm_id x = tm_id r)
                                  (\<lambda>x. x\<lparr>tm_count := Suc (tm_count x), tm_updated := now\<rparr>) (sh_rows s)\<rparr>,
                              \<lparr>gr_share = tm_id r, gr_user = tm_user r, gr_plan = bp_id pl, gr_nodes = tm_nodes r,
                               gr_title = tm_label r\<rparr>))))"

section \<open>Histories\<close>

text \<open>Whatever else the control plane does to subscribers, plans and nodes is \<open>Elsewhere\<close>. The log keeps
  the shares that were served.\<close>

datatype share_call =
    Create share_request "nat \<Rightarrow> string" instant
  | Delete nat
  | Render string bool instant
  | Elsewhere subs "(string \<times> (string \<times> bool) list list option) list"

type_synonym share_history = "shares \<times> nat list"

fun share_step :: "share_history \<Rightarrow> share_call \<Rightarrow> share_history" where
  "share_step (s, served) (Create p cand now) = (commit s (create_share p cand now s), served)"
| "share_step (s, served) (Delete i) = (commit s (delete_share i s), served)"
| "share_step (s, served) (Render c ok now) =
     (case render_share c ok now s of Inl e \<Rightarrow> (s, served) | Inr (s', g) \<Rightarrow> (s', served @ [gr_share g]))"
| "share_step (s, served) (Elsewhere x st) = (s\<lparr>sh_subs := x, sh_stages := st\<rparr>, served)"

definition times_served :: "nat \<Rightarrow> nat list \<Rightarrow> nat" where
  "times_served i served = length (filter (\<lambda>j. j = i) served)"

definition share_inv :: "share_history \<Rightarrow> bool" where
  "share_inv h =
     (case h of (s, served) \<Rightarrow>
        tbl_keyed tm_id (sh_rows s) \<and>
        (\<forall>r \<in> set (sh_rows s). tm_id r < sh_next s \<and> times_served (tm_id r) served = tm_count r \<and>
           tm_count r \<le> tm_max r \<and> tm_max r \<le> 100) \<and>
        (\<forall>i. times_served i served \<le> 100) \<and> (\<forall>i \<ge> sh_next s. times_served i served = 0))"

lemma times_served_append [simp]: "times_served i (served @ [j]) = times_served i served + (if i = j then 1 else 0)"
  by (simp add: times_served_def)

lemma create_share_rows:
  assumes "create_share p cand now s = Inr (s', r)"
  shows "s' = s\<lparr>sh_rows := sh_rows s @ [r], sh_next := Suc (sh_next s)\<rparr>" "tm_id r = sh_next s" "tm_count r = 0"
    "tm_max r \<le> 100"
  using assms by (auto simp: create_share_def Let_def share_request_ok_def split: if_splits sum.splits option.splits)

lemma render_share_cases:
  assumes "render_share c ok now s = Inr (s', g)"
  obtains r pl where "find_share (py_strip c) s = Some r" "now < tm_expires r" "tm_count r < tm_max r"
    "available_plan (user_row (tm_user r) s) now (sa_billing (sh_subs s)) = Inr pl" "tm_nodes r \<noteq> []"
    "set (tm_nodes r) \<subseteq> effective_nodes (the (user_row (tm_user r) s)) pl s"
    "s' = s\<lparr>sh_rows := tbl_upd (\<lambda>x. tm_id x = tm_id r) (\<lambda>x. x\<lparr>tm_count := Suc (tm_count x), tm_updated := now\<rparr>) (sh_rows s)\<rparr>"
    "g = \<lparr>gr_share = tm_id r, gr_user = tm_user r, gr_plan = bp_id pl, gr_nodes = tm_nodes r, gr_title = tm_label r\<rparr>"
  using assms that by (auto simp: render_share_def list_all_iff not_le subset_iff split: if_splits option.splits sum.splits)

lemma share_step_inv: "share_inv h \<Longrightarrow> share_inv (share_step h call)"
proof -
  obtain s served where h: "h = (s, served)"
    by (cases h)
  assume inv: "share_inv h"
  then have k: "tbl_keyed tm_id (sh_rows s)"
    and rows: "\<And>r. r \<in> set (sh_rows s) \<Longrightarrow> tm_id r < sh_next s \<and> times_served (tm_id r) served = tm_count r \<and>
       tm_count r \<le> tm_max r \<and> tm_max r \<le> 100"
    and bound: "\<And>i. times_served i served \<le> 100" and fresh: "\<And>i. i \<ge> sh_next s \<Longrightarrow> times_served i served = 0"
    unfolding share_inv_def h prod.case by blast+
  show ?thesis
  proof (cases call)
    case (Create p cand now)
    show ?thesis
    proof (cases "create_share p cand now s")
      case (Inr x)
      then obtain s' r where x: "create_share p cand now s = Inr (s', r)"
        by (cases x) simp
      note c = create_share_rows [OF x]
      have "tm_id r \<notin> tm_id ` set (sh_rows s)"
        using rows c(2) by fastforce
      then show ?thesis
        using k rows bound fresh c x Create
        by (auto simp: h share_inv_def tbl_keyed_def less_Suc_eq)
    qed (use inv Create h in simp)
  next
    case (Delete i)
    then show ?thesis
      using k rows bound fresh tbl_keyed_del [OF k]
      by (auto simp: h share_inv_def delete_share_def tbl_del_def split: option.splits)
  next
    case (Render c ok now)
    show ?thesis
    proof (cases "render_share c ok now s")
      case (Inr x)
      then obtain s' g where x: "render_share c ok now s = Inr (s', g)"
        by (cases x) simp
      obtain r pl where
        rc: "find_share (py_strip c) s = Some r" "now < tm_expires r" "tm_count r < tm_max r"
          "available_plan (user_row (tm_user r) s) now (sa_billing (sh_subs s)) = Inr pl" "tm_nodes r \<noteq> []"
          "set (tm_nodes r) \<subseteq> effective_nodes (the (user_row (tm_user r) s)) pl s"
          "s' = s\<lparr>sh_rows := tbl_upd (\<lambda>x. tm_id x = tm_id r) (\<lambda>x. x\<lparr>tm_count := Suc (tm_count x), tm_updated := now\<rparr>) (sh_rows s)\<rparr>"
          "g = \<lparr>gr_share = tm_id r, gr_user = tm_user r, gr_plan = bp_id pl, gr_nodes = tm_nodes r, gr_title = tm_label r\<rparr>"
        by (rule render_share_cases [OF x])
      have g: "gr_share g = tm_id r"
        by (simp add: rc(8))
      note r = rc(1,3,7) g
      have rin: "r \<in> set (sh_rows s)"
        using r(1) find_SomeD by (fastforce simp: find_share_def)
      have same: "x = r" if "x \<in> set (sh_rows s)" "tm_id x = tm_id r" for x
        using k that rin by (auto simp: tbl_keyed_def distinct_map inj_on_def)
      have new: "\<exists>y \<in> set (sh_rows s). z = (if tm_id y = tm_id r then y\<lparr>tm_count := Suc (tm_count y), tm_updated := now\<rparr> else y)"
        if "z \<in> set (sh_rows s')" for z
        using that by (auto simp: r(3) tbl_upd_def)
      have "tm_id z < sh_next s' \<and> times_served (tm_id z) (served @ [gr_share g]) = tm_count z \<and>
          tm_count z \<le> tm_max z \<and> tm_max z \<le> 100" if z: "z \<in> set (sh_rows s')" for z
      proof -
        obtain y where y: "y \<in> set (sh_rows s)"
          "z = (if tm_id y = tm_id r then y\<lparr>tm_count := Suc (tm_count y), tm_updated := now\<rparr> else y)"
          using new [OF z] by blast
        show ?thesis
        proof (cases "tm_id y = tm_id r")
          case True
          then have "y = r"
            by (rule same [OF y(1)])
          then show ?thesis
            using y(2) rows [OF rin] r(2,3,4) by simp
        next
          case False
          then show ?thesis
            using y(2) rows [OF y(1)] r(3,4) by simp
        qed
      qed
      moreover have "tbl_keyed tm_id (sh_rows s')"
        using k by (simp add: r(3) tbl_keyed_upd)
      moreover have "times_served i (served @ [gr_share g]) \<le> 100" for i
        using bound [of i] rows [OF rin] r(2,4) by auto
      moreover have "times_served i (served @ [gr_share g]) = 0" if "i \<ge> sh_next s'" for i
        using that fresh rows [OF rin] r(3,4) by auto
      ultimately show ?thesis
        using x Render by (simp add: h share_inv_def)
    qed (use inv Render h in simp)
  next
    case (Elsewhere x st)
    then show ?thesis
      using k rows bound fresh by (simp add: h share_inv_def)
  qed
qed

interpretation share_machine: step_invariant share_step share_inv
  by unfold_locales (rule share_step_inv)

definition no_shares :: "subs \<Rightarrow> (string \<times> (string \<times> bool) list list option) list \<Rightarrow> nat \<Rightarrow> share_history" where
  "no_shares x st n = (\<lparr>sh_subs = x, sh_stages = st, sh_rows = [], sh_next = n\<rparr>, [])"

lemma no_shares_inv: "share_inv (no_shares x st n)"
  by (simp add: no_shares_def share_inv_def tbl_keyed_def times_served_def)

section \<open>Properties\<close>

text \<open>C26: In every history of creations, deletions, renderings and changes elsewhere, a share is served at
  most a hundred times, and one that exists was served as often as it counts, which is at most what it
  was created for.\<close>

theorem shares_are_bounded:
  "case run share_step (no_shares x st n) calls of (s, served) \<Rightarrow>
     times_served i served \<le> 100 \<and>
     (case tbl_get tm_id i (sh_rows s) of
        None \<Rightarrow> True
      | Some r \<Rightarrow> tm_count r = times_served i served \<and> tm_count r \<le> tm_max r)"
proof -
  obtain s served where h: "run share_step (no_shares x st n) calls = (s, served)"
    by (cases "run share_step (no_shares x st n) calls")
  have "share_inv (s, served)"
    using share_machine.run_inv [OF no_shares_inv, of x st n calls] by (simp add: h)
  then show ?thesis
    by (auto simp: h share_inv_def split: option.splits dest!: tbl_get_SomeD)
qed

text \<open>C31: A share is only served before it expires and while its count allows it, only for nodes the plan its
  subscriber has at that moment covers, and only while that subscriber is active, the plan runs and its
  quota is not used up.\<close>

theorem share_served_within_plan:
  assumes "render_share c ok now s = Inr (s', g)"
  shows "\<exists>r u p. find_share (py_strip c) s = Some r \<and> gr_share g = tm_id r \<and> now < tm_expires r \<and> tm_count r < tm_max r \<and>
    user_row (tm_user r) s = Some u \<and> plan_of u (sa_billing (sh_subs s)) = Some p \<and>
    qu_available (quota_status u (Some p) now (sa_billing (sh_subs s))) \<and>
    gr_nodes g = tm_nodes r \<and> set (tm_nodes r) \<subseteq> effective_nodes u p s"
proof -
  obtain r p where
    r: "find_share (py_strip c) s = Some r" "now < tm_expires r" "tm_count r < tm_max r"
      "available_plan (user_row (tm_user r) s) now (sa_billing (sh_subs s)) = Inr p" "tm_nodes r \<noteq> []"
      "set (tm_nodes r) \<subseteq> effective_nodes (the (user_row (tm_user r) s)) p s"
      "s' = s\<lparr>sh_rows := tbl_upd (\<lambda>x. tm_id x = tm_id r) (\<lambda>x. x\<lparr>tm_count := Suc (tm_count x), tm_updated := now\<rparr>) (sh_rows s)\<rparr>"
      "g = \<lparr>gr_share = tm_id r, gr_user = tm_user r, gr_plan = bp_id p, gr_nodes = tm_nodes r, gr_title = tm_label r\<rparr>"
    by (rule render_share_cases [OF assms])
  then obtain u where u: "user_row (tm_user r) s = Some u"
    by (cases "user_row (tm_user r) s") (simp_all add: available_plan_def)
  then have p: "plan_of u (sa_billing (sh_subs s)) = Some p" "bu_active u" "\<not> bu_removal u" "\<not> expired u now"
    "\<not> qu_over (quota_status u (Some p) now (sa_billing (sh_subs s)))"
    using r(4) by (auto simp: available_plan_def split: if_splits option.splits)
  then have "qu_available (quota_status u (Some p) now (sa_billing (sh_subs s)))"
    by (auto simp: quota_status_def Let_def split: prod.splits)
  then show ?thesis
    using r u p(1) by auto
qed

definition sample_shares :: shares where
  "sample_shares =
     (let s = \<lparr>sh_subs = sample_subs, sh_stages = [], sh_rows = [], sh_next = 0\<rparr> in
      case create_share \<lparr>sp_user = ''u'', sp_label = ''L'', sp_nodes = [''n''], sp_max = 2, sp_seconds = 60\<rparr>
          (\<lambda>i. ''k'') ((2025, 2, 3), 0) s of
        Inr (s', r) \<Rightarrow> s' | Inl e \<Rightarrow> s)"

definition sample_render :: "share_error + (shares \<times> grant)" where
  "sample_render = render_share ''k'' True ((2025, 2, 3), 5) sample_shares"

lemma sample_render_run: "case sample_render of Inr x \<Rightarrow> True | Inl e \<Rightarrow> False"
  unfolding sample_render_def by code_simp

theorem share_served_within_plan_witness:
  "case sample_render of
     Inr (s', g) \<Rightarrow>
       (\<exists>r u p. find_share (py_strip ''k'') sample_shares = Some r \<and> gr_share g = tm_id r \<and> ((2025, 2, 3), 5) < tm_expires r \<and>
          tm_count r < tm_max r \<and> user_row (tm_user r) sample_shares = Some u \<and>
          plan_of u (sa_billing (sh_subs sample_shares)) = Some p \<and>
          qu_available (quota_status u (Some p) ((2025, 2, 3), 5) (sa_billing (sh_subs sample_shares))) \<and>
          gr_nodes g = tm_nodes r \<and> set (tm_nodes r) \<subseteq> effective_nodes u p sample_shares)
   | Inl e \<Rightarrow> False"
proof -
  obtain s' g where run: "sample_render = Inr (s', g)"
    using sample_render_run by (auto split: sum.splits)
  show ?thesis
    using share_served_within_plan [OF run [unfolded sample_render_def]] by (simp only: run sum.case prod.case)
qed

end
